(* ===== verification/Fluo_Prelude.thy ===== *)
theory Fluo_Prelude
  imports Main
begin

text \<open>
  Shared material of the development.

  \<^item> A JavaScript \<open>Map\<close> is an association list in insertion order (\<open>js_get\<close>,
    \<open>js_set\<close>, \<open>js_delete\<close>); the locale \<open>map_contract\<close> states what the
    components rely on and is interpreted on these operations.
  \<^item> A loop that may throw half-way is \<open>run_until_throw\<close>: it keeps the state reached
    so far beside the error, as JavaScript mutation does.
  \<^item> An \<open>Array.prototype.map\<close> with a callback that may throw is \<open>res_map\<close>.

  The string operations are in \<open>JS_String\<close>, numbers in \<open>JS_Number\<close>, and the contract of the
  depth-first searches of the code base in \<open>Path_Search\<close>.
\<close>

section \<open>Collections of rewrite rules\<close>

named_theorems js_map_laws \<open>laws of insertion ordered maps\<close>
named_theorems res_laws \<open>laws of computations that may throw\<close>

section \<open>Insertion ordered maps\<close>

type_synonym ('k, 'v) js_map = "('k \<times> 'v) list"

definition js_get :: "('k, 'v) js_map \<Rightarrow> 'k \<Rightarrow> 'v option" where
  "js_get m k = map_of m k"

definition js_has :: "('k, 'v) js_map \<Rightarrow> 'k \<Rightarrow> bool" where
  "js_has m k \<longleftrightarrow> k \<in> fst ` set m"

definition js_set :: "('k, 'v) js_map \<Rightarrow> 'k \<Rightarrow> 'v \<Rightarrow> ('k, 'v) js_map" where
  "js_set m k v =
     (if js_has m k then map (\<lambda>(k', v'). if k' = k then (k, v) else (k', v')) m
      else m @ [(k, v)])"

definition js_delete :: "('k, 'v) js_map \<Rightarrow> 'k \<Rightarrow> ('k, 'v) js_map" where
  "js_delete m k = filter (\<lambda>(k', _). k' \<noteq> k) m"

definition js_keys :: "('k, 'v) js_map \<Rightarrow> 'k list" where
  "js_keys m = map fst m"

abbreviation js_ok :: "('k, 'v) js_map \<Rightarrow> bool" where
  "js_ok m \<equiv> distinct (map fst m)"

text \<open>The contract of a keyed store, as the clients of \<open>Map\<close> use it.\<close>

locale map_contract =
  fixes get :: "'m \<Rightarrow> 'k \<Rightarrow> 'v option"
    and put :: "'m \<Rightarrow> 'k \<Rightarrow> 'v \<Rightarrow> 'm"
    and del :: "'m \<Rightarrow> 'k \<Rightarrow> 'm"
    and keys :: "'m \<Rightarrow> 'k list"
    and ok :: "'m \<Rightarrow> bool"
  assumes get_put: "get (put m k v) = (get m)(k \<mapsto> v)"
    and get_del: "get (del m k) = (get m)(k := None)"
    and keys_get: "k \<in> set (keys m) \<longleftrightarrow> get m k \<noteq> None"
    and keys_put: "keys (put m k v) = (if k \<in> set (keys m) then keys m else keys m @ [k])"
    and keys_del: "keys (del m k) = filter (\<lambda>k'. k' \<noteq> k) (keys m)"
    and ok_keys: "ok m \<longleftrightarrow> distinct (keys m)"
begin

lemma get_put_same: "get (put m k v) k = Some v"
  by (simp add: get_put)

lemma get_put_other: "k' \<noteq> k \<Longrightarrow> get (put m k v) k' = get m k'"
  by (simp add: get_put)

lemma ok_put: "ok m \<Longrightarrow> ok (put m k v)"
  by (simp add: ok_keys keys_put)

lemma ok_del: "ok m \<Longrightarrow> ok (del m k)"
  by (simp add: ok_keys keys_del)

lemma get_del_put: "get (put (del m k) k v) = (get m)(k \<mapsto> v)"
  by (simp add: get_put get_del)

lemma keys_refresh: "ok m \<Longrightarrow> keys (put (del m k) k v) = filter (\<lambda>k'. k' \<noteq> k) (keys m) @ [k]"
  by (simp add: keys_put keys_del)

lemma size_refresh:
  "ok m \<Longrightarrow> length (keys (put (del m k) k v)) \<le> Suc (length (keys m))"
  by (simp add: keys_refresh)

end

lemma js_get_set: "js_get (js_set m k v) = (js_get m)(k \<mapsto> v)"
proof -
  have replace: "map_of (map (\<lambda>(k', v'). if k' = k then (k, v) else (k', v')) m) =
      (if js_has m k then (map_of m)(k \<mapsto> v) else map_of m)"
    by (induction m) (auto simp: js_has_def fun_eq_iff)
  show ?thesis
    by (auto simp: js_get_def js_set_def replace js_has_def map_add_def fun_eq_iff
        map_of_eq_None_iff [symmetric] split: option.splits)
qed

lemma js_get_delete: "js_get (js_delete m k) = (js_get m)(k := None)"
  by (induction m) (auto simp: js_get_def js_delete_def fun_eq_iff)

lemma js_keys_set:
  "js_keys (js_set m k v) = (if k \<in> set (js_keys m) then js_keys m else js_keys m @ [k])"
  by (auto simp: js_keys_def js_set_def js_has_def)

lemma js_keys_delete: "js_keys (js_delete m k) = filter (\<lambda>k'. k' \<noteq> k) (js_keys m)"
  by (induction m) (auto simp: js_keys_def js_delete_def)

lemma js_keys_get: "k \<in> set (js_keys m) \<longleftrightarrow> js_get m k \<noteq> None"
  by (induction m) (auto simp: js_keys_def js_get_def)

lemma js_has_get: "js_has m k \<longleftrightarrow> js_get m k \<noteq> None"
  using js_keys_get [of k m] by (simp add: js_has_def js_keys_def)

interpretation jsm: map_contract js_get js_set js_delete js_keys js_ok
  by unfold_locales
    (simp_all add: js_get_set js_get_delete js_keys_set js_keys_delete js_keys_get,
      simp add: js_keys_def)

lemmas js_map_basic [js_map_laws] = js_get_set js_get_delete js_has_get

lemma js_get_Nil [simp]: "js_get [] k = None"
  by (simp add: js_get_def)

lemma js_get_Cons: "js_get ((k', v) # m) k = (if k = k' then Some v else js_get m k)"
  by (simp add: js_get_def)

lemma js_get_in: "js_get m k = Some v \<Longrightarrow> (k, v) \<in> set m"
  by (simp add: js_get_def map_of_SomeD)

lemma js_in_get: "js_ok m \<Longrightarrow> (k, v) \<in> set m \<Longrightarrow> js_get m k = Some v"
  by (simp add: js_get_def)

lemma js_delete_subset: "set (js_delete m k) \<subseteq> set m"
  by (auto simp: js_delete_def)

lemma js_set_subset: "set (js_set m k v) \<subseteq> insert (k, v) (set m)"
  by (auto simp: js_set_def split: if_splits)

lemma find_append: "find P (xs @ ys) = (case find P xs of None \<Rightarrow> find P ys | r \<Rightarrow> r)"
  by (induction xs) auto

section \<open>Computations that may throw\<close>

text \<open>
  \<open>run_until_throw f xs s\<close> runs \<open>f\<close> over \<open>xs\<close>, threading the state; the first error ends the
  loop and leaves the state as it was at the throw.
\<close>

fun run_until_throw :: "('a \<Rightarrow> 's \<Rightarrow> 's \<times> 'e option) \<Rightarrow> 'a list \<Rightarrow> 's \<Rightarrow> 's \<times> 'e option" where
  "run_until_throw f [] s = (s, None)"
| "run_until_throw f (x # xs) s =
     (case f x s of
        (s', Some e) \<Rightarrow> (s', Some e)
      | (s', None) \<Rightarrow> run_until_throw f xs s')"

lemma run_until_throw_invariant:
  assumes "\<And>x s. x \<in> set xs \<Longrightarrow> P s \<Longrightarrow> P (fst (f x s))" and "P s"
  shows "P (fst (run_until_throw f xs s))"
  using assms
proof (induction xs arbitrary: s)
  case (Cons x xs)
  obtain s' e where fx: "f x s = (s', e)" by (cases "f x s")
  with Cons.prems(1) [of x s] Cons.prems(2) have "P s'" by simp
  then show ?case
    using Cons.IH [of s'] Cons.prems(1) fx by (cases e) auto
qed simp

fun res_map :: "('a \<Rightarrow> 'e + 'b) \<Rightarrow> 'a list \<Rightarrow> 'e + 'b list" where
  "res_map f [] = Inr []"
| "res_map f (x # xs) =
     (case f x of
        Inl e \<Rightarrow> Inl e
      | Inr y \<Rightarrow> (case res_map f xs of Inl e \<Rightarrow> Inl e | Inr ys \<Rightarrow> Inr (y # ys)))"

lemma res_map_Inr_iff [res_laws]:
  "res_map f xs = Inr ys \<longleftrightarrow> list_all2 (\<lambda>x y. f x = Inr y) xs ys"
proof (induction xs arbitrary: ys)
  case (Cons x xs)
  show ?case
    by (cases "f x"; cases "res_map f xs"; cases ys)
      (auto simp: Cons.IH [symmetric])
qed auto

lemma res_map_Inl_in: "res_map f xs = Inl e \<Longrightarrow> \<exists>x\<in>set xs. f x = Inl e"
  by (induction xs) (auto split: sum.splits)

lemma res_map_total: "(\<And>x. x \<in> set xs \<Longrightarrow> \<exists>y. f x = Inr y) \<Longrightarrow> \<exists>ys. res_map f xs = Inr ys"
  by (induction xs) (fastforce split: sum.splits)+

lemma res_map_pure: "res_map (\<lambda>x. Inr (f x)) xs = Inr (map f xs)"
  by (induction xs) auto

section \<open>Searches that carry the current path\<close>

fun first_opt :: "'r \<Rightarrow> ('a \<Rightarrow> 'r option) \<Rightarrow> 'a list \<Rightarrow> 'r option" where
  "first_opt neg f [] = Some neg"
| "first_opt neg f (x # xs) =
     (case f x of
        None \<Rightarrow> None
      | Some r \<Rightarrow> if r = neg then first_opt neg f xs else Some r)"

lemma first_opt_append:
  "first_opt neg f (xs @ ys) =
     (case first_opt neg f xs of
        None \<Rightarrow> None
      | Some r \<Rightarrow> if r = neg then first_opt neg f ys else Some r)"
  by (induction xs) (auto split: option.splits)

lemma first_opt_map: "first_opt neg f (map g xs) = first_opt neg (\<lambda>x. f (g x)) xs"
  by (induction xs) (auto split: option.splits)

lemma first_opt_cong [fundef_cong]:
  assumes "neg = neg'" and "xs = ys" and "\<And>x. x \<in> set ys \<Longrightarrow> f x = g x"
  shows "first_opt neg f xs = first_opt neg' g ys"
  unfolding assms(1,2) using assms(3) by (induction ys) (auto split: option.splits)

lemma first_opt_concat:
  "first_opt neg f (concat xss) = first_opt neg (first_opt neg f) xss"
  by (induction xss) (auto simp: first_opt_append split: option.splits)

lemma first_opt_defined:
  "(\<And>x. x \<in> set xs \<Longrightarrow> f x \<noteq> None) \<Longrightarrow> first_opt neg f xs \<noteq> None"
  by (induction xs) (auto split: option.splits)

lemma first_opt_neg_iff:
  "first_opt neg f xs = Some neg \<longleftrightarrow> (\<forall>x\<in>set xs. f x = Some neg)"
  by (induction xs) (auto split: option.splits)

lemma first_opt_hit:
  "first_opt neg f xs = Some r \<Longrightarrow> r \<noteq> neg \<Longrightarrow> \<exists>x\<in>set xs. f x = Some r"
  by (induction xs) (auto split: option.splits if_splits)

end
