(* ===== verification/Core_Metadata.thy ===== *)
theory Core_Metadata
  imports JS_String
begin

text \<open>
  \<open>packages/core/src/metadata/class-di.ts\<close> and \<open>framework-service.ts\<close>: dependency tokens, the
  store of class-level injection metadata with its version counter and the cache of inherited
  metadata, and the canonical tokens of framework-owned services.

  A dynamically typed value is a \<open>jsv\<close>; a function object is its identity (\<open>nat\<close>).  What the
  JavaScript runtime knows of functions (whether \<open>Reflect.construct\<close> accepts one, its prototype
  chain, its \<open>length\<close>, the token a \<open>forwardRef\<close> thunk returns) is the record \<open>js_runtime\<close>,
  an argument of the definitions.
\<close>

datatype sym = UniqueSym nat | RegisteredSym string

datatype jsv =
    JUndef
  | JNull
  | JBool bool
  | JNum int
  | JStr string
  | JSym sym
  | JFun nat
  | JRef nat
  | JObj "(string \<times> jsv) list"
  | JArr "jsv list"

datatype token = StrTok string | SymTok sym | ClassTok nat

record js_runtime =
  constructable :: "nat \<Rightarrow> bool"
  protos :: "nat \<Rightarrow> nat list"
  arity :: "nat \<Rightarrow> nat"
  thunk :: "nat \<Rightarrow> token"

definition js_field :: "jsv \<Rightarrow> string \<Rightarrow> jsv" where
  "js_field v k =
     (case v of JObj fs \<Rightarrow> (case map_of fs k of None \<Rightarrow> JUndef | Some x \<Rightarrow> x) | _ \<Rightarrow> JUndef)"

definition js_in :: "string \<Rightarrow> jsv \<Rightarrow> bool" where
  "js_in k v = (case v of JObj fs \<Rightarrow> k \<in> fst ` set fs | _ \<Rightarrow> False)"

definition nullish :: "jsv \<Rightarrow> bool" where
  "nullish v \<longleftrightarrow> v = JUndef \<or> v = JNull"

definition coalesce :: "jsv \<Rightarrow> jsv \<Rightarrow> jsv" where
  "coalesce a b = (if nullish a then b else a)"

section \<open>Class-level injection metadata\<close>

record class_di =
  di_inject :: jsv
  di_scope :: jsv

record cached_di =
  cd_metadata :: "class_di option"
  cd_version :: nat

record di_store =
  classDiMetadataStore :: "(nat, class_di) js_map"
  inheritedClassDiMetadataCache :: "(nat, cached_di) js_map"
  classDiMetadataVersion :: nat

definition isForwardRefToken :: "jsv \<Rightarrow> bool" where
  "isForwardRefToken v \<longleftrightarrow> js_in ''__forwardRef__'' v \<and> js_field v ''__forwardRef__'' = JBool True"

definition isOptionalInjectToken :: "jsv \<Rightarrow> bool" where
  "isOptionalInjectToken v \<longleftrightarrow> js_in ''__optional__'' v \<and> js_field v ''__optional__'' = JBool True"

definition freezeInjectionToken :: "jsv \<Rightarrow> jsv" where
  "freezeInjectionToken v =
     (if isForwardRefToken v then
        JObj [(''__forwardRef__'', JBool True), (''forwardRef'', js_field v ''forwardRef'')]
      else if isOptionalInjectToken v then
        JObj [(''__optional__'', JBool True), (''token'', js_field v ''token'')]
      else v)"

definition freezeInjectMetadata :: "jsv \<Rightarrow> jsv" where
  "freezeInjectMetadata ij =
     (case ij of JArr ts \<Rightarrow> JArr (map freezeInjectionToken ts) | _ \<Rightarrow> JUndef)"

definition freezeClassDiMetadata :: "class_di \<Rightarrow> class_di" where
  "freezeClassDiMetadata md =
     \<lparr>di_inject = freezeInjectMetadata (di_inject md), di_scope = di_scope md\<rparr>"

text \<open>The chain from the base class to the class itself.\<close>

definition getClassMetadataLineage :: "js_runtime \<Rightarrow> nat \<Rightarrow> nat list" where
  "getClassMetadataLineage rt target = rev (target # protos rt target)"

definition opt_inject :: "class_di option \<Rightarrow> jsv" where
  "opt_inject md = (case md of None \<Rightarrow> JUndef | Some m \<Rightarrow> di_inject m)"

definition opt_scope :: "class_di option \<Rightarrow> jsv" where
  "opt_scope md = (case md of None \<Rightarrow> JUndef | Some m \<Rightarrow> di_scope m)"

definition defineClassDiMetadata :: "nat \<Rightarrow> class_di \<Rightarrow> di_store \<Rightarrow> di_store" where
  "defineClassDiMetadata target md st =
     (let existing = js_get (classDiMetadataStore st) target;
          merged = \<lparr>di_inject = (if di_inject md \<noteq> JUndef then di_inject md else opt_inject existing),
                    di_scope = coalesce (di_scope md) (opt_scope existing)\<rparr>
      in st\<lparr>classDiMetadataStore := js_set (classDiMetadataStore st) target (freezeClassDiMetadata merged),
            classDiMetadataVersion := classDiMetadataVersion st + 1\<rparr>)"

definition getOwnClassDiMetadata :: "di_store \<Rightarrow> nat \<Rightarrow> class_di option" where
  "getOwnClassDiMetadata st target = js_get (classDiMetadataStore st) target"

text \<open>The loop over the lineage, base first, that the cache memoises.\<close>

fun effective_di :: "(nat, class_di) js_map \<Rightarrow> nat list \<Rightarrow> class_di option \<Rightarrow> class_di option" where
  "effective_di store [] eff = eff"
| "effective_di store (c # cs) eff =
     (case js_get store c of
        None \<Rightarrow> effective_di store cs eff
      | Some md \<Rightarrow>
          effective_di store cs
            (Some (freezeClassDiMetadata
               \<lparr>di_inject = coalesce (di_inject md) (opt_inject eff),
                di_scope = coalesce (di_scope md) (opt_scope eff)\<rparr>)))"

definition getInheritedClassDiMetadata ::
  "js_runtime \<Rightarrow> nat \<Rightarrow> di_store \<Rightarrow> class_di option \<times> di_store" where
  "getInheritedClassDiMetadata rt target st =
     (case js_get (inheritedClassDiMetadataCache st) target of
        Some c \<Rightarrow>
          if cd_version c = classDiMetadataVersion st then (cd_metadata c, st)
          else (let eff = effective_di (classDiMetadataStore st) (getClassMetadataLineage rt target) None
                in (eff, st\<lparr>inheritedClassDiMetadataCache :=
                     js_set (inheritedClassDiMetadataCache st) target
                       \<lparr>cd_metadata = eff, cd_version = classDiMetadataVersion st\<rparr>\<rparr>))
      | None \<Rightarrow>
          (let eff = effective_di (classDiMetadataStore st) (getClassMetadataLineage rt target) None
           in (eff, st\<lparr>inheritedClassDiMetadataCache :=
                js_set (inheritedClassDiMetadataCache st) target
                  \<lparr>cd_metadata = eff, cd_version = classDiMetadataVersion st\<rparr>\<rparr>)))"

definition getClassDiMetadata ::
  "js_runtime \<Rightarrow> nat \<Rightarrow> di_store \<Rightarrow> class_di option \<times> di_store" where
  "getClassDiMetadata rt target st = getInheritedClassDiMetadata rt target st"

section \<open>Framework-owned services\<close>

record fw_identity =
  fw_id :: string
  fw_version :: int

record fw_store =
  frameworkServiceIdentityStore :: "(nat, fw_identity) js_map"
  frameworkServiceIdentityVersion :: nat

datatype fw_error = EmptyServiceId | BadServiceVersion

definition max_safe_integer :: int where
  "max_safe_integer = 9007199254740991"

definition validateIdentity :: "fw_identity \<Rightarrow> fw_error option" where
  "validateIdentity i =
     (if fw_id i = [] then Some EmptyServiceId
      else if \<not> (\<bar>fw_version i\<bar> \<le> max_safe_integer) \<or> fw_version i < 1 then Some BadServiceVersion
      else None)"

definition defineFrameworkServiceIdentity ::
  "nat \<Rightarrow> fw_identity \<Rightarrow> fw_store \<Rightarrow> fw_store \<times> fw_error option" where
  "defineFrameworkServiceIdentity target i st =
     (case validateIdentity i of
        Some e \<Rightarrow> (st, Some e)
      | None \<Rightarrow>
          (st\<lparr>frameworkServiceIdentityStore := js_set (frameworkServiceIdentityStore st) target i,
              frameworkServiceIdentityVersion := frameworkServiceIdentityVersion st + 1\<rparr>, None))"

definition getFrameworkServiceIdentity :: "fw_store \<Rightarrow> nat \<Rightarrow> fw_identity option" where
  "getFrameworkServiceIdentity st target = js_get (frameworkServiceIdentityStore st) target"

definition service_key :: "fw_identity \<Rightarrow> string" where
  "service_key i = ''fluo.framework-service/'' @ fw_id i @ ''/v'' @ show_nat (nat (fw_version i))"

definition normalizeFrameworkServiceToken :: "fw_store \<Rightarrow> token \<Rightarrow> token" where
  "normalizeFrameworkServiceToken st t =
     (case t of
        ClassTok c \<Rightarrow>
          (case getFrameworkServiceIdentity st c of
             None \<Rightarrow> t
           | Some i \<Rightarrow> SymTok (RegisteredSym (service_key i)))
      | _ \<Rightarrow> t)"

section \<open>The metadata cache is transparent\<close>

definition di_cache_ok :: "js_runtime \<Rightarrow> di_store \<Rightarrow> bool" where
  "di_cache_ok rt st \<longleftrightarrow>
     (\<forall>t c. js_get (inheritedClassDiMetadataCache st) t = Some c \<longrightarrow>
        cd_version c \<le> classDiMetadataVersion st \<and>
        (cd_version c = classDiMetadataVersion st \<longrightarrow>
          cd_metadata c = effective_di (classDiMetadataStore st) (getClassMetadataLineage rt t) None))"

text \<open>The operations on the metadata store, as a step relation.\<close>

inductive di_step :: "js_runtime \<Rightarrow> di_store \<Rightarrow> di_store \<Rightarrow> bool" for rt where
  define_step: "di_step rt st (defineClassDiMetadata target md st)"
| read_step: "di_step rt st (snd (getClassDiMetadata rt target st))"

inductive_cases di_stepE: "di_step rt st st'"

definition empty_di_store :: di_store where
  "empty_di_store =
     \<lparr>classDiMetadataStore = [], inheritedClassDiMetadataCache = [], classDiMetadataVersion = 0\<rparr>"

lemma di_cache_ok_empty: "di_cache_ok rt empty_di_store"
  by (simp add: di_cache_ok_def empty_di_store_def)

lemma di_cache_ok_define: "di_cache_ok rt st \<Longrightarrow> di_cache_ok rt (defineClassDiMetadata t md st)"
  by (fastforce simp: di_cache_ok_def defineClassDiMetadata_def Let_def)

lemma di_cache_ok_read: "di_cache_ok rt st \<Longrightarrow> di_cache_ok rt (snd (getClassDiMetadata rt t st))"
  by (auto simp: di_cache_ok_def getClassDiMetadata_def getInheritedClassDiMetadata_def Let_def
      js_get_set split: option.splits)

lemma di_steps_cache_ok: "(di_step rt)\<^sup>*\<^sup>* st st' \<Longrightarrow> di_cache_ok rt st \<Longrightarrow> di_cache_ok rt st'"
  by (induction rule: rtranclp_induct)
    (auto elim!: di_stepE intro: di_cache_ok_define di_cache_ok_read)

lemma getClassDiMetadata_effective:
  "di_cache_ok rt st \<Longrightarrow>
     fst (getClassDiMetadata rt t st) =
       effective_di (classDiMetadataStore st) (getClassMetadataLineage rt t) None"
  by (auto simp: di_cache_ok_def getClassDiMetadata_def getInheritedClassDiMetadata_def Let_def
      split: option.splits)

text \<open>
  After any sequence of metadata writes and cached reads, the cached read of the inherited
  metadata of a class returns what the uncached walk over the prototype chain returns.
\<close>

theorem inherited_metadata_cache_transparent:
  assumes "(di_step rt)\<^sup>*\<^sup>* empty_di_store st"
  shows "fst (getClassDiMetadata rt t st) =
    effective_di (classDiMetadataStore st) (getClassMetadataLineage rt t) None"
  using di_steps_cache_ok [OF assms di_cache_ok_empty] by (rule getClassDiMetadata_effective)

text \<open>A sample runtime: class 2 extends class 1, and functions from 100 on are not classes.\<close>

definition sample_rt :: js_runtime where
  "sample_rt = \<lparr>constructable = (\<lambda>c. c < 100), protos = (\<lambda>c. if c = 2 then [2, 1] else [c]),
     arity = (\<lambda>_. 0), thunk = (\<lambda>_. ClassTok 1)\<rparr>"

theorem inherited_metadata_cache_transparent_witness:
  "fst (getClassDiMetadata sample_rt 2
     (defineClassDiMetadata 1 \<lparr>di_inject = JUndef, di_scope = JStr ''request''\<rparr> empty_di_store)) =
   Some \<lparr>di_inject = JUndef, di_scope = JStr ''request''\<rparr>"
proof -
  let ?st = "defineClassDiMetadata 1 \<lparr>di_inject = JUndef, di_scope = JStr ''request''\<rparr> empty_di_store"
  have "(di_step sample_rt)\<^sup>*\<^sup>* empty_di_store ?st"
    by (rule r_into_rtranclp) (rule define_step)
  from inherited_metadata_cache_transparent [OF this, of 2] show ?thesis
    by (simp add: sample_rt_def getClassMetadataLineage_def defineClassDiMetadata_def empty_di_store_def
        freezeClassDiMetadata_def freezeInjectMetadata_def opt_inject_def opt_scope_def coalesce_def
        nullish_def js_get_set Let_def)
qed

section \<open>Canonical service tokens\<close>

lemma append_free_eq:
  "xs @ c # zs = ys @ c # ws \<Longrightarrow> c \<notin> set zs \<Longrightarrow> c \<notin> set ws \<Longrightarrow> xs = ys \<and> zs = ws"
  by (auto simp: append_eq_append_conv2 append_eq_Cons_conv Cons_eq_append_conv)

lemma service_key_inject:
  assumes "service_key i = service_key j"
  shows "fw_id i = fw_id j \<and> nat (fw_version i) = nat (fw_version j)"
proof -
  have slash: "CHR ''/'' \<notin> set (CHR ''v'' # show_nat n)" for n
    by (auto simp: is_digit_def dest!: show_nat_digits)
  have "(''fluo.framework-service/'' @ fw_id i) @ CHR ''/'' # (CHR ''v'' # show_nat (nat (fw_version i))) =
      (''fluo.framework-service/'' @ fw_id j) @ CHR ''/'' # (CHR ''v'' # show_nat (nat (fw_version j)))"
    using assms by (simp add: service_key_def)
  from append_free_eq [OF this slash slash] show ?thesis by simp
qed

end
