(* ===== verification/Provider_Normalization.thy ===== *)
theory Provider_Normalization
  imports Core_Metadata
begin

text \<open>
  \<open>packages/di/src/provider-normalization.ts\<close> and the wrappers of \<open>packages/di/src/types.ts\<close>: the
  validation of a provider declaration and its normalised record.

  A declaration is an arbitrary \<open>jsv\<close>, as it crosses an untyped boundary; the declared type of
  \<open>multi\<close> is \<open>boolean | undefined\<close>, so only \<open>true\<close> counts.  The world a call sees (runtime,
  metadata stores) is the record \<open>di_env\<close>; metadata is read through the uncached walk, which
  the cached read equals.
\<close>

record di_env =
  env_rt :: js_runtime
  env_di :: "(nat, class_di) js_map"
  env_fw :: fw_store

definition class_metadata :: "di_env \<Rightarrow> nat \<Rightarrow> class_di option" where
  "class_metadata env c = effective_di (env_di env) (getClassMetadataLineage (env_rt env) c) None"

abbreviation norm_tok :: "di_env \<Rightarrow> token \<Rightarrow> token" where
  "norm_tok env \<equiv> normalizeFrameworkServiceToken (env_fw env)"

datatype scope = Singleton | Request | Transient

datatype inject_token = PlainTok token | ForwardRefTok nat | OptionalTok token

datatype strategy =
    UseClass nat
  | UseFactory nat "nat option"
  | UseValue jsv
  | UseExisting token

record nprovider =
  np_inject :: "inject_token list"
  np_provide :: token
  np_scope :: scope
  np_multi :: bool
  np_strategy :: strategy

datatype provider_error =
    UnsupportedProvider
  | BadProvideToken
  | BadStrategyCount
  | BadScope token
  | ValueWithInject
  | BadFactory token
  | BadClass token
  | BadAlias token
  | InjectNotArray token
  | BadForwardRef token nat
  | BadOptional token nat
  | BadInjectEntry token nat

section \<open>Predicates on declarations\<close>

definition isConstructableFunction :: "js_runtime \<Rightarrow> jsv \<Rightarrow> bool" where
  "isConstructableFunction rt v = (case v of JFun f \<Rightarrow> constructable rt f | _ \<Rightarrow> False)"

definition isProviderObject :: "jsv \<Rightarrow> bool" where
  "isProviderObject v = (case v of JObj _ \<Rightarrow> True | JArr _ \<Rightarrow> True | JRef _ \<Rightarrow> True | _ \<Rightarrow> False)"

text \<open>\<open>isFactoryFunction\<close> and \<open>isTokenResolver\<close> are the same test.\<close>

definition isFactoryFunction :: "jsv \<Rightarrow> bool" where
  "isFactoryFunction v = (case v of JFun _ \<Rightarrow> True | _ \<Rightarrow> False)"

definition as_token :: "js_runtime \<Rightarrow> jsv \<Rightarrow> token option" where
  "as_token rt v =
     (case v of
        JStr s \<Rightarrow> Some (StrTok s)
      | JSym s \<Rightarrow> Some (SymTok s)
      | JFun f \<Rightarrow> if isConstructableFunction rt v then Some (ClassTok f) else None
      | _ \<Rightarrow> None)"

definition isToken :: "js_runtime \<Rightarrow> jsv \<Rightarrow> bool" where
  "isToken rt v \<longleftrightarrow> as_token rt v \<noteq> None"

definition as_scope :: "jsv \<Rightarrow> scope option" where
  "as_scope v =
     (if v = JStr ''singleton'' then Some Singleton
      else if v = JStr ''request'' then Some Request
      else if v = JStr ''transient'' then Some Transient
      else None)"

definition strategy_count :: "jsv \<Rightarrow> nat" where
  "strategy_count p =
     of_bool (js_in ''useValue'' p) + of_bool (js_in ''useFactory'' p) +
     of_bool (js_in ''useClass'' p) + of_bool (js_in ''useExisting'' p)"

definition assertProviderToken :: "js_runtime \<Rightarrow> jsv \<Rightarrow> provider_error + token" where
  "assertProviderToken rt p =
     (if \<not> js_in ''provide'' p then Inl BadProvideToken
      else (case as_token rt (js_field p ''provide'') of
              None \<Rightarrow> Inl BadProvideToken
            | Some t \<Rightarrow> Inr t))"

definition assertObjectProvider :: "js_runtime \<Rightarrow> jsv \<Rightarrow> provider_error + token" where
  "assertObjectProvider rt p =
     (case assertProviderToken rt p of
        Inl e \<Rightarrow> Inl e
      | Inr t \<Rightarrow> if strategy_count p \<noteq> 1 then Inl BadStrategyCount else Inr t)"

definition normalizeProviderScope :: "jsv \<Rightarrow> token \<Rightarrow> provider_error + scope option" where
  "normalizeProviderScope s t =
     (if s = JUndef then Inr None
      else (case as_scope s of Some sc \<Rightarrow> Inr (Some sc) | None \<Rightarrow> Inl (BadScope t)))"

definition normalizeInjectToken ::
  "di_env \<Rightarrow> token \<Rightarrow> nat \<times> jsv \<Rightarrow> provider_error + inject_token" where
  "normalizeInjectToken env pt = (\<lambda>(i, v).
     if isForwardRefToken v then
       (case js_field v ''forwardRef'' of
          JFun f \<Rightarrow> Inr (ForwardRefTok f)
        | _ \<Rightarrow> Inl (BadForwardRef pt i))
     else if isOptionalInjectToken v then
       (case as_token (env_rt env) (js_field v ''token'') of
          Some t \<Rightarrow> Inr (OptionalTok (norm_tok env t))
        | None \<Rightarrow> Inl (BadOptional pt i))
     else
       (case as_token (env_rt env) v of
          Some t \<Rightarrow> Inr (PlainTok (norm_tok env t))
        | None \<Rightarrow> Inl (BadInjectEntry pt i)))"

definition normalizeInject ::
  "di_env \<Rightarrow> jsv \<Rightarrow> token \<Rightarrow> provider_error + inject_token list" where
  "normalizeInject env ij pt =
     (if ij = JUndef then Inr []
      else (case ij of
              JArr ts \<Rightarrow> res_map (normalizeInjectToken env pt) (enumerate 0 ts)
            | _ \<Rightarrow> Inl (InjectNotArray pt)))"

section \<open>Normalisation\<close>

definition scope_or_default :: "scope option \<Rightarrow> scope option \<Rightarrow> scope" where
  "scope_or_default explicit fallback =
     (case explicit of
        Some s \<Rightarrow> s
      | None \<Rightarrow> (case fallback of Some s \<Rightarrow> s | None \<Rightarrow> Singleton))"

definition build_provider ::
  "provider_error + inject_token list \<Rightarrow> provider_error + scope \<Rightarrow> token \<Rightarrow> bool \<Rightarrow> strategy \<Rightarrow>
     provider_error + nprovider" where
  "build_provider ij sc t mul strat =
     (case ij of
        Inl e \<Rightarrow> Inl e
      | Inr tokens \<Rightarrow>
          (case sc of
             Inl e \<Rightarrow> Inl e
           | Inr s \<Rightarrow> Inr \<lparr>np_inject = tokens, np_provide = t, np_scope = s, np_multi = mul,
                          np_strategy = strat\<rparr>))"

text \<open>\<open>explicit ?? normalizeProviderScope(metadata?.scope) ?? 'singleton'\<close>: the metadata scope is
  only looked at, and only then can be refused, when no explicit scope was given.\<close>

definition inherited_scope ::
  "scope option \<Rightarrow> class_di option \<Rightarrow> token \<Rightarrow> provider_error + scope" where
  "inherited_scope explicit md t =
     (case explicit of
        Some s \<Rightarrow> Inr s
      | None \<Rightarrow>
          (case normalizeProviderScope (opt_scope md) t of
             Inl e \<Rightarrow> Inl e
           | Inr so \<Rightarrow> Inr (scope_or_default None so)))"

definition normalizeValueProvider :: "jsv \<Rightarrow> token \<Rightarrow> bool \<Rightarrow> provider_error + nprovider" where
  "normalizeValueProvider p t mul =
     (if js_in ''inject'' p then Inl ValueWithInject
      else Inr \<lparr>np_inject = [], np_provide = t, np_scope = Singleton, np_multi = mul,
                np_strategy = UseValue (js_field p ''useValue'')\<rparr>)"

definition resolver_class :: "jsv \<Rightarrow> nat option" where
  "resolver_class p = (case js_field p ''resolverClass'' of JFun c \<Rightarrow> Some c | _ \<Rightarrow> None)"

definition normalizeFactoryProvider ::
  "di_env \<Rightarrow> jsv \<Rightarrow> token \<Rightarrow> bool \<Rightarrow> scope option \<Rightarrow> provider_error + nprovider" where
  "normalizeFactoryProvider env p t mul explicit =
     (case js_field p ''useFactory'' of
        JFun f \<Rightarrow>
          build_provider (normalizeInject env (js_field p ''inject'') t)
            (inherited_scope explicit (Option.bind (resolver_class p) (class_metadata env)) t)
            t mul (UseFactory f (resolver_class p))
      | _ \<Rightarrow> Inl (BadFactory t))"

definition normalizeClassProvider ::
  "di_env \<Rightarrow> jsv \<Rightarrow> token \<Rightarrow> bool \<Rightarrow> scope option \<Rightarrow> provider_error + nprovider" where
  "normalizeClassProvider env p t mul explicit =
     (case js_field p ''useClass'' of
        JFun c \<Rightarrow>
          if isConstructableFunction (env_rt env) (JFun c) then
            (let md = class_metadata env c in
             build_provider
               (normalizeInject env
                  (if js_field p ''inject'' = JUndef then opt_inject md else js_field p ''inject'') t)
               (inherited_scope explicit md t) t mul (UseClass c))
          else Inl (BadClass t)
      | _ \<Rightarrow> Inl (BadClass t))"

definition normalizeExistingProvider :: "di_env \<Rightarrow> jsv \<Rightarrow> token \<Rightarrow> provider_error + nprovider" where
  "normalizeExistingProvider env p t =
     (case as_token (env_rt env) (js_field p ''useExisting'') of
        None \<Rightarrow> Inl (BadAlias t)
      | Some target \<Rightarrow>
          Inr \<lparr>np_inject = [], np_provide = t, np_scope = Singleton, np_multi = False,
               np_strategy = UseExisting (norm_tok env target)\<rparr>)"

definition normalizeObjectProvider :: "di_env \<Rightarrow> jsv \<Rightarrow> provider_error + nprovider" where
  "normalizeObjectProvider env p =
     (case assertObjectProvider (env_rt env) p of
        Inl e \<Rightarrow> Inl e
      | Inr raw \<Rightarrow>
          (let t = norm_tok env raw; mul = (js_field p ''multi'' = JBool True) in
           case normalizeProviderScope (js_field p ''scope'') t of
             Inl e \<Rightarrow> Inl e
           | Inr explicit \<Rightarrow>
               if js_in ''useValue'' p then normalizeValueProvider p t mul
               else if js_in ''useFactory'' p then normalizeFactoryProvider env p t mul explicit
               else if js_in ''useClass'' p then normalizeClassProvider env p t mul explicit
               else if js_in ''useExisting'' p then normalizeExistingProvider env p t
               else Inl BadStrategyCount))"

definition normalizeClassShorthand :: "di_env \<Rightarrow> nat \<Rightarrow> provider_error + nprovider" where
  "normalizeClassShorthand env c =
     (let md = class_metadata env c in
      build_provider (normalizeInject env (opt_inject md) (ClassTok c))
        (inherited_scope None md (ClassTok c)) (norm_tok env (ClassTok c)) False (UseClass c))"

definition normalizeProvider :: "di_env \<Rightarrow> jsv \<Rightarrow> provider_error + nprovider" where
  "normalizeProvider env p =
     (case p of
        JFun c \<Rightarrow>
          if isConstructableFunction (env_rt env) p then normalizeClassShorthand env c
          else Inl UnsupportedProvider
      | _ \<Rightarrow>
          if isProviderObject p then normalizeObjectProvider env p
          else Inl UnsupportedProvider)"

definition validateProviderInputs :: "di_env \<Rightarrow> jsv list \<Rightarrow> provider_error + jsv list" where
  "validateProviderInputs env ps =
     (case res_map (normalizeProvider env) ps of Inl e \<Rightarrow> Inl e | Inr _ \<Rightarrow> Inr ps)"

section \<open>What a normalised provider guarantees\<close>

lemmas normalize_defs =
  normalizeProvider_def normalizeClassShorthand_def normalizeObjectProvider_def
  normalizeValueProvider_def normalizeFactoryProvider_def normalizeClassProvider_def
  normalizeExistingProvider_def build_provider_def inherited_scope_def scope_or_default_def

lemmas normalize_splits = sum.splits option.splits jsv.splits if_splits

text \<open>The tokens that canonicalisation leaves alone.\<close>

definition canonical :: "di_env \<Rightarrow> token \<Rightarrow> bool" where
  "canonical env t \<longleftrightarrow> norm_tok env t = t"

fun canonical_entry :: "di_env \<Rightarrow> inject_token \<Rightarrow> bool" where
  "canonical_entry env (PlainTok t) = canonical env t"
| "canonical_entry env (OptionalTok t) = canonical env t"
| "canonical_entry env (ForwardRefTok f) = True"

definition np_wf :: "di_env \<Rightarrow> nprovider \<Rightarrow> bool" where
  "np_wf env np \<longleftrightarrow>
     canonical env (np_provide np) \<and>
     list_all (canonical_entry env) (np_inject np) \<and>
     (case np_strategy np of
        UseValue _ \<Rightarrow> np_inject np = [] \<and> np_scope np = Singleton
      | UseExisting t \<Rightarrow>
          np_inject np = [] \<and> np_scope np = Singleton \<and> \<not> np_multi np \<and> canonical env t
      | UseClass c \<Rightarrow> constructable (env_rt env) c
      | UseFactory _ _ \<Rightarrow> True)"

lemma norm_tok_canonical [simp]: "canonical env (norm_tok env t)"
  by (auto simp: canonical_def normalizeFrameworkServiceToken_def split: token.splits option.splits)

lemma normalizeInjectToken_canonical:
  "normalizeInjectToken env pt iv = Inr e \<Longrightarrow> canonical_entry env e"
  by (cases iv) (auto simp: normalizeInjectToken_def split: normalize_splits)

lemma normalizeInject_canonical:
  assumes "normalizeInject env ij pt = Inr es"
  shows "list_all (canonical_entry env) es"
proof (cases "ij = JUndef")
  case True
  with assms show ?thesis by (simp add: normalizeInject_def)
next
  case False
  then obtain ts where "res_map (normalizeInjectToken env pt) (enumerate 0 ts) = Inr es"
    using assms by (auto simp: normalizeInject_def split: jsv.splits)
  then have "list_all2 (\<lambda>iv e. normalizeInjectToken env pt iv = Inr e) (enumerate 0 ts) es"
    by (simp add: res_laws)
  then show ?thesis
    by (auto simp: list_all_length list_all2_conv_all_nth intro: normalizeInjectToken_canonical)
qed

lemma build_provider_Inr:
  "build_provider ij sc t mul strat = Inr np \<longleftrightarrow>
     (\<exists>es s. ij = Inr es \<and> sc = Inr s \<and>
        np = \<lparr>np_inject = es, np_provide = t, np_scope = s, np_multi = mul, np_strategy = strat\<rparr>)"
  by (auto simp: build_provider_def split: sum.splits)

lemma normalizeObjectProvider_wf:
  "normalizeObjectProvider env p = Inr np \<Longrightarrow> np_wf env np"
  by (auto simp: normalizeObjectProvider_def normalizeValueProvider_def normalizeFactoryProvider_def
      normalizeClassProvider_def normalizeExistingProvider_def build_provider_Inr np_wf_def Let_def
      isConstructableFunction_def normalizeInject_canonical split: normalize_splits)

lemma normalizeProvider_wf:
  assumes "normalizeProvider env p = Inr np"
  shows "np_wf env np"
proof -
  have shorthand: "np_wf env np" if "normalizeClassShorthand env c = Inr np" "constructable (env_rt env) c" for c
    using that by (auto simp: normalizeClassShorthand_def build_provider_Inr np_wf_def Let_def
        normalizeInject_canonical)
  show ?thesis
    using assms shorthand normalizeObjectProvider_wf
    by (auto simp: normalizeProvider_def isConstructableFunction_def split: jsv.splits if_splits)
qed

text \<open>
  C10. Every accepted declaration, whatever its shape, yields a well-formed record: the provided
  token, every injected token and an alias target are canonical, a value or alias provider has no
  dependencies and singleton scope, an alias is never a multi contribution, and a class provider
  holds a constructable class.
\<close>

theorem normalizeProvider_well_formed:
  assumes "normalizeProvider env p = Inr np"
  shows "np_wf env np"
  using assms by (rule normalizeProvider_wf)

definition sample_env :: di_env where
  "sample_env = \<lparr>env_rt = sample_rt, env_di = [],
     env_fw = \<lparr>frameworkServiceIdentityStore = [], frameworkServiceIdentityVersion = 0\<rparr>\<rparr>"

definition sample_factory :: jsv where
  "sample_factory = JObj [(''provide'', JStr ''db''), (''useFactory'', JFun 100),
     (''inject'', JArr [JFun 1, JStr ''cfg''])]"

theorem normalizeProvider_well_formed_witness:
  "np_wf sample_env \<lparr>np_inject = [PlainTok (ClassTok 1), PlainTok (StrTok ''cfg'')],
     np_provide = StrTok ''db'', np_scope = Singleton, np_multi = False, np_strategy = UseFactory 100 None\<rparr>"
proof (rule normalizeProvider_well_formed [of _ sample_factory])
  show "normalizeProvider sample_env sample_factory = Inr \<lparr>np_inject = [PlainTok (ClassTok 1),
      PlainTok (StrTok ''cfg'')], np_provide = StrTok ''db'', np_scope = Singleton, np_multi = False,
      np_strategy = UseFactory 100 None\<rparr>"
    by code_simp
qed

end
