(* ===== verification/Container_Registry.thy ===== *)
theory Container_Registry
  imports Provider_Normalization
begin

text \<open>
  \<open>packages/di/src/container.ts\<close>, the registration half of the class \<open>Container\<close>: scopes, their
  parent chain, \<open>register\<close>, conflict checks, provider and multi-provider lookup, \<open>has\<close>,
  \<open>createRequestScope\<close>, and the resolution plan caches with their revision counters.

  The objects of a hierarchy live in a heap; a container is an address.  A normalised provider
  has an identity (\<open>p_ref\<close>), because the code compares providers with \<open>===\<close> and keys maps by
  them.  A recursion \<open>this.parent?.f(...)\<close> runs over \<open>lineage h a\<close>, the addresses from the
  container up to its root.
\<close>

record provider =
  p_ref :: nat
  p_np :: nprovider

abbreviation p_provide :: "provider \<Rightarrow> token" where "p_provide p \<equiv> np_provide (p_np p)"
abbreviation p_scope :: "provider \<Rightarrow> scope" where "p_scope p \<equiv> np_scope (p_np p)"
abbreviation p_inject :: "provider \<Rightarrow> inject_token list" where "p_inject p \<equiv> np_inject (p_np p)"
abbreviation p_strategy :: "provider \<Rightarrow> strategy" where "p_strategy p \<equiv> np_strategy (p_np p)"

text \<open>A settled, fulfilled promise: its identity and its value.\<close>

record promise =
  pr_id :: nat
  pr_val :: jsv

text \<open>A disposal scheduled by \<open>override\<close> for an instance that left a cache.\<close>

record stale_task =
  st_promise :: promise
  st_settled :: bool
  st_failed :: bool
  st_error :: jsv
  st_errorConsumed :: bool
  st_observers :: "nat list"
  st_retryInstance :: "jsv option"
  st_retryOwner :: nat

type_synonym 'v plan_cache_map = "(token, nat list \<times> 'v) js_map"

record container =
  registrations :: "(token, provider) js_map"
  multiRegistrations :: "(token, provider list) js_map"
  multiOverriddenTokens :: "token list"
  requestCache :: "(token, promise) js_map"
  multiRequestCache :: "(provider, promise) js_map"
  singletonCache :: "(token, promise) js_map"
  multiSingletonCache :: "(provider, promise) js_map"
  materializedCachePromises :: "promise list"
  pendingDisposables :: "jsv list"
  staleDisposalTasks :: "nat list"
  childScopes :: "nat list"
  trackedByParent :: bool
  disposed :: bool
  disposePromise :: bool
  graphRevision :: nat
  parent :: "nat option"
  requestScopeEnabled :: bool
  providerLookupPlanCache :: "provider option plan_cache_map"
  multiProviderPlanCache :: "provider list plan_cache_map"
  requestScopeVerdictPlanCache :: "bool plan_cache_map"
  effectiveProviderPlanCache :: "provider option plan_cache_map"

text \<open>\<open>tasks\<close> holds the stale disposal tasks, which several containers share by reference;
  \<open>nextRef\<close> is the next object identity; \<open>hookLog\<close> records the \<open>onDestroy\<close> calls made so far.
  \<open>disposePromise\<close> says that the field holds a fulfilled promise.\<close>

record heap =
  conts :: "container list"
  tasks :: "(nat, stale_task) js_map"
  nextRef :: nat
  hookLog :: "jsv list"

datatype di_error =
    ContainerDisposed
  | InvalidProvider provider_error
  | DuplicateProvider token
  | SingletonOnRequestScope token
  | SingletonIntroduced token
  | ScopeMismatch token token
  | RequestScopeResolution token
  | NoProvider token
  | CircularDependency "token list"
  | MissingContribution token
  | UserError jsv
  | AggregateError "di_error list"

definition cont :: "heap \<Rightarrow> nat \<Rightarrow> container" where
  "cont h a = conts h ! a"

definition upd :: "nat \<Rightarrow> (container \<Rightarrow> container) \<Rightarrow> heap \<Rightarrow> heap" where
  "upd a f h = h\<lparr>conts := (conts h)[a := f (conts h ! a)]\<rparr>"

definition fresh :: "heap \<Rightarrow> nat \<times> heap" where
  "fresh h = (nextRef h, h\<lparr>nextRef := Suc (nextRef h)\<rparr>)"

section \<open>The parent chain\<close>

text \<open>A scope is created after its parent, so \<open>parent\<close> always points to a smaller address; the
  test \<open>p < a\<close> only makes the recursion total.\<close>

function lineage :: "heap \<Rightarrow> nat \<Rightarrow> nat list" where
  "lineage h a =
     a # (case parent (cont h a) of
            None \<Rightarrow> []
          | Some p \<Rightarrow> if p < a then lineage h p else [])"
  by pat_completeness auto
termination
  by (relation "measure snd") auto

declare lineage.simps [simp del]

definition root :: "heap \<Rightarrow> nat \<Rightarrow> nat" where
  "root h a = last (lineage h a)"

definition isDisposedInHierarchy :: "heap \<Rightarrow> nat \<Rightarrow> bool" where
  "isDisposedInHierarchy h a = list_ex (\<lambda>b. disposed (cont h b)) (lineage h a)"

definition hasMulti :: "heap \<Rightarrow> nat \<Rightarrow> token \<Rightarrow> bool" where
  "hasMulti h a t = list_ex (\<lambda>b. js_has (multiRegistrations (cont h b)) t) (lineage h a)"

definition hasAncestorSingleRegistration :: "heap \<Rightarrow> nat \<Rightarrow> token \<Rightarrow> bool" where
  "hasAncestorSingleRegistration h a t =
     list_ex (\<lambda>b. js_has (registrations (cont h b)) t) (tl (lineage h a))"

definition hasAncestorMultiRegistration :: "heap \<Rightarrow> nat \<Rightarrow> token \<Rightarrow> bool" where
  "hasAncestorMultiRegistration h a t =
     list_ex (\<lambda>b. js_has (multiRegistrations (cont h b)) t) (tl (lineage h a))"

definition assertNoRegistrationConflict :: "heap \<Rightarrow> nat \<Rightarrow> token \<Rightarrow> bool \<Rightarrow> di_error option" where
  "assertNoRegistrationConflict h a t mul =
     (if mul then
        (if js_has (registrations (cont h a)) t then Some (DuplicateProvider t)
         else if hasAncestorSingleRegistration h a t then Some (DuplicateProvider t)
         else None)
      else if js_has (registrations (cont h a)) t \<or> js_has (multiRegistrations (cont h a)) t
        then Some (DuplicateProvider t)
      else if hasAncestorMultiRegistration h a t then Some (DuplicateProvider t)
      else None)"

section \<open>Lookup\<close>

fun lookup_in :: "heap \<Rightarrow> nat list \<Rightarrow> token \<Rightarrow> provider option" where
  "lookup_in h [] t = None"
| "lookup_in h (a # as) t =
     (case js_get (registrations (cont h a)) t of
        Some p \<Rightarrow> Some p
      | None \<Rightarrow> lookup_in h as t)"

fun collect_in :: "heap \<Rightarrow> nat list \<Rightarrow> token \<Rightarrow> provider list" where
  "collect_in h [] t = []"
| "collect_in h (a # as) t =
     (let local = (case js_get (multiRegistrations (cont h a)) t of None \<Rightarrow> [] | Some ps \<Rightarrow> ps)
      in if t \<in> set (multiOverriddenTokens (cont h a)) then local
         else collect_in h as t @ local)"

text \<open>The plans that the caches memoise.\<close>

definition lookupPlan :: "heap \<Rightarrow> nat \<Rightarrow> token \<Rightarrow> provider option" where
  "lookupPlan h a t = lookup_in h (lineage h a) t"

definition multiPlan :: "heap \<Rightarrow> nat \<Rightarrow> token \<Rightarrow> provider list" where
  "multiPlan h a t = collect_in h (lineage h a) t"

definition has :: "di_env \<Rightarrow> heap \<Rightarrow> nat \<Rightarrow> token \<Rightarrow> bool" where
  "has env h a t \<longleftrightarrow>
     (let n = norm_tok env t in lookupPlan h a n \<noteq> None \<or> hasMulti h a n)"

section \<open>Plan caches\<close>

text \<open>\<open>currentLineageRevision\<close>: the revisions from the root down (the code joins them with
  slashes into one string).\<close>

definition currentLineageRevision :: "heap \<Rightarrow> nat list \<Rightarrow> nat list" where
  "currentLineageRevision h as = rev (map (\<lambda>b. graphRevision (cont h b)) as)"

definition readCachedPlan :: "heap \<Rightarrow> nat list \<Rightarrow> 'v plan_cache_map \<Rightarrow> token \<Rightarrow> 'v option" where
  "readCachedPlan h as cache t =
     (case js_get cache t of
        None \<Rightarrow> None
      | Some (r, v) \<Rightarrow> if r = currentLineageRevision h as then Some v else None)"

fun lookupProvider_in :: "heap \<Rightarrow> nat list \<Rightarrow> token \<Rightarrow> provider option \<times> heap" where
  "lookupProvider_in h [] t = (None, h)"
| "lookupProvider_in h (a # as) t =
     (case readCachedPlan h (a # as) (providerLookupPlanCache (cont h a)) t of
        Some v \<Rightarrow> (v, h)
      | None \<Rightarrow>
          (let (v, h') =
             (case js_get (registrations (cont h a)) t of
                Some p \<Rightarrow> (Some p, h)
              | None \<Rightarrow> lookupProvider_in h as t)
           in (v, upd a (\<lambda>c. c\<lparr>providerLookupPlanCache :=
                  js_set (providerLookupPlanCache c) t (currentLineageRevision h' (a # as), v)\<rparr>) h')))"

definition lookupProvider :: "heap \<Rightarrow> nat \<Rightarrow> token \<Rightarrow> provider option \<times> heap" where
  "lookupProvider h a t = lookupProvider_in h (lineage h a) t"

fun collectMultiProviders_in :: "heap \<Rightarrow> nat list \<Rightarrow> token \<Rightarrow> provider list \<times> heap" where
  "collectMultiProviders_in h [] t = ([], h)"
| "collectMultiProviders_in h (a # as) t =
     (case readCachedPlan h (a # as) (multiProviderPlanCache (cont h a)) t of
        Some v \<Rightarrow> (v, h)
      | None \<Rightarrow>
          (let local = (case js_get (multiRegistrations (cont h a)) t of None \<Rightarrow> [] | Some ps \<Rightarrow> ps);
               (v, h') =
                 (if t \<in> set (multiOverriddenTokens (cont h a)) then (local, h)
                  else (let (up, h1) = collectMultiProviders_in h as t in (up @ local, h1)))
           in (v, upd a (\<lambda>c. c\<lparr>multiProviderPlanCache :=
                  js_set (multiProviderPlanCache c) t (currentLineageRevision h' (a # as), v)\<rparr>) h')))"

definition collectMultiProviders :: "heap \<Rightarrow> nat \<Rightarrow> token \<Rightarrow> provider list \<times> heap" where
  "collectMultiProviders h a t = collectMultiProviders_in h (lineage h a) t"

definition clearResolutionPlanCaches :: "container \<Rightarrow> container" where
  "clearResolutionPlanCaches c =
     c\<lparr>providerLookupPlanCache := [], multiProviderPlanCache := [],
       requestScopeVerdictPlanCache := [], effectiveProviderPlanCache := []\<rparr>"

definition advanceGraphRevision :: "container \<Rightarrow> container" where
  "advanceGraphRevision c = clearResolutionPlanCaches (c\<lparr>graphRevision := graphRevision c + 1\<rparr>)"

section \<open>Registration\<close>

definition add_registration :: "provider \<Rightarrow> container \<Rightarrow> container" where
  "add_registration p c =
     advanceGraphRevision
       (if np_multi (p_np p) then
          (case js_get (multiRegistrations c) (p_provide p) of
             Some ps \<Rightarrow> c\<lparr>multiRegistrations := js_set (multiRegistrations c) (p_provide p) (ps @ [p])\<rparr>
           | None \<Rightarrow> c\<lparr>multiRegistrations := js_set (multiRegistrations c) (p_provide p) [p]\<rparr>)
        else c\<lparr>registrations := js_set (registrations c) (p_provide p) p\<rparr>)"

definition register_one :: "di_env \<Rightarrow> nat \<Rightarrow> jsv \<Rightarrow> heap \<Rightarrow> heap \<times> di_error option" where
  "register_one env a decl h =
     (case normalizeProvider env decl of
        Inl e \<Rightarrow> (h, Some (InvalidProvider e))
      | Inr np \<Rightarrow>
          if requestScopeEnabled (cont h a) \<and> np_scope np = Singleton
          then (h, Some (SingletonOnRequestScope (np_provide np)))
          else (case assertNoRegistrationConflict h a (np_provide np) (np_multi np) of
                  Some e \<Rightarrow> (h, Some e)
                | None \<Rightarrow>
                    (let (r, h') = fresh h
                     in (upd a (add_registration \<lparr>p_ref = r, p_np = np\<rparr>) h', None))))"

definition register :: "di_env \<Rightarrow> nat \<Rightarrow> jsv list \<Rightarrow> heap \<Rightarrow> heap \<times> di_error option" where
  "register env a decls h =
     (if isDisposedInHierarchy h a then (h, Some ContainerDisposed)
      else run_until_throw (register_one env a) decls h)"

section \<open>Construction\<close>

definition new_container :: "nat option \<Rightarrow> bool \<Rightarrow> container" where
  "new_container p rs =
     \<lparr>registrations = [], multiRegistrations = [], multiOverriddenTokens = [], requestCache = [],
      multiRequestCache = [], singletonCache = [], multiSingletonCache = [],
      materializedCachePromises = [], pendingDisposables = [], staleDisposalTasks = [],
      childScopes = [], trackedByParent = False, disposed = False, disposePromise = False, graphRevision = 0, parent = p,
      requestScopeEnabled = rs, providerLookupPlanCache = [], multiProviderPlanCache = [],
      requestScopeVerdictPlanCache = [], effectiveProviderPlanCache = []\<rparr>"

definition createRoot :: "heap \<Rightarrow> nat \<times> heap" where
  "createRoot h = (length (conts h), h\<lparr>conts := conts h @ [new_container None False]\<rparr>)"

definition createRequestScope :: "nat \<Rightarrow> heap \<Rightarrow> (di_error + nat) \<times> heap" where
  "createRequestScope a h =
     (if isDisposedInHierarchy h a then (Inl ContainerDisposed, h)
      else (Inr (length (conts h)), h\<lparr>conts := conts h @ [new_container (Some a) True]\<rparr>))"

definition empty_heap :: heap where
  "empty_heap = \<lparr>conts = [], tasks = [], nextRef = 0, hookLog = []\<rparr>"

section \<open>Basic laws of the heap\<close>

named_theorems heap_simps \<open>reading a heap after an update\<close>

lemma cont_upd [heap_simps]:
  "a < length (conts h) \<Longrightarrow> cont (upd a f h) b = (if b = a then f (cont h a) else cont h b)"
  by (simp add: cont_def upd_def nth_list_update)

lemma length_upd [simp]: "length (conts (upd a f h)) = length (conts h)"
  by (simp add: upd_def)

lemma lineage_Cons: "\<exists>as. lineage h a = a # as"
  by (subst lineage.simps) blast

lemma lineage_le: "b \<in> set (lineage h a) \<Longrightarrow> b \<le> a"
proof (induction h a rule: lineage.induct)
  case (1 h a)
  have "b \<le> a" if "parent (cont h a) = Some p" "p < a" "b \<in> set (lineage h p)" for p
    using "1.IH" [OF that] that(2) by simp
  with "1.prems" show ?case
    by (cases "parent (cont h a)") (auto simp: lineage.simps [of h a] split: if_splits)
qed

text \<open>The part of a container that the plans read.\<close>

definition graph_part ::
  "container \<Rightarrow> (token, provider) js_map \<times> (token, provider list) js_map \<times> token list \<times> nat \<times> nat option" where
  "graph_part c =
     (registrations c, multiRegistrations c, multiOverriddenTokens c, graphRevision c, parent c)"

lemma lineage_cong:
  "(\<And>b. b \<in> set (lineage h a) \<Longrightarrow> parent (cont h' b) = parent (cont h b)) \<Longrightarrow> lineage h' a = lineage h a"
proof (induction h a rule: lineage.induct)
  case (1 h a)
  have same: "parent (cont h' a) = parent (cont h a)"
    by (rule "1.prems") (simp add: lineage.simps [of h a])
  have "lineage h' p = lineage h p" if "parent (cont h a) = Some p" "p < a" for p
    using "1.IH" [OF that] "1.prems" that by (simp add: lineage.simps [of h a])
  with same show ?case
    by (auto simp: lineage.simps [of h a] lineage.simps [of h' a] split: option.splits)
qed

lemma lookup_in_cong:
  "(\<And>b. b \<in> set as \<Longrightarrow> graph_part (cont h' b) = graph_part (cont h b)) \<Longrightarrow>
     lookup_in h' as t = lookup_in h as t"
  by (induction as) (auto simp: graph_part_def split: option.splits)

lemma collect_in_cong:
  "(\<And>b. b \<in> set as \<Longrightarrow> graph_part (cont h' b) = graph_part (cont h b)) \<Longrightarrow>
     collect_in h' as t = collect_in h as t"
  by (induction as) (auto simp: graph_part_def split: option.splits)

lemma revision_cong:
  "(\<And>b. b \<in> set as \<Longrightarrow> graph_part (cont h' b) = graph_part (cont h b)) \<Longrightarrow>
     currentLineageRevision h' as = currentLineageRevision h as"
  by (simp add: currentLineageRevision_def graph_part_def)

lemma lookup_in_registered:
  "lookup_in h as t = Some p \<Longrightarrow> \<exists>b \<in> set as. js_get (registrations (cont h b)) t = Some p"
  by (induction as) (auto split: option.splits)

end
