(* ===== verification/Container_Plans.thy ===== *)
theory Container_Plans
  imports Container_Registry
begin

text \<open>
  The resolution plan caches of \<open>Container\<close> return what the uncached computation returns.  The
  argument is the same for every cache, so it is made once, in the locale \<open>plan_memo\<close>: an entry
  is stamped with the revisions of the whole parent chain; every change of a registry advances the
  revision of its container, and revisions only grow.
\<close>

definition wf_heap :: "heap \<Rightarrow> bool" where
  "wf_heap h \<longleftrightarrow> (\<forall>a < length (conts h). \<forall>p. parent (cont h a) = Some p \<longrightarrow> p < a)"

abbreviation revs :: "heap \<Rightarrow> nat \<Rightarrow> nat list" where
  "revs h a \<equiv> currentLineageRevision h (lineage h a)"

text \<open>Two heaps with the same registries.\<close>

definition same_graph :: "heap \<Rightarrow> heap \<Rightarrow> bool" where
  "same_graph h h' \<longleftrightarrow>
     length (conts h') = length (conts h) \<and>
     (\<forall>b < length (conts h). graph_part (cont h' b) = graph_part (cont h b))"

text \<open>One container of the heap got a new registry and a new revision.\<close>

definition bumped :: "nat \<Rightarrow> heap \<Rightarrow> heap \<Rightarrow> bool" where
  "bumped b h h' \<longleftrightarrow>
     length (conts h') = length (conts h) \<and>
     (\<forall>c < length (conts h). c \<noteq> b \<longrightarrow> graph_part (cont h' c) = graph_part (cont h c)) \<and>
     parent (cont h' b) = parent (cont h b) \<and>
     graphRevision (cont h' b) = graphRevision (cont h b) + 1"

definition plan_part ::
  "container \<Rightarrow> provider option plan_cache_map \<times> provider list plan_cache_map \<times> bool plan_cache_map \<times>
     provider option plan_cache_map" where
  "plan_part c =
     (providerLookupPlanCache c, multiProviderPlanCache c, requestScopeVerdictPlanCache c,
      effectiveProviderPlanCache c)"

lemma lineage_bound: "a < length (conts h) \<Longrightarrow> b \<in> set (lineage h a) \<Longrightarrow> b < length (conts h)"
  using lineage_le by (meson order.strict_trans1)

lemma graph_part_parent: "graph_part c = graph_part d \<Longrightarrow> parent c = parent d"
  by (simp add: graph_part_def)

lemma same_graph_lineage:
  "same_graph h h' \<Longrightarrow> a < length (conts h) \<Longrightarrow> lineage h' a = lineage h a"
  by (rule lineage_cong) (auto simp: same_graph_def dest: lineage_bound intro: graph_part_parent)

lemma same_graph_revs:
  "same_graph h h' \<Longrightarrow> a < length (conts h) \<Longrightarrow> revs h' a = revs h a"
  by (simp add: same_graph_lineage)
    (rule revision_cong, auto simp: same_graph_def dest: lineage_bound)

lemma same_graph_refl [simp]: "same_graph h h"
  by (simp add: same_graph_def)

lemma same_graph_trans: "same_graph h h' \<Longrightarrow> same_graph h' h'' \<Longrightarrow> same_graph h h''"
  by (simp add: same_graph_def)

lemma bumped_lineage:
  assumes "bumped b h h'" and "a < length (conts h)"
  shows "lineage h' a = lineage h a"
proof (rule lineage_cong)
  fix c assume "c \<in> set (lineage h a)"
  then have "c < length (conts h)" using assms(2) lineage_bound by blast
  with assms(1) show "parent (cont h' c) = parent (cont h c)"
    by (cases "c = b") (auto simp: bumped_def graph_part_def)
qed

lemma list_all2_map_le:
  "(\<And>x. x \<in> set xs \<Longrightarrow> f x \<le> (g x :: nat)) \<Longrightarrow> list_all2 (\<le>) (map f xs) (map g xs)"
  by (induction xs) auto

lemma bumped_revs_le:
  assumes "bumped b h h'" and "a < length (conts h)"
  shows "list_all2 (\<le>) (revs h a) (revs h' a)"
proof -
  have "graphRevision (cont h c) \<le> graphRevision (cont h' c)" if "c \<in> set (lineage h a)" for c
    using assms(1) lineage_bound [OF assms(2) that]
    by (cases "c = b") (auto simp: bumped_def graph_part_def)
  then have "list_all2 (\<le>) (map (\<lambda>c. graphRevision (cont h c)) (lineage h a))
      (map (\<lambda>c. graphRevision (cont h' c)) (lineage h a))"
    by (rule list_all2_map_le)
  then show ?thesis
    by (simp add: bumped_lineage [OF assms] currentLineageRevision_def list_all2_rev)
qed

lemma list_all2_le_antisym:
  "list_all2 (\<le>) xs (ys :: nat list) \<Longrightarrow> list_all2 (\<le>) ys xs \<Longrightarrow> xs = ys"
  by (simp add: list_all2_conv_all_nth list_eq_iff_nth_eq le_antisym)

lemma list_all2_le_trans:
  "list_all2 (\<le>) xs (ys :: nat list) \<Longrightarrow> list_all2 (\<le>) ys zs \<Longrightarrow> list_all2 (\<le>) xs zs"
  by (rule list_all2_trans [of "(\<le>)" "(\<le>)" "(\<le>)"]) auto

lemma bumped_revs_neq:
  assumes "bumped b h h'" and "a < length (conts h)" and "b \<in> set (lineage h a)"
  shows "revs h a \<noteq> revs h' a"
  using assms(1,3) bumped_lineage [OF assms(1,2)]
  by (fastforce simp: currentLineageRevision_def bumped_def map_eq_conv)

locale plan_memo =
  fixes cache_of :: "container \<Rightarrow> 'v plan_cache_map"
    and plan :: "heap \<Rightarrow> nat \<Rightarrow> token \<Rightarrow> 'v"
  assumes plan_cong: "(\<And>b. b \<in> set (lineage h a) \<Longrightarrow> graph_part (cont h' b) = graph_part (cont h b)) \<Longrightarrow>
    plan h' a t = plan h a t"
begin

definition entry_ok :: "heap \<Rightarrow> nat \<Rightarrow> token \<Rightarrow> nat list \<times> 'v \<Rightarrow> bool" where
  "entry_ok h a t e \<longleftrightarrow>
     list_all2 (\<le>) (fst e) (revs h a) \<and> (fst e = revs h a \<longrightarrow> snd e = plan h a t)"

definition coherent :: "heap \<Rightarrow> bool" where
  "coherent h \<longleftrightarrow>
     (\<forall>a < length (conts h). \<forall>t e. js_get (cache_of (cont h a)) t = Some e \<longrightarrow> entry_ok h a t e)"

lemma coherentD:
  "coherent h \<Longrightarrow> a < length (conts h) \<Longrightarrow> js_get (cache_of (cont h a)) t = Some e \<Longrightarrow> entry_ok h a t e"
  by (cases e) (simp add: coherent_def)

lemma read_coherent:
  assumes "coherent h" and "a < length (conts h)"
    and "readCachedPlan h (lineage h a) (cache_of (cont h a)) t = Some v"
  shows "v = plan h a t"
  using assms by (fastforce simp: readCachedPlan_def coherent_def entry_ok_def
      split: option.splits if_splits)

lemma entry_ok_same_graph:
  assumes "same_graph h h'" and "a < length (conts h)"
  shows "entry_ok h' a t e \<longleftrightarrow> entry_ok h a t e"
proof -
  have "plan h' a t = plan h a t"
    using assms lineage_bound by (intro plan_cong) (auto simp: same_graph_def)
  then show ?thesis
    by (simp add: entry_ok_def same_graph_revs [OF assms])
qed

lemma coherent_same_graph:
  assumes "coherent h" and "same_graph h h'"
    and "\<And>a t e. a < length (conts h) \<Longrightarrow> js_get (cache_of (cont h' a)) t = Some e \<Longrightarrow>
      js_get (cache_of (cont h a)) t = Some e \<or> entry_ok h a t e"
  shows "coherent h'"
  unfolding coherent_def
proof (intro allI impI)
  fix a t e
  assume a: "a < length (conts h')" and e: "js_get (cache_of (cont h' a)) t = Some e"
  have a': "a < length (conts h)"
    using assms(2) a by (simp add: same_graph_def)
  have "entry_ok h a t e"
    using assms(3) [OF a' e] coherentD [OF assms(1) a'] by blast
  then show "entry_ok h' a t e"
    using entry_ok_same_graph [OF assms(2) a'] by simp
qed

lemma fresh_entry_ok: "a < length (conts h) \<Longrightarrow> entry_ok h a t (revs h a, plan h a t)"
  by (simp add: entry_ok_def list_all2_refl)

lemma coherent_bumped:
  assumes "coherent h" and b: "bumped b h h'"
    and old: "\<And>a. a < length (conts h) \<Longrightarrow> a \<noteq> b \<Longrightarrow> cache_of (cont h' a) = cache_of (cont h a)"
    and new: "cache_of (cont h' b) = []"
  shows "coherent h'"
  unfolding coherent_def
proof (intro allI impI)
  fix a t e
  assume "a < length (conts h')" and e: "js_get (cache_of (cont h' a)) t = Some e"
  then have a: "a < length (conts h)" and ab: "a \<noteq> b"
    using b new by (auto simp: bumped_def)
  have ok: "entry_ok h a t e"
    using coherentD [OF assms(1) a] e old [OF a ab] by simp
  have le: "list_all2 (\<le>) (fst e) (revs h' a)"
    using ok bumped_revs_le [OF b a] by (auto simp: entry_ok_def intro: list_all2_le_trans)
  have "snd e = plan h' a t" if "fst e = revs h' a"
  proof -
    have eq: "revs h a = revs h' a"
      using that ok bumped_revs_le [OF b a] list_all2_le_antisym by (auto simp: entry_ok_def)
    then have "b \<notin> set (lineage h a)"
      using bumped_revs_neq [OF b a] by blast
    then have "plan h' a t = plan h a t"
      using b lineage_bound [OF a] by (intro plan_cong) (auto simp: bumped_def)
    with ok that eq show ?thesis by (simp add: entry_ok_def)
  qed
  with le show "entry_ok h' a t e" by (simp add: entry_ok_def)
qed

lemma coherent_alloc:
  assumes "coherent h"
    and "length (conts h') = Suc (length (conts h))"
    and "\<And>b. b < length (conts h) \<Longrightarrow> cont h' b = cont h b"
    and "cache_of (cont h' (length (conts h))) = []"
  shows "coherent h'"
  unfolding coherent_def
proof (intro allI impI)
  fix a t e
  assume "a < length (conts h')" and e: "js_get (cache_of (cont h' a)) t = Some e"
  then have a: "a < length (conts h)"
    using assms(2,4) by (cases "a = length (conts h)") auto
  have lin: "lineage h' a = lineage h a"
    by (rule lineage_cong) (use assms(3) lineage_bound [OF a] in auto)
  have "plan h' a t = plan h a t"
    by (rule plan_cong) (use assms(3) lineage_bound [OF a] in auto)
  moreover have "revs h' a = revs h a"
    unfolding lin by (rule revision_cong) (use assms(3) lineage_bound [OF a] in auto)
  ultimately show "entry_ok h' a t e"
    using coherentD [OF assms(1) a] e assms(3) [OF a] by (simp add: entry_ok_def)
qed

end

interpretation lookup_memo: plan_memo providerLookupPlanCache lookupPlan
  by unfold_locales
    (simp add: lookupPlan_def, metis graph_part_parent lineage_cong lookup_in_cong)

interpretation multi_memo: plan_memo multiProviderPlanCache multiPlan
  by unfold_locales
    (simp add: multiPlan_def, metis graph_part_parent lineage_cong collect_in_cong)

section \<open>The cached lookups\<close>

text \<open>Two heaps that differ at most in the caches of one kind of plan.\<close>

definition only_lookup_cache :: "heap \<Rightarrow> heap \<Rightarrow> bool" where
  "only_lookup_cache h h' \<longleftrightarrow>
     length (conts h') = length (conts h) \<and>
     (\<forall>b. \<exists>m. cont h' b = (cont h b)\<lparr>providerLookupPlanCache := m\<rparr>)"

definition only_multi_cache :: "heap \<Rightarrow> heap \<Rightarrow> bool" where
  "only_multi_cache h h' \<longleftrightarrow>
     length (conts h') = length (conts h) \<and>
     (\<forall>b. \<exists>m. cont h' b = (cont h b)\<lparr>multiProviderPlanCache := m\<rparr>)"

lemma only_lookup_cache_refl [simp]: "only_lookup_cache h h"
proof -
  have "cont h b = (cont h b)\<lparr>providerLookupPlanCache := providerLookupPlanCache (cont h b)\<rparr>" for b
    by simp
  then show ?thesis unfolding only_lookup_cache_def by blast
qed

lemma only_multi_cache_refl [simp]: "only_multi_cache h h"
proof -
  have "cont h b = (cont h b)\<lparr>multiProviderPlanCache := multiProviderPlanCache (cont h b)\<rparr>" for b
    by simp
  then show ?thesis unfolding only_multi_cache_def by blast
qed

lemma only_lookup_cache_upd:
  assumes "only_lookup_cache h h'" and "a < length (conts h)"
  shows "only_lookup_cache h (upd a (\<lambda>c. c\<lparr>providerLookupPlanCache := f c\<rparr>) h')"
proof -
  have "\<exists>m. cont (upd a (\<lambda>c. c\<lparr>providerLookupPlanCache := f c\<rparr>) h') b = (cont h b)\<lparr>providerLookupPlanCache := m\<rparr>" for b
  proof -
    obtain m where "cont h' b = (cont h b)\<lparr>providerLookupPlanCache := m\<rparr>"
      using assms(1) by (auto simp: only_lookup_cache_def)
    then show ?thesis
      using assms by (cases "b = a") (auto simp: cont_upd only_lookup_cache_def)
  qed
  then show ?thesis
    using assms(1) by (simp add: only_lookup_cache_def)
qed

lemma only_multi_cache_upd:
  assumes "only_multi_cache h h'" and "a < length (conts h)"
  shows "only_multi_cache h (upd a (\<lambda>c. c\<lparr>multiProviderPlanCache := f c\<rparr>) h')"
proof -
  have "\<exists>m. cont (upd a (\<lambda>c. c\<lparr>multiProviderPlanCache := f c\<rparr>) h') b = (cont h b)\<lparr>multiProviderPlanCache := m\<rparr>" for b
  proof -
    obtain m where "cont h' b = (cont h b)\<lparr>multiProviderPlanCache := m\<rparr>"
      using assms(1) by (auto simp: only_multi_cache_def)
    then show ?thesis
      using assms by (cases "b = a") (auto simp: cont_upd only_multi_cache_def)
  qed
  then show ?thesis
    using assms(1) by (simp add: only_multi_cache_def)
qed

lemma only_lookup_cache_same_graph: "only_lookup_cache h h' \<Longrightarrow> same_graph h h'"
  unfolding only_lookup_cache_def same_graph_def
proof (elim conjE, intro conjI allI impI)
  fix b
  assume "\<forall>b. \<exists>m. cont h' b = (cont h b)\<lparr>providerLookupPlanCache := m\<rparr>"
  then obtain m where "cont h' b = (cont h b)\<lparr>providerLookupPlanCache := m\<rparr>"
    by blast
  then show "graph_part (cont h' b) = graph_part (cont h b)"
    by (simp add: graph_part_def)
qed

lemma only_multi_cache_same_graph: "only_multi_cache h h' \<Longrightarrow> same_graph h h'"
  unfolding only_multi_cache_def same_graph_def
proof (elim conjE, intro conjI allI impI)
  fix b
  assume "\<forall>b. \<exists>m. cont h' b = (cont h b)\<lparr>multiProviderPlanCache := m\<rparr>"
  then obtain m where "cont h' b = (cont h b)\<lparr>multiProviderPlanCache := m\<rparr>"
    by blast
  then show "graph_part (cont h' b) = graph_part (cont h b)"
    by (simp add: graph_part_def)
qed

lemma lineage_parent:
  "lineage h a = a # (case parent (cont h a) of None \<Rightarrow> [] | Some p \<Rightarrow> if p < a then lineage h p else [])"
  by (rule lineage.simps)

text \<open>Writing a correct entry keeps the cache coherent.\<close>

lemma lookup_write_coherent:
  assumes "lookup_memo.coherent h'" and "a < length (conts h')" and "v = lookupPlan h' a t"
  shows "lookup_memo.coherent
    (upd a (\<lambda>c. c\<lparr>providerLookupPlanCache := js_set (providerLookupPlanCache c) t (revs h' a, v)\<rparr>) h')"
    (is "lookup_memo.coherent ?h")
proof (rule lookup_memo.coherent_same_graph [OF assms(1)])
  show "same_graph h' ?h"
    by (rule only_lookup_cache_same_graph, rule only_lookup_cache_upd) (simp_all add: assms(2))
  fix b s e
  assume "b < length (conts h')" and "js_get (providerLookupPlanCache (cont ?h b)) s = Some e"
  then show "js_get (providerLookupPlanCache (cont h' b)) s = Some e \<or> lookup_memo.entry_ok h' b s e"
    using lookup_memo.fresh_entry_ok [OF assms(2), of t] assms(2,3)
    by (auto simp: cont_upd js_get_set split: if_splits)
qed

lemma multi_write_coherent:
  assumes "multi_memo.coherent h'" and "a < length (conts h')" and "v = multiPlan h' a t"
  shows "multi_memo.coherent
    (upd a (\<lambda>c. c\<lparr>multiProviderPlanCache := js_set (multiProviderPlanCache c) t (revs h' a, v)\<rparr>) h')"
    (is "multi_memo.coherent ?h")
proof (rule multi_memo.coherent_same_graph [OF assms(1)])
  show "same_graph h' ?h"
    by (rule only_multi_cache_same_graph, rule only_multi_cache_upd) (simp_all add: assms(2))
  fix b s e
  assume "b < length (conts h')" and "js_get (multiProviderPlanCache (cont ?h b)) s = Some e"
  then show "js_get (multiProviderPlanCache (cont h' b)) s = Some e \<or> multi_memo.entry_ok h' b s e"
    using multi_memo.fresh_entry_ok [OF assms(2), of t] assms(2,3)
    by (auto simp: cont_upd js_get_set split: if_splits)
qed

lemma lookupPlan_Cons:
  "lineage h a = a # as \<Longrightarrow>
     lookupPlan h a t = (case js_get (registrations (cont h a)) t of Some p \<Rightarrow> Some p | None \<Rightarrow> lookup_in h as t)"
  by (simp add: lookupPlan_def)

lemma lookupProvider_step:
  assumes rest: "fst (lookupProvider_in h as t) = lookup_in h as t"
    "only_lookup_cache h (snd (lookupProvider_in h as t))"
    "lookup_memo.coherent (snd (lookupProvider_in h as t))"
    and coh: "lookup_memo.coherent h" and a: "a < length (conts h)" and lin: "lineage h a = a # as"
  shows "fst (lookupProvider_in h (a # as) t) = lookupPlan h a t \<and>
    only_lookup_cache h (snd (lookupProvider_in h (a # as) t)) \<and>
    lookup_memo.coherent (snd (lookupProvider_in h (a # as) t))"
proof (cases "readCachedPlan h (a # as) (providerLookupPlanCache (cont h a)) t")
  case (Some v)
  then have "v = lookupPlan h a t"
    using lookup_memo.read_coherent [OF coh a] lin by metis
  with Some coh show ?thesis by simp
next
  case None
  obtain v h' where vh: "(case js_get (registrations (cont h a)) t of
      Some p \<Rightarrow> (Some p, h) | None \<Rightarrow> lookupProvider_in h as t) = (v, h')"
    by (cases "case js_get (registrations (cont h a)) t of
      Some p \<Rightarrow> (Some p, h) | None \<Rightarrow> lookupProvider_in h as t")
  have v: "v = lookupPlan h a t" and only: "only_lookup_cache h h'" and coh': "lookup_memo.coherent h'"
    using vh rest coh lookupPlan_Cons [OF lin, of t] by (auto split: option.splits)
  note sg = only_lookup_cache_same_graph [OF only]
  have len: "length (conts h') = length (conts h)"
    using only by (simp add: only_lookup_cache_def)
  have lin': "lineage h' a = a # as"
    using same_graph_lineage [OF sg a] lin by simp
  have v': "v = lookupPlan h' a t"
    unfolding v lookupPlan_def same_graph_lineage [OF sg a]
    by (rule lookup_in_cong [symmetric]) (use sg lineage_bound [OF a] in \<open>auto simp: same_graph_def\<close>)
  have "lookup_memo.coherent (upd a (\<lambda>c. c\<lparr>providerLookupPlanCache :=
      js_set (providerLookupPlanCache c) t (currentLineageRevision h' (a # as), v)\<rparr>) h')"
    using lookup_write_coherent [OF coh' _ v'] a len lin' by simp
  moreover have "only_lookup_cache h (upd a (\<lambda>c. c\<lparr>providerLookupPlanCache :=
      js_set (providerLookupPlanCache c) t (currentLineageRevision h' (a # as), v)\<rparr>) h')"
    by (rule only_lookup_cache_upd [OF only a])
  ultimately show ?thesis
    using None vh v by simp
qed

lemma lookupProvider_correct:
  assumes "lookup_memo.coherent h" and "a < length (conts h)"
  shows "fst (lookupProvider h a t) = lookupPlan h a t \<and>
    only_lookup_cache h (snd (lookupProvider h a t)) \<and>
    lookup_memo.coherent (snd (lookupProvider h a t))"
  using assms
proof (induction h a rule: lineage.induct)
  case (1 h a)
  show ?case
  proof (cases "\<exists>p. parent (cont h a) = Some p \<and> p < a")
    case True
    then obtain p where p: "parent (cont h a) = Some p" "p < a" by blast
    have lin: "lineage h a = a # lineage h p"
      using p by (subst lineage_parent) simp
    have ih: "fst (lookupProvider_in h (lineage h p) t) = lookup_in h (lineage h p) t \<and>
        only_lookup_cache h (snd (lookupProvider_in h (lineage h p) t)) \<and>
        lookup_memo.coherent (snd (lookupProvider_in h (lineage h p) t))"
      using "1.IH" [OF p "1.prems"(1)] p(2) "1.prems"(2)
      unfolding lookupProvider_def lookupPlan_def [of h p t] by simp
    show ?thesis
      unfolding lookupProvider_def lin using ih by (intro lookupProvider_step [OF _ _ _ "1.prems" lin]) blast+
  next
    case False
    then have lin: "lineage h a = [a]"
      by (subst lineage_parent) (auto split: option.splits)
    show ?thesis
      unfolding lookupProvider_def lin
      by (intro lookupProvider_step [OF _ _ _ "1.prems" lin]) (simp_all add: "1.prems"(1))
  qed
qed

lemma collectMultiProviders_step:
  assumes rest: "fst (collectMultiProviders_in h as t) = collect_in h as t"
    "only_multi_cache h (snd (collectMultiProviders_in h as t))"
    "multi_memo.coherent (snd (collectMultiProviders_in h as t))"
    and coh: "multi_memo.coherent h" and a: "a < length (conts h)" and lin: "lineage h a = a # as"
  shows "fst (collectMultiProviders_in h (a # as) t) = multiPlan h a t \<and>
    only_multi_cache h (snd (collectMultiProviders_in h (a # as) t)) \<and>
    multi_memo.coherent (snd (collectMultiProviders_in h (a # as) t))"
proof (cases "readCachedPlan h (a # as) (multiProviderPlanCache (cont h a)) t")
  case (Some v)
  then have "v = multiPlan h a t"
    using multi_memo.read_coherent [OF coh a] lin by metis
  with Some coh show ?thesis by simp
next
  case None
  define local where "local = (case js_get (multiRegistrations (cont h a)) t of None \<Rightarrow> [] | Some ps \<Rightarrow> ps)"
  obtain v h' where vh: "(if t \<in> set (multiOverriddenTokens (cont h a)) then (local, h)
      else (let (up, h1) = collectMultiProviders_in h as t in (up @ local, h1))) = (v, h')"
    by (cases "if t \<in> set (multiOverriddenTokens (cont h a)) then (local, h)
      else (let (up, h1) = collectMultiProviders_in h as t in (up @ local, h1))")
  have v: "v = multiPlan h a t" and only: "only_multi_cache h h'" and coh': "multi_memo.coherent h'"
    using vh rest coh by (auto simp: multiPlan_def lin local_def [symmetric] split: if_splits prod.splits)
  note sg = only_multi_cache_same_graph [OF only]
  have len: "length (conts h') = length (conts h)"
    using only by (simp add: only_multi_cache_def)
  have lin': "lineage h' a = a # as"
    using same_graph_lineage [OF sg a] lin by simp
  have v': "v = multiPlan h' a t"
    unfolding v multiPlan_def same_graph_lineage [OF sg a]
    by (rule collect_in_cong [symmetric]) (use sg lineage_bound [OF a] in \<open>auto simp: same_graph_def\<close>)
  have "multi_memo.coherent (upd a (\<lambda>c. c\<lparr>multiProviderPlanCache :=
      js_set (multiProviderPlanCache c) t (currentLineageRevision h' (a # as), v)\<rparr>) h')"
    using multi_write_coherent [OF coh' _ v'] a len lin' by simp
  moreover have "only_multi_cache h (upd a (\<lambda>c. c\<lparr>multiProviderPlanCache :=
      js_set (multiProviderPlanCache c) t (currentLineageRevision h' (a # as), v)\<rparr>) h')"
    by (rule only_multi_cache_upd [OF only a])
  ultimately show ?thesis
    using None vh v by (simp add: local_def [symmetric])
qed

lemma collectMultiProviders_correct:
  assumes "multi_memo.coherent h" and "a < length (conts h)"
  shows "fst (collectMultiProviders h a t) = multiPlan h a t \<and>
    only_multi_cache h (snd (collectMultiProviders h a t)) \<and>
    multi_memo.coherent (snd (collectMultiProviders h a t))"
  using assms
proof (induction h a rule: lineage.induct)
  case (1 h a)
  show ?case
  proof (cases "\<exists>p. parent (cont h a) = Some p \<and> p < a")
    case True
    then obtain p where p: "parent (cont h a) = Some p" "p < a" by blast
    have lin: "lineage h a = a # lineage h p"
      using p by (subst lineage_parent) simp
    have ih: "fst (collectMultiProviders_in h (lineage h p) t) = collect_in h (lineage h p) t \<and>
        only_multi_cache h (snd (collectMultiProviders_in h (lineage h p) t)) \<and>
        multi_memo.coherent (snd (collectMultiProviders_in h (lineage h p) t))"
      using "1.IH" [OF p "1.prems"(1)] p(2) "1.prems"(2)
      unfolding collectMultiProviders_def multiPlan_def [of h p t] by simp
    show ?thesis
      unfolding collectMultiProviders_def lin using ih by (intro collectMultiProviders_step [OF _ _ _ "1.prems" lin]) blast+
  next
    case False
    then have lin: "lineage h a = [a]"
      by (subst lineage_parent) (auto split: option.splits)
    show ?thesis
      unfolding collectMultiProviders_def lin
      by (intro collectMultiProviders_step [OF _ _ _ "1.prems" lin]) (simp_all add: "1.prems"(1))
  qed
qed

end
