(* ===== verification/Path_Search.thy ===== *)
theory Path_Search
  imports Fluo_Prelude
begin

text \<open>
  The contract of the depth-first searches that carry the nodes of the current path.  A node
  expands to a list of actions, taken in order: \<open>Inl r\<close> offers the answer \<open>r\<close>, \<open>Inr m\<close> visits
  the node \<open>m\<close>.  The search stops at the first answer other than \<open>neg\<close>; a node that is already
  on the path answers \<open>revisit\<close>.  The lemmas show that enough fuel makes the search return,
  that with \<open>revisit = neg\<close> it decides reachability of an answer, and that with
  \<open>revisit \<noteq> neg\<close> it also detects cycles.  \<open>dom\<close> are the nodes the contract speaks of.
\<close>

definition act_edges :: "('n \<Rightarrow> ('r + 'n) list) \<Rightarrow> 'n set \<Rightarrow> ('n \<times> 'n) set" where
  "act_edges acts avoid = {(n, m). Inr m \<in> set (acts n) \<and> m \<notin> avoid}"

definition answers :: "('n \<Rightarrow> ('r + 'n) list) \<Rightarrow> 'n \<Rightarrow> 'r set" where
  "answers acts n = {r. Inl r \<in> set (acts n)}"

fun walk :: "('n \<times> 'n) set \<Rightarrow> 'n \<Rightarrow> 'n list \<Rightarrow> bool" where
  "walk E n [] = True"
| "walk E n (m # ms) = ((n, m) \<in> E \<and> walk E m ms)"

lemma walk_append: "walk E n (xs @ y # ys) \<Longrightarrow> walk E y ys"
  by (induction xs arbitrary: n) auto

lemma rtrancl_simple_walk:
  assumes "(n, m) \<in> E\<^sup>*"
  shows "\<exists>ps. walk E n ps \<and> distinct (n # ps) \<and> last (n # ps) = m"
  using assms
proof (induction rule: converse_rtrancl_induct)
  case base
  have "walk E m [] \<and> distinct [m] \<and> last [m] = m" by simp
  then show ?case by blast
next
  case (step n n')
  then obtain ps where ps: "walk E n' ps" "distinct (n' # ps)" "last (n' # ps) = m"
    by blast
  show ?case
  proof (cases "n \<in> set (n' # ps)")
    case True
    then obtain as bs where split: "n' # ps = as @ n # bs"
      by (meson split_list)
    with ps have "walk E n bs" by (cases as) (auto dest: walk_append)
    moreover have "distinct (n # bs)" using ps(2) unfolding split by simp
    moreover have "last (n # bs) = m" using ps(3) unfolding split by simp
    ultimately show ?thesis by blast
  next
    case False
    with ps step.hyps(1) have "walk E n (n' # ps) \<and> distinct (n # n' # ps) \<and> last (n # n' # ps) = m"
      by simp
    then show ?thesis by blast
  qed
qed

lemma cycle_long_walk:
  assumes "(n, m) \<in> E\<^sup>*" and "(m, m) \<in> E\<^sup>+"
  shows "\<exists>ps. walk E n ps \<and> k \<le> length ps"
proof -
  have on: "\<exists>m'. (m, m') \<in> E \<and> (m', m) \<in> E\<^sup>*"
    using assms(2) by (rule tranclD)
  have step: "\<exists>x'. (x, x') \<in> E \<and> (x', m) \<in> E\<^sup>*" if "(x, m) \<in> E\<^sup>*" for x
    using that on by (cases rule: converse_rtranclE) blast+
  have "\<exists>ps. walk E x ps \<and> length ps = k" if "(x, m) \<in> E\<^sup>*" for x
    using that
  proof (induction k arbitrary: x)
    case 0
    have "walk E x [] \<and> length ([] :: 'a list) = 0" by simp
    then show ?case by blast
  next
    case (Suc k)
    obtain x' where x': "(x, x') \<in> E" "(x', m) \<in> E\<^sup>*"
      using step [OF Suc.prems] by blast
    obtain ps where "walk E x' ps" "length ps = k"
      using Suc.IH [OF x'(2)] by blast
    with x' have "walk E x (x' # ps) \<and> length (x' # ps) = Suc k" by simp
    then show ?case by blast
  qed
  then show ?thesis using assms(1) by fastforce
qed

locale path_search =
  fixes acts :: "'n \<Rightarrow> ('r + 'n) list"
    and neg :: 'r
    and revisit :: 'r
    and dom :: "'n \<Rightarrow> bool"
    and search :: "nat \<Rightarrow> 'n list \<Rightarrow> 'n \<Rightarrow> 'r option"
  assumes search_0: "dom n \<Longrightarrow> search 0 vis n = None"
    and search_Suc: "dom n \<Longrightarrow> search (Suc k) vis n =
          (if n \<in> set vis then Some revisit
           else first_opt neg (case_sum Some (search k (n # vis))) (acts n))"
    and dom_acts: "dom n \<Longrightarrow> Inr m \<in> set (acts n) \<Longrightarrow> dom m"
begin

lemma search_defined:
  assumes "finite U" and "\<And>u m. u \<in> U \<Longrightarrow> Inr m \<in> set (acts u) \<Longrightarrow> m \<in> U"
    and "n \<in> U" and "card (U - set vis) < k" and "dom n"
  shows "search k vis n \<noteq> None"
  using assms(3,4,5)
proof (induction k arbitrary: vis n)
  case (Suc k)
  show ?case
  proof (cases "n \<in> set vis")
    case False
    have "card (U - set (n # vis)) < card (U - set vis)"
      by (rule psubset_card_mono) (use assms(1) False Suc.prems(1) in auto)
    with Suc.prems(2) have "card (U - set (n # vis)) < k" by simp
    then have "search k (n # vis) m \<noteq> None" if "Inr m \<in> set (acts n)" for m
      using Suc.IH assms(2) [OF Suc.prems(1) that] dom_acts [OF Suc.prems(3) that] by blast
    then have "first_opt neg (case_sum Some (search k (n # vis))) (acts n) \<noteq> None"
      by (intro first_opt_defined) (auto split: sum.splits)
    then show ?thesis
      using False by (simp add: search_Suc [OF Suc.prems(3)])
  qed (simp add: search_Suc [OF Suc.prems(3)])
qed simp

lemma search_neg_Suc:
  "search (Suc k) vis n = Some neg \<Longrightarrow> n \<notin> set vis \<Longrightarrow> dom n \<Longrightarrow>
     (\<forall>r \<in> answers acts n. r = neg) \<and>
     (\<forall>m. Inr m \<in> set (acts n) \<longrightarrow> search k (n # vis) m = Some neg)"
  by (auto simp: search_Suc first_opt_neg_iff answers_def)

lemma search_neg_walk:
  assumes "search k vis n = Some neg" and "walk (act_edges acts V) n ps"
    and "distinct (n # ps)" and "set (n # ps) \<inter> set vis = {}" and "dom n"
  shows "\<forall>r \<in> answers acts (last (n # ps)). r = neg"
  using assms
proof (induction ps arbitrary: k vis n)
  case Nil
  then show ?case
    using search_neg_Suc [of "k - 1" vis n] by (cases k) (auto simp: search_0)
next
  case (Cons m ms)
  obtain k' where k: "k = Suc k'"
    using Cons.prems(1,5) by (cases k) (auto simp: search_0)
  have "Inr m \<in> set (acts n)"
    using Cons.prems(2) by (simp add: act_edges_def)
  then have "search k' (n # vis) m = Some neg"
    using search_neg_Suc [of k' vis n] Cons.prems(1,4,5) k by simp
  from Cons.IH [OF this] Cons.prems(2,3,4) dom_acts [OF Cons.prems(5) \<open>Inr m \<in> set (acts n)\<close>]
  show ?case by auto
qed

lemma search_hit:
  assumes "search k vis n = Some r" and "r \<noteq> neg" and "revisit = neg" and "dom n"
  shows "n \<notin> set vis \<and> (\<exists>m. (n, m) \<in> (act_edges acts (set vis))\<^sup>* \<and> r \<in> answers acts m)"
  using assms(1,4)
proof (induction k arbitrary: vis n)
  case (Suc k)
  have n: "n \<notin> set vis"
    using Suc.prems assms(2,3) by (auto simp: search_Suc split: if_splits)
  then obtain a where a: "a \<in> set (acts n)" "case_sum Some (search k (n # vis)) a = Some r"
    using Suc.prems(1) first_opt_hit [OF _ assms(2)] by (fastforce simp: search_Suc [OF Suc.prems(2)])
  show ?case
  proof (cases a)
    case (Inl r')
    with a have "r \<in> answers acts n" by (simp add: answers_def)
    with n show ?thesis by blast
  next
    case (Inr m)
    with a Suc.IH [of "n # vis" m] dom_acts [OF Suc.prems(2), of m] obtain m' where
      m': "m \<notin> set (n # vis)" "(m, m') \<in> (act_edges acts (set (n # vis)))\<^sup>*" "r \<in> answers acts m'"
      by auto
    have "(act_edges acts (set (n # vis)))\<^sup>* \<subseteq> (act_edges acts (set vis))\<^sup>*"
      by (rule rtrancl_mono) (auto simp: act_edges_def)
    moreover have "(n, m) \<in> act_edges acts (set vis)"
      using a(1) Inr m'(1) by (simp add: act_edges_def)
    ultimately have "(n, m') \<in> (act_edges acts (set vis))\<^sup>*"
      using m'(2) by (meson converse_rtrancl_into_rtrancl subsetD)
    with n m'(3) show ?thesis by blast
  qed
qed (simp add: search_0)

lemma walk_avoids: "walk (act_edges acts V) n ps \<Longrightarrow> set ps \<inter> V = {}"
  by (induction ps arbitrary: n) (auto simp: act_edges_def)

text \<open>With \<open>revisit = neg\<close> the search decides whether an answer can be reached.\<close>

lemma search_iff_reachable:
  assumes "search k vis n = Some r" and "revisit = neg" and "n \<notin> set vis" and "dom n"
  shows "r = neg \<longleftrightarrow>
    (\<forall>m. (n, m) \<in> (act_edges acts (set vis))\<^sup>* \<longrightarrow> (\<forall>r' \<in> answers acts m. r' = neg))"
proof
  assume r: "r = neg"
  show "\<forall>m. (n, m) \<in> (act_edges acts (set vis))\<^sup>* \<longrightarrow> (\<forall>r' \<in> answers acts m. r' = neg)"
  proof (intro allI impI)
    fix m
    assume reach: "(n, m) \<in> (act_edges acts (set vis))\<^sup>*"
    obtain ps where ps: "walk (act_edges acts (set vis)) n ps" "distinct (n # ps)" "last (n # ps) = m"
      using rtrancl_simple_walk [OF reach] by auto
    have avoid: "set (n # ps) \<inter> set vis = {}"
      using assms(3) walk_avoids [OF ps(1)] by simp
    show "\<forall>r' \<in> answers acts m. r' = neg"
      using search_neg_walk [OF assms(1) [unfolded r] ps(1,2) avoid assms(4)] unfolding ps(3) .
  qed
next
  assume none: "\<forall>m. (n, m) \<in> (act_edges acts (set vis))\<^sup>* \<longrightarrow> (\<forall>r' \<in> answers acts m. r' = neg)"
  show "r = neg"
  proof (rule ccontr)
    assume r: "r \<noteq> neg"
    obtain m where "(n, m) \<in> (act_edges acts (set vis))\<^sup>*" "r \<in> answers acts m"
      using search_hit [OF assms(1) r assms(2,4)] by auto
    with none r show False by simp
  qed
qed

text \<open>With \<open>revisit \<noteq> neg\<close> a negative answer also excludes every cycle.\<close>

lemma search_neg_bounded:
  assumes "search k vis n = Some neg" and "revisit \<noteq> neg" and "walk (act_edges acts {}) n ps" and "dom n"
  shows "length ps < k \<and> (\<forall>r \<in> answers acts (last (n # ps)). r = neg)"
  using assms(1,3,4)
proof (induction k arbitrary: vis n ps)
  case (Suc k)
  have n: "n \<notin> set vis"
    using Suc.prems(1) assms(2) by (auto simp: search_Suc [OF Suc.prems(3)] split: if_splits)
  note now = search_neg_Suc [OF Suc.prems(1) n Suc.prems(3)]
  show ?case
  proof (cases ps)
    case Nil
    with now show ?thesis by simp
  next
    case (Cons m ms)
    with Suc.prems(2) have "Inr m \<in> set (acts n)" "walk (act_edges acts {}) m ms"
      by (auto simp: act_edges_def)
    with now have "search k (n # vis) m = Some neg" by blast
    from Suc.IH [OF this \<open>walk (act_edges acts {}) m ms\<close> dom_acts [OF Suc.prems(3) \<open>Inr m \<in> set (acts n)\<close>]]
      Cons show ?thesis by simp
  qed
qed (simp add: search_0)

lemma search_cycle_hit:
  assumes "search k vis n = Some r" and "r \<noteq> neg"
    and "\<forall>v \<in> set vis. (v, n) \<in> (act_edges acts {})\<^sup>+" and "dom n"
  shows "(\<exists>m. (n, m) \<in> (act_edges acts {})\<^sup>* \<and> r \<in> answers acts m) \<or>
    (r = revisit \<and> (\<exists>m. (n, m) \<in> (act_edges acts {})\<^sup>* \<and> (m, m) \<in> (act_edges acts {})\<^sup>+))"
  using assms(1,3,4)
proof (induction k arbitrary: vis n)
  case (Suc k)
  let ?E = "act_edges acts {}"
  show ?case
  proof (cases "n \<in> set vis")
    case True
    with Suc.prems show ?thesis by (auto simp: search_Suc [OF Suc.prems(3)])
  next
    case False
    then obtain a where a: "a \<in> set (acts n)" "case_sum Some (search k (n # vis)) a = Some r"
      using Suc.prems(1) first_opt_hit [OF _ assms(2)] by (fastforce simp: search_Suc [OF Suc.prems(3)])
    show ?thesis
    proof (cases a)
      case (Inl r')
      with a have "r \<in> answers acts n" by (simp add: answers_def)
      then show ?thesis by blast
    next
      case (Inr m)
      have nm: "(n, m) \<in> ?E" using a(1) Inr by (simp add: act_edges_def)
      then have "\<forall>v \<in> set (n # vis). (v, m) \<in> ?E\<^sup>+"
        using Suc.prems(2) by (auto intro: trancl_into_trancl)
      with a Inr Suc.IH [of "n # vis" m] nm dom_acts [OF Suc.prems(3), of m] show ?thesis
        by (auto intro: converse_rtrancl_into_rtrancl)
    qed
  qed
qed (simp add: search_0)

lemma search_neg_iff_acyclic:
  assumes "search k [] n = Some r" and "revisit \<noteq> neg" and "dom n"
  shows "r = neg \<longleftrightarrow>
    (\<forall>m. (n, m) \<in> (act_edges acts {})\<^sup>* \<longrightarrow>
      (\<forall>r' \<in> answers acts m. r' = neg) \<and> (m, m) \<notin> (act_edges acts {})\<^sup>+)"
    (is "_ \<longleftrightarrow> ?free")
proof
  assume r: "r = neg"
  note bounded = search_neg_bounded [OF assms(1) [unfolded r] assms(2) _ assms(3)]
  show ?free
  proof (intro allI impI conjI)
    fix m
    assume reach: "(n, m) \<in> (act_edges acts {})\<^sup>*"
    then show "\<forall>r' \<in> answers acts m. r' = neg"
      using rtrancl_simple_walk [OF reach] bounded by blast
    show "(m, m) \<notin> (act_edges acts {})\<^sup>+"
      using cycle_long_walk [OF reach, of k] bounded by (meson leD)
  qed
next
  assume ?free
  then show "r = neg"
    using search_cycle_hit [OF assms(1)] assms(3) by auto
qed

end

end
