(* ===== verification/Container_Analysis.thy ===== *)
theory Container_Analysis
  imports Container_Plans Path_Search
begin

text \<open>
  The three searches of \<open>packages/di/src/container.ts\<close> over the dependency graph:
  \<open>hasRequestScopedDependency\<close>, \<open>findRequestScopedDependency\<close> (behind
  \<open>assertSingletonDependencyScopes\<close>) and \<open>providerDependsOnToken\<close> (which cached entries an
  override invalidates), and the alias walk \<open>resolveEffectiveProvider\<close>.

  A helper method of the code that calls back into the search takes the search as its argument
  \<open>rec\<close>.  A search spends one unit of fuel per node on the current path; \<open>search_fuel\<close> is
  one more than the number of tokens that can be on it, and the lemmas show that it suffices.
  Lookups go through the plans, which the cached lookups equal (\<open>Container_Plans\<close>).
\<close>

section \<open>Dependency entries\<close>

text \<open>An entry of \<open>@Inject\<close> metadata; what is no injection token resolves to nothing.\<close>

definition raw_entry :: "js_runtime \<Rightarrow> jsv \<Rightarrow> inject_token option" where
  "raw_entry rt v =
     (if isForwardRefToken v then
        (case js_field v ''forwardRef'' of JFun f \<Rightarrow> Some (ForwardRefTok f) | _ \<Rightarrow> None)
      else if isOptionalInjectToken v then map_option OptionalTok (as_token rt (js_field v ''token''))
      else map_option PlainTok (as_token rt v))"

definition inject_entries :: "js_runtime \<Rightarrow> jsv \<Rightarrow> inject_token list" where
  "inject_entries rt ij = (case ij of JArr ts \<Rightarrow> List.map_filter (raw_entry rt) ts | _ \<Rightarrow> [])"

definition metadata_entries :: "di_env \<Rightarrow> nat \<Rightarrow> inject_token list" where
  "metadata_entries env c = inject_entries (env_rt env) (opt_inject (class_metadata env c))"

definition is_optional :: "inject_token \<Rightarrow> bool" where
  "is_optional e = (case e of OptionalTok _ \<Rightarrow> True | _ \<Rightarrow> False)"

definition resolveProviderDependencyToken :: "di_env \<Rightarrow> inject_token \<Rightarrow> token" where
  "resolveProviderDependencyToken env e =
     (case e of
        ForwardRefTok f \<Rightarrow> norm_tok env (thunk (env_rt env) f)
      | OptionalTok t \<Rightarrow> norm_tok env t
      | PlainTok t \<Rightarrow> norm_tok env t)"

definition skipped :: "di_env \<Rightarrow> heap \<Rightarrow> nat \<Rightarrow> inject_token \<Rightarrow> bool" where
  "skipped env h a e \<longleftrightarrow> is_optional e \<and> \<not> has env h a (resolveProviderDependencyToken env e)"

definition dep_tokens :: "di_env \<Rightarrow> heap \<Rightarrow> nat \<Rightarrow> inject_token list \<Rightarrow> token list" where
  "dep_tokens env h a es =
     map (resolveProviderDependencyToken env) (filter (\<lambda>e. \<not> skipped env h a e) es)"

section \<open>hasRequestScopedDependency\<close>

definition dependencyEntryRequiresRequestScope ::
  "di_env \<Rightarrow> heap \<Rightarrow> nat \<Rightarrow> (token \<Rightarrow> bool option) \<Rightarrow> inject_token \<Rightarrow> bool option" where
  "dependencyEntryRequiresRequestScope env h a rec e =
     (let dt = resolveProviderDependencyToken env e
      in if is_optional e \<and> \<not> has env h a dt then Some False else rec dt)"

definition normalizedProviderRequiresRequestScope ::
  "di_env \<Rightarrow> heap \<Rightarrow> nat \<Rightarrow> (token \<Rightarrow> bool option) \<Rightarrow> provider \<Rightarrow> bool option" where
  "normalizedProviderRequiresRequestScope env h a rec p =
     (if p_scope p = Request then Some True
      else (case p_strategy p of
              UseExisting t \<Rightarrow> rec t
            | _ \<Rightarrow> first_opt False (dependencyEntryRequiresRequestScope env h a rec) (p_inject p)))"

definition unregisteredClassRequiresRequestScope ::
  "di_env \<Rightarrow> heap \<Rightarrow> nat \<Rightarrow> (token \<Rightarrow> bool option) \<Rightarrow> token \<Rightarrow> bool option" where
  "unregisteredClassRequiresRequestScope env h a rec t =
     (case t of
        ClassTok c \<Rightarrow>
          if opt_scope (class_metadata env c) = JStr ''request'' then Some True
          else first_opt False (dependencyEntryRequiresRequestScope env h a rec) (metadata_entries env c)
      | _ \<Rightarrow> Some False)"

definition option_list :: "'a option \<Rightarrow> 'a list" where
  "option_list o' = (case o' of None \<Rightarrow> [] | Some x \<Rightarrow> [x])"

fun providerGraphRequiresRequestScope ::
  "di_env \<Rightarrow> heap \<Rightarrow> nat \<Rightarrow> nat \<Rightarrow> token list \<Rightarrow> token \<Rightarrow> bool option" where
  "providerGraphRequiresRequestScope env h a 0 vis t = None"
| "providerGraphRequiresRequestScope env h a (Suc k) vis t =
     (if t \<in> set vis then Some True
      else (let rec = providerGraphRequiresRequestScope env h a k (t # vis);
                p = lookupPlan h a t;
                ms = multiPlan h a t
            in if p = None \<and> ms = [] then unregisteredClassRequiresRequestScope env h a rec t
               else first_opt False (normalizedProviderRequiresRequestScope env h a rec)
                      (option_list p @ ms)))"

section \<open>The alias walk\<close>

fun resolveEffectiveProvider ::
  "heap \<Rightarrow> nat \<Rightarrow> nat \<Rightarrow> token list \<Rightarrow> token \<Rightarrow> (di_error + provider option) option" where
  "resolveEffectiveProvider h a 0 vis t = None"
| "resolveEffectiveProvider h a (Suc k) vis t =
     (if t \<in> set vis then Some (Inl (CircularDependency (rev vis @ [t])))
      else (case lookupPlan h a t of
              None \<Rightarrow> Some (Inr None)
            | Some p \<Rightarrow>
                (case p_strategy p of
                   UseExisting t' \<Rightarrow> resolveEffectiveProvider h a k (t # vis) t'
                 | _ \<Rightarrow> Some (Inr (Some p)))))"

section \<open>findRequestScopedDependency\<close>

type_synonym find_result = "di_error + token option"

definition findRequestScopedDependency ::
  "di_env \<Rightarrow> heap \<Rightarrow> nat \<Rightarrow> (token \<Rightarrow> find_result option) \<Rightarrow> inject_token list \<Rightarrow> find_result option" where
  "findRequestScopedDependency env h a rec es =
     first_opt (Inr None)
       (\<lambda>e. let dt = resolveProviderDependencyToken env e
            in if is_optional e \<and> \<not> has env h a dt then Some (Inr None) else rec dt) es"

definition multi_request_scope ::
  "di_env \<Rightarrow> heap \<Rightarrow> nat \<Rightarrow> (token \<Rightarrow> find_result option) \<Rightarrow> provider \<Rightarrow> find_result option" where
  "multi_request_scope env h a rec m =
     (if p_scope m = Request then Some (Inr (Some (p_provide m)))
      else (case p_strategy m of
              UseExisting t \<Rightarrow> rec t
            | _ \<Rightarrow> findRequestScopedDependency env h a rec (p_inject m)))"

fun findRequestScopedMultiContribution ::
  "di_env \<Rightarrow> heap \<Rightarrow> nat \<Rightarrow> (token \<Rightarrow> find_result option) \<Rightarrow> nat \<Rightarrow> token list \<Rightarrow> token \<Rightarrow>
     find_result option" where
  "findRequestScopedMultiContribution env h a rec 0 seen t = None"
| "findRequestScopedMultiContribution env h a rec (Suc k) seen t =
     (if t \<in> set seen then Some (Inr None)
      else (case first_opt (Inr None) (multi_request_scope env h a rec) (multiPlan h a t) of
              None \<Rightarrow> None
            | Some r \<Rightarrow>
                if r \<noteq> Inr None then Some r
                else (case lookupPlan h a t of
                        None \<Rightarrow> Some (Inr None)
                      | Some p \<Rightarrow>
                          (case p_strategy p of
                             UseExisting t' \<Rightarrow>
                               findRequestScopedMultiContribution env h a rec k (t # seen) t'
                           | _ \<Rightarrow> Some (Inr None)))))"

definition single_request_scope ::
  "di_env \<Rightarrow> heap \<Rightarrow> nat \<Rightarrow> (token \<Rightarrow> find_result option) \<Rightarrow> token \<Rightarrow> di_error + provider option \<Rightarrow>
     find_result option" where
  "single_request_scope env h a rec t eff =
     (case eff of
        Inl e \<Rightarrow> Some (Inl e)
      | Inr (Some p) \<Rightarrow>
          if p_scope p = Request then Some (Inr (Some (p_provide p)))
          else findRequestScopedDependency env h a rec (p_inject p)
      | Inr None \<Rightarrow>
          (case t of
             ClassTok c \<Rightarrow>
               if opt_scope (class_metadata env c) = JStr ''request'' then Some (Inr (Some t))
               else findRequestScopedDependency env h a rec (metadata_entries env c)
           | _ \<Rightarrow> Some (Inr None)))"

text \<open>\<open>alias_fuel\<close> bounds the two alias walks made at one node.\<close>

fun findRequestScopedDependencyToken ::
  "di_env \<Rightarrow> heap \<Rightarrow> nat \<Rightarrow> nat \<Rightarrow> nat \<Rightarrow> token list \<Rightarrow> token \<Rightarrow> find_result option" where
  "findRequestScopedDependencyToken env h a alias_fuel 0 vis t = None"
| "findRequestScopedDependencyToken env h a alias_fuel (Suc k) vis t =
     (if t \<in> set vis then Some (Inr None)
      else (let rec = findRequestScopedDependencyToken env h a alias_fuel k (t # vis) in
            case findRequestScopedMultiContribution env h a rec alias_fuel [] t of
              None \<Rightarrow> None
            | Some r \<Rightarrow>
                if r \<noteq> Inr None then Some r
                else (case resolveEffectiveProvider h a alias_fuel [] t of
                        None \<Rightarrow> None
                      | Some eff \<Rightarrow> single_request_scope env h a rec t eff)))"

section \<open>providerDependsOnToken\<close>

definition providerDependsOnToken ::
  "di_env \<Rightarrow> (token \<Rightarrow> bool option) \<Rightarrow> provider \<Rightarrow> bool option" where
  "providerDependsOnToken env rec p =
     (case p_strategy p of
        UseExisting t \<Rightarrow> rec t
      | _ \<Rightarrow> first_opt False (\<lambda>e. rec (resolveProviderDependencyToken env e)) (p_inject p))"

fun dependencyTokenReferencesToken ::
  "di_env \<Rightarrow> heap \<Rightarrow> nat \<Rightarrow> token \<Rightarrow> nat \<Rightarrow> token list \<Rightarrow> token \<Rightarrow> bool option" where
  "dependencyTokenReferencesToken env h a tok 0 vis d = (if d = tok then Some True else None)"
| "dependencyTokenReferencesToken env h a tok (Suc k) vis d =
     (if d = tok then Some True
      else if d \<in> set vis then Some False
      else (let rec = dependencyTokenReferencesToken env h a tok k (d # vis)
            in first_opt False (providerDependsOnToken env rec)
                 (option_list (lookupPlan h a d) @ multiPlan h a d)))"

section \<open>Fuel\<close>

definition provider_targets :: "di_env \<Rightarrow> provider \<Rightarrow> token list" where
  "provider_targets env p =
     (case p_strategy p of UseExisting t \<Rightarrow> [t] | _ \<Rightarrow> []) @
     map (resolveProviderDependencyToken env) (p_inject p)"

definition all_providers :: "heap \<Rightarrow> nat \<Rightarrow> provider list" where
  "all_providers h a =
     concat (map (\<lambda>b. map snd (registrations (cont h b)) @
                      concat (map snd (multiRegistrations (cont h b)))) (lineage h a))"

definition dep_universe :: "di_env \<Rightarrow> heap \<Rightarrow> nat \<Rightarrow> token list" where
  "dep_universe env h a =
     concat (map (provider_targets env) (all_providers h a)) @
     concat (map (\<lambda>(c, md). map (resolveProviderDependencyToken env)
        (inject_entries (env_rt env) (freezeInjectMetadata (di_inject md)))) (env_di env))"

definition search_fuel :: "di_env \<Rightarrow> heap \<Rightarrow> nat \<Rightarrow> nat" where
  "search_fuel env h a = length (dep_universe env h a) + 2"

section \<open>The entry points\<close>

definition request_scope_verdict :: "di_env \<Rightarrow> heap \<Rightarrow> nat \<Rightarrow> token \<Rightarrow> bool" where
  "request_scope_verdict env h a t =
     (providerGraphRequiresRequestScope env h a (search_fuel env h a) [] t \<noteq> Some False)"

definition hasRequestScopedDependency :: "di_env \<Rightarrow> heap \<Rightarrow> nat \<Rightarrow> token \<Rightarrow> bool \<times> heap" where
  "hasRequestScopedDependency env h a t =
     (let n = norm_tok env t in
      case readCachedPlan h (lineage h a) (requestScopeVerdictPlanCache (cont h a)) n of
        Some v \<Rightarrow> (v, h)
      | None \<Rightarrow>
          (let v = request_scope_verdict env h a n
           in (v, upd a (\<lambda>c. c\<lparr>requestScopeVerdictPlanCache :=
                  js_set (requestScopeVerdictPlanCache c) n (currentLineageRevision h (lineage h a), v)\<rparr>) h)))"

definition effectiveProvider ::
  "di_env \<Rightarrow> heap \<Rightarrow> nat \<Rightarrow> token \<Rightarrow> (di_error + provider option) option \<times> heap" where
  "effectiveProvider env h a t =
     (case readCachedPlan h (lineage h a) (effectiveProviderPlanCache (cont h a)) t of
        Some v \<Rightarrow> (Some (Inr v), h)
      | None \<Rightarrow>
          (case resolveEffectiveProvider h a (search_fuel env h a) [] t of
             Some (Inr v) \<Rightarrow>
               (Some (Inr v), upd a (\<lambda>c. c\<lparr>effectiveProviderPlanCache :=
                  js_set (effectiveProviderPlanCache c) t (currentLineageRevision h (lineage h a), v)\<rparr>) h)
           | r \<Rightarrow> (r, h)))"

definition find_token :: "di_env \<Rightarrow> heap \<Rightarrow> nat \<Rightarrow> token list \<Rightarrow> token \<Rightarrow> find_result option" where
  "find_token env h a vis t =
     findRequestScopedDependencyToken env h a (search_fuel env h a) (search_fuel env h a) vis t"

definition assertSingletonDependencyScopes ::
  "di_env \<Rightarrow> heap \<Rightarrow> nat \<Rightarrow> provider \<Rightarrow> di_error option option" where
  "assertSingletonDependencyScopes env h a p =
     (if p_scope p \<noteq> Singleton then Some None
      else (case findRequestScopedDependency env h a (find_token env h a [p_provide p]) (p_inject p) of
              None \<Rightarrow> None
            | Some (Inl e) \<Rightarrow> Some (Some e)
            | Some (Inr None) \<Rightarrow> Some None
            | Some (Inr (Some d)) \<Rightarrow> Some (Some (ScopeMismatch (p_provide p) d))))"

definition provider_depends :: "di_env \<Rightarrow> heap \<Rightarrow> nat \<Rightarrow> provider \<Rightarrow> token \<Rightarrow> bool" where
  "provider_depends env h a p tok =
     (providerDependsOnToken env
        (dependencyTokenReferencesToken env h a tok (search_fuel env h a) [p_provide p]) p = Some True)"

definition shouldInvalidateCachedToken :: "di_env \<Rightarrow> heap \<Rightarrow> nat \<Rightarrow> token \<Rightarrow> token \<Rightarrow> bool" where
  "shouldInvalidateCachedToken env h a cachedToken overridden =
     (cachedToken = overridden \<or>
      (case lookupPlan h a cachedToken of
         Some p \<Rightarrow> provider_depends env h a p overridden | None \<Rightarrow> False) \<or>
      list_ex (\<lambda>m. provider_depends env h a m overridden) (multiPlan h a cachedToken))"

definition shouldInvalidateCachedProvider :: "di_env \<Rightarrow> heap \<Rightarrow> nat \<Rightarrow> provider \<Rightarrow> token \<Rightarrow> bool" where
  "shouldInvalidateCachedProvider env h a p overridden =
     (p_provide p = overridden \<or> provider_depends env h a p overridden)"

end
