(* ===== verification/Container_Resolve.thy ===== *)
theory Container_Resolve
  imports Container_Analysis
begin

text \<open>
  \<open>packages/di/src/container.ts\<close>, the resolution half of \<open>Container\<close>.

  The model runs one resolution at a time, as a chain of \<open>await\<close>s does: a cached promise is a
  settled one, an \<open>async\<close> method is a function from a heap to a heap and an outcome.  How
  concurrent resolutions wait for each other is not part of the model.  Code of
  the application (constructors, factories) is the record \<open>user_code\<close>: it gets the resolved
  dependencies and a logical time, and throws or returns.  \<open>None\<close> is lack of fuel.
\<close>

record user_code =
  construct_throws :: "nat \<Rightarrow> jsv list \<Rightarrow> nat \<Rightarrow> jsv option"
  call_factory :: "nat \<Rightarrow> jsv list \<Rightarrow> nat \<Rightarrow> jsv + jsv"

type_synonym 'a outcome = "(heap \<times> (di_error + 'a)) option"

section \<open>Caches\<close>

fun track_in :: "nat list \<Rightarrow> heap \<Rightarrow> heap" where
  "track_in (a # p # as) h =
     (if \<not> requestScopeEnabled (cont h a) \<or> trackedByParent (cont h a) then h
      else (let h1 = track_in (p # as) h;
                h2 = upd p (\<lambda>c. c\<lparr>childScopes :=
                       (if a \<in> set (childScopes c) then childScopes c else childScopes c @ [a])\<rparr>) h1
            in upd a (\<lambda>c. c\<lparr>trackedByParent := True\<rparr>) h2))"
| "track_in as h = h"

definition ensureTrackedRequestScope :: "nat \<Rightarrow> heap \<Rightarrow> heap" where
  "ensureTrackedRequestScope a h = track_in (lineage h a) h"

definition hasLocalMultiProvider :: "heap \<Rightarrow> nat \<Rightarrow> provider \<Rightarrow> bool" where
  "hasLocalMultiProvider h a p =
     (case js_get (multiRegistrations (cont h a)) (p_provide p) of
        None \<Rightarrow> False
      | Some ps \<Rightarrow> p_ref p \<in> p_ref ` set ps)"

text \<open>Which map holds an instance: the request cache of a scope or the cache of the root.\<close>

datatype cache_loc = RequestLoc nat | RootLoc nat

definition cacheFor :: "nat \<Rightarrow> provider \<Rightarrow> heap \<Rightarrow> di_error + (heap \<times> cache_loc)" where
  "cacheFor a p h =
     (if p_scope p = Singleton then
        (if requestScopeEnabled (cont h a) \<and> js_has (registrations (cont h a)) (p_provide p)
         then Inr (ensureTrackedRequestScope a h, RequestLoc a)
         else Inr (h, RootLoc (root h a)))
      else if \<not> requestScopeEnabled (cont h a) then Inl (RequestScopeResolution (p_provide p))
      else Inr (ensureTrackedRequestScope a h, RequestLoc a))"

definition multiCacheFor :: "nat \<Rightarrow> provider \<Rightarrow> heap \<Rightarrow> di_error + (heap \<times> cache_loc)" where
  "multiCacheFor a p h =
     (if p_scope p = Singleton then
        (if requestScopeEnabled (cont h a) \<and> hasLocalMultiProvider h a p
         then Inr (ensureTrackedRequestScope a h, RequestLoc a)
         else Inr (h, RootLoc (root h a)))
      else if \<not> requestScopeEnabled (cont h a) then Inl (RequestScopeResolution (p_provide p))
      else Inr (ensureTrackedRequestScope a h, RequestLoc a))"

fun cache_get :: "cache_loc \<Rightarrow> heap \<Rightarrow> token \<Rightarrow> promise option" where
  "cache_get (RequestLoc b) h t = js_get (requestCache (cont h b)) t"
| "cache_get (RootLoc b) h t = js_get (singletonCache (cont h b)) t"

fun cache_put :: "cache_loc \<Rightarrow> token \<Rightarrow> promise \<Rightarrow> heap \<Rightarrow> heap" where
  "cache_put (RequestLoc b) t pr h = upd b (\<lambda>c. c\<lparr>requestCache := js_set (requestCache c) t pr\<rparr>) h"
| "cache_put (RootLoc b) t pr h = upd b (\<lambda>c. c\<lparr>singletonCache := js_set (singletonCache c) t pr\<rparr>) h"

fun multi_cache_get :: "cache_loc \<Rightarrow> heap \<Rightarrow> provider \<Rightarrow> promise option" where
  "multi_cache_get (RequestLoc b) h p = js_get (multiRequestCache (cont h b)) p"
| "multi_cache_get (RootLoc b) h p = js_get (multiSingletonCache (cont h b)) p"

fun multi_cache_put :: "cache_loc \<Rightarrow> provider \<Rightarrow> promise \<Rightarrow> heap \<Rightarrow> heap" where
  "multi_cache_put (RequestLoc b) p pr h =
     upd b (\<lambda>c. c\<lparr>multiRequestCache := js_set (multiRequestCache c) p pr\<rparr>) h"
| "multi_cache_put (RootLoc b) p pr h =
     upd b (\<lambda>c. c\<lparr>multiSingletonCache := js_set (multiSingletonCache c) p pr\<rparr>) h"

fun owner_in :: "heap \<Rightarrow> provider \<Rightarrow> nat list \<Rightarrow> nat \<Rightarrow> nat" where
  "owner_in h p [] d = d"
| "owner_in h p (a # as) d =
     (if p_scope p \<noteq> Singleton \<or> \<not> requestScopeEnabled (cont h a) then a
      else if (case js_get (registrations (cont h a)) (p_provide p) of
                 None \<Rightarrow> False | Some q \<Rightarrow> p_ref q = p_ref p) \<or> hasLocalMultiProvider h a p then a
      else owner_in h p as a)"

definition cacheOwnerFor :: "heap \<Rightarrow> nat \<Rightarrow> provider \<Rightarrow> nat" where
  "cacheOwnerFor h a p = owner_in h p (lineage h a) a"

definition trackCacheMaterialization :: "nat \<Rightarrow> promise \<Rightarrow> heap \<Rightarrow> heap" where
  "trackCacheMaterialization a pr h =
     upd a (\<lambda>c. c\<lparr>materializedCachePromises := materializedCachePromises c @ [pr]\<rparr>) h"

section \<open>Instantiation\<close>

type_synonym resolver = "nat \<Rightarrow> token list \<Rightarrow> token \<Rightarrow> heap \<Rightarrow> jsv outcome"

definition resolveDepToken ::
  "di_env \<Rightarrow> resolver \<Rightarrow> nat \<Rightarrow> token list \<Rightarrow> inject_token \<Rightarrow> heap \<Rightarrow> jsv outcome" where
  "resolveDepToken env rec a chain e h =
     (case e of
        OptionalTok t \<Rightarrow>
          (let inner = norm_tok env t
           in if \<not> has env h a inner then Some (h, Inr JUndef) else rec a chain inner h)
      | ForwardRefTok f \<Rightarrow> rec a chain (norm_tok env (thunk (env_rt env) f)) h
      | PlainTok t \<Rightarrow> rec a chain (norm_tok env t) h)"

fun resolveProviderDeps ::
  "di_env \<Rightarrow> resolver \<Rightarrow> nat \<Rightarrow> token list \<Rightarrow> inject_token list \<Rightarrow> heap \<Rightarrow> jsv list outcome" where
  "resolveProviderDeps env rec a chain [] h = Some (h, Inr [])"
| "resolveProviderDeps env rec a chain (e # es) h =
     (case resolveDepToken env rec a chain e h of
        None \<Rightarrow> None
      | Some (h1, Inl err) \<Rightarrow> Some (h1, Inl err)
      | Some (h1, Inr v) \<Rightarrow>
          (case resolveProviderDeps env rec a chain es h1 of
             None \<Rightarrow> None
           | Some (h2, Inl err) \<Rightarrow> Some (h2, Inl err)
           | Some (h2, Inr vs) \<Rightarrow> Some (h2, Inr (v # vs))))"

definition run_constructor :: "user_code \<Rightarrow> nat \<Rightarrow> jsv list \<Rightarrow> heap \<Rightarrow> heap \<times> (di_error + jsv)" where
  "run_constructor u c deps h =
     (let (r, h') = fresh h in
      case construct_throws u c deps r of
        Some e \<Rightarrow> (h', Inl (UserError e))
      | None \<Rightarrow> (h', Inr (JRef r)))"

definition run_factory :: "user_code \<Rightarrow> nat \<Rightarrow> jsv list \<Rightarrow> heap \<Rightarrow> heap \<times> (di_error + jsv)" where
  "run_factory u f deps h =
     (let (r, h') = fresh h in
      case call_factory u f deps r of
        Inl e \<Rightarrow> (h', Inl (UserError e))
      | Inr v \<Rightarrow> (h', Inr v))"

definition instantiate ::
  "user_code \<Rightarrow> di_env \<Rightarrow> resolver \<Rightarrow> nat \<Rightarrow> provider \<Rightarrow> token list \<Rightarrow> heap \<Rightarrow> jsv outcome" where
  "instantiate u env rec a p chain h =
     (case assertSingletonDependencyScopes env h a p of
        None \<Rightarrow> None
      | Some (Some err) \<Rightarrow> Some (h, Inl err)
      | Some None \<Rightarrow>
          (case p_strategy p of
             UseValue v \<Rightarrow> Some (h, Inr v)
           | UseExisting t \<Rightarrow> rec a [] t h
           | UseFactory f _ \<Rightarrow>
               (case resolveProviderDeps env rec a chain (p_inject p) h of
                  None \<Rightarrow> None
                | Some (h1, Inl err) \<Rightarrow> Some (h1, Inl err)
                | Some (h1, Inr deps) \<Rightarrow> Some (run_factory u f deps h1))
           | UseClass c \<Rightarrow>
               (case resolveProviderDeps env rec a chain (p_inject p) h of
                  None \<Rightarrow> None
                | Some (h1, Inl err) \<Rightarrow> Some (h1, Inl err)
                | Some (h1, Inr deps) \<Rightarrow> Some (run_constructor u c deps h1))))"

text \<open>Instantiation followed by the promise bookkeeping of the two caching paths.\<close>

definition settle_instance ::
  "(promise \<Rightarrow> heap \<Rightarrow> heap) \<Rightarrow> nat \<Rightarrow> jsv outcome \<Rightarrow> jsv outcome" where
  "settle_instance put a out =
     (case out of
        None \<Rightarrow> None
      | Some (h, Inl err) \<Rightarrow> Some (h, Inl err)
      | Some (h, Inr v) \<Rightarrow>
          (let (r, h1) = fresh h; pr = \<lparr>pr_id = r, pr_val = v\<rparr>
           in Some (trackCacheMaterialization a pr (put pr h1), Inr v)))"

definition resolveOwnScopedOrSingletonInstance ::
  "user_code \<Rightarrow> di_env \<Rightarrow> resolver \<Rightarrow> nat \<Rightarrow> provider \<Rightarrow> token list \<Rightarrow> heap \<Rightarrow> jsv outcome" where
  "resolveOwnScopedOrSingletonInstance u env rec a p chain h =
     (case cacheFor a p h of
        Inl err \<Rightarrow> Some (h, Inl err)
      | Inr (h1, loc) \<Rightarrow>
          (case cache_get loc h1 (p_provide p) of
             Some pr \<Rightarrow> Some (h1, Inr (pr_val pr))
           | None \<Rightarrow>
               settle_instance (cache_put loc (p_provide p)) a (instantiate u env rec a p chain h1)))"

definition resolveScopedOrSingletonInstance ::
  "user_code \<Rightarrow> di_env \<Rightarrow> resolver \<Rightarrow> nat \<Rightarrow> provider \<Rightarrow> token list \<Rightarrow> heap \<Rightarrow> jsv outcome" where
  "resolveScopedOrSingletonInstance u env rec a p chain h =
     resolveOwnScopedOrSingletonInstance u env rec (cacheOwnerFor h a p) p chain h"

definition resolveOwnMultiProviderInstance ::
  "user_code \<Rightarrow> di_env \<Rightarrow> resolver \<Rightarrow> nat \<Rightarrow> provider \<Rightarrow> token list \<Rightarrow> heap \<Rightarrow> jsv outcome" where
  "resolveOwnMultiProviderInstance u env rec a p chain h =
     (case multiCacheFor a p h of
        Inl err \<Rightarrow> Some (h, Inl err)
      | Inr (h1, loc) \<Rightarrow>
          (case multi_cache_get loc h1 p of
             Some pr \<Rightarrow> Some (h1, Inr (pr_val pr))
           | None \<Rightarrow>
               settle_instance (multi_cache_put loc p) a (instantiate u env rec a p chain h1)))"

definition resolveMultiProviderInstance ::
  "user_code \<Rightarrow> di_env \<Rightarrow> resolver \<Rightarrow> nat \<Rightarrow> provider \<Rightarrow> token list \<Rightarrow> heap \<Rightarrow> jsv outcome" where
  "resolveMultiProviderInstance u env rec a p chain h =
     (case p_strategy p of
        UseExisting t \<Rightarrow> rec a chain t h
      | _ \<Rightarrow>
          if p_scope p = Transient then instantiate u env rec a p chain h
          else resolveOwnMultiProviderInstance u env rec (cacheOwnerFor h a p) p chain h)"

fun resolveMultiProviderInstances ::
  "user_code \<Rightarrow> di_env \<Rightarrow> resolver \<Rightarrow> nat \<Rightarrow> provider list \<Rightarrow> token list \<Rightarrow> heap \<Rightarrow> jsv list outcome" where
  "resolveMultiProviderInstances u env rec a [] chain h = Some (h, Inr [])"
| "resolveMultiProviderInstances u env rec a (p # ps) chain h =
     (case resolveMultiProviderInstance u env rec a p chain h of
        None \<Rightarrow> None
      | Some (h1, Inl err) \<Rightarrow> Some (h1, Inl err)
      | Some (h1, Inr v) \<Rightarrow>
          (case resolveMultiProviderInstances u env rec a ps chain h1 of
             None \<Rightarrow> None
           | Some (h2, Inl err) \<Rightarrow> Some (h2, Inl err)
           | Some (h2, Inr vs) \<Rightarrow> Some (h2, Inr (v # vs))))"

section \<open>Resolution\<close>

text \<open>\<open>getCachedScopedOrSingletonInstance\<close>: only singletons; the cache of the owning container.\<close>

definition getCachedScopedOrSingletonInstance ::
  "nat \<Rightarrow> provider \<Rightarrow> heap \<Rightarrow> (heap \<times> promise option)" where
  "getCachedScopedOrSingletonInstance a p h =
     (if p_scope p \<noteq> Singleton then (h, None)
      else (case cacheFor (cacheOwnerFor h a p) p h of
              Inl err \<Rightarrow> (h, None)
            | Inr (h1, loc) \<Rightarrow> (h1, cache_get loc h1 (p_provide p))))"

definition resolveSingleProvider ::
  "user_code \<Rightarrow> di_env \<Rightarrow> resolver \<Rightarrow> nat \<Rightarrow> token list \<Rightarrow> token \<Rightarrow> heap \<Rightarrow> jsv outcome" where
  "resolveSingleProvider u env rec a chain t h =
     (case lookupPlan h a t of
        None \<Rightarrow> Some (h, Inl (NoProvider t))
      | Some p \<Rightarrow>
          (case p_strategy p of
             UseExisting target \<Rightarrow> rec a (t # chain) target h
           | _ \<Rightarrow>
               if p_scope p = Transient then instantiate u env rec a p (t # chain) h
               else (case getCachedScopedOrSingletonInstance a p h of
                       (h1, Some pr) \<Rightarrow> Some (h1, Inr (pr_val pr))
                     | (h1, None) \<Rightarrow> resolveScopedOrSingletonInstance u env rec a p (t # chain) h1)))"

definition resolveFromRegisteredProviders ::
  "user_code \<Rightarrow> di_env \<Rightarrow> resolver \<Rightarrow> nat \<Rightarrow> token list \<Rightarrow> token \<Rightarrow> heap \<Rightarrow> jsv outcome" where
  "resolveFromRegisteredProviders u env rec a chain t h =
     (if js_get (registrations (cont h a)) t = None \<and> multiPlan h a t \<noteq> [] then
        (case resolveMultiProviderInstances u env rec a (multiPlan h a t) (t # chain) h of
           None \<Rightarrow> None
         | Some (h1, Inl err) \<Rightarrow> Some (h1, Inl err)
         | Some (h1, Inr vs) \<Rightarrow> Some (h1, Inr (JArr vs)))
      else resolveSingleProvider u env rec a chain t h)"

text \<open>\<open>chain\<close> holds the active tokens, newest first; it is also the set \<open>activeTokens\<close>.\<close>

fun resolveWithChain ::
  "user_code \<Rightarrow> di_env \<Rightarrow> nat \<Rightarrow> nat \<Rightarrow> token list \<Rightarrow> token \<Rightarrow> heap \<Rightarrow> jsv outcome" where
  "resolveWithChain u env 0 a chain t h = None"
| "resolveWithChain u env (Suc k) a chain t h =
     (if t \<in> set chain then Some (h, Inl (CircularDependency (rev chain @ [t])))
      else resolveFromRegisteredProviders u env (resolveWithChain u env k) a chain t h)"

end
