(* ===== verification/Container_Override.thy ===== *)
theory Container_Override
  imports Container_Resolve
begin

text \<open>
  \<open>packages/di/src/container.ts\<close>: \<open>override\<close>, the invalidation of the cached instances that an
  override makes stale, and the disposal tasks it schedules for them.
\<close>

section \<open>Stale disposal tasks\<close>

text \<open>\<open>b\<close> is the container whose cache held the instance, \<open>owner\<close> the one that was overridden.\<close>

definition observers_of :: "nat \<Rightarrow> nat \<Rightarrow> nat list" where
  "observers_of b owner = (if owner = b then [b] else [b, owner])"

definition add_stale :: "nat \<Rightarrow> nat \<Rightarrow> heap \<Rightarrow> heap" where
  "add_stale i b h = upd b (\<lambda>c. c\<lparr>staleDisposalTasks := staleDisposalTasks c @ [i]\<rparr>) h"

definition scheduleStaleDisposal :: "nat \<Rightarrow> nat \<Rightarrow> promise \<Rightarrow> heap \<Rightarrow> heap" where
  "scheduleStaleDisposal b owner pr h =
     (let (i, h1) = fresh h;
          task = \<lparr>st_promise = pr, st_settled = False, st_failed = False, st_error = JUndef,
                  st_errorConsumed = False, st_observers = observers_of b owner,
                  st_retryInstance = None, st_retryOwner = b\<rparr>
      in fold (add_stale i) (observers_of b owner) (h1\<lparr>tasks := js_set (tasks h1) i task\<rparr>))"

section \<open>Invalidation\<close>

text \<open>One loop over a cache: \<open>stale\<close> decides, \<open>del\<close> deletes the entry.\<close>

fun invalidate_entries ::
  "('k \<Rightarrow> heap \<Rightarrow> bool) \<Rightarrow> ('k \<Rightarrow> heap \<Rightarrow> heap) \<Rightarrow> nat \<Rightarrow> nat \<Rightarrow> ('k \<times> promise) list \<Rightarrow> heap \<Rightarrow> heap" where
  "invalidate_entries stale del b owner [] h = h"
| "invalidate_entries stale del b owner ((k, pr) # es) h =
     invalidate_entries stale del b owner es
       (if stale k h then del k (scheduleStaleDisposal b owner pr h) else h)"

definition drop_request :: "nat \<Rightarrow> token \<Rightarrow> heap \<Rightarrow> heap" where
  "drop_request b t h = upd b (\<lambda>c. c\<lparr>requestCache := js_delete (requestCache c) t\<rparr>) h"

definition drop_singleton :: "nat \<Rightarrow> token \<Rightarrow> heap \<Rightarrow> heap" where
  "drop_singleton b t h = upd b (\<lambda>c. c\<lparr>singletonCache := js_delete (singletonCache c) t\<rparr>) h"

definition drop_multi_request :: "nat \<Rightarrow> provider \<Rightarrow> heap \<Rightarrow> heap" where
  "drop_multi_request b p h = upd b (\<lambda>c. c\<lparr>multiRequestCache := js_delete (multiRequestCache c) p\<rparr>) h"

definition drop_multi_singleton :: "nat \<Rightarrow> provider \<Rightarrow> heap \<Rightarrow> heap" where
  "drop_multi_singleton b p h =
     upd b (\<lambda>c. c\<lparr>multiSingletonCache := js_delete (multiSingletonCache c) p\<rparr>) h"

definition invalidateAffectedCachedEntries :: "di_env \<Rightarrow> nat \<Rightarrow> token \<Rightarrow> nat \<Rightarrow> heap \<Rightarrow> heap" where
  "invalidateAffectedCachedEntries env b tok owner h =
     (let stale_token = (\<lambda>t h. shouldInvalidateCachedToken env h b t tok);
          stale_provider = (\<lambda>p h. shouldInvalidateCachedProvider env h b p tok);
          h1 = invalidate_entries stale_token (drop_request b) b owner (requestCache (cont h b)) h;
          h2 = (if parent (cont h b) = None
                then invalidate_entries stale_token (drop_singleton b) b owner (singletonCache (cont h1 b)) h1
                else h1);
          h3 = (if parent (cont h b) = None
                then invalidate_entries stale_provider (drop_multi_singleton b) b owner
                       (multiSingletonCache (cont h2 b)) h2
                else h2)
      in invalidate_entries stale_provider (drop_multi_request b) b owner (multiRequestCache (cont h3 b)) h3)"

text \<open>A container and its tracked child scopes, in the order of the recursion.  A child is created
  after its parent, so its address is larger; the test only makes the recursion total.\<close>

function subtree :: "heap \<Rightarrow> nat \<Rightarrow> nat list" where
  "subtree h a =
     a # concat (map (subtree h) (filter (\<lambda>c. a < c \<and> c < length (conts h)) (childScopes (cont h a))))"
  by pat_completeness auto
termination
  by (relation "measure (\<lambda>(h, a). length (conts h) - a)") auto

declare subtree.simps [simp del]

definition invalidateAffectedCachedEntriesInHierarchy :: "di_env \<Rightarrow> nat \<Rightarrow> token \<Rightarrow> heap \<Rightarrow> heap" where
  "invalidateAffectedCachedEntriesInHierarchy env a tok h =
     fold (\<lambda>b. invalidateAffectedCachedEntries env b tok a) (subtree h a) h"

section \<open>override\<close>

text \<open>\<open>normalizedByToken\<close>: the normalized providers of the batch, grouped by token.\<close>

fun group_by_token :: "nprovider list \<Rightarrow> (token, nprovider list) js_map \<Rightarrow> (token, nprovider list) js_map" where
  "group_by_token [] m = m"
| "group_by_token (np # nps) m =
     group_by_token nps
       (case js_get m (np_provide np) of
          Some ps \<Rightarrow> js_set m (np_provide np) (ps @ [np])
        | None \<Rightarrow> js_set m (np_provide np) [np])"

definition introduces_singleton ::
  "di_env \<Rightarrow> heap \<Rightarrow> nat \<Rightarrow> (token, nprovider list) js_map \<Rightarrow> di_error option" where
  "introduces_singleton env h a m =
     (if requestScopeEnabled (cont h a) then
        (case find (\<lambda>(t, nps). list_ex (\<lambda>np. np_scope np = Singleton) nps \<and> \<not> has env h a t) m of
           Some (t, nps) \<Rightarrow> Some (SingletonIntroduced t)
         | None \<Rightarrow> None)
      else None)"

definition planned_override :: "token \<times> nprovider list \<Rightarrow> di_error + (token \<times> bool \<times> nprovider list)" where
  "planned_override entry =
     (case entry of (t, nps) \<Rightarrow>
        (let multi = list_ex np_multi nps
         in if multi \<and> list_ex (\<lambda>np. \<not> np_multi np) nps then Inl (DuplicateProvider t)
            else if \<not> multi \<and> 1 < length nps then Inl (DuplicateProvider t)
            else Inr (t, multi, nps)))"

definition plan_overrides ::
  "di_env \<Rightarrow> nat \<Rightarrow> jsv list \<Rightarrow> heap \<Rightarrow> di_error + (token \<times> bool \<times> nprovider list) list" where
  "plan_overrides env a decls h =
     (if isDisposedInHierarchy h a then Inl ContainerDisposed
      else (case res_map (normalizeProvider env) decls of
              Inl e \<Rightarrow> Inl (InvalidProvider e)
            | Inr nps \<Rightarrow>
                (let m = group_by_token nps []
                 in case introduces_singleton env h a m of
                      Some e \<Rightarrow> Inl e
                    | None \<Rightarrow> res_map planned_override m)))"

text \<open>Normalized providers become objects with an identity when they are stored.\<close>

fun alloc_providers :: "nprovider list \<Rightarrow> heap \<Rightarrow> provider list \<times> heap" where
  "alloc_providers [] h = ([], h)"
| "alloc_providers (np # nps) h =
     (let (r, h1) = fresh h; (ps, h2) = alloc_providers nps h1
      in (\<lparr>p_ref = r, p_np = np\<rparr> # ps, h2))"

definition replace_registration :: "token \<Rightarrow> bool \<Rightarrow> provider list \<Rightarrow> container \<Rightarrow> container" where
  "replace_registration t multi ps c =
     (let c1 = c\<lparr>registrations := js_delete (registrations c) t,
                 multiRegistrations := js_delete (multiRegistrations c) t,
                 multiOverriddenTokens :=
                   (if t \<in> set (multiOverriddenTokens c) then multiOverriddenTokens c
                    else multiOverriddenTokens c @ [t])\<rparr>
      in advanceGraphRevision
           (if multi then c1\<lparr>multiRegistrations := js_set (multiRegistrations c1) t ps\<rparr>
            else (case ps of
                    p # _ \<Rightarrow> c1\<lparr>registrations := js_set (registrations c1) t p\<rparr>
                  | [] \<Rightarrow> c1)))"

definition apply_override :: "di_env \<Rightarrow> nat \<Rightarrow> token \<times> bool \<times> nprovider list \<Rightarrow> heap \<Rightarrow> heap" where
  "apply_override env a entry h =
     (case entry of (t, multi, nps) \<Rightarrow>
        (let h1 = invalidateAffectedCachedEntriesInHierarchy env a t h;
             (ps, h2) = alloc_providers nps h1
         in upd a (replace_registration t multi ps) h2))"

definition override :: "di_env \<Rightarrow> nat \<Rightarrow> jsv list \<Rightarrow> heap \<Rightarrow> heap \<times> di_error option" where
  "override env a decls h =
     (case plan_overrides env a decls h of
        Inl e \<Rightarrow> (h, Some e)
      | Inr plans \<Rightarrow> (fold (apply_override env a) plans h, None))"

end
