(* ===== verification/Container_Disposal.thy ===== *)
theory Container_Disposal
  imports Container_Override
begin

text \<open>
  \<open>packages/di/src/container.ts\<close>: \<open>resolve\<close> and \<open>resolveMultiContribution\<close> with the check of stale
  disposals in front of them, and \<open>dispose\<close>.

  An \<open>onDestroy\<close> hook is application code: \<open>on_destroy hk v n\<close> is what the \<open>n\<close>-th hook call of the
  program, on \<open>v\<close>, throws, if it throws.  Disposals of sibling scopes, which the code runs under
  \<open>Promise.allSettled\<close>, run here one after the other, in the order in which they are started.
\<close>

record hooks =
  disposable :: "jsv \<Rightarrow> bool"
  on_destroy :: "jsv \<Rightarrow> nat \<Rightarrow> jsv option"

definition call_hook :: "hooks \<Rightarrow> jsv \<Rightarrow> heap \<Rightarrow> jsv option \<times> heap" where
  "call_hook hk v h = (on_destroy hk v (length (hookLog h)), h\<lparr>hookLog := hookLog h @ [v]\<rparr>)"

definition throwDisposalErrors :: "di_error list \<Rightarrow> di_error option" where
  "throwDisposalErrors es = (case es of [] \<Rightarrow> None | [e] \<Rightarrow> Some e | _ \<Rightarrow> Some (AggregateError es))"

definition collectDisposalError :: "di_error option \<Rightarrow> di_error list" where
  "collectDisposalError r = (case r of None \<Rightarrow> [] | Some (AggregateError es) \<Rightarrow> es | Some e \<Rightarrow> [e])"

section \<open>Stale disposal tasks\<close>

definition release_task :: "nat \<Rightarrow> nat \<Rightarrow> heap \<Rightarrow> heap" where
  "release_task i b h = upd b (\<lambda>c. c\<lparr>staleDisposalTasks := filter (\<lambda>j. j \<noteq> i) (staleDisposalTasks c)\<rparr>) h"

definition set_task :: "nat \<Rightarrow> stale_task \<Rightarrow> heap \<Rightarrow> heap" where
  "set_task i task h = h\<lparr>tasks := js_set (tasks h) i task\<rparr>"

text \<open>The body of the task and its \<open>finally\<close> block.\<close>

definition settle_stale :: "hooks \<Rightarrow> nat \<Rightarrow> heap \<Rightarrow> heap" where
  "settle_stale hk i h =
     (case js_get (tasks h) i of
        None \<Rightarrow> h
      | Some task \<Rightarrow>
          if st_settled task then h
          else (let v = pr_val (st_promise task);
                    (err, h1) = (if disposable hk v then call_hook hk v h else (None, h));
                    h2 = upd (st_retryOwner task) (\<lambda>c. c\<lparr>materializedCachePromises :=
                           filter (\<lambda>pr. pr \<noteq> st_promise task) (materializedCachePromises c)\<rparr>) h1
                in case err of
                     None \<Rightarrow> fold (release_task i) (st_observers task) (set_task i (task\<lparr>st_settled := True\<rparr>) h2)
                   | Some e \<Rightarrow> set_task i (task\<lparr>st_settled := True, st_failed := True, st_error := e,
                                  st_retryInstance := Some v\<rparr>) h2))"

definition consume_task :: "nat \<Rightarrow> nat \<Rightarrow> heap \<times> di_error list \<Rightarrow> heap \<times> di_error list" where
  "consume_task a i s =
     (case s of (h, errors) \<Rightarrow>
        (case js_get (tasks h) i of
           None \<Rightarrow> (h, errors)
         | Some task \<Rightarrow>
             if \<not> st_failed task then (release_task i a h, errors)
             else (let errors' = (if st_errorConsumed task then errors else errors @ [UserError (st_error task)]);
                       h1 = set_task i (task\<lparr>st_errorConsumed := True\<rparr>) h
                   in (if st_retryInstance task = None
                       then fold (release_task i) (st_observers task) h1 else h1, errors'))))"

definition assertStaleDisposalsSettled :: "hooks \<Rightarrow> nat \<Rightarrow> heap \<Rightarrow> heap \<times> di_error option" where
  "assertStaleDisposalsSettled hk a h =
     (let ids = staleDisposalTasks (cont h a);
          (h', errors) = fold (consume_task a) ids (fold (settle_stale hk) ids h, [])
      in (h', throwDisposalErrors errors))"

definition retainedStaleDisposalTasks :: "heap \<Rightarrow> nat \<Rightarrow> nat list" where
  "retainedStaleDisposalTasks h a =
     filter (\<lambda>i. case js_get (tasks h) i of
                   None \<Rightarrow> False
                 | Some task \<Rightarrow> st_retryOwner task = a \<and> st_failed task \<and> st_errorConsumed task)
       (staleDisposalTasks (cont h a))"

definition hasRetainedStaleDisposalTasksInSubtree :: "heap \<Rightarrow> nat \<Rightarrow> bool" where
  "hasRetainedStaleDisposalTasksInSubtree h a =
     list_ex (\<lambda>b. retainedStaleDisposalTasks h b \<noteq> []) (subtree h a)"

definition release_others :: "nat \<Rightarrow> nat \<Rightarrow> heap \<Rightarrow> heap" where
  "release_others b i h =
     (case js_get (tasks h) i of
        None \<Rightarrow> h
      | Some task \<Rightarrow>
          if st_retryOwner task \<noteq> b then h
          else fold (release_task i) (filter (\<lambda>x. x \<noteq> b) (st_observers task)) h)"

definition releaseNonOwnerStaleTaskObservers :: "nat \<Rightarrow> heap \<Rightarrow> heap" where
  "releaseNonOwnerStaleTaskObservers b h = fold (release_others b) (staleDisposalTasks (cont h b)) h"

definition releaseNonOwnerStaleTaskObserversInSubtree :: "nat \<Rightarrow> heap \<Rightarrow> heap" where
  "releaseNonOwnerStaleTaskObserversInSubtree a h = fold releaseNonOwnerStaleTaskObservers (subtree h a) h"

text \<open>\<open>retryFailedStaleDisposals\<close> returns the heap, the errors and the attempted instances.\<close>

fun retryFailedStaleDisposals :: "hooks \<Rightarrow> nat list \<Rightarrow> heap \<Rightarrow> heap \<times> di_error list \<times> jsv list" where
  "retryFailedStaleDisposals hk [] h = (h, [], [])"
| "retryFailedStaleDisposals hk (i # is) h =
     (case js_get (tasks h) i of
        None \<Rightarrow> retryFailedStaleDisposals hk is h
      | Some task \<Rightarrow>
          (if \<not> st_failed task then retryFailedStaleDisposals hk is h
           else (case st_retryInstance task of
                   None \<Rightarrow> retryFailedStaleDisposals hk is h
                 | Some v \<Rightarrow>
                     (let (err, h1) = call_hook hk v h;
                          h2 = (case err of
                                  None \<Rightarrow> fold (release_task i) (st_observers task)
                                    (set_task i (task\<lparr>st_failed := False, st_retryInstance := None\<rparr>) h1)
                                | Some e \<Rightarrow>
                                    set_task i (task\<lparr>st_error := e, st_errorConsumed := True\<rparr>) h1);
                          (h3, errors, attempted) = retryFailedStaleDisposals hk is h2
                      in (h3, (case err of None \<Rightarrow> errors | Some e \<Rightarrow> UserError e # errors), v # attempted)))))"

section \<open>resolve\<close>

definition resolve :: "user_code \<Rightarrow> di_env \<Rightarrow> hooks \<Rightarrow> nat \<Rightarrow> token \<Rightarrow> heap \<Rightarrow> jsv outcome" where
  "resolve u env hk a t h =
     (if isDisposedInHierarchy h a then Some (h, Inl ContainerDisposed)
      else (case assertStaleDisposalsSettled hk a h of
              (h1, Some e) \<Rightarrow> Some (h1, Inl e)
            | (h1, None) \<Rightarrow> resolveWithChain u env (search_fuel env h1 a) a [] (norm_tok env t) h1))"

definition resolveMultiContribution ::
  "user_code \<Rightarrow> di_env \<Rightarrow> hooks \<Rightarrow> nat \<Rightarrow> token \<Rightarrow> nat \<Rightarrow> heap \<Rightarrow> jsv outcome" where
  "resolveMultiContribution u env hk a t i h =
     (if isDisposedInHierarchy h a then Some (h, Inl ContainerDisposed)
      else (case assertStaleDisposalsSettled hk a h of
              (h1, Some e) \<Rightarrow> Some (h1, Inl e)
            | (h1, None) \<Rightarrow>
                (let n = norm_tok env t; ps = multiPlan h1 a n
                 in if length ps \<le> i then Some (h1, Inl (MissingContribution t))
                    else (case assertSingletonDependencyScopes env h1 a (ps ! i) of
                            None \<Rightarrow> None
                          | Some (Some e) \<Rightarrow> Some (h1, Inl e)
                          | Some None \<Rightarrow>
                              resolveMultiProviderInstance u env (resolveWithChain u env (search_fuel env h1 a))
                                a (ps ! i) [n] h1))))"

section \<open>dispose\<close>

definition disposalCacheEntries :: "container \<Rightarrow> promise list" where
  "disposalCacheEntries c =
     (if parent c \<noteq> None then map snd (requestCache c) @ map snd (multiRequestCache c)
      else map snd (singletonCache c) @ map snd (multiSingletonCache c))"

text \<open>Every cached promise of the model is fulfilled, so no rejection is collected here.\<close>

fun distinct_disposables :: "hooks \<Rightarrow> jsv list \<Rightarrow> jsv list \<Rightarrow> jsv list" where
  "distinct_disposables hk seen [] = []"
| "distinct_disposables hk seen (v # vs) =
     (if disposable hk v \<and> v \<notin> set seen then v # distinct_disposables hk (v # seen) vs
      else distinct_disposables hk seen vs)"

definition collectDisposableInstances :: "hooks \<Rightarrow> promise list \<Rightarrow> container \<Rightarrow> jsv list" where
  "collectDisposableInstances hk entries c =
     distinct_disposables hk [] (map pr_val (filter (\<lambda>pr. pr \<in> set entries) (materializedCachePromises c)))"

text \<open>The loop of \<open>disposeInstancesInReverseOrder\<close>: errors and the hooks that did not complete.\<close>

fun run_hooks :: "hooks \<Rightarrow> jsv list \<Rightarrow> heap \<Rightarrow> di_error list \<Rightarrow> jsv list \<Rightarrow> heap \<times> di_error list \<times> jsv list" where
  "run_hooks hk [] h errors pending = (h, errors, pending)"
| "run_hooks hk (v # vs) h errors pending =
     (case call_hook hk v h of
        (None, h1) \<Rightarrow> run_hooks hk vs h1 errors pending
      | (Some e, h1) \<Rightarrow> run_hooks hk vs h1 (errors @ [UserError e]) (v # pending))"

definition disposeInstancesInReverseOrder :: "hooks \<Rightarrow> nat \<Rightarrow> jsv list \<Rightarrow> heap \<Rightarrow> heap \<times> di_error list" where
  "disposeInstancesInReverseOrder hk a vs h =
     (let (h1, errors, pending) = run_hooks hk (rev vs) h [] []
      in (upd a (\<lambda>c. c\<lparr>pendingDisposables := pending\<rparr>) h1, errors))"

definition clearDisposalCaches :: "container \<Rightarrow> container" where
  "clearDisposalCaches c =
     clearResolutionPlanCaches
       (if parent c \<noteq> None
        then c\<lparr>materializedCachePromises := [], requestCache := [], multiRequestCache := []\<rparr>
        else c\<lparr>materializedCachePromises := [], singletonCache := [], multiSingletonCache := []\<rparr>)"

definition disposeCache :: "hooks \<Rightarrow> nat \<Rightarrow> promise list \<Rightarrow> heap \<Rightarrow> heap \<times> di_error option" where
  "disposeCache hk a entries h =
     (let retryable = retainedStaleDisposalTasks h a;
          (h1, e1) = assertStaleDisposalsSettled hk a h;
          (h2, e2, attempted) = retryFailedStaleDisposals hk retryable h1;
          materialized = collectDisposableInstances hk entries (cont h2 a);
          candidates = (if pendingDisposables (cont h2 a) \<noteq> [] then pendingDisposables (cont h2 a)
                        else materialized);
          (h3, e3) = disposeInstancesInReverseOrder hk a (filter (\<lambda>v. v \<notin> set attempted) candidates) h2
      in (upd a clearDisposalCaches h3, throwDisposalErrors (collectDisposalError e1 @ e2 @ e3)))"

datatype disposal_origin = Direct | FromParent

definition untrack_scope :: "disposal_origin \<Rightarrow> bool \<Rightarrow> nat \<Rightarrow> heap \<Rightarrow> heap" where
  "untrack_scope origin completed a h =
     (let retains = hasRetainedStaleDisposalTasksInSubtree h a
      in if (origin = Direct \<or> (completed \<and> \<not> retains)) \<and> parent (cont h a) \<noteq> None \<and> trackedByParent (cont h a)
         then (let h1 = (if origin = Direct then releaseNonOwnerStaleTaskObserversInSubtree a h else h);
                   h2 = upd (the (parent (cont h a)))
                          (\<lambda>c. c\<lparr>childScopes := filter (\<lambda>x. x \<noteq> a) (childScopes c)\<rparr>) h1
               in upd a (\<lambda>c. c\<lparr>trackedByParent := False\<rparr>) h2)
         else h)"

fun dispose_children ::
  "(nat \<Rightarrow> heap \<Rightarrow> (heap \<times> di_error option) option) \<Rightarrow> nat list \<Rightarrow> heap \<Rightarrow> (heap \<times> di_error list) option" where
  "dispose_children rec [] h = Some (h, [])"
| "dispose_children rec (c # cs) h =
     (case rec c h of
        None \<Rightarrow> None
      | Some (h1, r) \<Rightarrow>
          (case dispose_children rec cs h1 of
             None \<Rightarrow> None
           | Some (h2, errors) \<Rightarrow> Some (h2, collectDisposalError r @ errors)))"

definition disposeAll ::
  "hooks \<Rightarrow> (nat \<Rightarrow> heap \<Rightarrow> (heap \<times> di_error option) option) \<Rightarrow> disposal_origin \<Rightarrow> nat \<Rightarrow> heap \<Rightarrow>
     (heap \<times> di_error option) option" where
  "disposeAll hk rec origin a h =
     (case dispose_children rec (childScopes (cont h a)) h of
        None \<Rightarrow> None
      | Some (h1, errors) \<Rightarrow>
          (let (h2, e2) = disposeCache hk a (disposalCacheEntries (cont h1 a)) h1;
               r = throwDisposalErrors (errors @ collectDisposalError e2)
           in Some (untrack_scope origin (r = None) a h2, r)))"

text \<open>The fuel bounds the depth of the scope tree.\<close>

fun disposeWithOrigin ::
  "hooks \<Rightarrow> nat \<Rightarrow> disposal_origin \<Rightarrow> nat \<Rightarrow> heap \<Rightarrow> (heap \<times> di_error option) option" where
  "disposeWithOrigin hk 0 origin a h = None"
| "disposeWithOrigin hk (Suc k) origin a h =
     (if disposePromise (cont h a) then Some (h, None)
      else (case disposeAll hk (\<lambda>c. disposeWithOrigin hk k FromParent c) origin a
                   (upd a (\<lambda>c. advanceGraphRevision (c\<lparr>disposed := True\<rparr>)) h) of
              None \<Rightarrow> None
            | Some (h1, r) \<Rightarrow>
                Some (upd a (\<lambda>c. c\<lparr>disposePromise :=
                        (r = None \<and> \<not> hasRetainedStaleDisposalTasksInSubtree h1 a)\<rparr>) h1, r)))"

definition dispose :: "hooks \<Rightarrow> nat \<Rightarrow> heap \<Rightarrow> (heap \<times> di_error option) option" where
  "dispose hk a h = disposeWithOrigin hk (Suc (length (conts h))) Direct a h"

end
