(* ===== verification/Analysis_Correctness.thy ===== *)
theory Analysis_Correctness
  imports Container_Analysis
begin

text \<open>
  What the dependency searches of the container compute: each is an instance of the contract
  \<open>path_search\<close>, so each returns within its fuel and decides reachability in the dependency
  graph.
\<close>

section \<open>The dependency graph\<close>

definition node_providers :: "heap \<Rightarrow> nat \<Rightarrow> token \<Rightarrow> provider list" where
  "node_providers h a t = option_list (lookupPlan h a t) @ multiPlan h a t"

definition provider_needs :: "di_env \<Rightarrow> heap \<Rightarrow> nat \<Rightarrow> provider \<Rightarrow> token list" where
  "provider_needs env h a p =
     (case p_strategy p of UseExisting t \<Rightarrow> [t] | _ \<Rightarrow> dep_tokens env h a (p_inject p))"

text \<open>\<open>needs\<close>: what a token needs at resolution time; absent optional dependencies are not needed,
  and a class without provider is judged by its own metadata.\<close>

definition needs :: "di_env \<Rightarrow> heap \<Rightarrow> nat \<Rightarrow> (token \<times> token) set" where
  "needs env h a =
     {(t, u). (\<exists>p \<in> set (node_providers h a t). p_scope p \<noteq> Request \<and> u \<in> set (provider_needs env h a p)) \<or>
        (node_providers h a t = [] \<and>
          (\<exists>c. t = ClassTok c \<and> opt_scope (class_metadata env c) \<noteq> JStr ''request'' \<and>
             u \<in> set (dep_tokens env h a (metadata_entries env c))))}"

definition request_scoped :: "di_env \<Rightarrow> heap \<Rightarrow> nat \<Rightarrow> token \<Rightarrow> bool" where
  "request_scoped env h a t \<longleftrightarrow>
     (\<exists>p \<in> set (node_providers h a t). p_scope p = Request) \<or>
     (node_providers h a t = [] \<and> (\<exists>c. t = ClassTok c \<and> opt_scope (class_metadata env c) = JStr ''request''))"

text \<open>\<open>references\<close>: every declared dependency, optional or not.\<close>

definition provider_refs :: "di_env \<Rightarrow> provider \<Rightarrow> token list" where
  "provider_refs env p =
     (case p_strategy p of UseExisting t \<Rightarrow> [t] | _ \<Rightarrow> map (resolveProviderDependencyToken env) (p_inject p))"

definition references :: "di_env \<Rightarrow> heap \<Rightarrow> nat \<Rightarrow> (token \<times> token) set" where
  "references env h a = {(t, u). \<exists>p \<in> set (node_providers h a t). u \<in> set (provider_refs env p)}"

section \<open>Universe and fuel\<close>

lemma freezeInjectionToken_idem [simp]:
  "freezeInjectionToken (freezeInjectionToken v) = freezeInjectionToken v"
  by (simp add: freezeInjectionToken_def isForwardRefToken_def isOptionalInjectToken_def
      js_field_def js_in_def)

lemma freezeInjectMetadata_idem [simp]:
  "freezeInjectMetadata (freezeInjectMetadata v) = freezeInjectMetadata v"
  by (cases v) (simp_all add: freezeInjectMetadata_def)

definition stored_injects :: "(nat, class_di) js_map \<Rightarrow> jsv set" where
  "stored_injects store = insert JUndef ((\<lambda>(c, md). freezeInjectMetadata (di_inject md)) ` set store)"

lemma effective_di_inject:
  "opt_inject eff \<in> stored_injects store \<Longrightarrow>
     opt_inject (effective_di store cs eff) \<in> stored_injects store"
proof (induction store cs eff rule: effective_di.induct)
  case (2 store c cs eff)
  show ?case
  proof (cases "js_get store c")
    case None
    with 2 show ?thesis by simp
  next
    case (Some md)
    have fz: "freezeInjectMetadata (opt_inject eff) = opt_inject eff"
      using "2.prems" by (auto simp: stored_injects_def freezeInjectMetadata_def [of JUndef])
    have "opt_inject (Some (freezeClassDiMetadata
        \<lparr>di_inject = coalesce (di_inject md) (opt_inject eff),
         di_scope = coalesce (di_scope md) (opt_scope eff)\<rparr>)) \<in> stored_injects store"
      using "2.prems" fz js_get_in [OF Some]
      by (force simp: opt_inject_def [of "Some _"] freezeClassDiMetadata_def coalesce_def stored_injects_def)
    with "2.IH"(2) [OF Some] Some show ?thesis by simp
  qed
qed simp

lemma metadata_in_universe:
  assumes "e \<in> set (metadata_entries env c)"
  shows "resolveProviderDependencyToken env e \<in> set (dep_universe env h a)"
proof -
  have "opt_inject (class_metadata env c) \<in> stored_injects (env_di env)"
    unfolding class_metadata_def by (rule effective_di_inject) (simp add: opt_inject_def stored_injects_def)
  then have "opt_inject (class_metadata env c) = JUndef \<or>
      (\<exists>c' md. (c', md) \<in> set (env_di env) \<and>
        opt_inject (class_metadata env c) = freezeInjectMetadata (di_inject md))"
    by (auto simp: stored_injects_def)
  then show ?thesis
  proof
    assume "opt_inject (class_metadata env c) = JUndef"
    with assms show ?thesis by (simp add: metadata_entries_def inject_entries_def)
  next
    assume "\<exists>c' md. (c', md) \<in> set (env_di env) \<and>
        opt_inject (class_metadata env c) = freezeInjectMetadata (di_inject md)"
    with assms show ?thesis by (fastforce simp: dep_universe_def metadata_entries_def)
  qed
qed

lemma lookupPlan_registered:
  "lookupPlan h a t = Some p \<Longrightarrow> \<exists>b \<in> set (lineage h a). js_get (registrations (cont h b)) t = Some p"
  by (simp add: lookupPlan_def lookup_in_registered)

lemma lookup_all_providers:
  assumes "lookupPlan h a t = Some p"
  shows "p \<in> set (all_providers h a)"
proof -
  obtain b where b: "b \<in> set (lineage h a)" "js_get (registrations (cont h b)) t = Some p"
    using lookupPlan_registered [OF assms] by blast
  have "p \<in> snd ` set (registrations (cont h b))"
    using js_get_in [OF b(2)] by (rule image_eqI [rotated]) simp
  with b(1) show ?thesis by (auto simp: all_providers_def)
qed

lemma collect_in_registered:
  "p \<in> set (collect_in h as t) \<Longrightarrow> \<exists>b \<in> set as. \<exists>ps. js_get (multiRegistrations (cont h b)) t = Some ps \<and> p \<in> set ps"
  by (induction as) (auto simp: Let_def split: option.splits if_splits)

lemma multiPlan_registered:
  "p \<in> set (multiPlan h a t) \<Longrightarrow>
     \<exists>b \<in> set (lineage h a). \<exists>ps. js_get (multiRegistrations (cont h b)) t = Some ps \<and> p \<in> set ps"
  by (simp add: multiPlan_def collect_in_registered)

lemma multi_all_providers:
  assumes "p \<in> set (multiPlan h a t)"
  shows "p \<in> set (all_providers h a)"
proof -
  obtain b ps where b: "b \<in> set (lineage h a)" "js_get (multiRegistrations (cont h b)) t = Some ps" "p \<in> set ps"
    using multiPlan_registered [OF assms] by blast
  have "ps \<in> snd ` set (multiRegistrations (cont h b))"
    using js_get_in [OF b(2)] by (rule image_eqI [rotated]) simp
  with b(1,3) show ?thesis by (auto simp: all_providers_def)
qed

lemma node_all_providers: "p \<in> set (node_providers h a t) \<Longrightarrow> p \<in> set (all_providers h a)"
  by (auto simp: node_providers_def option_list_def lookup_all_providers multi_all_providers
      split: option.splits)

lemma dep_tokens_subset:
  "set (dep_tokens env h a es) \<subseteq> resolveProviderDependencyToken env ` set es"
  by (auto simp: dep_tokens_def)

lemma provider_target_universe:
  "p \<in> set (node_providers h a t) \<Longrightarrow> u \<in> set (provider_targets env p) \<Longrightarrow> u \<in> set (dep_universe env h a)"
  using node_all_providers by (fastforce simp: dep_universe_def)

lemma provider_needs_targets: "set (provider_needs env h a p) \<subseteq> set (provider_targets env p)"
  using dep_tokens_subset [of env h a "p_inject p"]
  by (cases "p_strategy p") (auto simp: provider_needs_def provider_targets_def)

lemma provider_refs_targets: "set (provider_refs env p) \<subseteq> set (provider_targets env p)"
  by (cases "p_strategy p") (auto simp: provider_refs_def provider_targets_def)

lemma metadata_dep_universe:
  "u \<in> set (dep_tokens env h a (metadata_entries env c)) \<Longrightarrow> u \<in> set (dep_universe env h a)"
  using dep_tokens_subset [of env h a "metadata_entries env c"] metadata_in_universe by blast

lemma needs_universe: "(t, u) \<in> needs env h a \<Longrightarrow> u \<in> set (dep_universe env h a)"
  unfolding needs_def
  using provider_target_universe provider_needs_targets metadata_dep_universe by blast

lemma references_universe: "(t, u) \<in> references env h a \<Longrightarrow> u \<in> set (dep_universe env h a)"
  unfolding references_def
  using provider_target_universe provider_refs_targets by blast

lemma universe_card:
  "card (insert t (set (dep_universe env h a)) - set vis) < search_fuel env h a"
proof -
  have "card (insert t (set (dep_universe env h a)) - set vis) \<le> card (insert t (set (dep_universe env h a)))"
    by (rule card_mono) auto
  also have "\<dots> \<le> Suc (card (set (dep_universe env h a)))"
    by (simp add: card_insert_if)
  also have "\<dots> \<le> Suc (length (dep_universe env h a))"
    by (simp add: card_length)
  finally show ?thesis by (simp add: search_fuel_def)
qed

section \<open>hasRequestScopedDependency\<close>

definition dep_acts :: "di_env \<Rightarrow> heap \<Rightarrow> nat \<Rightarrow> inject_token list \<Rightarrow> ('r + token) list" where
  "dep_acts env h a es = map Inr (dep_tokens env h a es)"

definition prov_acts :: "di_env \<Rightarrow> heap \<Rightarrow> nat \<Rightarrow> provider \<Rightarrow> (bool + token) list" where
  "prov_acts env h a p =
     (if p_scope p = Request then [Inl True] else map Inr (provider_needs env h a p))"

definition request_acts :: "di_env \<Rightarrow> heap \<Rightarrow> nat \<Rightarrow> token \<Rightarrow> (bool + token) list" where
  "request_acts env h a t =
     (if node_providers h a t = [] then
        (case t of
           ClassTok c \<Rightarrow>
             if opt_scope (class_metadata env c) = JStr ''request'' then [Inl True]
             else dep_acts env h a (metadata_entries env c)
         | _ \<Rightarrow> [])
      else concat (map (prov_acts env h a) (node_providers h a t)))"

lemma first_opt_deps:
  "first_opt False (dependencyEntryRequiresRequestScope env h a rec) es =
     first_opt False (case_sum Some rec) (dep_acts env h a es)"
  by (induction es)
    (auto simp: dep_acts_def dep_tokens_def dependencyEntryRequiresRequestScope_def skipped_def Let_def
      split: option.splits)

lemma first_opt_single: "first_opt neg f [x] = f x"
  by (auto split: option.splits)

lemma provider_requires_acts:
  "normalizedProviderRequiresRequestScope env h a rec p =
     first_opt False (case_sum Some rec) (prov_acts env h a p)"
  by (auto simp: normalizedProviderRequiresRequestScope_def prov_acts_def provider_needs_def
      first_opt_deps dep_acts_def split: strategy.splits option.splits)

interpretation req: path_search "request_acts env h a" False True "\<lambda>_. True"
  "providerGraphRequiresRequestScope env h a" for env h a
proof
  fix k vis n
  let ?rec = "providerGraphRequiresRequestScope env h a k (n # vis)"
  have none: "lookupPlan h a n = None \<and> multiPlan h a n = [] \<longleftrightarrow> node_providers h a n = []"
    by (auto simp: node_providers_def option_list_def split: option.splits)
  have list: "first_opt False (normalizedProviderRequiresRequestScope env h a ?rec) (node_providers h a n) =
      first_opt False (case_sum Some ?rec) (concat (map (prov_acts env h a) (node_providers h a n)))"
    by (simp add: first_opt_concat first_opt_map) (rule first_opt_cong, simp_all add: provider_requires_acts)
  show "providerGraphRequiresRequestScope env h a (Suc k) vis n =
      (if n \<in> set vis then Some True
       else first_opt False (case_sum Some ?rec) (request_acts env h a n))"
    using list unfolding providerGraphRequiresRequestScope.simps Let_def none
    by (auto simp: request_acts_def node_providers_def [symmetric] unregisteredClassRequiresRequestScope_def
        first_opt_deps split: token.splits)
qed auto

lemma request_edges: "act_edges (request_acts env h a) {} = needs env h a"
proof -
  have "Inr u \<in> set (request_acts env h a t) \<longleftrightarrow> (t, u) \<in> needs env h a" for t u
    by (cases "node_providers h a t = []"; cases t)
      (auto simp: needs_def request_acts_def prov_acts_def dep_acts_def split: if_splits)
  then show ?thesis by (auto simp: act_edges_def)
qed

lemma request_answers: "r \<in> answers (request_acts env h a) t \<Longrightarrow> r"
  by (auto simp: answers_def request_acts_def prov_acts_def dep_acts_def split: token.splits if_splits)

lemma request_answer_iff:
  "(\<forall>r \<in> answers (request_acts env h a) t. r = False) \<longleftrightarrow> \<not> request_scoped env h a t"
  by (auto simp: answers_def request_acts_def prov_acts_def dep_acts_def request_scoped_def
      split: token.splits if_splits)

lemma request_search_returns:
  "providerGraphRequiresRequestScope env h a (search_fuel env h a) [] t \<noteq> None"
proof (rule req.search_defined [of "insert t (set (dep_universe env h a))"])
  fix u m
  assume "Inr m \<in> set (request_acts env h a u)"
  then have "(u, m) \<in> needs env h a"
    unfolding request_edges [symmetric] by (simp add: act_edges_def)
  then show "m \<in> insert t (set (dep_universe env h a))"
    using needs_universe by blast
qed (use universe_card [of t env h a "[]"] in auto)

text \<open>
  C9. The request-scope verdict of the container is exact: resolving a token is reported to need a
  request scope exactly when a request-scoped provider (or class) or a dependency cycle is
  reachable from it through aliases, multi contributions and present dependencies.
\<close>

theorem request_scope_verdict_iff:
  "request_scope_verdict env h a t \<longleftrightarrow>
     (\<exists>u. (t, u) \<in> (needs env h a)\<^sup>* \<and> (request_scoped env h a u \<or> (u, u) \<in> (needs env h a)\<^sup>+))"
proof -
  obtain r where r: "providerGraphRequiresRequestScope env h a (search_fuel env h a) [] t = Some r"
    using request_search_returns by blast
  have "r = False \<longleftrightarrow> (\<forall>m. (t, m) \<in> (needs env h a)\<^sup>* \<longrightarrow>
      \<not> request_scoped env h a m \<and> (m, m) \<notin> (needs env h a)\<^sup>+)"
    using req.search_neg_iff_acyclic [OF r] unfolding request_edges request_answer_iff by simp
  with r show ?thesis by (auto simp: request_scope_verdict_def)
qed

section \<open>providerDependsOnToken\<close>

definition ref_act :: "token \<Rightarrow> token \<Rightarrow> bool + token" where
  "ref_act tok d = (if d = tok then Inl True else Inr d)"

definition ref_acts :: "di_env \<Rightarrow> heap \<Rightarrow> nat \<Rightarrow> token \<Rightarrow> token \<Rightarrow> (bool + token) list" where
  "ref_acts env h a tok d =
     concat (map (\<lambda>p. map (ref_act tok) (provider_refs env p)) (node_providers h a d))"

lemma dependencyTokenReferencesToken_hit [simp]:
  "dependencyTokenReferencesToken env h a tok k vis tok = Some True"
  by (cases k) auto

lemma provider_refs_acts:
  "providerDependsOnToken env (dependencyTokenReferencesToken env h a tok k vis) p =
     first_opt False (case_sum Some (dependencyTokenReferencesToken env h a tok k vis))
       (map (ref_act tok) (provider_refs env p))"
proof -
  have act: "case_sum Some (dependencyTokenReferencesToken env h a tok k vis) (ref_act tok d) =
      dependencyTokenReferencesToken env h a tok k vis d" for d
    by (simp add: ref_act_def)
  show ?thesis
    by (auto simp: providerDependsOnToken_def provider_refs_def first_opt_map act
        split: strategy.splits option.splits)
qed

interpretation ref: path_search "ref_acts env h a tok" False False "\<lambda>d. d \<noteq> tok"
  "dependencyTokenReferencesToken env h a tok" for env h a tok
proof
  fix k vis n
  assume n: "n \<noteq> tok"
  let ?rec = "dependencyTokenReferencesToken env h a tok k (n # vis)"
  have "first_opt False (providerDependsOnToken env ?rec) (node_providers h a n) =
      first_opt False (case_sum Some ?rec) (ref_acts env h a tok n)"
    by (simp add: ref_acts_def first_opt_concat first_opt_map [of _ "first_opt _ _"])
      (rule first_opt_cong, simp_all add: provider_refs_acts)
  with n show "dependencyTokenReferencesToken env h a tok (Suc k) vis n =
      (if n \<in> set vis then Some False
       else first_opt False (case_sum Some ?rec) (ref_acts env h a tok n))"
    by (simp add: Let_def node_providers_def [symmetric])
next
  fix n m
  assume "Inr m \<in> set (ref_acts env h a tok n)"
  then show "m \<noteq> tok" by (auto simp: ref_acts_def ref_act_def split: if_splits)
qed auto

lemma ref_edges: "act_edges (ref_acts env h a tok) V = {(t, u) \<in> references env h a. u \<noteq> tok \<and> u \<notin> V}"
  by (auto simp: act_edges_def ref_acts_def ref_act_def references_def split: if_splits)

lemma ref_answers: "answers (ref_acts env h a tok) t = {r. r \<and> (t, tok) \<in> references env h a}"
  by (auto simp: answers_def ref_acts_def ref_act_def references_def split: if_splits)

lemma ref_no_answer:
  "(\<forall>r \<in> answers (ref_acts env h a tok) t. r = False) \<longleftrightarrow> (t, tok) \<notin> references env h a"
  by (auto simp: ref_answers)

lemma ref_search_returns:
  assumes "d \<noteq> tok"
  shows "dependencyTokenReferencesToken env h a tok (search_fuel env h a) vis d \<noteq> None"
proof (rule ref.search_defined [of "insert d (set (dep_universe env h a))"])
  fix u m
  assume "Inr m \<in> set (ref_acts env h a tok u)"
  then have "(u, m) \<in> act_edges (ref_acts env h a tok) {}" by (simp add: act_edges_def)
  then show "m \<in> insert d (set (dep_universe env h a))"
    using references_universe by (auto simp: ref_edges)
qed (use universe_card [of d env h a vis] assms in auto)

text \<open>A reference from \<open>d\<close> to \<open>tok\<close> that does not pass through the nodes of \<open>vis\<close>.\<close>

definition reaches_avoiding :: "(token \<times> token) set \<Rightarrow> token set \<Rightarrow> token \<Rightarrow> token \<Rightarrow> bool" where
  "reaches_avoiding E V d tok \<longleftrightarrow>
     d = tok \<or> (d \<notin> V \<and> (\<exists>m. (d, m) \<in> {(t, u) \<in> E. u \<noteq> tok \<and> u \<notin> V}\<^sup>* \<and> (m, tok) \<in> E))"

lemma ref_search_iff:
  "dependencyTokenReferencesToken env h a tok (search_fuel env h a) vis d = Some True \<longleftrightarrow>
     reaches_avoiding (references env h a) (set vis) d tok"
proof (cases "d = tok")
  case True
  then show ?thesis by (simp add: reaches_avoiding_def)
next
  case False
  obtain r where r: "dependencyTokenReferencesToken env h a tok (search_fuel env h a) vis d = Some r"
    using ref_search_returns [OF False] by blast
  show ?thesis
  proof (cases "d \<in> set vis")
    case True
    have "dependencyTokenReferencesToken env h a tok (search_fuel env h a) vis d = Some False"
      using True False by (simp add: search_fuel_def numeral_2_eq_2)
    with True False show ?thesis by (simp add: reaches_avoiding_def)
  next
    case free: False
    have "r = False \<longleftrightarrow> (\<forall>m. (d, m) \<in> {(t, u) \<in> references env h a. u \<noteq> tok \<and> u \<notin> set vis}\<^sup>* \<longrightarrow>
        (m, tok) \<notin> references env h a)"
      using ref.search_iff_reachable [OF r _ free False] unfolding ref_edges ref_no_answer by simp
    with r False free show ?thesis by (auto simp: reaches_avoiding_def)
  qed
qed

lemma provider_depends_iff:
  "provider_depends env h a p tok \<longleftrightarrow>
     (\<exists>d \<in> set (provider_refs env p). reaches_avoiding (references env h a) {p_provide p} d tok)"
proof -
  have step: "dependencyTokenReferencesToken env h a tok (search_fuel env h a) [p_provide p] d \<noteq> None" for d
    using ref_search_returns [of d tok] by (cases "d = tok") auto
  have hit: "first_opt False f xs = Some True \<longleftrightarrow> (\<exists>x \<in> set xs. f x = Some True)"
    if total: "\<And>x. f x \<noteq> None" for f :: "token \<Rightarrow> bool option" and xs
  proof (induction xs)
    case (Cons x xs)
    obtain y where "f x = Some y" using total [of x] by blast
    with Cons show ?case by auto
  qed simp
  have "providerDependsOnToken env
      (dependencyTokenReferencesToken env h a tok (search_fuel env h a) [p_provide p]) p =
    first_opt False (dependencyTokenReferencesToken env h a tok (search_fuel env h a) [p_provide p])
      (provider_refs env p)"
    by (auto simp: providerDependsOnToken_def provider_refs_def first_opt_map split: strategy.splits option.splits)
  then show ?thesis
    using hit [OF step] by (simp add: provider_depends_def ref_search_iff)
qed

text \<open>Every registry maps a token to providers of that token.\<close>

definition keyed :: "heap \<Rightarrow> bool" where
  "keyed h \<longleftrightarrow> (\<forall>b < length (conts h).
     (\<forall>t p. js_get (registrations (cont h b)) t = Some p \<longrightarrow> p_provide p = t) \<and>
     (\<forall>t ps p. js_get (multiRegistrations (cont h b)) t = Some ps \<longrightarrow> p \<in> set ps \<longrightarrow> p_provide p = t))"

lemma keyed_node:
  assumes "keyed h" and "a < length (conts h)" and "p \<in> set (node_providers h a t)"
  shows "p_provide p = t"
proof -
  consider "lookupPlan h a t = Some p" | "p \<in> set (multiPlan h a t)"
    using assms(3) by (auto simp: node_providers_def option_list_def split: option.splits)
  then show ?thesis
    using lookupPlan_registered multiPlan_registered lineage_bound [OF assms(2)] assms(1)
    unfolding keyed_def by cases blast+
qed

lemma reaches_avoiding_rtrancl:
  assumes "reaches_avoiding E V d tok"
  shows "(d, tok) \<in> E\<^sup>*"
proof (cases "d = tok")
  case False
  then obtain m where m: "(d, m) \<in> {(t, u) \<in> E. u \<noteq> tok \<and> u \<notin> V}\<^sup>*" "(m, tok) \<in> E"
    using assms by (auto simp: reaches_avoiding_def)
  have "{(t, u) \<in> E. u \<noteq> tok \<and> u \<notin> V}\<^sup>* \<subseteq> E\<^sup>*"
    by (rule rtrancl_mono) auto
  with m show ?thesis by (meson rtrancl_into_rtrancl subsetD)
qed simp

lemma simple_walk_reaches:
  "walk E d ps \<Longrightarrow> distinct (d # ps) \<Longrightarrow> last (d # ps) = tok \<Longrightarrow> set (d # ps) \<inter> V = {} \<Longrightarrow>
     reaches_avoiding E V d tok"
proof (induction ps arbitrary: d)
  case Nil
  then show ?case by (simp add: reaches_avoiding_def)
next
  case (Cons m ms)
  have m: "reaches_avoiding E V m tok"
    using Cons.IH [of m] Cons.prems by auto
  show ?case
  proof (cases "m = tok")
    case True
    with Cons.prems show ?thesis by (auto simp: reaches_avoiding_def)
  next
    case False
    with m obtain w where "(m, w) \<in> {(t, u) \<in> E. u \<noteq> tok \<and> u \<notin> V}\<^sup>*" "(w, tok) \<in> E"
      by (auto simp: reaches_avoiding_def)
    moreover have "(d, m) \<in> {(t, u) \<in> E. u \<noteq> tok \<and> u \<notin> V}"
      using Cons.prems False by auto
    ultimately show ?thesis
      using Cons.prems(4) by (auto simp: reaches_avoiding_def intro: converse_rtrancl_into_rtrancl)
  qed
qed

lemma shouldInvalidateCachedToken_nodes:
  "shouldInvalidateCachedToken env h a c tok \<longleftrightarrow>
     c = tok \<or> (\<exists>p \<in> set (node_providers h a c). provider_depends env h a p tok)"
  by (auto simp: shouldInvalidateCachedToken_def node_providers_def option_list_def list_ex_iff
      split: option.splits)

lemma invalidation_exact:
  assumes "keyed h" and "a < length (conts h)"
  shows "shouldInvalidateCachedToken env h a c tok \<longleftrightarrow> (c, tok) \<in> (references env h a)\<^sup>*"
proof
  assume "shouldInvalidateCachedToken env h a c tok"
  then show "(c, tok) \<in> (references env h a)\<^sup>*"
  proof (cases "c = tok")
    case False
    with \<open>shouldInvalidateCachedToken env h a c tok\<close> obtain p d where
      "p \<in> set (node_providers h a c)" "d \<in> set (provider_refs env p)"
      "reaches_avoiding (references env h a) {p_provide p} d tok"
      by (auto simp: shouldInvalidateCachedToken_nodes provider_depends_iff)
    then have "(c, d) \<in> references env h a" "(d, tok) \<in> (references env h a)\<^sup>*"
      by (auto simp: references_def dest: reaches_avoiding_rtrancl)
    then show ?thesis by (rule converse_rtrancl_into_rtrancl)
  qed simp
next
  assume reach: "(c, tok) \<in> (references env h a)\<^sup>*"
  obtain ps where ps: "walk (references env h a) c ps" "distinct (c # ps)" "last (c # ps) = tok"
    using rtrancl_simple_walk [OF reach] by auto
  show "shouldInvalidateCachedToken env h a c tok"
  proof (cases ps)
    case Nil
    with ps show ?thesis by (simp add: shouldInvalidateCachedToken_nodes)
  next
    case (Cons d ds)
    then obtain p where p: "p \<in> set (node_providers h a c)" "d \<in> set (provider_refs env p)"
      using ps(1) by (auto simp: references_def)
    have "reaches_avoiding (references env h a) {p_provide p} d tok"
      using ps Cons keyed_node [OF assms p(1)] by (intro simple_walk_reaches [of _ d ds]) auto
    with p show ?thesis
      by (auto simp: shouldInvalidateCachedToken_nodes provider_depends_iff)
  qed
qed

end
