(* ===== verification/Resolve_Frame.thy ===== *)
theory Resolve_Frame
  imports Container_Resolve Analysis_Correctness
begin

text \<open>
  What a resolution may change: only caches and tracking flags, only in the containers of the
  parent chain, only by adding entries, and never an entry of a token that is being resolved.
\<close>

section \<open>The frame relation\<close>

definition cache_le :: "('k, promise) js_map \<Rightarrow> ('k, promise) js_map \<Rightarrow> bool" where
  "cache_le m m' \<longleftrightarrow> (\<forall>k pr. js_get m k = Some pr \<longrightarrow> js_get m' k = Some pr)"

definition cache_same_on :: "'k set \<Rightarrow> ('k, promise) js_map \<Rightarrow> ('k, promise) js_map \<Rightarrow> bool" where
  "cache_same_on K m m' \<longleftrightarrow> (\<forall>k \<in> K. js_get m' k = js_get m k)"

definition cont_ext :: "token set \<Rightarrow> container \<Rightarrow> container \<Rightarrow> bool" where
  "cont_ext C c c' \<longleftrightarrow>
     graph_part c' = graph_part c \<and> plan_part c' = plan_part c \<and>
     requestScopeEnabled c' = requestScopeEnabled c \<and> disposed c' = disposed c \<and>
     staleDisposalTasks c' = staleDisposalTasks c \<and>
     cache_le (requestCache c) (requestCache c') \<and> cache_same_on C (requestCache c) (requestCache c') \<and>
     cache_le (singletonCache c) (singletonCache c') \<and> cache_same_on C (singletonCache c) (singletonCache c') \<and>
     cache_le (multiRequestCache c) (multiRequestCache c') \<and>
     cache_same_on {p. p_provide p \<in> C} (multiRequestCache c) (multiRequestCache c') \<and>
     cache_le (multiSingletonCache c) (multiSingletonCache c') \<and>
     cache_same_on {p. p_provide p \<in> C} (multiSingletonCache c) (multiSingletonCache c')"

definition ext :: "nat set \<Rightarrow> token set \<Rightarrow> heap \<Rightarrow> heap \<Rightarrow> bool" where
  "ext L C h h' \<longleftrightarrow>
     length (conts h') = length (conts h) \<and>
     (\<forall>b < length (conts h). cont_ext C (cont h b) (cont h' b)) \<and>
     (\<forall>b < length (conts h). b \<notin> L \<longrightarrow> cont h' b = cont h b) \<and>
     (\<forall>b < length (conts h). \<forall>x \<in> set (childScopes (cont h' b)) - set (childScopes (cont h b)).
        b < x \<and> x < length (conts h)) \<and>
     tasks h' = tasks h \<and> nextRef h \<le> nextRef h'"

lemma cache_le_refl [simp]: "cache_le m m"
  by (simp add: cache_le_def)

lemma cache_same_on_refl [simp]: "cache_same_on K m m"
  by (simp add: cache_same_on_def)

lemma cache_le_trans: "cache_le m m' \<Longrightarrow> cache_le m' m'' \<Longrightarrow> cache_le m m''"
  by (simp add: cache_le_def)

lemma cache_same_on_trans: "cache_same_on K m m' \<Longrightarrow> cache_same_on K m' m'' \<Longrightarrow> cache_same_on K m m''"
  by (simp add: cache_same_on_def)

lemma cache_le_put: "js_get m k = None \<Longrightarrow> cache_le m (js_set m k pr)"
  by (auto simp: cache_le_def js_get_set)

lemma cache_same_on_put: "k \<notin> K \<Longrightarrow> cache_same_on K m (js_set m k pr)"
  by (auto simp: cache_same_on_def js_get_set)

lemma cont_ext_refl [simp]: "cont_ext C c c"
  by (simp add: cont_ext_def)

lemma cont_ext_trans: "cont_ext C c c' \<Longrightarrow> cont_ext C c' c'' \<Longrightarrow> cont_ext C c c''"
  unfolding cont_ext_def
  by (elim conjE, intro conjI) ((rule cache_le_trans cache_same_on_trans, assumption, assumption) | simp)+

lemma cont_ext_mono: "cont_ext C c c' \<Longrightarrow> C' \<subseteq> C \<Longrightarrow> cont_ext C' c c'"
  unfolding cont_ext_def cache_same_on_def by (elim conjE, intro conjI) (assumption | blast)+

lemma cont_ext_plan: "cont_ext C c c' \<Longrightarrow> plan_part c' = plan_part c"
  unfolding cont_ext_def by (elim conjE)

lemma ext_children:
  "ext L C h h' \<Longrightarrow> b < length (conts h) \<Longrightarrow> x \<in> set (childScopes (cont h' b)) \<Longrightarrow>
     x \<in> set (childScopes (cont h b)) \<or> (b < x \<and> x < length (conts h))"
  unfolding ext_def by blast

lemma cont_ext_graph: "cont_ext C c c' \<Longrightarrow> graph_part c' = graph_part c"
  unfolding cont_ext_def by (elim conjE)

lemma ext_cont: "ext L C h h' \<Longrightarrow> b < length (conts h) \<Longrightarrow> cont_ext C (cont h b) (cont h' b)"
  unfolding ext_def by blast

lemma ext_outside: "ext L C h h' \<Longrightarrow> b < length (conts h) \<Longrightarrow> b \<notin> L \<Longrightarrow> cont h' b = cont h b"
  unfolding ext_def by blast

lemma ext_refl [simp]: "ext L C h h"
  by (simp add: ext_def)

lemma ext_trans:
  assumes "ext L C h h'" and "ext L C h' h''"
  shows "ext L C h h''"
proof -
  have len: "length (conts h') = length (conts h)" "length (conts h'') = length (conts h')"
    and tk: "tasks h' = tasks h" "tasks h'' = tasks h'" and nr: "nextRef h \<le> nextRef h'" "nextRef h' \<le> nextRef h''"
    using assms unfolding ext_def by blast+
  have "\<forall>b < length (conts h). cont_ext C (cont h b) (cont h'' b)"
    using ext_cont [OF assms(1)] ext_cont [OF assms(2)] cont_ext_trans unfolding len by blast
  moreover have "\<forall>b < length (conts h). b \<notin> L \<longrightarrow> cont h'' b = cont h b"
    using ext_outside [OF assms(1)] ext_outside [OF assms(2)] unfolding len by metis
  moreover have "\<forall>b < length (conts h). \<forall>x \<in> set (childScopes (cont h'' b)) - set (childScopes (cont h b)).
      b < x \<and> x < length (conts h)"
    using ext_children [OF assms(1)] ext_children [OF assms(2)] unfolding len by blast
  moreover have "length (conts h'') = length (conts h)" "tasks h'' = tasks h" "nextRef h \<le> nextRef h''"
    using len tk nr by simp_all
  ultimately show ?thesis unfolding ext_def by blast
qed

lemma ext_mono:
  assumes "ext L C h h'" and "L \<subseteq> L'" and "C' \<subseteq> C"
  shows "ext L' C' h h'"
proof -
  have "cont_ext C' (cont h b) (cont h' b)" if "b < length (conts h)" for b
    using cont_ext_mono [OF ext_cont [OF assms(1) that] assms(3)] .
  moreover have "\<forall>b < length (conts h). b \<notin> L' \<longrightarrow> cont h' b = cont h b"
    using ext_outside [OF assms(1)] assms(2) by blast
  ultimately show ?thesis
    using assms(1) unfolding ext_def by blast
qed

lemma ext_length [simp]: "ext L C h h' \<Longrightarrow> length (conts h') = length (conts h)"
  by (simp add: ext_def)

lemma ext_same_graph: "ext L C h h' \<Longrightarrow> same_graph h h'"
  unfolding same_graph_def using ext_cont [THEN cont_ext_graph] ext_length by blast

lemma ext_lineage: "ext L C h h' \<Longrightarrow> a < length (conts h) \<Longrightarrow> lineage h' a = lineage h a"
  by (rule same_graph_lineage [OF ext_same_graph])

lemma ext_fresh: "ext L C h (snd (fresh h))"
  unfolding ext_def by (simp add: fresh_def cont_def)

lemma ext_upd:
  "a \<in> L \<Longrightarrow> a < length (conts h) \<Longrightarrow> cont_ext C (cont h a) (f (cont h a)) \<Longrightarrow>
     \<forall>x \<in> set (childScopes (f (cont h a))) - set (childScopes (cont h a)). a < x \<and> x < length (conts h) \<Longrightarrow>
     ext L C h (upd a f h)"
  unfolding ext_def by (intro conjI allI impI) (auto simp: cont_upd, simp_all add: upd_def)

lemma same_graph_keyed: "same_graph h h' \<Longrightarrow> keyed h \<Longrightarrow> keyed h'"
  by (simp add: same_graph_def keyed_def graph_part_def)

lemma ext_keyed: "ext L C h h' \<Longrightarrow> keyed h \<Longrightarrow> keyed h'"
  by (rule same_graph_keyed [OF ext_same_graph])

section \<open>Plans and parent chains under the frame\<close>

lemma same_graph_lookupPlan:
  "same_graph h h' \<Longrightarrow> a < length (conts h) \<Longrightarrow> lookupPlan h' a t = lookupPlan h a t"
  unfolding lookupPlan_def by (simp add: same_graph_lineage)
    (rule lookup_in_cong, auto simp: same_graph_def dest: lineage_bound)

lemma same_graph_multiPlan:
  "same_graph h h' \<Longrightarrow> a < length (conts h) \<Longrightarrow> multiPlan h' a t = multiPlan h a t"
  unfolding multiPlan_def by (simp add: same_graph_lineage)
    (rule collect_in_cong, auto simp: same_graph_def dest: lineage_bound)

lemma self_in_lineage [simp]: "a \<in> set (lineage h a)"
  using lineage_Cons [of h a] by auto

lemma lineage_suffix:
  "b \<in> set (lineage h a) \<Longrightarrow> \<exists>as. lineage h a = as @ lineage h b"
proof (induction h a rule: lineage.induct)
  case (1 h a)
  show ?case
  proof (cases "b = a")
    case True
    then show ?thesis by simp
  next
    case False
    then obtain p where p: "parent (cont h a) = Some p" "p < a" "b \<in> set (lineage h p)"
      using "1.prems" by (cases "parent (cont h a)") (auto simp: lineage.simps [of h a] split: if_splits)
    then obtain as where "lineage h p = as @ lineage h b"
      using "1.IH" by blast
    with p have "lineage h a = (a # as) @ lineage h b"
      by (subst lineage.simps) simp
    then show ?thesis by blast
  qed
qed

lemma lineage_subset: "b \<in> set (lineage h a) \<Longrightarrow> set (lineage h b) \<subseteq> set (lineage h a)"
  using lineage_suffix by fastforce

lemma root_in_lineage [simp]: "root h a \<in> set (lineage h a)"
  using lineage_Cons [of h a] by (auto simp: root_def)

lemma owner_in_lineage: "owner_in h p as d \<in> insert d (set as)"
  by (induction as arbitrary: d) auto

lemma cacheOwner_in_lineage [simp]: "cacheOwnerFor h a p \<in> set (lineage h a)"
  using owner_in_lineage [of h p "lineage h a" a] by (auto simp: cacheOwnerFor_def)

lemma track_ext:
  "set as \<subseteq> L \<Longrightarrow> (\<And>b. b \<in> set as \<Longrightarrow> b < length (conts h)) \<Longrightarrow> sorted_wrt (>) as \<Longrightarrow>
     ext L C h (track_in as h)"
proof (induction as h rule: track_in.induct)
  case (1 a p as h)
  show ?case
  proof (cases "\<not> requestScopeEnabled (cont h a) \<or> trackedByParent (cont h a)")
    case False
    define h1 where "h1 = track_in (p # as) h"
    define h2 where "h2 = upd p (\<lambda>c. c\<lparr>childScopes :=
      (if a \<in> set (childScopes c) then childScopes c else childScopes c @ [a])\<rparr>) h1"
    have e1: "ext L C h h1"
      unfolding h1_def using 1 False by (auto simp: h1_def)
    then have len: "length (conts h1) = length (conts h)" by simp
    have "ext L C h1 h2"
      unfolding h2_def by (rule ext_upd) (use 1 len in \<open>auto simp: cont_ext_def graph_part_def plan_part_def\<close>)
    moreover have "ext L C h2 (upd a (\<lambda>c. c\<lparr>trackedByParent := True\<rparr>) h2)"
      by (rule ext_upd) (use 1 len in \<open>auto simp: cont_ext_def graph_part_def plan_part_def h2_def\<close>)
    ultimately show ?thesis
      using e1 False by (simp add: h1_def [symmetric] h2_def [symmetric] Let_def) (meson ext_trans)
  qed simp
qed auto

lemma lineage_sorted: "sorted_wrt (>) (lineage h a)"
proof (induction h a rule: lineage.induct)
  case (1 h a)
  then show ?case
    by (cases "parent (cont h a)") (auto simp: lineage.simps [of h a] dest: lineage_le)
qed

lemma ensureTracked_ext:
  "a < length (conts h) \<Longrightarrow> set (lineage h a) \<subseteq> L \<Longrightarrow> ext L C h (ensureTrackedRequestScope a h)"
  unfolding ensureTrackedRequestScope_def by (rule track_ext) (auto dest: lineage_bound intro: lineage_sorted)

lemma cacheFor_ext:
  assumes "cacheFor a p h = Inr (h1, loc)" and "a < length (conts h)"
  shows "ext (set (lineage h a)) C h h1 \<and> (\<exists>b \<in> set (lineage h a). loc = RequestLoc b \<or> loc = RootLoc b)"
  using assms ensureTracked_ext [OF assms(2), of "set (lineage h a)" C]
  by (auto simp: cacheFor_def split: if_splits intro: root_in_lineage)

lemma multiCacheFor_ext:
  assumes "multiCacheFor a p h = Inr (h1, loc)" and "a < length (conts h)"
  shows "ext (set (lineage h a)) C h h1 \<and> (\<exists>b \<in> set (lineage h a). loc = RequestLoc b \<or> loc = RootLoc b)"
  using assms ensureTracked_ext [OF assms(2), of "set (lineage h a)" C]
  by (auto simp: multiCacheFor_def split: if_splits intro: root_in_lineage)

lemma cache_put_ext:
  assumes "loc = RequestLoc b \<or> loc = RootLoc b" and "b \<in> L" and "b < length (conts h)"
    and "cache_get loc h t = None" and "t \<notin> C"
  shows "ext L C h (cache_put loc t pr h)"
  using assms(1)
proof
  assume "loc = RequestLoc b"
  with assms show ?thesis
    by (auto intro!: ext_upd simp: cont_ext_def graph_part_def plan_part_def cache_le_put cache_same_on_put)
next
  assume "loc = RootLoc b"
  with assms show ?thesis
    by (auto intro!: ext_upd simp: cont_ext_def graph_part_def plan_part_def cache_le_put cache_same_on_put)
qed

lemma multi_cache_put_ext:
  assumes "loc = RequestLoc b \<or> loc = RootLoc b" and "b \<in> L" and "b < length (conts h)"
    and "multi_cache_get loc h p = None" and "p_provide p \<notin> C"
  shows "ext L C h (multi_cache_put loc p pr h)"
  using assms(1)
proof
  assume "loc = RequestLoc b"
  with assms show ?thesis
    by (auto intro!: ext_upd simp: cont_ext_def graph_part_def plan_part_def cache_le_put cache_same_on_put)
next
  assume "loc = RootLoc b"
  with assms show ?thesis
    by (auto intro!: ext_upd simp: cont_ext_def graph_part_def plan_part_def cache_le_put cache_same_on_put)
qed

lemma cache_get_same:
  assumes "ext L C h h'" and "loc = RequestLoc b \<or> loc = RootLoc b" and "b < length (conts h)" and "t \<in> C"
  shows "cache_get loc h' t = cache_get loc h t"
  using ext_cont [OF assms(1,3)] assms(2,4) unfolding cont_ext_def cache_same_on_def by fastforce

lemma multi_cache_get_same:
  assumes "ext L C h h'" and "loc = RequestLoc b \<or> loc = RootLoc b" and "b < length (conts h)"
    and "p_provide p \<in> C"
  shows "multi_cache_get loc h' p = multi_cache_get loc h p"
  using ext_cont [OF assms(1,3)] assms(2,4) unfolding cont_ext_def cache_same_on_def by fastforce

lemma trackCacheMaterialization_ext:
  "a \<in> L \<Longrightarrow> a < length (conts h) \<Longrightarrow> ext L C h (trackCacheMaterialization a pr h)"
  unfolding trackCacheMaterialization_def
  by (rule ext_upd) (auto simp: cont_ext_def graph_part_def plan_part_def)

section \<open>Every resolution respects the frame\<close>

definition good :: "resolver \<Rightarrow> bool" where
  "good rec \<longleftrightarrow> (\<forall>a chain t h h' r.
     a < length (conts h) \<longrightarrow> keyed h \<longrightarrow> rec a chain t h = Some (h', r) \<longrightarrow>
     ext (set (lineage h a)) (set chain) h h')"

lemma goodD:
  "good rec \<Longrightarrow> rec a chain t h = Some (h', r) \<Longrightarrow> a < length (conts h) \<Longrightarrow> keyed h \<Longrightarrow>
     ext (set (lineage h a)) (set chain) h h'"
  unfolding good_def by blast

lemma resolveDepToken_ext:
  "good rec \<Longrightarrow> resolveDepToken env rec a chain e h = Some (h', r) \<Longrightarrow> a < length (conts h) \<Longrightarrow> keyed h \<Longrightarrow>
     ext (set (lineage h a)) (set chain) h h'"
  by (auto simp: resolveDepToken_def Let_def split: inject_token.splits if_splits intro: goodD)

lemma resolveProviderDeps_ext:
  assumes "good rec"
  shows "resolveProviderDeps env rec a chain es h = Some (h', r) \<Longrightarrow> a < length (conts h) \<Longrightarrow> keyed h \<Longrightarrow>
     ext (set (lineage h a)) (set chain) h h'"
proof (induction es arbitrary: h r)
  case (Cons e es)
  from Cons.prems(1) obtain h1 r1 where
    d: "resolveDepToken env rec a chain e h = Some (h1, r1)"
    by (auto split: option.splits)
  note e1 = resolveDepToken_ext [OF assms d Cons.prems(2,3)]
  show ?case
  proof (cases r1)
    case (Inl err)
    with d Cons.prems(1) e1 show ?thesis by simp
  next
    case (Inr v)
    with d Cons.prems(1) obtain r2 where
      "resolveProviderDeps env rec a chain es h1 = Some (h', r2)"
      by (auto split: option.splits sum.splits)
    then have "ext (set (lineage h1 a)) (set chain) h1 h'"
      using Cons.IH Cons.prems(2,3) e1 ext_keyed by auto
    with e1 show ?thesis
      using ext_lineage [OF e1 Cons.prems(2)] by (auto intro: ext_trans)
  qed
qed simp

lemma run_user_ext: "ext L C h (fst (run_constructor u c deps h))" "ext L C h (fst (run_factory u f deps h))"
  using ext_fresh [of L C h]
  by (auto simp: run_constructor_def run_factory_def fresh_def Let_def split: option.splits sum.splits)

text \<open>The alias case of \<open>instantiate\<close> is dead code: both callers have already handled aliases.\<close>

definition not_alias :: "provider \<Rightarrow> bool" where
  "not_alias p = (case p_strategy p of UseExisting _ \<Rightarrow> False | _ \<Rightarrow> True)"

lemma instantiate_cases:
  assumes "instantiate u env rec a p chain h = Some (h', r)" and "not_alias p"
  obtains "h' = h"
  | h1 where "\<exists>r1. resolveProviderDeps env rec a chain (p_inject p) h = Some (h1, r1)"
      "h' = h1 \<or> (\<exists>c deps. h' = fst (run_constructor u c deps h1)) \<or> (\<exists>f deps. h' = fst (run_factory u f deps h1))"
  using assms
  by (auto simp: instantiate_def not_alias_def split: option.splits strategy.splits sum.splits prod.splits)
    (metis fst_conv)+

lemma instantiate_ext:
  assumes "good rec" and "instantiate u env rec a p chain h = Some (h', r)" and "not_alias p"
    and "a < length (conts h)" and "keyed h"
  shows "ext (set (lineage h a)) (set chain) h h'"
  using assms(2,3)
proof (cases rule: instantiate_cases)
  case (2 h1)
  then have e1: "ext (set (lineage h a)) (set chain) h h1"
    using resolveProviderDeps_ext [OF assms(1)] assms(4,5) by blast
  with 2(2) show ?thesis
    by (auto intro: ext_trans [OF e1] run_user_ext)
qed simp

lemma settle_cases:
  assumes "settle_instance put a out = Some (h', r)"
  obtains err where "out = Some (h', Inl err)" "r = Inl err"
  | h v where "out = Some (h, Inr v)" "r = Inr v"
      "h' = trackCacheMaterialization a \<lparr>pr_id = nextRef h, pr_val = v\<rparr>
              (put \<lparr>pr_id = nextRef h, pr_val = v\<rparr> (snd (fresh h)))"
  using assms by (auto simp: settle_instance_def fresh_def Let_def split: option.splits sum.splits)

lemma cache_get_fresh [simp]:
  "cache_get loc (snd (fresh h)) t = cache_get loc h t"
  "multi_cache_get loc (snd (fresh h)) p = multi_cache_get loc h p"
  by (cases loc; simp add: fresh_def cont_def)+

lemma length_fresh [simp]: "length (conts (snd (fresh h))) = length (conts h)"
  by (simp add: fresh_def)

text \<open>The shape shared by the two caching paths: instantiate, store the promise, log it.\<close>

lemma settle_ext:
  assumes out: "settle_instance put a (instantiate u env rec a p (t # chain) h1) = Some (h', r)"
    and rec: "good rec" "not_alias p" "a < length (conts h1)" "keyed h1"
    and put: "\<And>pr h. ext (set (lineage h1 a)) (set (t # chain)) h1 h \<Longrightarrow>
                ext (set (lineage h1 a)) (set chain) h (put pr (snd (fresh h)))"
  shows "ext (set (lineage h1 a)) (set chain) h1 h'"
  using out
proof (cases rule: settle_cases)
  case (1 err)
  then have "ext (set (lineage h1 a)) (set (t # chain)) h1 h'"
    using instantiate_ext [OF rec(1) _ rec(2-4)] by blast
  then show ?thesis by (rule ext_mono) auto
next
  case (2 h v)
  define pr where "pr = \<lparr>pr_id = nextRef h, pr_val = v\<rparr>"
  have e: "ext (set (lineage h1 a)) (set (t # chain)) h1 h"
    using instantiate_ext [OF rec(1) 2(1) rec(2-4)] .
  then have e1: "ext (set (lineage h1 a)) (set chain) h1 h"
    by (rule ext_mono) auto
  have e2: "ext (set (lineage h1 a)) (set chain) h (put pr (snd (fresh h)))"
    using e by (rule put)
  have "ext (set (lineage h1 a)) (set chain) (put pr (snd (fresh h))) h'"
    unfolding 2(3) pr_def [symmetric]
    by (rule trackCacheMaterialization_ext) (use ext_length [OF e] ext_length [OF e2] rec in auto)
  with e1 e2 show ?thesis by (meson ext_trans)
qed

lemma resolveOwnScoped_ext:
  assumes rec: "good rec" "not_alias p" "a < length (conts h)" "keyed h" "p_provide p = t" "t \<notin> set chain"
    and out: "resolveOwnScopedOrSingletonInstance u env rec a p (t # chain) h = Some (h', r)"
  shows "ext (set (lineage h a)) (set chain) h h'"
proof (cases "cacheFor a p h")
  case (Inl err)
  with out show ?thesis by (simp add: resolveOwnScopedOrSingletonInstance_def)
next
  case (Inr r1)
  obtain h1 loc where r1: "cacheFor a p h = Inr (h1, loc)"
    using Inr by (cases r1) auto
  from cacheFor_ext [OF r1 rec(3), of "set chain"] obtain b where
    e1: "ext (set (lineage h a)) (set chain) h h1" and
    b: "b \<in> set (lineage h a)" "loc = RequestLoc b \<or> loc = RootLoc b" by blast
  have lin: "lineage h1 a = lineage h a" and len: "length (conts h1) = length (conts h)"
    using ext_lineage [OF e1 rec(3)] ext_length [OF e1] by auto
  show ?thesis
  proof (cases "cache_get loc h1 t")
    case (Some pr)
    with out r1 rec(5) e1 show ?thesis by (simp add: resolveOwnScopedOrSingletonInstance_def)
  next
    case None
    have bl: "b < length (conts h)" using b(1) rec(3) lineage_bound by blast
    have "ext (set (lineage h1 a)) (set chain) h1 h'"
    proof (rule settle_ext)
      show "settle_instance (cache_put loc t) a (instantiate u env rec a p (t # chain) h1) = Some (h', r)"
        using out r1 None rec(5) by (simp add: resolveOwnScopedOrSingletonInstance_def)
      show "ext (set (lineage h1 a)) (set chain) h2 (cache_put loc t pr (snd (fresh h2)))"
        if e2: "ext (set (lineage h1 a)) (set (t # chain)) h1 h2" for pr h2
      proof -
        have "cache_get loc h2 t = None"
          using cache_get_same [OF e2 b(2)] bl len None by simp
        then show ?thesis
          using b bl lin len rec(6) ext_length [OF e2]
          by (intro ext_trans [OF ext_fresh cache_put_ext]) auto
      qed
    qed (use rec e1 len ext_keyed in auto)
    with e1 lin show ?thesis by (metis ext_trans)
  qed
qed

lemma resolveOwnMulti_ext:
  assumes rec: "good rec" "not_alias p" "a < length (conts h)" "keyed h" "p_provide p = t" "t \<notin> set chain"
    and out: "resolveOwnMultiProviderInstance u env rec a p (t # chain) h = Some (h', r)"
  shows "ext (set (lineage h a)) (set chain) h h'"
proof (cases "multiCacheFor a p h")
  case (Inl err)
  with out show ?thesis by (simp add: resolveOwnMultiProviderInstance_def)
next
  case (Inr r1)
  obtain h1 loc where r1: "multiCacheFor a p h = Inr (h1, loc)"
    using Inr by (cases r1) auto
  from multiCacheFor_ext [OF r1 rec(3), of "set chain"] obtain b where
    e1: "ext (set (lineage h a)) (set chain) h h1" and
    b: "b \<in> set (lineage h a)" "loc = RequestLoc b \<or> loc = RootLoc b" by blast
  have lin: "lineage h1 a = lineage h a" and len: "length (conts h1) = length (conts h)"
    using ext_lineage [OF e1 rec(3)] ext_length [OF e1] by auto
  show ?thesis
  proof (cases "multi_cache_get loc h1 p")
    case (Some pr)
    with out r1 e1 show ?thesis by (simp add: resolveOwnMultiProviderInstance_def)
  next
    case None
    have bl: "b < length (conts h)" using b(1) rec(3) lineage_bound by blast
    have "ext (set (lineage h1 a)) (set chain) h1 h'"
    proof (rule settle_ext)
      show "settle_instance (multi_cache_put loc p) a (instantiate u env rec a p (t # chain) h1) = Some (h', r)"
        using out r1 None by (simp add: resolveOwnMultiProviderInstance_def)
      show "ext (set (lineage h1 a)) (set chain) h2 (multi_cache_put loc p pr (snd (fresh h2)))"
        if e2: "ext (set (lineage h1 a)) (set (t # chain)) h1 h2" for pr h2
      proof -
        have "multi_cache_get loc h2 p = None"
          using multi_cache_get_same [OF e2 b(2)] bl len None rec(5) by simp
        then show ?thesis
          using b bl lin len rec(5,6) ext_length [OF e2]
          by (intro ext_trans [OF ext_fresh multi_cache_put_ext]) auto
      qed
    qed (use rec e1 len ext_keyed in auto)
    with e1 lin show ?thesis by (metis ext_trans)
  qed
qed

lemma ext_in_lineage:
  "ext (set (lineage h b)) C h h' \<Longrightarrow> b \<in> set (lineage h a) \<Longrightarrow> C' \<subseteq> C \<Longrightarrow> ext (set (lineage h a)) C' h h'"
  by (rule ext_mono) (auto dest: lineage_subset)

lemma owner_bound: "a < length (conts h) \<Longrightarrow> cacheOwnerFor h a p < length (conts h)"
  using lineage_bound [of a h] cacheOwner_in_lineage by blast

lemma resolveMultiProviderInstance_ext:
  assumes rec: "good rec" "a < length (conts h)" "keyed h" "p_provide p = t" "t \<notin> set chain"
    and out: "resolveMultiProviderInstance u env rec a p (t # chain) h = Some (h', r)"
  shows "ext (set (lineage h a)) (set chain) h h'"
proof (cases "not_alias p")
  case False
  then obtain e where "p_strategy p = UseExisting e"
    by (auto simp: not_alias_def split: strategy.splits)
  with out have "rec a (t # chain) e h = Some (h', r)"
    by (simp add: resolveMultiProviderInstance_def)
  then have "ext (set (lineage h a)) (set (t # chain)) h h'"
    using goodD rec by blast
  then show ?thesis by (rule ext_mono) auto
next
  case True
  show ?thesis
  proof (cases "p_scope p = Transient")
    case tr: True
    with True out have "instantiate u env rec a p (t # chain) h = Some (h', r)"
      by (auto simp: resolveMultiProviderInstance_def not_alias_def split: strategy.splits)
    then have "ext (set (lineage h a)) (set (t # chain)) h h'"
      using instantiate_ext rec True by blast
    then show ?thesis by (rule ext_mono) auto
  next
    case False
    with True out have "resolveOwnMultiProviderInstance u env rec (cacheOwnerFor h a p) p (t # chain) h = Some (h', r)"
      by (auto simp: resolveMultiProviderInstance_def not_alias_def split: strategy.splits)
    then have "ext (set (lineage h (cacheOwnerFor h a p))) (set chain) h h'"
      using resolveOwnMulti_ext rec True owner_bound by blast
    then show ?thesis by (rule ext_in_lineage) auto
  qed
qed

lemma resolveMultiProviderInstances_ext:
  assumes "good rec" and "t \<notin> set chain"
  shows "resolveMultiProviderInstances u env rec a ps (t # chain) h = Some (h', r) \<Longrightarrow>
     a < length (conts h) \<Longrightarrow> keyed h \<Longrightarrow> (\<And>p. p \<in> set ps \<Longrightarrow> p_provide p = t) \<Longrightarrow>
     ext (set (lineage h a)) (set chain) h h'"
proof (induction ps arbitrary: h r)
  case (Cons p ps)
  from Cons.prems(1) obtain h1 r1 where
    d: "resolveMultiProviderInstance u env rec a p (t # chain) h = Some (h1, r1)"
    by (auto split: option.splits)
  have e1: "ext (set (lineage h a)) (set chain) h h1"
    using resolveMultiProviderInstance_ext [OF assms(1) Cons.prems(2,3) _ assms(2) d] Cons.prems(4) by simp
  show ?case
  proof (cases r1)
    case (Inl err)
    with d Cons.prems(1) e1 show ?thesis by simp
  next
    case (Inr v)
    with d Cons.prems(1) obtain r2 where
      "resolveMultiProviderInstances u env rec a ps (t # chain) h1 = Some (h', r2)"
      by (auto split: option.splits sum.splits)
    then have "ext (set (lineage h1 a)) (set chain) h1 h'"
      using Cons.IH Cons.prems(2-4) e1 ext_keyed by auto
    with e1 show ?thesis
      using ext_lineage [OF e1 Cons.prems(2)] by (auto intro: ext_trans)
  qed
qed simp

lemma getCached_ext:
  assumes "getCachedScopedOrSingletonInstance a p h = (h1, r)" and "a < length (conts h)"
  shows "ext (set (lineage h a)) C h h1"
  using assms cacheFor_ext [of "cacheOwnerFor h a p" p h _ _ C] owner_bound [OF assms(2), of p]
  by (auto simp: getCachedScopedOrSingletonInstance_def split: if_splits sum.splits
      intro: ext_in_lineage [where a = a and b = "cacheOwnerFor h a p"])

lemma resolveSingleProvider_ext:
  assumes rec: "good rec" "a < length (conts h)" "keyed h" "t \<notin> set chain"
    and out: "resolveSingleProvider u env rec a chain t h = Some (h', r)"
  shows "ext (set (lineage h a)) (set chain) h h'"
proof (cases "lookupPlan h a t")
  case None
  with out show ?thesis by (simp add: resolveSingleProvider_def)
next
  case (Some p)
  then have key: "p_provide p = t"
    using keyed_node [OF rec(3,2)] by (simp add: node_providers_def option_list_def)
  show ?thesis
  proof (cases "not_alias p")
    case False
    then obtain e where "p_strategy p = UseExisting e"
      by (auto simp: not_alias_def split: strategy.splits)
    with out Some have "rec a (t # chain) e h = Some (h', r)"
      by (simp add: resolveSingleProvider_def)
    then have "ext (set (lineage h a)) (set (t # chain)) h h'"
      using goodD rec by blast
    then show ?thesis by (rule ext_mono) auto
  next
    case na: True
    show ?thesis
    proof (cases "p_scope p = Transient")
      case True
      with na out Some have "instantiate u env rec a p (t # chain) h = Some (h', r)"
        by (auto simp: resolveSingleProvider_def not_alias_def split: strategy.splits)
      then have "ext (set (lineage h a)) (set (t # chain)) h h'"
        using instantiate_ext rec na by blast
      then show ?thesis by (rule ext_mono) auto
    next
      case False
      obtain h1 c where g: "getCachedScopedOrSingletonInstance a p h = (h1, c)"
        by fastforce
      note e1 = getCached_ext [OF g rec(2), of "set chain"]
      show ?thesis
      proof (cases c)
        case (Some pr)
        with na False out \<open>lookupPlan h a t = Some p\<close> g e1 show ?thesis
          by (auto simp: resolveSingleProvider_def not_alias_def split: strategy.splits)
      next
        case None
        with na False out Some g have
          o: "resolveOwnScopedOrSingletonInstance u env rec (cacheOwnerFor h1 a p) p (t # chain) h1 = Some (h', r)"
          by (auto simp: resolveSingleProvider_def resolveScopedOrSingletonInstance_def not_alias_def
              split: strategy.splits)
        have a1: "a < length (conts h1)" using e1 rec(2) by simp
        have "ext (set (lineage h1 (cacheOwnerFor h1 a p))) (set chain) h1 h'"
          using resolveOwnScoped_ext [OF rec(1) na owner_bound [OF a1] ext_keyed [OF e1 rec(3)] key rec(4) o] .
        then have "ext (set (lineage h1 a)) (set chain) h1 h'"
          by (rule ext_in_lineage) auto
        with e1 ext_lineage [OF e1 rec(2)] show ?thesis by (metis ext_trans)
      qed
    qed
  qed
qed

lemma resolveFromRegisteredProviders_ext:
  assumes rec: "good rec" "a < length (conts h)" "keyed h" "t \<notin> set chain"
    and out: "resolveFromRegisteredProviders u env rec a chain t h = Some (h', r)"
  shows "ext (set (lineage h a)) (set chain) h h'"
proof (cases "js_get (registrations (cont h a)) t = None \<and> multiPlan h a t \<noteq> []")
  case True
  then obtain r1 where
    m: "resolveMultiProviderInstances u env rec a (multiPlan h a t) (t # chain) h = Some (h', r1)"
    using out by (auto simp: resolveFromRegisteredProviders_def split: option.splits sum.splits)
  show ?thesis
    by (rule resolveMultiProviderInstances_ext [OF rec(1,4) m rec(2,3)])
      (auto intro: keyed_node [OF rec(3,2)] simp: node_providers_def)
next
  case False
  then have "resolveSingleProvider u env rec a chain t h = Some (h', r)"
    using out unfolding resolveFromRegisteredProviders_def by (simp only: if_False)
  then show ?thesis by (rule resolveSingleProvider_ext [OF rec])
qed

lemma resolveWithChain_good: "good (resolveWithChain u env k)"
proof (induction k)
  case 0
  show ?case by (simp add: good_def)
next
  case (Suc k)
  show ?case
    unfolding good_def
  proof (intro allI impI)
    fix a chain t h h' r
    assume "a < length (conts h)" and "keyed h" and "resolveWithChain u env (Suc k) a chain t h = Some (h', r)"
    then show "ext (set (lineage h a)) (set chain) h h'"
      using resolveFromRegisteredProviders_ext [OF Suc] by (cases "t \<in> set chain") auto
  qed
qed

end
