(* ===== verification/Resolve_Total.thy ===== *)
theory Resolve_Total
  imports Resolve_Frame
begin

text \<open>
  Termination of the recursive parts of \<open>Container\<close>: the two alias walks, the search for a
  request-scoped dependency and resolution itself return for every registry, cyclic or not, with
  the fuel \<open>search_fuel\<close>.
\<close>

section \<open>The scope search returns\<close>

lemma alias_universe:
  "lookupPlan h a t = Some p \<Longrightarrow> p_strategy p = UseExisting u \<Longrightarrow> u \<in> set (dep_universe env h a)"
  using provider_target_universe [of p h a t u env]
  by (simp add: node_providers_def option_list_def provider_targets_def)

lemma card_shrink:
  "finite U \<Longrightarrow> t \<in> U \<Longrightarrow> t \<notin> set vis \<Longrightarrow> card (U - set vis) < Suc k \<Longrightarrow> card (U - set (t # vis)) < k"
proof -
  assume U: "finite U" "t \<in> U" "t \<notin> set vis" "card (U - set vis) < Suc k"
  have "U - set (t # vis) \<subset> U - set vis" using U by auto
  then have "card (U - set (t # vis)) < card (U - set vis)"
    using U by (intro psubset_card_mono) auto
  with U(4) show ?thesis by simp
qed

lemma resolveEffectiveProvider_returns:
  assumes "finite U" and "set (dep_universe env h a) \<subseteq> U"
  shows "t \<in> U \<Longrightarrow> card (U - set vis) < k \<Longrightarrow> resolveEffectiveProvider h a k vis t \<noteq> None"
proof (induction k arbitrary: vis t)
  case (Suc k)
  show ?case
  proof (cases "t \<in> set vis")
    case False
    note smaller = card_shrink [OF assms(1) Suc.prems(1) False Suc.prems(2)]
    have "resolveEffectiveProvider h a k (t # vis) u \<noteq> None"
      if "lookupPlan h a t = Some p" "p_strategy p = UseExisting u" for p u
      using Suc.IH [OF _ smaller] alias_universe [OF that] assms(2) by blast
    with False show ?thesis by (auto split: option.splits strategy.splits)
  qed simp
qed simp

lemma findRequestScopedDependency_returns:
  assumes "\<And>u. u \<in> resolveProviderDependencyToken env ` set es \<Longrightarrow> rec u \<noteq> None"
  shows "findRequestScopedDependency env h a rec es \<noteq> None"
  unfolding findRequestScopedDependency_def
  using assms by (intro first_opt_defined) (auto simp: Let_def)

lemma multi_request_scope_returns:
  assumes "m \<in> set (multiPlan h a t)" and "set (dep_universe env h a) \<subseteq> U"
    and "\<And>u. u \<in> U \<Longrightarrow> rec u \<noteq> None"
  shows "multi_request_scope env h a rec m \<noteq> None"
proof -
  have targets: "set (provider_targets env m) \<subseteq> U"
    using provider_target_universe [of m h a t _ env] assms(1,2) by (auto simp: node_providers_def)
  then have "findRequestScopedDependency env h a rec (p_inject m) \<noteq> None"
    using assms(3) by (intro findRequestScopedDependency_returns) (auto simp: provider_targets_def)
  moreover have "rec u \<noteq> None" if "p_strategy m = UseExisting u" for u
    using that targets assms(3) by (auto simp: provider_targets_def)
  ultimately show ?thesis
    by (cases "p_strategy m") (auto simp: multi_request_scope_def)
qed

lemma findRequestScopedMultiContribution_returns:
  assumes "finite U" and "set (dep_universe env h a) \<subseteq> U" and "\<And>u. u \<in> U \<Longrightarrow> rec u \<noteq> None"
  shows "t \<in> U \<Longrightarrow> card (U - set seen) < k \<Longrightarrow>
    findRequestScopedMultiContribution env h a rec k seen t \<noteq> None"
proof (induction k arbitrary: seen t)
  case (Suc k)
  show ?case
  proof (cases "t \<in> set seen")
    case False
    note smaller = card_shrink [OF assms(1) Suc.prems(1) False Suc.prems(2)]
    have next_alias: "findRequestScopedMultiContribution env h a rec k (t # seen) u \<noteq> None"
      if "lookupPlan h a t = Some p" "p_strategy p = UseExisting u" for p u
      using Suc.IH [OF _ smaller] alias_universe [OF that] assms(2) by blast
    have "first_opt (Inr None) (multi_request_scope env h a rec) (multiPlan h a t) \<noteq> None"
      using multi_request_scope_returns assms(2,3) by (intro first_opt_defined) blast
    with False next_alias show ?thesis by (auto split: option.splits strategy.splits)
  qed simp
qed simp

lemma single_request_scope_returns:
  assumes "resolveEffectiveProvider h a k vis t' = Some eff" and "set (dep_universe env h a) \<subseteq> U"
    and "\<And>u. u \<in> U \<Longrightarrow> rec u \<noteq> None"
  shows "single_request_scope env h a rec t eff \<noteq> None"
proof -
  have eff: "\<exists>v. lookupPlan h a v = Some p" if "resolveEffectiveProvider h a k vis t' = Some (Inr (Some p))"
    for p k vis t'
    using that by (induction k arbitrary: vis t') (auto split: if_splits option.splits strategy.splits)
  have "findRequestScopedDependency env h a rec (p_inject p) \<noteq> None" if e: "eff = Inr (Some p)" for p
  proof (rule findRequestScopedDependency_returns)
    obtain v where "lookupPlan h a v = Some p" using eff [OF assms(1) [unfolded e]] by blast
    then have "set (provider_targets env p) \<subseteq> U"
      using provider_target_universe [of p h a v _ env] assms(2) by (auto simp: node_providers_def option_list_def)
    then show "rec u \<noteq> None" if "u \<in> resolveProviderDependencyToken env ` set (p_inject p)" for u
      using that assms(3) by (auto simp: provider_targets_def)
  qed
  moreover have "findRequestScopedDependency env h a rec (metadata_entries env c) \<noteq> None" for c
    using assms(2,3) metadata_in_universe by (intro findRequestScopedDependency_returns) blast
  ultimately show ?thesis
    by (auto simp: single_request_scope_def split: sum.splits option.splits token.splits)
qed

lemma findRequestScopedDependencyToken_returns:
  assumes U: "finite U" "set (dep_universe env h a) \<subseteq> U" "card U < n"
  shows "t \<in> U \<Longrightarrow> card (U - set vis) < k \<Longrightarrow> findRequestScopedDependencyToken env h a n k vis t \<noteq> None"
proof (induction k arbitrary: vis t)
  case (Suc k)
  show ?case
  proof (cases "t \<in> set vis")
    case False
    let ?rec = "findRequestScopedDependencyToken env h a n k (t # vis)"
    have rec: "?rec u \<noteq> None" if "u \<in> U" for u
      using Suc.IH [OF that] card_shrink [OF U(1) Suc.prems(1) False Suc.prems(2)] by blast
    obtain r where r: "findRequestScopedMultiContribution env h a ?rec n [] t = Some r"
      using findRequestScopedMultiContribution_returns [OF U(1,2), where rec = ?rec and t = t and seen = "[]" and k = n]
        rec Suc.prems(1) U(3) by auto
    obtain eff where eff: "resolveEffectiveProvider h a n [] t = Some eff"
      using resolveEffectiveProvider_returns [OF U(1,2), of t "[]" n] Suc.prems(1) U(3) by auto
    show ?thesis
      using False r eff single_request_scope_returns [OF eff U(2), where rec = ?rec and t = t] rec
      by (simp add: Let_def)
  qed simp
qed simp

lemma find_token_returns: "find_token env h a vis t \<noteq> None"
  unfolding find_token_def
  using universe_card [of t env h a vis] universe_card [of t env h a "[]"]
  by (intro findRequestScopedDependencyToken_returns [of "insert t (set (dep_universe env h a))"]) auto

lemma assertSingletonDependencyScopes_returns: "assertSingletonDependencyScopes env h a p \<noteq> None"
proof -
  have "findRequestScopedDependency env h a (find_token env h a [p_provide p]) (p_inject p) \<noteq> None"
    by (rule findRequestScopedDependency_returns) (rule find_token_returns)
  then show ?thesis
    by (auto simp: assertSingletonDependencyScopes_def split: option.splits sum.splits)
qed

section \<open>Resolution returns\<close>

lemma same_graph_universe:
  assumes "same_graph h h'" and "a < length (conts h)"
  shows "dep_universe env h' a = dep_universe env h a"
proof -
  have "registrations (cont h' b) = registrations (cont h b) \<and>
      multiRegistrations (cont h' b) = multiRegistrations (cont h b)" if "b \<in> set (lineage h a)" for b
    using assms lineage_bound [OF assms(2) that] by (auto simp: same_graph_def graph_part_def)
  then have "all_providers h' a = all_providers h a"
    unfolding all_providers_def same_graph_lineage [OF assms] by (intro arg_cong [of _ _ concat]) simp
  then show ?thesis by (simp add: dep_universe_def)
qed

lemma lineage_universe:
  assumes "b \<in> set (lineage h a)"
  shows "set (dep_universe env h b) \<subseteq> set (dep_universe env h a)"
proof -
  have "set (all_providers h b) \<subseteq> set (all_providers h a)"
    using lineage_subset [OF assms] unfolding all_providers_def by auto
  then show ?thesis unfolding dep_universe_def by auto
qed

definition returns_on :: "di_env \<Rightarrow> token set \<Rightarrow> token list \<Rightarrow> resolver \<Rightarrow> bool" where
  "returns_on env U chain rec \<longleftrightarrow> (\<forall>a h t. a < length (conts h) \<longrightarrow> keyed h \<longrightarrow>
     set (dep_universe env h a) \<subseteq> U \<longrightarrow> t \<in> U \<longrightarrow> rec a chain t h \<noteq> None)"

definition at_node :: "di_env \<Rightarrow> token set \<Rightarrow> nat \<Rightarrow> heap \<Rightarrow> bool" where
  "at_node env U a h \<longleftrightarrow> a < length (conts h) \<and> keyed h \<and> set (dep_universe env h a) \<subseteq> U"

lemma returns_onD:
  "returns_on env U chain rec \<Longrightarrow> at_node env U a h \<Longrightarrow> t \<in> U \<Longrightarrow> rec a chain t h \<noteq> None"
  unfolding returns_on_def at_node_def by blast

lemma at_node_ext: "at_node env U a h \<Longrightarrow> ext L C h h' \<Longrightarrow> at_node env U a h'"
  unfolding at_node_def
  using same_graph_universe [OF ext_same_graph] ext_keyed ext_length by metis

lemma at_node_lineage: "at_node env U a h \<Longrightarrow> b \<in> set (lineage h a) \<Longrightarrow> at_node env U b h"
  unfolding at_node_def using lineage_universe lineage_bound by blast

lemma resolveDepToken_returns:
  assumes "returns_on env U chain rec" and "at_node env U a h" and "resolveProviderDependencyToken env e \<in> U"
  shows "resolveDepToken env rec a chain e h \<noteq> None"
  using assms(3) returns_onD [OF assms(1,2)]
  by (cases e) (auto simp: resolveDepToken_def resolveProviderDependencyToken_def Let_def)

lemma resolveProviderDeps_returns:
  assumes "good rec" and "returns_on env U chain rec"
  shows "at_node env U a h \<Longrightarrow> resolveProviderDependencyToken env ` set es \<subseteq> U \<Longrightarrow>
    resolveProviderDeps env rec a chain es h \<noteq> None"
proof (induction es arbitrary: h)
  case (Cons e es)
  obtain h1 r1 where d: "resolveDepToken env rec a chain e h = Some (h1, r1)"
    using resolveDepToken_returns [OF assms(2) Cons.prems(1), of e] Cons.prems(2) by auto
  have "ext (set (lineage h a)) (set chain) h h1"
    using resolveDepToken_ext [OF assms(1) d] Cons.prems(1) by (simp add: at_node_def)
  then have "resolveProviderDeps env rec a chain es h1 \<noteq> None"
    using Cons.IH at_node_ext [OF Cons.prems(1)] Cons.prems(2) by simp
  with d show ?case by (auto split: sum.splits)
qed simp

lemma instantiate_returns:
  assumes "good rec" and "returns_on env U chain rec" and "at_node env U a h" and "not_alias p"
    and "set (provider_targets env p) \<subseteq> U"
  shows "instantiate u env rec a p chain h \<noteq> None"
proof -
  have "resolveProviderDeps env rec a chain (p_inject p) h \<noteq> None"
    using resolveProviderDeps_returns [OF assms(1-3)] assms(5) by (simp add: provider_targets_def)
  with assertSingletonDependencyScopes_returns [of env h a p] assms(4) show ?thesis
    by (auto simp: instantiate_def not_alias_def split: strategy.splits sum.splits option.splits)
qed

lemma settle_returns: "out \<noteq> None \<Longrightarrow> settle_instance put a out \<noteq> None"
  by (auto simp: settle_instance_def fresh_def Let_def split: sum.splits)

lemma resolveOwnScoped_returns:
  assumes "good rec" and "returns_on env U chain rec" and "at_node env U a h" and "not_alias p"
    and "set (provider_targets env p) \<subseteq> U"
  shows "resolveOwnScopedOrSingletonInstance u env rec a p chain h \<noteq> None"
proof -
  have "instantiate u env rec a p chain h1 \<noteq> None" if "cacheFor a p h = Inr (h1, loc)" for h1 loc
    using cacheFor_ext [OF that, of "{}"] at_node_ext [OF assms(3)] assms
    by (intro instantiate_returns) (auto simp: at_node_def)
  then show ?thesis
    using settle_returns
    by (auto simp: resolveOwnScopedOrSingletonInstance_def split: sum.splits option.splits)
qed

lemma resolveOwnMulti_returns:
  assumes "good rec" and "returns_on env U chain rec" and "at_node env U a h" and "not_alias p"
    and "set (provider_targets env p) \<subseteq> U"
  shows "resolveOwnMultiProviderInstance u env rec a p chain h \<noteq> None"
proof -
  have "instantiate u env rec a p chain h1 \<noteq> None" if "multiCacheFor a p h = Inr (h1, loc)" for h1 loc
    using multiCacheFor_ext [OF that, of "{}"] at_node_ext [OF assms(3)] assms
    by (intro instantiate_returns) (auto simp: at_node_def)
  then show ?thesis
    using settle_returns
    by (auto simp: resolveOwnMultiProviderInstance_def split: sum.splits option.splits)
qed

lemma resolveMultiProviderInstance_returns:
  assumes "good rec" and "returns_on env U chain rec" and "at_node env U a h"
    and "set (provider_targets env p) \<subseteq> U"
  shows "resolveMultiProviderInstance u env rec a p chain h \<noteq> None"
proof (cases "p_strategy p")
  case (UseExisting t)
  with returns_onD [OF assms(2,3), of t] assms(4) show ?thesis
    by (simp add: resolveMultiProviderInstance_def provider_targets_def)
qed (use instantiate_returns [OF assms(1-3)] assms(4)
      resolveOwnMulti_returns [OF assms(1,2) at_node_lineage [OF assms(3) cacheOwner_in_lineage]]
      in \<open>simp_all add: resolveMultiProviderInstance_def not_alias_def\<close>)

lemma resolveMultiProviderInstances_returns:
  assumes "good rec" and "returns_on env U (t # chain) rec" and "t \<notin> set chain"
  shows "at_node env U a h \<Longrightarrow>
    (\<And>p. p \<in> set ps \<Longrightarrow> p_provide p = t \<and> set (provider_targets env p) \<subseteq> U) \<Longrightarrow>
    resolveMultiProviderInstances u env rec a ps (t # chain) h \<noteq> None"
proof (induction ps arbitrary: h)
  case (Cons p ps)
  obtain h1 r1 where d: "resolveMultiProviderInstance u env rec a p (t # chain) h = Some (h1, r1)"
    using resolveMultiProviderInstance_returns [OF assms(1,2) Cons.prems(1), of p u] Cons.prems(2) by auto
  have "ext (set (lineage h a)) (set chain) h h1"
    using resolveMultiProviderInstance_ext [OF assms(1) _ _ _ assms(3) d] Cons.prems by (simp add: at_node_def)
  then have "resolveMultiProviderInstances u env rec a ps (t # chain) h1 \<noteq> None"
    using Cons.IH at_node_ext [OF Cons.prems(1)] Cons.prems(2) by simp
  with d show ?case by (auto split: sum.splits)
qed simp

lemma resolveSingleProvider_direct:
  assumes "lookupPlan h a t = Some p" and "not_alias p"
    and "getCachedScopedOrSingletonInstance a p h = (h1, c)"
  shows "resolveSingleProvider u env rec a chain t h =
    (if p_scope p = Transient then instantiate u env rec a p (t # chain) h
     else case c of Some pr \<Rightarrow> Some (h1, Inr (pr_val pr))
          | None \<Rightarrow> resolveOwnScopedOrSingletonInstance u env rec (cacheOwnerFor h1 a p) p (t # chain) h1)"
  using assms
  by (cases "p_strategy p")
    (simp_all add: resolveSingleProvider_def resolveScopedOrSingletonInstance_def not_alias_def)

lemma resolveSingleProvider_returns:
  assumes "good rec" and "returns_on env U (t # chain) rec" and "at_node env U a h"
  shows "resolveSingleProvider u env rec a chain t h \<noteq> None"
proof (cases "lookupPlan h a t")
  case (Some p)
  then have targets: "set (provider_targets env p) \<subseteq> U"
    using provider_target_universe [of p h a t _ env] assms(3)
    by (auto simp: node_providers_def option_list_def at_node_def)
  obtain h1 c where g: "getCachedScopedOrSingletonInstance a p h = (h1, c)"
    by fastforce
  have "a < length (conts h)" using assms(3) by (simp add: at_node_def)
  from at_node_ext [OF assms(3) getCached_ext [OF g this]] have at1: "at_node env U a h1" .
  note own = resolveOwnScoped_returns [OF assms(1,2) at_node_lineage [OF at1 cacheOwner_in_lineage [of h1 a p]] _ targets]
  note inst = instantiate_returns [OF assms _ targets]
  show ?thesis
  proof (cases "not_alias p")
    case False
    then obtain e where "p_strategy p = UseExisting e"
      by (auto simp: not_alias_def split: strategy.splits)
    with returns_onD [OF assms(2,3), of e] targets Some show ?thesis
      by (simp add: resolveSingleProvider_def provider_targets_def)
  next
    case True
    show ?thesis
      unfolding resolveSingleProvider_direct [OF Some True g]
      using own [OF True, of u] inst [OF True, of u] by (simp only: not_False_eq_True split: option.split if_split) simp
  qed
qed (simp add: resolveSingleProvider_def)

lemma resolveFromRegisteredProviders_returns:
  assumes "good rec" and "returns_on env U (t # chain) rec" and "at_node env U a h" and "t \<notin> set chain"
  shows "resolveFromRegisteredProviders u env rec a chain t h \<noteq> None"
proof -
  have "p_provide p = t \<and> set (provider_targets env p) \<subseteq> U" if "p \<in> set (multiPlan h a t)" for p
    using that keyed_node [of h a p t] provider_target_universe [of p h a t _ env] assms(3)
    by (auto simp: node_providers_def at_node_def)
  then have "resolveMultiProviderInstances u env rec a (multiPlan h a t) (t # chain) h \<noteq> None"
    using resolveMultiProviderInstances_returns [OF assms(1,2,4,3)] by blast
  then show ?thesis
    using resolveSingleProvider_returns [OF assms(1-3)]
    by (auto simp: resolveFromRegisteredProviders_def split: sum.splits)
qed

lemma resolveWithChain_returns_on:
  "finite U \<Longrightarrow> card (U - set chain) < k \<Longrightarrow> returns_on env U chain (resolveWithChain u env k)"
proof (induction k arbitrary: chain)
  case (Suc k)
  show ?case
    unfolding returns_on_def
  proof (intro allI impI)
    fix a h t
    assume at: "a < length (conts h)" "keyed h" "set (dep_universe env h a) \<subseteq> U" "t \<in> U"
    show "resolveWithChain u env (Suc k) a chain t h \<noteq> None"
    proof (cases "t \<in> set chain")
      case False
      then have "returns_on env U (t # chain) (resolveWithChain u env k)"
        using Suc.IH card_shrink [OF Suc.prems(1) at(4) False Suc.prems(2)] Suc.prems(1) by blast
      then have "resolveFromRegisteredProviders u env (resolveWithChain u env k) a chain t h \<noteq> None"
        using at False by (intro resolveFromRegisteredProviders_returns [OF resolveWithChain_good]) (auto simp: at_node_def)
      with False show ?thesis by simp
    qed simp
  qed
qed simp

lemma resolveWithChain_returns:
  assumes "a < length (conts h)" and "keyed h"
  shows "resolveWithChain u env (search_fuel env h a) a [] t h \<noteq> None"
proof -
  let ?U = "insert t (set (dep_universe env h a))"
  have "returns_on env ?U [] (resolveWithChain u env (search_fuel env h a))"
    using universe_card [of t env h a "[]"] by (intro resolveWithChain_returns_on) auto
  then show ?thesis
    using assms by (intro returns_onD) (auto simp: at_node_def)
qed

end
