(* ===== verification/Override_Correctness.thy ===== *)
theory Override_Correctness
  imports Container_Override Resolve_Total
begin

text \<open>
  What \<open>override\<close> does to a heap: a rejected batch changes nothing; an accepted one removes exactly
  the cached instances that depend on an overridden token, in the overridden container and all its
  tracked child scopes, and schedules each of them for disposal.  The four caches of a container
  are handled by one argument, in the locale \<open>cache_field\<close>.
\<close>

section \<open>The staleness tests read the registries only\<close>

lemma same_graph_references:
  assumes "same_graph h h'" and "a < length (conts h)"
  shows "dependencyTokenReferencesToken env h' a tok k vis d = dependencyTokenReferencesToken env h a tok k vis d"
proof (induction k arbitrary: vis d)
  case (Suc k)
  have "dependencyTokenReferencesToken env h' a tok k (d # vis) = dependencyTokenReferencesToken env h a tok k (d # vis)"
    using Suc.IH by (simp add: fun_eq_iff)
  then show ?case
    by (simp add: same_graph_lookupPlan [OF assms] same_graph_multiPlan [OF assms] Let_def)
qed simp

lemma same_graph_depends:
  assumes "same_graph h h'" and "a < length (conts h)"
  shows "provider_depends env h' a p tok = provider_depends env h a p tok"
proof -
  have "dependencyTokenReferencesToken env h' a tok k vis = dependencyTokenReferencesToken env h a tok k vis" for k vis
    using same_graph_references [OF assms] by (simp add: fun_eq_iff)
  then show ?thesis
    by (simp add: provider_depends_def search_fuel_def same_graph_universe [OF assms])
qed

lemma same_graph_stale:
  assumes "same_graph h h'" and "a < length (conts h)"
  shows "shouldInvalidateCachedToken env h' a t tok = shouldInvalidateCachedToken env h a t tok"
    and "shouldInvalidateCachedProvider env h' a p tok = shouldInvalidateCachedProvider env h a p tok"
  by (simp_all add: shouldInvalidateCachedToken_def shouldInvalidateCachedProvider_def
      same_graph_lookupPlan [OF assms] same_graph_multiPlan [OF assms] same_graph_depends [OF assms]
      split: option.split)

section \<open>Scheduling a disposal\<close>

text \<open>Task identities in use are older than the next identity.\<close>

definition tasks_fresh :: "heap \<Rightarrow> bool" where
  "tasks_fresh h \<longleftrightarrow> (\<forall>i. js_get (tasks h) i \<noteq> None \<longrightarrow> i < nextRef h)"

text \<open>The promise \<open>pr\<close> that left a cache of \<open>b\<close> has a disposal task that \<open>b\<close> must retry and that
  \<open>b\<close> and \<open>owner\<close> both observe.\<close>

definition scheduled :: "nat \<Rightarrow> nat \<Rightarrow> promise \<Rightarrow> heap \<Rightarrow> bool" where
  "scheduled b owner pr h \<longleftrightarrow> (\<exists>i task. js_get (tasks h) i = Some task \<and> st_promise task = pr \<and>
     st_retryOwner task = b \<and> st_observers task = observers_of b owner \<and>
     (\<forall>x \<in> {b, owner}. i \<in> set (staleDisposalTasks (cont h x))))"

text \<open>\<open>stale_growth\<close>: tasks are only added.\<close>

definition stale_growth :: "heap \<Rightarrow> heap \<Rightarrow> bool" where
  "stale_growth h h' \<longleftrightarrow>
     length (conts h') = length (conts h) \<and> nextRef h \<le> nextRef h' \<and> tasks_fresh h' \<and>
     (\<forall>i task. js_get (tasks h) i = Some task \<longrightarrow> js_get (tasks h') i = Some task) \<and>
     (\<forall>x < length (conts h). set (staleDisposalTasks (cont h x)) \<subseteq> set (staleDisposalTasks (cont h' x)))"

lemma stale_growth_refl: "tasks_fresh h \<Longrightarrow> stale_growth h h"
  by (simp add: stale_growth_def)

lemma stale_growth_trans: "stale_growth h h' \<Longrightarrow> stale_growth h' h'' \<Longrightarrow> stale_growth h h''"
  unfolding stale_growth_def by (elim conjE, intro conjI) (simp, simp, simp, blast, metis subset_trans)

lemma scheduled_growth:
  assumes "scheduled b owner pr h" and "stale_growth h h'" and "b < length (conts h)" and "owner < length (conts h)"
  shows "scheduled b owner pr h'"
proof -
  have sub: "set (staleDisposalTasks (cont h x)) \<subseteq> set (staleDisposalTasks (cont h' x))" if "x \<in> {b, owner}" for x
    using assms(2-4) that unfolding stale_growth_def by blast
  obtain i task where i: "js_get (tasks h) i = Some task" "st_promise task = pr" "st_retryOwner task = b"
    "st_observers task = observers_of b owner" "\<forall>x \<in> {b, owner}. i \<in> set (staleDisposalTasks (cont h x))"
    using assms(1) unfolding scheduled_def by blast
  have "js_get (tasks h') i = Some task"
    using assms(2) i(1) unfolding stale_growth_def by blast
  with i sub show ?thesis unfolding scheduled_def by blast
qed

lemma cont_add_stale:
  "b < length (conts h) \<Longrightarrow> cont (add_stale i b h) x =
     (if x = b then (cont h x)\<lparr>staleDisposalTasks := staleDisposalTasks (cont h x) @ [i]\<rparr> else cont h x)"
  by (simp add: add_stale_def cont_upd)

lemma add_stale_simps [simp]:
  "length (conts (add_stale i b h)) = length (conts h)"
  "tasks (add_stale i b h) = tasks h" "nextRef (add_stale i b h) = nextRef h"
  by (simp_all add: add_stale_def upd_def)

lemma cont_new_task [simp]: "cont (h\<lparr>nextRef := n, tasks := ts\<rparr>) x = cont h x"
  by (simp add: cont_def)

lemma schedule_cont:
  assumes "b < length (conts h)" and "owner < length (conts h)"
  shows "\<exists>s. cont (scheduleStaleDisposal b owner pr h) x =
    (cont h x)\<lparr>staleDisposalTasks := staleDisposalTasks (cont h x) @ s\<rparr> \<and>
    (x \<in> {b, owner} \<longrightarrow> nextRef h \<in> set s)"
  using assms
  by (cases "owner = b")
    (auto simp: scheduleStaleDisposal_def fresh_def Let_def observers_of_def cont_add_stale
      intro: exI [of _ "[nextRef h]"] exI [of _ "[]"])

lemma schedule_tasks:
  "tasks (scheduleStaleDisposal b owner pr h) = js_set (tasks h) (nextRef h)
     \<lparr>st_promise = pr, st_settled = False, st_failed = False, st_error = JUndef,
      st_errorConsumed = False, st_observers = observers_of b owner,
      st_retryInstance = None, st_retryOwner = b\<rparr>"
  "nextRef (scheduleStaleDisposal b owner pr h) = Suc (nextRef h)"
  "length (conts (scheduleStaleDisposal b owner pr h)) = length (conts h)"
  by (simp_all add: scheduleStaleDisposal_def fresh_def Let_def observers_of_def)

lemma schedule_growth:
  assumes "b < length (conts h)" and "owner < length (conts h)" and "tasks_fresh h"
  shows "stale_growth h (scheduleStaleDisposal b owner pr h)"
    and "scheduled b owner pr (scheduleStaleDisposal b owner pr h)"
proof -
  let ?h = "scheduleStaleDisposal b owner pr h"
  have sub: "set (staleDisposalTasks (cont h x)) \<subseteq> set (staleDisposalTasks (cont ?h x))" for x
    using schedule_cont [OF assms(1,2), of pr x] by auto
  have new: "nextRef h \<in> set (staleDisposalTasks (cont ?h x))" if "x \<in> {b, owner}" for x
    using schedule_cont [OF assms(1,2), of pr x] that by auto
  show "stale_growth h ?h"
    using assms(3) sub by (auto simp: stale_growth_def tasks_fresh_def schedule_tasks js_get_set less_Suc_eq)
  show "scheduled b owner pr ?h"
    unfolding scheduled_def schedule_tasks js_get_set
    using new by (intro exI [of _ "nextRef h"]) auto
qed

text \<open>One stage of an invalidation: the caches of \<open>b\<close> change as \<open>f\<close> says and the promises \<open>P\<close> are
  scheduled for disposal.\<close>

definition stage :: "nat \<Rightarrow> nat \<Rightarrow> (container \<Rightarrow> container) \<Rightarrow> promise set \<Rightarrow> heap \<Rightarrow> heap \<Rightarrow> bool" where
  "stage b owner f P h h' \<longleftrightarrow> stale_growth h h' \<and>
     (\<forall>x. \<exists>s. cont h' x = (if x = b then f (cont h b) else cont h x)
        \<lparr>staleDisposalTasks := staleDisposalTasks (cont h x) @ s\<rparr>) \<and>
     (\<forall>pr \<in> P. scheduled b owner pr h')"

lemma stage_refl: "tasks_fresh h \<Longrightarrow> stage b owner (\<lambda>c. c) {} h h"
  unfolding stage_def by (auto simp: stale_growth_refl intro: exI [of _ "[]"])

lemma stage_at:
  "stage b owner f P h h' \<Longrightarrow> \<exists>s. cont h' b = (f (cont h b))\<lparr>staleDisposalTasks := staleDisposalTasks (cont h b) @ s\<rparr>"
  unfolding stage_def by metis

lemma stage_trans:
  assumes "stage b owner f P h h1" and "stage b owner g Q h1 h2"
    and g: "\<And>c s. g (c\<lparr>staleDisposalTasks := s\<rparr>) = (g c)\<lparr>staleDisposalTasks := s\<rparr>"
    and b: "b < length (conts h)" "owner < length (conts h)"
  shows "stage b owner (\<lambda>c. g (f c)) (P \<union> Q) h h2"
  unfolding stage_def
proof (intro conjI allI ballI)
  have len: "length (conts h1) = length (conts h)"
    using assms(1) unfolding stage_def stale_growth_def by blast
  show "stale_growth h h2"
    using assms(1,2) stale_growth_trans unfolding stage_def by blast
  show "scheduled b owner pr h2" if "pr \<in> P \<union> Q" for pr
    using that assms(1,2) scheduled_growth [of b owner pr h1 h2] b len unfolding stage_def by auto
  fix x
  obtain s where s: "cont h1 x = (if x = b then f (cont h b) else cont h x)
      \<lparr>staleDisposalTasks := staleDisposalTasks (cont h x) @ s\<rparr>"
    using assms(1) unfolding stage_def by blast
  obtain s' where s': "cont h2 x = (if x = b then g (cont h1 b) else cont h1 x)
      \<lparr>staleDisposalTasks := staleDisposalTasks (cont h1 x) @ s'\<rparr>"
    using assms(2) unfolding stage_def by blast
  show "\<exists>s. cont h2 x = (if x = b then g (f (cont h b)) else cont h x)
      \<lparr>staleDisposalTasks := staleDisposalTasks (cont h x) @ s\<rparr>"
  proof (cases "x = b")
    case True
    with s s' show ?thesis by (intro exI [of _ "s @ s'"]) (simp add: g)
  next
    case False
    with s s' show ?thesis by (intro exI [of _ "s @ s'"]) simp
  qed
qed

section \<open>One cache of a container\<close>

locale cache_field =
  fixes sel :: "container \<Rightarrow> ('k, promise) js_map"
    and put :: "('k, promise) js_map \<Rightarrow> container \<Rightarrow> container"
    and drop :: "nat \<Rightarrow> 'k \<Rightarrow> heap \<Rightarrow> heap"
  assumes drop_def: "drop b k h = upd b (\<lambda>c. put (js_delete (sel c) k) c) h"
    and sel_put: "sel (put m c) = m"
    and put_put: "put m (put m' c) = put m c"
    and put_sel: "put (sel c) c = c"
    and put_stale: "put m (c\<lparr>staleDisposalTasks := s\<rparr>) = (put m c)\<lparr>staleDisposalTasks := s\<rparr>"
    and stale_put: "staleDisposalTasks (put m c) = staleDisposalTasks c"
    and sel_stale: "sel (c\<lparr>staleDisposalTasks := s\<rparr>) = sel c"
    and graph_put: "graph_part (put m c) = graph_part c"
begin


text \<open>The state of container \<open>x\<close> after the entries of \<open>b\<close> with a key in \<open>K\<close> were removed.\<close>

definition after :: "nat \<Rightarrow> 'k set \<Rightarrow> heap \<Rightarrow> heap \<Rightarrow> bool" where
  "after b K h h' \<longleftrightarrow> (\<forall>x. \<exists>s. cont h' x =
     (if x = b then put (filter (\<lambda>e. fst e \<notin> K) (sel (cont h b))) (cont h b) else cont h x)
       \<lparr>staleDisposalTasks := staleDisposalTasks (cont h x) @ s\<rparr>)"

lemma after_empty: "after b {} h h"
  unfolding after_def by (auto simp: put_sel intro: exI [of _ "[]"])

lemma after_trans:
  assumes "after b K h h'" and "after b K' h' h''"
  shows "after b (K \<union> K') h h''"
  unfolding after_def
proof
  fix x
  obtain s where s: "cont h' x =
     (if x = b then put (filter (\<lambda>e. fst e \<notin> K) (sel (cont h b))) (cont h b) else cont h x)
       \<lparr>staleDisposalTasks := staleDisposalTasks (cont h x) @ s\<rparr>"
    using assms(1) unfolding after_def by blast
  obtain s' where s': "cont h'' x =
     (if x = b then put (filter (\<lambda>e. fst e \<notin> K') (sel (cont h' b))) (cont h' b) else cont h' x)
       \<lparr>staleDisposalTasks := staleDisposalTasks (cont h' x) @ s'\<rparr>"
    using assms(2) unfolding after_def by blast
  have f: "filter (\<lambda>e. fst e \<notin> K') (filter (\<lambda>e. fst e \<notin> K) m) = filter (\<lambda>e. fst e \<notin> K \<union> K') m" for m :: "('k, promise) js_map"
    by (auto intro: filter_cong)
  show "\<exists>s. cont h'' x =
     (if x = b then put (filter (\<lambda>e. fst e \<notin> K \<union> K') (sel (cont h b))) (cont h b) else cont h x)
       \<lparr>staleDisposalTasks := staleDisposalTasks (cont h x) @ s\<rparr>"
  proof (cases "x = b")
    case True
    with s s' f show ?thesis
      by (intro exI [of _ "s @ s'"]) (simp add: put_stale sel_stale sel_put put_put stale_put)
  next
    case False
    with s s' show ?thesis by (intro exI [of _ "s @ s'"]) simp
  qed
qed

lemma after_graph: "after b K h h' \<Longrightarrow> length (conts h') = length (conts h) \<Longrightarrow> same_graph h h'"
  unfolding after_def same_graph_def
proof (intro conjI allI impI)
  fix x
  assume "\<forall>x. \<exists>s. cont h' x =
     (if x = b then put (filter (\<lambda>e. fst e \<notin> K) (sel (cont h b))) (cont h b) else cont h x)
       \<lparr>staleDisposalTasks := staleDisposalTasks (cont h x) @ s\<rparr>"
  then obtain s where "cont h' x =
     (if x = b then put (filter (\<lambda>e. fst e \<notin> K) (sel (cont h b))) (cont h b) else cont h x)
       \<lparr>staleDisposalTasks := staleDisposalTasks (cont h x) @ s\<rparr>" by blast
  moreover have "graph_part (c\<lparr>staleDisposalTasks := s\<rparr>) = graph_part c" for c s
    by (simp add: graph_part_def)
  ultimately show "graph_part (cont h' x) = graph_part (cont h x)"
    by (simp add: graph_put)
qed

lemma after_drop:
  assumes "b < length (conts h)" and "owner < length (conts h)"
  shows "after b {k} h (drop b k (scheduleStaleDisposal b owner pr h))"
  unfolding after_def
proof
  fix x
  obtain s where s: "cont (scheduleStaleDisposal b owner pr h) x =
      (cont h x)\<lparr>staleDisposalTasks := staleDisposalTasks (cont h x) @ s\<rparr>"
    using schedule_cont [OF assms, of pr x] by blast
  have d: "js_delete m k = filter (\<lambda>e. fst e \<notin> {k}) m" for m :: "('k, promise) js_map"
    by (auto simp: js_delete_def intro: filter_cong)
  show "\<exists>s. cont (drop b k (scheduleStaleDisposal b owner pr h)) x =
     (if x = b then put (filter (\<lambda>e. fst e \<notin> {k}) (sel (cont h b))) (cont h b) else cont h x)
       \<lparr>staleDisposalTasks := staleDisposalTasks (cont h x) @ s\<rparr>"
    using s assms(1) by (intro exI [of _ s])
      (auto simp: drop_def cont_upd schedule_tasks put_stale sel_stale d)
qed

lemma drop_growth:
  assumes "stale_growth h h'" and "b < length (conts h)"
  shows "stale_growth h (drop b k h')"
proof -
  have b: "b < length (conts h')" using assms unfolding stale_growth_def by simp
  have "staleDisposalTasks (cont (drop b k h') x) = staleDisposalTasks (cont h' x)" for x
    by (simp add: drop_def cont_upd [OF b] stale_put)
  moreover have "tasks (drop b k h') = tasks h'" "nextRef (drop b k h') = nextRef h'"
    "length (conts (drop b k h')) = length (conts h')"
    by (simp_all add: drop_def upd_def)
  ultimately show ?thesis
    using assms(1) unfolding stale_growth_def tasks_fresh_def by simp
qed

lemma drop_scheduled:
  assumes "scheduled b owner pr h" and "b < length (conts h)"
  shows "scheduled b owner pr (drop b k h)"
proof -
  have "staleDisposalTasks (cont (drop b k h) x) = staleDisposalTasks (cont h x)" for x
    by (simp add: drop_def cont_upd [OF assms(2)] stale_put)
  moreover have "tasks (drop b k h) = tasks h"
    by (simp add: drop_def upd_def)
  ultimately show ?thesis
    using assms(1) unfolding scheduled_def by simp
qed

lemma invalidate_entries_spec:
  assumes "b < length (conts h)" and "owner < length (conts h)" and "tasks_fresh h"
    and "\<And>k h'. same_graph h h' \<Longrightarrow> stale k h' = stale k h"
  shows "after b {k \<in> fst ` set es. stale k h} h (invalidate_entries stale (drop b) b owner es h) \<and>
    stale_growth h (invalidate_entries stale (drop b) b owner es h) \<and>
    (\<forall>(k, pr) \<in> set es. stale k h \<longrightarrow> scheduled b owner pr (invalidate_entries stale (drop b) b owner es h))"
  using assms
proof (induction es arbitrary: h)
  case Nil
  show ?case using Nil(3) by (simp add: after_empty stale_growth_refl)
next
  case (Cons e es)
  obtain k pr where e: "e = (k, pr)" by (cases e)
  define h1 where "h1 = (if stale k h then drop b k (scheduleStaleDisposal b owner pr h) else h)"
  have a1: "after b (if stale k h then {k} else {}) h h1"
    using after_drop [OF Cons.prems(1,2)] by (simp add: h1_def after_empty)
  have g1: "stale_growth h h1"
    using drop_growth [OF schedule_growth(1)] Cons.prems(1-3) by (simp add: h1_def stale_growth_refl)
  then have len: "length (conts h1) = length (conts h)" and fr: "tasks_fresh h1"
    by (simp_all add: stale_growth_def)
  have sg: "same_graph h h1" using after_graph [OF a1 len] .
  have st: "stale k' h1 = stale k' h" for k' using Cons.prems(4) [OF sg] .
  define h2 where "h2 = invalidate_entries stale (drop b) b owner es h1"
  have IH: "after b {k \<in> fst ` set es. stale k h1} h1 h2 \<and> stale_growth h1 h2 \<and>
      (\<forall>(k, pr) \<in> set es. stale k h1 \<longrightarrow> scheduled b owner pr h2)"
    unfolding h2_def
  proof (rule Cons.IH)
    show "stale k' h' = stale k' h1" if "same_graph h1 h'" for k' h'
      using Cons.prems(4) [OF same_graph_trans [OF sg that], of k'] st [of k'] by simp
  qed (use Cons.prems(1,2) len fr in auto)
  have "scheduled b owner pr h1" if "stale k h"
    using that drop_scheduled [OF schedule_growth(2) [OF Cons.prems(1-3)]] Cons.prems(1)
    by (simp add: h1_def schedule_tasks)
  then have s2: "scheduled b owner pr h2" if "stale k h"
    using that scheduled_growth [of b owner pr h1 h2] IH Cons.prems(1,2) len by simp
  have K: "(if stale k h then {k} else {}) \<union> {k \<in> fst ` set es. stale k h1} = {k \<in> fst ` set (e # es). stale k h}"
    using st e by auto
  have "invalidate_entries stale (drop b) b owner (e # es) h = h2"
    by (simp add: e h1_def h2_def)
  moreover have "after b {k \<in> fst ` set (e # es). stale k h} h h2"
    using after_trans [OF a1 conjunct1 [OF IH]] unfolding K .
  moreover have "stale_growth h h2"
    using stale_growth_trans [OF g1] IH by blast
  moreover have "\<forall>(k, pr) \<in> set (e # es). stale k h \<longrightarrow> scheduled b owner pr h2"
    using s2 conjunct2 [OF conjunct2 [OF IH]] by (simp add: e st)
  ultimately show ?case by simp
qed

lemma invalidate_stage:
  assumes "b < length (conts h)" and "owner < length (conts h)" and "tasks_fresh h"
    and "\<And>k h'. same_graph h h' \<Longrightarrow> stale k h' = stale k h"
  shows "stage b owner (\<lambda>c. put (filter (\<lambda>e. \<not> stale (fst e) h) (sel c)) c)
     {pr. \<exists>k. stale k h \<and> (k, pr) \<in> set (sel (cont h b))} h
     (invalidate_entries stale (drop b) b owner (sel (cont h b)) h)"
proof -
  let ?h = "invalidate_entries stale (drop b) b owner (sel (cont h b)) h"
  have key: "filter (\<lambda>e. fst e \<notin> {k \<in> fst ` set m. stale k h}) m = filter (\<lambda>e. \<not> stale (fst e) h) m"
    for m :: "('k, promise) js_map"
    by (auto intro: filter_cong)
  have spec: "after b {k \<in> fst ` set (sel (cont h b)). stale k h} h ?h \<and> stale_growth h ?h \<and>
      (\<forall>(k, pr) \<in> set (sel (cont h b)). stale k h \<longrightarrow> scheduled b owner pr ?h)"
    by (rule invalidate_entries_spec [OF assms(1-3)]) (rule assms(4))
  then show ?thesis
    unfolding stage_def after_def key by blast
qed

lemma stage_graph: "stage b owner (\<lambda>c. put (m c) c) P h h' \<Longrightarrow> same_graph h h'"
  unfolding same_graph_def
proof (intro conjI allI impI)
  assume st: "stage b owner (\<lambda>c. put (m c) c) P h h'"
  then show "length (conts h') = length (conts h)"
    unfolding stage_def stale_growth_def by blast
  fix x
  obtain s where "cont h' x = (if x = b then put (m (cont h b)) (cont h b) else cont h x)
      \<lparr>staleDisposalTasks := staleDisposalTasks (cont h x) @ s\<rparr>"
    using st unfolding stage_def by blast
  moreover have "graph_part (c\<lparr>staleDisposalTasks := s\<rparr>) = graph_part c" for c s
    by (simp add: graph_part_def)
  ultimately show "graph_part (cont h' x) = graph_part (cont h x)"
    by (simp add: graph_put)
qed

lemma filter_stale:
  "(if R then put (filter P (sel (c\<lparr>staleDisposalTasks := s\<rparr>))) (c\<lparr>staleDisposalTasks := s\<rparr>)
    else c\<lparr>staleDisposalTasks := s\<rparr>) =
   (if R then put (filter P (sel c)) c else c)\<lparr>staleDisposalTasks := s\<rparr>"
  by (simp add: sel_stale put_stale)

text \<open>A stage that runs only when \<open>R\<close> holds, in the middle of an invalidation that began at \<open>h0\<close>.\<close>

lemma conditional_stage:
  assumes g: "same_graph h0 h" and b: "b < length (conts h0)" "owner < length (conts h0)" "tasks_fresh h"
    and graph_only: "\<And>k h'. same_graph h0 h' \<Longrightarrow> stale k h' = stale k h0"
    and h': "h' = (if R then invalidate_entries stale (drop b) b owner (sel (cont h b)) h else h)"
  shows "stage b owner (\<lambda>c. if R then put (filter (\<lambda>e. \<not> stale (fst e) h0) (sel c)) c else c)
     {pr. R \<and> (\<exists>k. stale k h0 \<and> (k, pr) \<in> set (sel (cont h b)))} h h'"
    and "same_graph h0 h'" and "tasks_fresh h'"
proof -
  have len: "b < length (conts h)" "owner < length (conts h)"
    using g b unfolding same_graph_def by simp_all
  have at_h: "stale k h = stale k h0" for k using graph_only [OF g] .
  have inv: "stale k h'' = stale k h" if "same_graph h h''" for k h''
    using graph_only [OF same_graph_trans [OF g that], of k] at_h [of k] by simp
  have st: "stage b owner (\<lambda>c. put (filter (\<lambda>e. \<not> stale (fst e) h0) (sel c)) c)
     {pr. \<exists>k. stale k h0 \<and> (k, pr) \<in> set (sel (cont h b))} h
     (invalidate_entries stale (drop b) b owner (sel (cont h b)) h)"
    using invalidate_stage [of b h owner stale, OF len b(3) inv] unfolding at_h by blast
  show stage: "stage b owner (\<lambda>c. if R then put (filter (\<lambda>e. \<not> stale (fst e) h0) (sel c)) c else c)
     {pr. R \<and> (\<exists>k. stale k h0 \<and> (k, pr) \<in> set (sel (cont h b)))} h h'"
    using st stage_refl [OF b(3), of b owner] unfolding h' by (cases R) simp_all
  then show "tasks_fresh h'"
    unfolding stage_def stale_growth_def by blast
  show "same_graph h0 h'"
    using same_graph_trans [OF g stage_graph [OF st]] g unfolding h' by (cases R) simp_all
qed

end

interpretation req_field: cache_field requestCache "\<lambda>m. requestCache_update (\<lambda>_. m)" drop_request
  by unfold_locales (simp_all add: graph_part_def drop_request_def)

interpretation single_field: cache_field singletonCache "\<lambda>m. singletonCache_update (\<lambda>_. m)" drop_singleton
  by unfold_locales (simp_all add: graph_part_def drop_singleton_def)

interpretation multi_req_field:
  cache_field multiRequestCache "\<lambda>m. multiRequestCache_update (\<lambda>_. m)" drop_multi_request
  by unfold_locales (simp_all add: graph_part_def drop_multi_request_def)

interpretation multi_single_field:
  cache_field multiSingletonCache "\<lambda>m. multiSingletonCache_update (\<lambda>_. m)" drop_multi_singleton
  by unfold_locales (simp_all add: graph_part_def drop_multi_singleton_def)

section \<open>All caches of a container\<close>

definition prune :: "di_env \<Rightarrow> heap \<Rightarrow> nat \<Rightarrow> token \<Rightarrow> container \<Rightarrow> container" where
  "prune env h b tok c =
     c\<lparr>requestCache := filter (\<lambda>e. \<not> shouldInvalidateCachedToken env h b (fst e) tok) (requestCache c),
       singletonCache := (if parent c = None
         then filter (\<lambda>e. \<not> shouldInvalidateCachedToken env h b (fst e) tok) (singletonCache c)
         else singletonCache c),
       multiSingletonCache := (if parent c = None
         then filter (\<lambda>e. \<not> shouldInvalidateCachedProvider env h b (fst e) tok) (multiSingletonCache c)
         else multiSingletonCache c),
       multiRequestCache := filter (\<lambda>e. \<not> shouldInvalidateCachedProvider env h b (fst e) tok) (multiRequestCache c)\<rparr>"

definition stale_promises :: "di_env \<Rightarrow> heap \<Rightarrow> nat \<Rightarrow> token \<Rightarrow> promise set" where
  "stale_promises env h b tok =
     {pr. \<exists>t. shouldInvalidateCachedToken env h b t tok \<and>
        ((t, pr) \<in> set (requestCache (cont h b)) \<or>
         (parent (cont h b) = None \<and> (t, pr) \<in> set (singletonCache (cont h b))))} \<union>
     {pr. \<exists>p. shouldInvalidateCachedProvider env h b p tok \<and>
        ((p, pr) \<in> set (multiRequestCache (cont h b)) \<or>
         (parent (cont h b) = None \<and> (p, pr) \<in> set (multiSingletonCache (cont h b))))}"

text \<open>\<open>pruned env tok owner B h h'\<close>: in every container of \<open>B\<close> the stale entries are gone and
  scheduled for disposal, and nothing else changed.\<close>

definition pruned :: "di_env \<Rightarrow> token \<Rightarrow> nat \<Rightarrow> nat set \<Rightarrow> heap \<Rightarrow> heap \<Rightarrow> bool" where
  "pruned env tok owner B h h' \<longleftrightarrow> stale_growth h h' \<and>
     (\<forall>x. \<exists>s. cont h' x = (if x \<in> B then prune env h x tok (cont h x) else cont h x)
        \<lparr>staleDisposalTasks := staleDisposalTasks (cont h x) @ s\<rparr>) \<and>
     (\<forall>b \<in> B. \<forall>pr \<in> stale_promises env h b tok. scheduled b owner pr h')"

lemma filter_stale_keys:
  "filter (\<lambda>e. fst e \<notin> {k \<in> fst ` set m. P k}) m = filter (\<lambda>e. \<not> P (fst e)) m"
  by (auto intro: filter_cong)

lemma prune_graph [simp]: "graph_part (prune env h b tok c) = graph_part c"
  by (simp add: prune_def graph_part_def)

lemma pruned_graph:
  assumes "pruned env tok owner B h h'"
  shows "same_graph h h'"
  unfolding same_graph_def
proof (intro conjI allI impI)
  show "length (conts h') = length (conts h)"
    using assms by (simp add: pruned_def stale_growth_def)
  fix x
  obtain s where "cont h' x = (if x \<in> B then prune env h x tok (cont h x) else cont h x)
      \<lparr>staleDisposalTasks := staleDisposalTasks (cont h x) @ s\<rparr>"
    using assms unfolding pruned_def by blast
  moreover have "graph_part (c\<lparr>staleDisposalTasks := s\<rparr>) = graph_part c" for c s
    by (simp add: graph_part_def)
  ultimately show "graph_part (cont h' x) = graph_part (cont h x)" by simp
qed


lemma graph_parent: "same_graph h h' \<Longrightarrow> b < length (conts h) \<Longrightarrow> parent (cont h' b) = parent (cont h b)"
  by (simp add: same_graph_def graph_part_def)

lemma stage_pruned:
  assumes "stage b owner f P h h'" and "f (cont h b) = prune env h b tok (cont h b)"
    and "stale_promises env h b tok \<subseteq> P"
  shows "pruned env tok owner {b} h h'"
proof -
  have "\<exists>s. cont h' x = (if x \<in> {b} then prune env h x tok (cont h x) else cont h x)
      \<lparr>staleDisposalTasks := staleDisposalTasks (cont h x) @ s\<rparr>" for x
  proof -
    obtain s where "cont h' x = (if x = b then f (cont h b) else cont h x)
        \<lparr>staleDisposalTasks := staleDisposalTasks (cont h x) @ s\<rparr>"
      using assms(1) unfolding stage_def by blast
    with assms(2) show ?thesis by (intro exI [of _ s]) simp
  qed
  with assms(1,3) show ?thesis
    unfolding pruned_def stage_def by blast
qed

lemma invalidate_one:
  assumes b: "b < length (conts h)" "owner < length (conts h)" "tasks_fresh h"
  shows "pruned env tok owner {b} h (invalidateAffectedCachedEntries env b tok owner h)"
proof -
  let ?ST = "\<lambda>t h. shouldInvalidateCachedToken env h b t tok"
  let ?SP = "\<lambda>p h. shouldInvalidateCachedProvider env h b p tok"
  let ?root = "parent (cont h b) = None"
  define h1 where "h1 = (if True then invalidate_entries ?ST (drop_request b) b owner (requestCache (cont h b)) h else h)"
  define h2 where "h2 = (if ?root then invalidate_entries ?ST (drop_singleton b) b owner (singletonCache (cont h1 b)) h1 else h1)"
  define h3 where "h3 = (if ?root then invalidate_entries ?SP (drop_multi_singleton b) b owner (multiSingletonCache (cont h2 b)) h2 else h2)"
  define h4 where "h4 = (if True then invalidate_entries ?SP (drop_multi_request b) b owner (multiRequestCache (cont h3 b)) h3 else h3)"
  note s1 = req_field.conditional_stage [OF same_graph_refl b same_graph_stale(1) [OF _ b(1)] h1_def]
  note s2 = single_field.conditional_stage [OF s1(2) b(1,2) s1(3) same_graph_stale(1) [OF _ b(1)] h2_def]
  note s3 = multi_single_field.conditional_stage [OF s2(2) b(1,2) s2(3) same_graph_stale(2) [OF _ b(1)] h3_def]
  note s4 = multi_req_field.conditional_stage [OF s3(2) b(1,2) s3(3) same_graph_stale(2) [OF _ b(1)] h4_def]
  have h4: "invalidateAffectedCachedEntries env b tok owner h = h4"
    unfolding invalidateAffectedCachedEntries_def h4_def h3_def h2_def h1_def Let_def if_True by (rule refl)
  note t2 = stage_trans [OF s1(1) s2(1) single_field.filter_stale b(1,2)]
  note t3 = stage_trans [OF t2 s3(1) multi_single_field.filter_stale b(1,2)]
  note t4 = stage_trans [OF t3 s4(1) multi_req_field.filter_stale b(1,2)]
  have c1: "singletonCache (cont h1 b) = singletonCache (cont h b)"
    and c2: "multiSingletonCache (cont h2 b) = multiSingletonCache (cont h b)"
    and c3: "multiRequestCache (cont h3 b) = multiRequestCache (cont h b)"
    using stage_at [OF s1(1)] stage_at [OF t2] stage_at [OF t3] by (auto split: if_splits)
  show ?thesis
    unfolding h4
    by (rule stage_pruned [OF t4]) (auto simp: prune_def stale_promises_def c1 c2 c3)
qed

section \<open>The hierarchy\<close>

lemma prune_idem:
  assumes "same_graph h h'" and "x < length (conts h)"
  shows "prune env h' x tok (cont h x) = prune env h x tok (cont h x)"
    and "prune env h' x tok ((prune env h x tok c)\<lparr>staleDisposalTasks := s\<rparr>) =
      (prune env h x tok c)\<lparr>staleDisposalTasks := s\<rparr>"
    and "prune env h' x tok (c\<lparr>staleDisposalTasks := s\<rparr>) = (prune env h x tok c)\<lparr>staleDisposalTasks := s\<rparr>"
  by (simp_all add: prune_def same_graph_stale [OF assms])

lemma pruned_refl: "tasks_fresh h \<Longrightarrow> pruned env tok owner {} h h"
  unfolding pruned_def by (auto simp: stale_growth_refl intro: exI [of _ "[]"])

lemma stale_promises_pruned:
  assumes "pruned env tok owner B h h'" and "b < length (conts h)" and "b \<notin> B"
  shows "stale_promises env h' b tok = stale_promises env h b tok"
proof -
  obtain s where "cont h' b = (if b \<in> B then prune env h b tok (cont h b) else cont h b)
      \<lparr>staleDisposalTasks := staleDisposalTasks (cont h b) @ s\<rparr>"
    using assms(1) unfolding pruned_def by blast
  with assms(3) show ?thesis
    by (simp add: stale_promises_def same_graph_stale [OF pruned_graph [OF assms(1)] assms(2)])
qed

lemma pruned_insert:
  assumes p1: "pruned env tok owner B h h1" and p2: "pruned env tok owner {b} h1 h2"
    and b: "b < length (conts h)" "owner < length (conts h)" "B \<subseteq> {..<length (conts h)}"
  shows "pruned env tok owner (insert b B) h h2"
  unfolding pruned_def
proof (intro conjI allI ballI)
  have len: "length (conts h1) = length (conts h)"
    using p1 unfolding pruned_def stale_growth_def by blast
  note graph = pruned_graph [OF p1]
  show "stale_growth h h2"
    using p1 p2 stale_growth_trans unfolding pruned_def by blast
  show "scheduled x owner pr h2" if "x \<in> insert b B" "pr \<in> stale_promises env h x tok" for x pr
  proof (cases "x \<in> B")
    case True
    then show ?thesis
      using p1 p2 that(2) b len scheduled_growth [of x owner pr h1 h2] unfolding pruned_def by auto
  next
    case False
    with that have "x = b" by simp
    with False that(2) show ?thesis
      using p2 stale_promises_pruned [OF p1 b(1)] unfolding pruned_def by simp
  qed
  fix x
  obtain s where s: "cont h1 x = (if x \<in> B then prune env h x tok (cont h x) else cont h x)
      \<lparr>staleDisposalTasks := staleDisposalTasks (cont h x) @ s\<rparr>"
    using p1 unfolding pruned_def by blast
  obtain s' where s': "cont h2 x = (if x \<in> {b} then prune env h1 x tok (cont h1 x) else cont h1 x)
      \<lparr>staleDisposalTasks := staleDisposalTasks (cont h1 x) @ s'\<rparr>"
    using p2 unfolding pruned_def by blast
  show "\<exists>s. cont h2 x = (if x \<in> insert b B then prune env h x tok (cont h x) else cont h x)
      \<lparr>staleDisposalTasks := staleDisposalTasks (cont h x) @ s\<rparr>"
  proof (cases "x = b")
    case True
    then show ?thesis
      using s s' prune_idem [OF graph b(1)] by (intro exI [of _ "s @ s'"]) (cases "b \<in> B"; simp)
  next
    case False
    then show ?thesis using s s' by (intro exI [of _ "s @ s'"]) simp
  qed
qed

lemma invalidate_all:
  assumes "owner < length (conts h)" and "tasks_fresh h" and "set bs \<subseteq> {..<length (conts h)}"
  shows "pruned env tok owner (set bs) h
    (fold (\<lambda>b. invalidateAffectedCachedEntries env b tok owner) bs h)"
  using assms(3)
proof (induction bs rule: rev_induct)
  case Nil
  then show ?case using pruned_refl [OF assms(2)] by simp
next
  case (snoc b bs)
  let ?h1 = "fold (\<lambda>b. invalidateAffectedCachedEntries env b tok owner) bs h"
  have IH: "pruned env tok owner (set bs) h ?h1" using snoc by simp
  then have "length (conts ?h1) = length (conts h)" and "tasks_fresh ?h1"
    unfolding pruned_def stale_growth_def by simp_all
  then have "pruned env tok owner {b} ?h1 (invalidateAffectedCachedEntries env b tok owner ?h1)"
    using snoc.prems assms(1) by (intro invalidate_one) auto
  from pruned_insert [OF IH this] snoc.prems assms(1) show ?case by simp
qed

lemma subtree_bound: "a < length (conts h) \<Longrightarrow> b \<in> set (subtree h a) \<Longrightarrow> b < length (conts h)"
proof (induction h a rule: subtree.induct)
  case (1 h a)
  consider "b = a" | c where "c \<in> set (childScopes (cont h a))" "a < c" "c < length (conts h)" "b \<in> set (subtree h c)"
    using "1.prems"(2) by (auto simp: subtree.simps [of h a])
  then show ?case
    using 1 by cases auto
qed

lemma hierarchy_pruned:
  assumes "a < length (conts h)" and "tasks_fresh h"
  shows "pruned env tok a (set (subtree h a)) h (invalidateAffectedCachedEntriesInHierarchy env a tok h)"
  unfolding invalidateAffectedCachedEntriesInHierarchy_def
  using assms subtree_bound by (intro invalidate_all) auto

section \<open>One planned override\<close>

lemma alloc_providers_spec:
  "alloc_providers nps h = (ps, h') \<Longrightarrow>
     map p_np ps = nps \<and> conts h' = conts h \<and> tasks h' = tasks h \<and> nextRef h \<le> nextRef h'"
proof (induction nps arbitrary: h ps h')
  case (Cons np nps)
  then obtain qs where "alloc_providers nps (h\<lparr>nextRef := Suc (nextRef h)\<rparr>) = (qs, h')"
    "ps = \<lparr>p_ref = nextRef h, p_np = np\<rparr> # qs"
    by (auto simp: fresh_def split: prod.splits)
  with Cons.IH [OF this(1)] show ?case by simp
qed simp

lemma apply_override_shape:
  assumes "a < length (conts h)" and "tasks_fresh h"
  obtains h1 h2 ps where
    "pruned env t a (set (subtree h a)) h h1" "map p_np ps = nps"
    "conts h2 = conts h1" "tasks h2 = tasks h1" "nextRef h1 \<le> nextRef h2"
    "apply_override env a (t, multi, nps) h = upd a (replace_registration t multi ps) h2"
proof -
  define h1 where "h1 = invalidateAffectedCachedEntriesInHierarchy env a t h"
  obtain ps h2 where al: "alloc_providers nps h1 = (ps, h2)" by fastforce
  show thesis
  proof (rule that)
    show "pruned env t a (set (subtree h a)) h h1"
      unfolding h1_def by (rule hierarchy_pruned [OF assms])
    show "apply_override env a (t, multi, nps) h = upd a (replace_registration t multi ps) h2"
      using al by (simp add: apply_override_def h1_def)
  qed (use alloc_providers_spec [OF al] in auto)
qed

lemma replace_registration_caches [simp]:
  "requestCache (replace_registration t m ps c) = requestCache c"
  "singletonCache (replace_registration t m ps c) = singletonCache c"
  "multiRequestCache (replace_registration t m ps c) = multiRequestCache c"
  "multiSingletonCache (replace_registration t m ps c) = multiSingletonCache c"
  "staleDisposalTasks (replace_registration t m ps c) = staleDisposalTasks c"
  "parent (replace_registration t m ps c) = parent c"
  "childScopes (replace_registration t m ps c) = childScopes c"
  by (simp_all add: replace_registration_def Let_def advanceGraphRevision_def clearResolutionPlanCaches_def
      split: list.splits)

lemma apply_override_caches:
  assumes "a < length (conts h)" and "tasks_fresh h" and "b \<in> set (subtree h a)"
  shows "requestCache (cont (apply_override env a (t, multi, nps) h) b) =
      filter (\<lambda>e. \<not> shouldInvalidateCachedToken env h b (fst e) t) (requestCache (cont h b))"
    and "parent (cont h b) = None \<Longrightarrow> singletonCache (cont (apply_override env a (t, multi, nps) h) b) =
      filter (\<lambda>e. \<not> shouldInvalidateCachedToken env h b (fst e) t) (singletonCache (cont h b))"
    and "pr \<in> stale_promises env h b t \<Longrightarrow> scheduled b a pr (apply_override env a (t, multi, nps) h)"
proof -
  from assms(1,2) obtain h1 h2 ps where p: "pruned env t a (set (subtree h a)) h h1"
    and h2: "conts h2 = conts h1" "tasks h2 = tasks h1"
    and r: "apply_override env a (t, multi, nps) h = upd a (replace_registration t multi ps) h2"
    by (rule apply_override_shape [where nps = nps and multi = multi])
  have len: "length (conts h2) = length (conts h)"
    using p h2(1) unfolding pruned_def stale_growth_def by simp
  obtain s where s: "cont h1 b = (if b \<in> set (subtree h a) then prune env h b t (cont h b) else cont h b)
      \<lparr>staleDisposalTasks := staleDisposalTasks (cont h b) @ s\<rparr>"
    using p unfolding pruned_def by blast
  have c2: "cont h2 x = cont h1 x" for x using h2(1) by (simp add: cont_def)
  have c: "cont (upd a (replace_registration t multi ps) h2) x =
      (if x = a then replace_registration t multi ps (cont h1 a) else cont h1 x)" for x
    using assms(1) len by (simp add: cont_upd c2)
  show "requestCache (cont (apply_override env a (t, multi, nps) h) b) =
      filter (\<lambda>e. \<not> shouldInvalidateCachedToken env h b (fst e) t) (requestCache (cont h b))"
    unfolding r c using s assms(3) by (cases "b = a") (simp_all add: prune_def)
  show "singletonCache (cont (apply_override env a (t, multi, nps) h) b) =
      filter (\<lambda>e. \<not> shouldInvalidateCachedToken env h b (fst e) t) (singletonCache (cont h b))"
    if "parent (cont h b) = None"
    unfolding r c using s assms(3) that by (cases "b = a") (simp_all add: prune_def)
  show "scheduled b a pr (apply_override env a (t, multi, nps) h)" if "pr \<in> stale_promises env h b t"
  proof -
    have "scheduled b a pr h1" using p that assms(3) unfolding pruned_def by blast
    moreover have "staleDisposalTasks (cont (apply_override env a (t, multi, nps) h) x) = staleDisposalTasks (cont h1 x)" for x
      unfolding r c by simp
    moreover have "tasks (apply_override env a (t, multi, nps) h) = tasks h1"
      unfolding r by (simp add: upd_def h2(2))
    ultimately show ?thesis unfolding scheduled_def by simp
  qed
qed

section \<open>A batch\<close>

definition holds_override :: "token \<Rightarrow> bool \<Rightarrow> nprovider list \<Rightarrow> container \<Rightarrow> bool" where
  "holds_override t multi nps c \<longleftrightarrow> t \<in> set (multiOverriddenTokens c) \<and>
     (if multi
      then js_get (registrations c) t = None \<and>
           (\<exists>ps. js_get (multiRegistrations c) t = Some ps \<and> map p_np ps = nps)
      else js_get (multiRegistrations c) t = None \<and>
           (\<exists>p. js_get (registrations c) t = Some p \<and> [p_np p] = nps))"

lemma replace_registration_holds:
  "(multi \<or> length nps = 1) \<Longrightarrow> map p_np ps = nps \<Longrightarrow> holds_override t multi nps (replace_registration t multi ps c)"
  "t' \<noteq> t \<Longrightarrow> holds_override t' multi' nps' (replace_registration t multi ps c) = holds_override t' multi' nps' c"
  by (cases ps; auto simp: holds_override_def replace_registration_def advanceGraphRevision_def
      clearResolutionPlanCaches_def Let_def js_get_set js_get_delete)+

lemma holds_override_graph: "graph_part c' = graph_part c \<Longrightarrow> holds_override t m nps c' = holds_override t m nps c"
  by (simp add: holds_override_def graph_part_def)

lemma apply_override_keeps:
  assumes "a < length (conts h)" and "tasks_fresh h"
  shows "length (conts (apply_override env a (t, multi, nps) h)) = length (conts h)"
    and "tasks_fresh (apply_override env a (t, multi, nps) h)"
    and "multi \<or> length nps = 1 \<Longrightarrow> holds_override t multi nps (cont (apply_override env a (t, multi, nps) h) a)"
    and "t' \<noteq> t \<Longrightarrow> holds_override t' m' nps' (cont (apply_override env a (t, multi, nps) h) a) =
      holds_override t' m' nps' (cont h a)"
    and "parent (cont (apply_override env a (t, multi, nps) h) b) = parent (cont h b)"
proof -
  from assms obtain h1 h2 ps where p: "pruned env t a (set (subtree h a)) h h1" and ps: "map p_np ps = nps"
    and h2: "conts h2 = conts h1" "tasks h2 = tasks h1" "nextRef h1 \<le> nextRef h2"
    and r: "apply_override env a (t, multi, nps) h = upd a (replace_registration t multi ps) h2"
    by (rule apply_override_shape [where nps = nps and multi = multi])
  show len: "length (conts (apply_override env a (t, multi, nps) h)) = length (conts h)"
    using p h2(1) unfolding r pruned_def stale_growth_def by simp
  have c: "cont (apply_override env a (t, multi, nps) h) x =
      (if x = a then replace_registration t multi ps (cont h1 a) else cont h1 x)" for x
    using assms(1) len unfolding r by (simp add: cont_upd) (simp add: cont_def h2(1))
  show "tasks_fresh (apply_override env a (t, multi, nps) h)"
    using p h2(2,3) unfolding r pruned_def stale_growth_def tasks_fresh_def by (auto simp: upd_def)
  have g: "graph_part (cont h1 a) = graph_part (cont h a)"
    using pruned_graph [OF p] assms(1) by (simp add: same_graph_def)
  show "holds_override t multi nps (cont (apply_override env a (t, multi, nps) h) a)" if "multi \<or> length nps = 1"
    unfolding c using replace_registration_holds(1) [OF that ps] by simp
  show "holds_override t' m' nps' (cont (apply_override env a (t, multi, nps) h) a) = holds_override t' m' nps' (cont h a)"
    if "t' \<noteq> t"
    unfolding c using replace_registration_holds(2) [OF that] holds_override_graph [OF g] by simp
  obtain s where "cont h1 b = (if b \<in> set (subtree h a) then prune env h b t (cont h b) else cont h b)
      \<lparr>staleDisposalTasks := staleDisposalTasks (cont h b) @ s\<rparr>"
    using p unfolding pruned_def by blast
  then show "parent (cont (apply_override env a (t, multi, nps) h) b) = parent (cont h b)"
    unfolding c by (cases "b = a") (simp_all add: prune_def)
qed

lemma override_plans_hold:
  assumes "distinct (map fst plans)" and "\<forall>(t, multi, nps) \<in> set plans. multi \<or> length nps = 1"
    and "a < length (conts h)" and "tasks_fresh h"
  shows "length (conts (fold (apply_override env a) plans h)) = length (conts h) \<and>
    tasks_fresh (fold (apply_override env a) plans h) \<and>
    (\<forall>(t, multi, nps) \<in> set plans. holds_override t multi nps (cont (fold (apply_override env a) plans h) a))"
  using assms(1,2)
proof (induction plans rule: rev_induct)
  case (snoc x plans)
  obtain t multi nps where x: "x = (t, multi, nps)" by (cases x)
  let ?h = "fold (apply_override env a) plans h"
  have IH: "length (conts ?h) = length (conts h)" "tasks_fresh ?h"
    "\<forall>(t, multi, nps) \<in> set plans. holds_override t multi nps (cont ?h a)"
    using snoc by auto
  have a: "a < length (conts ?h)" using assms(3) IH(1) by simp
  note keeps = apply_override_keeps [OF a IH(2), where env = env and t = t and multi = multi and nps = nps]
  have "holds_override t' m' nps' (cont (apply_override env a x ?h) a)" if "(t', m', nps') \<in> set plans" for t' m' nps'
  proof -
    have "t' \<noteq> t" using snoc.prems(1) that x by force
    then show ?thesis using keeps(4) [where t' = t' and m' = m' and nps' = nps'] IH(3) that x by auto
  qed
  then show ?case
    using keeps(1-3) IH snoc.prems(2) x by auto
qed (use assms in simp)

lemma group_keys: "js_ok m \<Longrightarrow> js_ok (group_by_token nps m)"
  by (induction nps m rule: group_by_token.induct) (simp_all add: jsm.ok_put split: option.split)

lemma group_members:
  "js_get (group_by_token nps m) t =
     (case js_get m t of
        None \<Rightarrow> (case filter (\<lambda>np. np_provide np = t) nps of [] \<Rightarrow> None | qs \<Rightarrow> Some qs)
      | Some ps \<Rightarrow> Some (ps @ filter (\<lambda>np. np_provide np = t) nps))"
  by (induction nps m rule: group_by_token.induct) (auto simp: js_get_set split: option.splits list.splits)

lemma group_members_all:
  "js_get (group_by_token nps []) t =
     (case filter (\<lambda>np. np_provide np = t) nps of [] \<Rightarrow> None | qs \<Rightarrow> Some qs)"
  unfolding group_members by (simp add: js_get_def)

lemma planned_override_Inr:
  "planned_override (t, nps) = Inr (t', multi, nps') \<Longrightarrow>
     t' = t \<and> nps' = nps \<and> (multi \<longleftrightarrow> list_ex np_multi nps) \<and> (multi \<longrightarrow> list_all np_multi nps) \<and>
     (\<not> multi \<longrightarrow> length nps \<le> 1)"
  by (auto simp: planned_override_def Let_def list_ex_iff list_all_iff split: if_splits)

lemma plan_overrides_group:
  assumes "plan_overrides env a decls h = Inr plans"
  obtains nps where "res_map (normalizeProvider env) decls = Inr nps"
    "list_all2 (\<lambda>x y. planned_override x = Inr y) (group_by_token nps []) plans"
  using assms by (auto simp: plan_overrides_def Let_def res_laws split: if_splits sum.splits option.splits)

lemma list_all2_members:
  assumes "list_all2 R xs ys"
  shows "y \<in> set ys \<Longrightarrow> \<exists>x \<in> set xs. R x y" and "x \<in> set xs \<Longrightarrow> \<exists>y \<in> set ys. R x y"
  using assms by (induction rule: list_all2_induct) auto

lemma override_success:
  assumes "override env a decls h = (h', None)" and "a < length (conts h)" and "tasks_fresh h"
    and "d \<in> set decls" and "normalizeProvider env d = Inr np"
  shows "\<exists>nps. res_map (normalizeProvider env) decls = Inr nps \<and>
    holds_override (np_provide np) (np_multi np) (filter (\<lambda>q. np_provide q = np_provide np) nps) (cont h' a)"
proof -
  obtain plans where plans: "plan_overrides env a decls h = Inr plans" "h' = fold (apply_override env a) plans h"
    using assms(1) by (auto simp: override_def split: sum.splits)
  obtain nps where nps: "res_map (normalizeProvider env) decls = Inr nps"
    and rel: "list_all2 (\<lambda>x y. planned_override x = Inr y) (group_by_token nps []) plans"
    using plan_overrides_group [OF plans(1)] .
  let ?m = "group_by_token nps []"
  have ok: "js_ok ?m" by (rule group_keys) simp
  have tok: "fst y = fst x" if "planned_override x = Inr y" for x y
    using planned_override_Inr that by (cases x; cases y) auto
  have "map fst plans = map fst ?m"
    using rel tok [of "?m ! i" "plans ! i" for i] by (intro nth_equalityI) (simp_all add: list_all2_conv_all_nth)
  then have dist: "distinct (map fst plans)" using ok by simp
  have entry: "\<exists>x \<in> set ?m. planned_override x = Inr y" if "y \<in> set plans" for y
    using list_all2_members(1) [OF rel that] .
  have "multi \<or> length qs = 1" if y: "(t, multi, qs) \<in> set plans" for t multi qs
  proof -
    obtain x where x: "(t, x) \<in> set ?m" "planned_override (t, x) = Inr (t, multi, qs)"
      using entry [OF y] tok by (metis fst_conv prod.collapse)
    then have "js_get ?m t = Some qs"
      using planned_override_Inr [OF x(2)] ok by (simp add: js_get_def)
    then have "qs \<noteq> []" by (auto simp: group_members_all split: list.splits)
    with planned_override_Inr [OF x(2)] show ?thesis by (cases qs) auto
  qed
  then have single: "\<forall>(t, multi, nps) \<in> set plans. multi \<or> length nps = 1" by blast
  let ?t = "np_provide np" and ?qs = "filter (\<lambda>q. np_provide q = np_provide np) nps"
  have "np \<in> set nps"
    using list_all2_members(2) [OF nps [unfolded res_map_Inr_iff] assms(4)] assms(5) by auto
  then have np: "np \<in> set ?qs" by simp
  then have "js_get ?m ?t = Some ?qs"
    by (cases ?qs) (auto simp: group_members_all)
  then have "(?t, ?qs) \<in> set ?m" by (rule js_get_in)
  then obtain y where y: "y \<in> set plans" "planned_override (?t, ?qs) = Inr y"
    using list_all2_members(2) [OF rel] by blast
  obtain t' mul qs' where y': "y = (t', mul, qs')" by (cases y)
  have "y = (?t, np_multi np, ?qs)"
    using planned_override_Inr [OF y(2) [unfolded y']] np y' by (auto simp: list_ex_iff list_all_iff)
  then have "holds_override ?t (np_multi np) ?qs (cont h' a)"
    using override_plans_hold [OF dist single assms(2,3)] y(1) plans(2) by blast
  with nps show ?thesis by blast
qed

end
