(* ===== verification/Disposal_Correctness.thy ===== *)
theory Disposal_Correctness
  imports Container_Disposal Override_Correctness
begin

text \<open>
  What disposal guarantees: it returns, it is terminal for the whole subtree, hooks run in reverse
  order of materialisation, and a retry runs exactly the hooks that did not complete.
\<close>

section \<open>What teardown keeps\<close>

definition ordered_scopes :: "heap \<Rightarrow> bool" where
  "ordered_scopes h \<longleftrightarrow> (\<forall>x < length (conts h). \<forall>c \<in> set (childScopes (cont h x)). x < c \<and> c < length (conts h))"

definition teardown :: "heap \<Rightarrow> heap \<Rightarrow> bool" where
  "teardown h h' \<longleftrightarrow> length (conts h') = length (conts h) \<and>
     (\<forall>b < length (conts h). parent (cont h' b) = parent (cont h b) \<and>
        registrations (cont h' b) = registrations (cont h b) \<and>
        multiRegistrations (cont h' b) = multiRegistrations (cont h b) \<and>
        (disposed (cont h b) \<longrightarrow> disposed (cont h' b)) \<and>
        set (childScopes (cont h' b)) \<subseteq> set (childScopes (cont h b)))"

lemma teardown_refl [simp]: "teardown h h"
  by (simp add: teardown_def)

lemma teardown_trans [trans]: "teardown h h' \<Longrightarrow> teardown h' h'' \<Longrightarrow> teardown h h''"
  unfolding teardown_def by (metis subset_trans)

lemma teardown_keyed: "teardown h h' \<Longrightarrow> keyed h \<Longrightarrow> keyed h'"
  unfolding teardown_def keyed_def by simp

lemma teardown_length: "teardown h h' \<Longrightarrow> length (conts h') = length (conts h)"
  by (simp add: teardown_def)

lemma teardown_upd:
  assumes "\<And>c. parent (f c) = parent c" and "\<And>c. registrations (f c) = registrations c"
    and "\<And>c. multiRegistrations (f c) = multiRegistrations c" and "\<And>c. disposed c \<Longrightarrow> disposed (f c)"
    and "\<And>c. set (childScopes (f c)) \<subseteq> set (childScopes c)"
  shows "teardown h (upd a f h)"
proof (cases "a < length (conts h)")
  case True
  then show ?thesis using assms by (auto simp: teardown_def cont_upd)
next
  case False
  then have "upd a f h = h" by (simp add: upd_def list_update_beyond)
  then show ?thesis by simp
qed

lemma teardown_conts: "conts h' = conts h \<Longrightarrow> teardown h h'"
  by (simp add: teardown_def cont_def)

lemma teardown_fold: "(\<And>x h. teardown h (f x h)) \<Longrightarrow> teardown h (fold f xs h)"
  by (induction xs arbitrary: h) (auto intro: teardown_trans)

lemma ordered_teardown: "ordered_scopes h \<Longrightarrow> teardown h h' \<Longrightarrow> ordered_scopes h'"
  unfolding ordered_scopes_def teardown_def by (metis subsetD)

named_theorems teardown_rules \<open>operations that only tear down\<close>

lemma release_task_teardown [teardown_rules]: "teardown h (release_task i b h)"
  unfolding release_task_def by (rule teardown_upd) auto

lemma set_task_teardown [teardown_rules]: "teardown h (set_task i t h)"
  by (rule teardown_conts) (simp add: set_task_def)

lemma call_hook_teardown [teardown_rules]: "call_hook hk v h = (e, h') \<Longrightarrow> teardown h h'"
  by (rule teardown_conts) (auto simp: call_hook_def)

lemma release_all_teardown [teardown_rules]: "teardown h (fold (release_task i) bs h)"
  by (rule teardown_fold) (rule release_task_teardown)

lemma settle_stale_teardown [teardown_rules]: "teardown h (settle_stale hk i h)"
proof (cases "js_get (tasks h) i")
  case (Some task)
  obtain e h1 where c: "(if disposable hk (pr_val (st_promise task)) then call_hook hk (pr_val (st_promise task)) h
      else (None, h)) = (e, h1)" by fastforce
  then have t1: "teardown h h1" by (auto split: if_splits intro: teardown_rules)
  define h2 where "h2 = upd (st_retryOwner task) (\<lambda>c. c\<lparr>materializedCachePromises :=
      filter (\<lambda>pr. pr \<noteq> st_promise task) (materializedCachePromises c)\<rparr>) h1"
  have t2: "teardown h1 h2" unfolding h2_def by (rule teardown_upd) auto
  have "teardown h2 (fold (release_task i) bs (set_task i t h2))" for bs t
    by (rule teardown_trans [OF set_task_teardown release_all_teardown])
  moreover have "teardown h2 (set_task i t h2)" for t by (rule set_task_teardown)
  ultimately show ?thesis
    using teardown_trans [OF t1 t2] Some c
    by (auto simp: settle_stale_def Let_def h2_def [symmetric] split: option.splits intro: teardown_trans)
qed (simp add: settle_stale_def)

lemma consume_task_teardown [teardown_rules]: "teardown (fst s) (fst (consume_task a i s))"
proof -
  have "teardown h (fold (release_task i) bs (set_task i t h))" for bs t h
    by (rule teardown_trans [OF set_task_teardown release_all_teardown])
  then show ?thesis
    by (auto simp: consume_task_def Let_def split: prod.splits option.splits intro: teardown_rules)
qed

lemma consume_all_teardown: "teardown (fst s) (fst (fold (consume_task a) is s))"
proof (induction "is" arbitrary: s)
  case (Cons i "is")
  show ?case using teardown_trans [OF consume_task_teardown Cons.IH] by simp
qed simp

lemma assertStale_teardown [teardown_rules]:
  "assertStaleDisposalsSettled hk a h = (h', r) \<Longrightarrow> teardown h h'"
proof -
  let ?ids = "staleDisposalTasks (cont h a)" and ?h = "fold (settle_stale hk) (staleDisposalTasks (cont h a)) h"
  assume "assertStaleDisposalsSettled hk a h = (h', r)"
  then have "h' = fst (fold (consume_task a) ?ids (?h, []))"
    by (auto simp: assertStaleDisposalsSettled_def Let_def split: prod.splits)
  moreover have "teardown h ?h" by (rule teardown_fold) (rule settle_stale_teardown)
  ultimately show ?thesis
    using consume_all_teardown [of "(?h, [])" a ?ids] by (auto intro: teardown_trans)
qed

lemma retryFailed_teardown [teardown_rules]:
  "retryFailedStaleDisposals hk is h = (h', es, vs) \<Longrightarrow> teardown h h'"
proof (induction "is" arbitrary: h es vs)
  case (Cons i "is")
  consider es' vs' where "retryFailedStaleDisposals hk is h = (h', es', vs')"
    | task v e h1 h2 es' vs' where "call_hook hk v h = (e, h1)"
        "h2 = (case e of None \<Rightarrow> fold (release_task i) (st_observers task)
                 (set_task i (task\<lparr>st_failed := False, st_retryInstance := None\<rparr>) h1)
               | Some e \<Rightarrow> set_task i (task\<lparr>st_error := e, st_errorConsumed := True\<rparr>) h1)"
        "retryFailedStaleDisposals hk is h2 = (h', es', vs')"
    using Cons.prems by (auto simp: Let_def split: option.splits if_splits prod.splits)
  then show ?case
  proof cases
    case 1
    then show ?thesis by (rule Cons.IH)
  next
    case 2
    have "teardown h h1" using 2(1) by (rule call_hook_teardown)
    moreover have "teardown h1 h2"
      unfolding 2(2) by (auto split: option.splits intro: teardown_trans [OF set_task_teardown] teardown_rules)
    ultimately show ?thesis
      using Cons.IH [OF 2(3)] teardown_trans by blast
  qed
qed simp

lemma run_hooks_teardown [teardown_rules]:
  "run_hooks hk vs h es ps = (h', es', ps') \<Longrightarrow> teardown h h'"
proof (induction vs arbitrary: h es ps)
  case (Cons v vs)
  obtain e h1 where c: "call_hook hk v h = (e, h1)" by fastforce
  have "teardown h1 h'"
    using Cons.prems Cons.IH by (cases e) (simp_all add: c)
  then show ?case using call_hook_teardown [OF c] teardown_trans by blast
qed simp

lemma disposeInstances_teardown [teardown_rules]:
  "disposeInstancesInReverseOrder hk a vs h = (h', es) \<Longrightarrow> teardown h h'"
  by (auto simp: disposeInstancesInReverseOrder_def Let_def split: prod.splits
      intro!: teardown_trans [OF run_hooks_teardown teardown_upd])

lemma disposeCache_teardown [teardown_rules]:
  assumes "disposeCache hk a entries h = (h', r)"
  shows "teardown h h'"
proof -
  obtain h1 e1 where 1: "assertStaleDisposalsSettled hk a h = (h1, e1)" by fastforce
  obtain h2 e2 vs where 2: "retryFailedStaleDisposals hk (retainedStaleDisposalTasks h a) h1 = (h2, e2, vs)"
    by (cases "retryFailedStaleDisposals hk (retainedStaleDisposalTasks h a) h1")
  obtain ws h3 e3 where 3: "disposeInstancesInReverseOrder hk a ws h2 = (h3, e3)" "h' = upd a clearDisposalCaches h3"
    using assms by (auto simp: disposeCache_def 1 2 Let_def split: prod.splits)
  have "teardown h3 h'"
    unfolding 3(2) by (rule teardown_upd) (auto simp: clearDisposalCaches_def clearResolutionPlanCaches_def)
  with assertStale_teardown [OF 1] retryFailed_teardown [OF 2] disposeInstances_teardown [OF 3(1)]
  show ?thesis by (meson teardown_trans)
qed

lemma release_others_teardown [teardown_rules]: "teardown h (release_others b i h)"
  by (auto simp: release_others_def split: option.splits intro: teardown_rules)

lemma releaseSubtree_teardown [teardown_rules]: "teardown h (releaseNonOwnerStaleTaskObserversInSubtree a h)"
  unfolding releaseNonOwnerStaleTaskObserversInSubtree_def releaseNonOwnerStaleTaskObservers_def
  by (intro teardown_fold release_others_teardown)

lemma untrack_scope_teardown [teardown_rules]: "teardown h (untrack_scope o' ok a h)"
proof -
  have u: "teardown h (upd a (\<lambda>c. c\<lparr>trackedByParent := False\<rparr>)
      (upd p (\<lambda>c. c\<lparr>childScopes := filter (\<lambda>x. x \<noteq> a) (childScopes c)\<rparr>) h))" for p h
    by (rule teardown_trans; rule teardown_upd) auto
  show ?thesis
    by (auto simp: untrack_scope_def Let_def intro: u teardown_trans [OF releaseSubtree_teardown u])
qed

section \<open>Disposal returns and is terminal\<close>

lemma dispose_children_teardown:
  assumes "\<And>c h h1 r. rec c h = Some (h1, r) \<Longrightarrow> teardown h h1"
  shows "dispose_children rec cs h = Some (h', es) \<Longrightarrow> teardown h h'"
proof (induction cs arbitrary: h es)
  case (Cons c cs)
  then obtain h1 r es' where "rec c h = Some (h1, r)" "dispose_children rec cs h1 = Some (h', es')"
    by (auto split: option.splits)
  then show ?case using assms Cons.IH teardown_trans by blast
qed simp

lemma disposeAll_teardown:
  assumes "\<And>c h h1 r. rec c h = Some (h1, r) \<Longrightarrow> teardown h h1"
    and "disposeAll hk rec o' a h = Some (h', r)"
  shows "teardown h h'"
proof -
  obtain h1 es where 1: "dispose_children rec (childScopes (cont h a)) h = Some (h1, es)"
    using assms(2) by (auto simp: disposeAll_def split: option.splits)
  obtain h2 e2 where 2: "disposeCache hk a (disposalCacheEntries (cont h1 a)) h1 = (h2, e2)"
    by fastforce
  have "\<exists>ok. h' = untrack_scope o' ok a h2"
    using assms(2) by (auto simp: disposeAll_def 1 2 Let_def)
  then have "teardown h2 h'" using untrack_scope_teardown by blast
  with dispose_children_teardown [OF assms(1) 1] disposeCache_teardown [OF 2] show ?thesis
    by (meson teardown_trans)
qed

lemma mark_disposed_teardown: "teardown h (upd a (\<lambda>c. advanceGraphRevision (c\<lparr>disposed := True\<rparr>)) h)"
  by (rule teardown_upd) (auto simp: advanceGraphRevision_def clearResolutionPlanCaches_def)

lemma disposeWithOrigin_teardown: "disposeWithOrigin hk k o' a h = Some (h', r) \<Longrightarrow> teardown h h'"
proof (induction k arbitrary: o' a h h' r)
  case (Suc k)
  show ?case
  proof (cases "disposePromise (cont h a)")
    case True
    with Suc.prems show ?thesis by simp
  next
    case False
    then obtain h1 f where
      d: "disposeAll hk (\<lambda>c. disposeWithOrigin hk k FromParent c) o' a
        (upd a (\<lambda>c. advanceGraphRevision (c\<lparr>disposed := True\<rparr>)) h) = Some (h1, r)"
      and h': "h' = upd a (\<lambda>c. c\<lparr>disposePromise := f\<rparr>) h1"
      using Suc.prems by (auto split: option.splits)
    have "teardown h1 h'" unfolding h' by (rule teardown_upd) auto
    moreover have "teardown (upd a (\<lambda>c. advanceGraphRevision (c\<lparr>disposed := True\<rparr>)) h) h1"
      by (rule disposeAll_teardown [OF _ d]) (rule Suc.IH)
    ultimately show ?thesis
      using mark_disposed_teardown teardown_trans by blast
  qed
qed simp

lemma disposeWithOrigin_disposed:
  assumes "disposeWithOrigin hk k o' a h = Some (h', r)" and "a < length (conts h)"
    and "disposePromise (cont h a) \<Longrightarrow> disposed (cont h a)"
  shows "disposed (cont h' a)"
proof (cases "disposePromise (cont h a)")
  case True
  with assms show ?thesis by (cases k) auto
next
  case False
  let ?h0 = "upd a (\<lambda>c. advanceGraphRevision (c\<lparr>disposed := True\<rparr>)) h"
  obtain k' where k: "k = Suc k'" using assms(1) by (cases k) auto
  obtain h1 f where d: "disposeAll hk (\<lambda>c. disposeWithOrigin hk k' FromParent c) o' a ?h0 = Some (h1, r)"
    and h': "h' = upd a (\<lambda>c. c\<lparr>disposePromise := f\<rparr>) h1"
    using assms(1) False by (auto simp: k split: option.splits)
  have "teardown ?h0 h1"
    by (rule disposeAll_teardown [OF _ d]) (rule disposeWithOrigin_teardown)
  moreover have "teardown h1 h'" unfolding h' by (rule teardown_upd) auto
  ultimately have "teardown ?h0 h'" by (rule teardown_trans)
  moreover have "disposed (cont ?h0 a)"
    using assms(2) by (simp add: cont_upd advanceGraphRevision_def clearResolutionPlanCaches_def)
  ultimately show ?thesis
    using assms(2) by (simp add: teardown_def)
qed

lemma dispose_children_returns:
  assumes "\<And>c h. c \<in> set cs \<Longrightarrow> ordered_scopes h \<Longrightarrow> length (conts h) = n \<Longrightarrow> rec c h \<noteq> None"
    and "\<And>c h h1 r. rec c h = Some (h1, r) \<Longrightarrow> teardown h h1"
  shows "ordered_scopes h \<Longrightarrow> length (conts h) = n \<Longrightarrow> dispose_children rec cs h \<noteq> None"
  using assms(1)
proof (induction cs arbitrary: h)
  case (Cons c cs)
  obtain h1 r where r: "rec c h = Some (h1, r)"
    using Cons.prems(3) [of c h] Cons.prems(1,2) by auto
  have "dispose_children rec cs h1 \<noteq> None"
  proof (rule Cons.IH)
    show "ordered_scopes h1" using ordered_teardown [OF Cons.prems(1) assms(2) [OF r]] .
    show "length (conts h1) = n" using teardown_length [OF assms(2) [OF r]] Cons.prems(2) by simp
  qed (use Cons.prems(3) in auto)
  with r show ?case by auto
qed simp

lemma disposeWithOrigin_returns:
  "a < length (conts h) \<Longrightarrow> ordered_scopes h \<Longrightarrow> length (conts h) - a < k \<Longrightarrow>
     disposeWithOrigin hk k o' a h \<noteq> None"
proof (induction k arbitrary: o' a h)
  case (Suc k)
  let ?h0 = "upd a (\<lambda>c. advanceGraphRevision (c\<lparr>disposed := True\<rparr>)) h"
  have t0: "teardown h ?h0" by (rule mark_disposed_teardown)
  have o0: "ordered_scopes ?h0" using ordered_teardown [OF Suc.prems(2) t0] .
  have "dispose_children (\<lambda>c. disposeWithOrigin hk k FromParent c) (childScopes (cont ?h0 a)) ?h0 \<noteq> None"
  proof (rule dispose_children_returns [where n = "length (conts h)"])
    fix c h1
    assume c: "c \<in> set (childScopes (cont ?h0 a))" and h1: "ordered_scopes h1" "length (conts h1) = length (conts h)"
    have a0: "a < length (conts ?h0)" using Suc.prems(1) by simp
    have ac: "a < c \<and> c < length (conts ?h0)"
      using o0 [unfolded ordered_scopes_def, THEN spec, THEN mp, OF a0] c by blast
    have "a < c" "c < length (conts h)"
      using ac by simp_all
    then show "disposeWithOrigin hk k FromParent c h1 \<noteq> None"
      using Suc.prems(3) h1 by (intro Suc.IH) auto
  next
    show "teardown h2 h3" if "disposeWithOrigin hk k FromParent c2 h2 = Some (h3, r2)" for c2 h2 h3 r2
      using that by (rule disposeWithOrigin_teardown)
  qed (use o0 teardown_length [OF t0] in simp_all)
  then have "disposeAll hk (\<lambda>c. disposeWithOrigin hk k FromParent c) o' a ?h0 \<noteq> None"
    by (auto simp: disposeAll_def Let_def split: prod.splits)
  then obtain x where "disposeAll hk (\<lambda>c. disposeWithOrigin hk k FromParent c) o' a ?h0 = Some x" by blast
  then show ?case by (cases x) simp
next
  case 0
  from "0.prems"(3) show ?case by (rule less_zeroE)
qed

lemma teardown_lineage: "teardown h h' \<Longrightarrow> a < length (conts h) \<Longrightarrow> lineage h' a = lineage h a"
  by (rule lineage_cong) (auto simp: teardown_def dest: lineage_bound)

lemma disposed_refuses:
  assumes "isDisposedInHierarchy h b"
  shows "register env b ds h = (h, Some ContainerDisposed)"
    and "override env b ds h = (h, Some ContainerDisposed)"
    and "createRequestScope b h = (Inl ContainerDisposed, h)"
    and "resolve u env hk b t h = Some (h, Inl ContainerDisposed)"
    and "resolveMultiContribution u env hk b t i h = Some (h, Inl ContainerDisposed)"
  using assms by (simp_all add: register_def override_def plan_overrides_def createRequestScope_def
      resolve_def resolveMultiContribution_def)

section \<open>Hook order and retries\<close>

text \<open>The hooks of \<open>vs\<close> that throw when they run in order from the \<open>n\<close>-th call on.\<close>

fun failing :: "hooks \<Rightarrow> nat \<Rightarrow> jsv list \<Rightarrow> (jsv \<times> jsv) list" where
  "failing hk n [] = []"
| "failing hk n (v # vs) =
     (case on_destroy hk v n of
        None \<Rightarrow> failing hk (Suc n) vs
      | Some e \<Rightarrow> (v, e) # failing hk (Suc n) vs)"

lemma run_hooks_spec:
  "run_hooks hk vs h es ps =
     (h\<lparr>hookLog := hookLog h @ vs\<rparr>,
      es @ map (\<lambda>(v, e). UserError e) (failing hk (length (hookLog h)) vs),
      rev (map fst (failing hk (length (hookLog h)) vs)) @ ps)"
  by (induction vs arbitrary: h es ps) (auto simp: call_hook_def split: option.splits)

lemma failing_subset: "fst ` set (failing hk n vs) \<subseteq> set vs"
  by (induction vs arbitrary: n) (auto split: option.splits)

lemma distinct_disposables_spec:
  "set (distinct_disposables hk seen vs) = {v \<in> set vs. disposable hk v \<and> v \<notin> set seen}"
  "distinct (distinct_disposables hk seen vs)"
  by (induction vs arbitrary: seen) auto

text \<open>A container without child scopes and without stale disposal tasks.\<close>

definition quiet_leaf :: "heap \<Rightarrow> nat \<Rightarrow> bool" where
  "quiet_leaf h a \<longleftrightarrow> a < length (conts h) \<and> childScopes (cont h a) = [] \<and> staleDisposalTasks (cont h a) = []"

definition due_hooks :: "hooks \<Rightarrow> container \<Rightarrow> jsv list" where
  "due_hooks hk c =
     (if pendingDisposables c \<noteq> [] then pendingDisposables c
      else collectDisposableInstances hk (disposalCacheEntries c) c)"

lemma throw_none [simp]: "throwDisposalErrors [] = None" "collectDisposalError None = []"
  by (simp_all add: throwDisposalErrors_def collectDisposalError_def)

lemma filter_not_in_empty [simp]: "filter (\<lambda>v. v \<notin> set []) vs = vs"
  by simp

lemma disposeCache_quiet:
  assumes "staleDisposalTasks (cont h a) = []" and "a < length (conts h)"
  shows "disposeCache hk a (disposalCacheEntries (cont h a)) h =
    (let vs = rev (due_hooks hk (cont h a));
         fs = failing hk (length (hookLog h)) vs
     in (upd a clearDisposalCaches (upd a (\<lambda>c. c\<lparr>pendingDisposables := rev (map fst fs)\<rparr>) (h\<lparr>hookLog := hookLog h @ vs\<rparr>)),
         throwDisposalErrors (map (\<lambda>(v, e). UserError e) fs)))"
  by (simp add: disposeCache_def assertStaleDisposalsSettled_def retainedStaleDisposalTasks_def assms
      disposeInstancesInReverseOrder_def run_hooks_spec due_hooks_def Let_def)

lemma hookLog_upd [simp]: "hookLog (upd a f h) = hookLog h" "tasks (upd a f h) = tasks h"
  by (simp_all add: upd_def)

lemma cont_hookLog [simp]: "cont (h\<lparr>hookLog := l\<rparr>) x = cont h x"
  by (simp add: cont_def)

lemma subtree_leaf: "childScopes (cont h a) = [] \<Longrightarrow> subtree h a = [a]"
  by (simp add: subtree.simps)

text \<open>What \<open>untrack_scope\<close> leaves of a leaf without stale tasks.\<close>

lemma untrack_leaf:
  assumes "a < length (conts h)" and "childScopes (cont h a) = []" and "staleDisposalTasks (cont h a) = []"
  shows "hookLog (untrack_scope o' ok a h) = hookLog h"
    and "length (conts (untrack_scope o' ok a h)) = length (conts h)"
    and "\<exists>t. cont (untrack_scope o' ok a h) a = (cont h a)\<lparr>trackedByParent := t\<rparr>"
proof -
  have rel: "releaseNonOwnerStaleTaskObserversInSubtree a h = h"
    by (simp add: releaseNonOwnerStaleTaskObserversInSubtree_def subtree_leaf assms
        releaseNonOwnerStaleTaskObservers_def)
  show "hookLog (untrack_scope o' ok a h) = hookLog h"
    and "length (conts (untrack_scope o' ok a h)) = length (conts h)"
    by (simp_all add: untrack_scope_def Let_def rel)
  have same: "(cont h a)\<lparr>childScopes := []\<rparr> = cont h a" using assms(2) by simp
  have "cont (upd p (\<lambda>c. c\<lparr>childScopes := filter (\<lambda>x. x \<noteq> a) (childScopes c)\<rparr>) h) a = cont h a" for p
  proof (cases "p = a")
    case True
    then show ?thesis unfolding True cont_upd [OF assms(1)] assms(2) using same by simp
  next
    case False
    then show ?thesis by (simp add: upd_def cont_def)
  qed
  then show "\<exists>t. cont (untrack_scope o' ok a h) a = (cont h a)\<lparr>trackedByParent := t\<rparr>"
    using assms(1) by (auto simp: untrack_scope_def Let_def rel cont_upd
        intro: exI [of _ "trackedByParent (cont h a)"] exI [of _ False])
qed

lemma throw_collect:
  "throwDisposalErrors (collectDisposalError (throwDisposalErrors (map (\<lambda>(v, e). UserError e) fs))) =
     throwDisposalErrors (map (\<lambda>(v, e). UserError e) fs)"
  by (auto simp: throwDisposalErrors_def collectDisposalError_def split: list.splits)

lemma no_retained_leaf:
  "childScopes (cont h a) = [] \<Longrightarrow> staleDisposalTasks (cont h a) = [] \<Longrightarrow> \<not> hasRetainedStaleDisposalTasksInSubtree h a"
  by (simp add: hasRetainedStaleDisposalTasksInSubtree_def subtree_leaf retainedStaleDisposalTasks_def)

lemma dispose_leaf:
  assumes "quiet_leaf h a" and "\<not> disposePromise (cont h a)"
    and fs: "fs = failing hk (length (hookLog h)) (rev (due_hooks hk (cont h a)))"
  shows "\<exists>h'. dispose hk a h = Some (h', throwDisposalErrors (map (\<lambda>(v, e). UserError e) fs)) \<and>
    hookLog h' = hookLog h @ rev (due_hooks hk (cont h a)) \<and> quiet_leaf h' a \<and>
    pendingDisposables (cont h' a) = rev (map fst fs) \<and> materializedCachePromises (cont h' a) = [] \<and>
    disposePromise (cont h' a) = (fs = [])"
proof -
  have a: "a < length (conts h)" and ch: "childScopes (cont h a) = []" and st: "staleDisposalTasks (cont h a) = []"
    using assms(1) by (simp_all add: quiet_leaf_def)
  define h0 where "h0 = upd a (\<lambda>c. advanceGraphRevision (c\<lparr>disposed := True\<rparr>)) h"
  have c0: "cont h0 a = advanceGraphRevision ((cont h a)\<lparr>disposed := True\<rparr>)" and len0: "length (conts h0) = length (conts h)"
    and log0: "hookLog h0 = hookLog h"
    using a by (simp_all add: h0_def cont_upd)
  note adv = advanceGraphRevision_def clearResolutionPlanCaches_def
  let ?vs = "rev (due_hooks hk (cont h a))"
  have due: "due_hooks hk (cont h0 a) = due_hooks hk (cont h a)"
    by (simp add: due_hooks_def c0 adv collectDisposableInstances_def disposalCacheEntries_def)
  define h2 where "h2 = upd a clearDisposalCaches (upd a (\<lambda>c. c\<lparr>pendingDisposables := rev (map fst fs)\<rparr>)
      (h0\<lparr>hookLog := hookLog h @ ?vs\<rparr>))"
  let ?r = "throwDisposalErrors (map (\<lambda>(v, e). UserError e) fs)"
  have dc: "disposeCache hk a (disposalCacheEntries (cont h0 a)) h0 = (h2, ?r)"
    unfolding h2_def
  proof (subst disposeCache_quiet)
    show "staleDisposalTasks (cont h0 a) = []" using st by (simp add: c0 adv)
    show "a < length (conts h0)" using a len0 by simp
  qed (simp add: due log0 fs Let_def)
  have c2: "cont h2 a = clearDisposalCaches ((cont h0 a)\<lparr>pendingDisposables := rev (map fst fs)\<rparr>)"
    and len2: "length (conts h2) = length (conts h)" and log2: "hookLog h2 = hookLog h @ ?vs"
    using a len0 by (simp_all add: h2_def cont_upd)
  have leaf2: "childScopes (cont h2 a) = []" "staleDisposalTasks (cont h2 a) = []"
    using ch st by (simp_all add: c2 c0 adv clearDisposalCaches_def)
  define h3 where "h3 = untrack_scope Direct (?r = None) a h2"
  note u = untrack_leaf [of a h2 Direct "?r = None", folded h3_def, OF _ leaf2]
  obtain t where c3: "cont h3 a = (cont h2 a)\<lparr>trackedByParent := t\<rparr>" using u(3) a len2 by auto
  have r: "(?r = None) = (fs = [])"
    by (auto simp: throwDisposalErrors_def split: list.splits)
  have leaf3: "childScopes (cont h3 a) = []" "staleDisposalTasks (cont h3 a) = []"
    using leaf2 by (simp_all add: c3)
  have all: "disposeAll hk rec Direct a h0 = Some (h3, ?r)" for rec
    using ch dc by (simp add: disposeAll_def c0 adv throw_collect h3_def Let_def)
  define h4 where "h4 = upd a (\<lambda>c. c\<lparr>disposePromise := (?r = None)\<rparr>) h3"
  have "dispose hk a h = Some (h4, ?r)"
    using assms(2) all no_retained_leaf [OF leaf3] by (simp add: dispose_def h0_def [symmetric] h4_def)
  moreover have "cont h4 a = (cont h3 a)\<lparr>disposePromise := (?r = None)\<rparr>" "length (conts h4) = length (conts h)"
    "hookLog h4 = hookLog h @ ?vs"
    using u(1,2) a len2 log2 by (simp_all add: h4_def cont_upd)
  ultimately show ?thesis
    using leaf3 a r by (intro exI [of _ h4]) (simp add: quiet_leaf_def c3 c2 clearDisposalCaches_def clearResolutionPlanCaches_def)
qed

end
