(* ===== verification/Container_Lifecycle.thy ===== *)
theory Container_Lifecycle
  imports Disposal_Correctness
begin

text \<open>
  The public operations of \<open>Container\<close> as a step relation on the heap of containers, and the
  invariant of every reachable heap: the parent chains are well founded, registries are keyed by
  the provided token, disposal tasks and child scopes are in order, and the plan caches are
  coherent with the registries.
\<close>

definition heap_ok :: "heap \<Rightarrow> bool" where
  "heap_ok h \<longleftrightarrow> wf_heap h \<and> keyed h \<and> tasks_fresh h \<and> ordered_scopes h \<and>
     lookup_memo.coherent h \<and> multi_memo.coherent h"

inductive api_step :: "di_env \<Rightarrow> heap \<Rightarrow> heap \<Rightarrow> bool" for env where
  create_root: "api_step env h (snd (createRoot h))"
| create_scope: "a < length (conts h) \<Longrightarrow> api_step env h (snd (createRequestScope a h))"
| register_providers: "a < length (conts h) \<Longrightarrow> api_step env h (fst (register env a decls h))"
| override_providers: "a < length (conts h) \<Longrightarrow> api_step env h (fst (override env a decls h))"
| lookup_cached: "a < length (conts h) \<Longrightarrow> api_step env h (snd (lookupProvider h a t))"
| collect_cached: "a < length (conts h) \<Longrightarrow> api_step env h (snd (collectMultiProviders h a t))"
| resolve_token: "a < length (conts h) \<Longrightarrow> resolveWithChain u env k a [] t h = Some (h', r) \<Longrightarrow> api_step env h h'"

inductive_cases api_stepE: "api_step env h h'"

section \<open>Generic preservation\<close>

text \<open>\<open>ordered_scopes\<close> container by container; unfolding it as rewrite rules does not terminate.\<close>

definition ordered_at :: "nat \<Rightarrow> nat \<Rightarrow> nat list \<Rightarrow> bool" where
  "ordered_at n b cs \<longleftrightarrow> (\<forall>x \<in> set cs. b < x \<and> x < n)"

lemma ordered_scopes_at:
  "ordered_scopes h \<longleftrightarrow> (\<forall>b < length (conts h). ordered_at (length (conts h)) b (childScopes (cont h b)))"
  unfolding ordered_scopes_def ordered_at_def by blast

definition parent_below :: "nat \<Rightarrow> nat option \<Rightarrow> bool" where
  "parent_below b p \<longleftrightarrow> (\<forall>q. p = Some q \<longrightarrow> q < b)"

lemma wf_heap_at: "wf_heap h \<longleftrightarrow> (\<forall>b < length (conts h). parent_below b (parent (cont h b)))"
  unfolding wf_heap_def parent_below_def by blast

definition cont_keyed :: "container \<Rightarrow> bool" where
  "cont_keyed c \<longleftrightarrow> (\<forall>t p. js_get (registrations c) t = Some p \<longrightarrow> p_provide p = t) \<and>
     (\<forall>t ps p. js_get (multiRegistrations c) t = Some ps \<longrightarrow> p \<in> set ps \<longrightarrow> p_provide p = t)"

lemma keyed_conts: "keyed h \<longleftrightarrow> (\<forall>b < length (conts h). cont_keyed (cont h b))"
  by (simp add: keyed_def cont_keyed_def)

lemma wf_graph: "wf_heap h \<Longrightarrow> same_graph h h' \<Longrightarrow> wf_heap h'"
  unfolding wf_heap_def same_graph_def graph_part_def by simp

lemma plan_part_eqD:
  "plan_part c' = plan_part c \<Longrightarrow> providerLookupPlanCache c' = providerLookupPlanCache c"
  "plan_part c' = plan_part c \<Longrightarrow> multiProviderPlanCache c' = multiProviderPlanCache c"
  by (simp_all add: plan_part_def)

lemma heap_ok_graph:
  assumes ok: "heap_ok h" and g: "same_graph h h'"
    and p: "\<And>b. b < length (conts h) \<Longrightarrow> plan_part (cont h' b) = plan_part (cont h b)"
    and t: "tasks_fresh h'" "ordered_scopes h'"
  shows "heap_ok h'"
proof -
  have "lookup_memo.coherent h'"
    by (rule lookup_memo.coherent_same_graph [OF _ g]) (use ok plan_part_eqD(1) [OF p] in \<open>auto simp: heap_ok_def\<close>)
  moreover have "multi_memo.coherent h'"
    by (rule multi_memo.coherent_same_graph [OF _ g]) (use ok plan_part_eqD(2) [OF p] in \<open>auto simp: heap_ok_def\<close>)
  ultimately show ?thesis
    using ok t wf_graph [OF _ g] same_graph_keyed [OF g] by (simp add: heap_ok_def)
qed

lemma heap_ok_bumped:
  assumes ok: "heap_ok h" and b: "bumped b h h'" "b < length (conts h)"
    and p: "\<And>x. x < length (conts h) \<Longrightarrow> x \<noteq> b \<Longrightarrow> plan_part (cont h' x) = plan_part (cont h x)"
    and e: "plan_part (cont h' b) = ([], [], [], [])"
    and t: "keyed h'" "tasks_fresh h'" "ordered_scopes h'"
  shows "heap_ok h'"
proof -
  have "lookup_memo.coherent h'"
    using ok e by (intro lookup_memo.coherent_bumped [OF _ b(1)] plan_part_eqD(1) p) (auto simp: heap_ok_def plan_part_def)
  moreover have "multi_memo.coherent h'"
    using ok e by (intro multi_memo.coherent_bumped [OF _ b(1)] plan_part_eqD(2) p) (auto simp: heap_ok_def plan_part_def)
  moreover have "parent (cont h' x) = parent (cont h x)" if "x < length (conts h)" for x
    using b that graph_part_parent unfolding bumped_def by metis
  then have "wf_heap h'"
    using ok b(1) unfolding heap_ok_def wf_heap_def bumped_def by simp
  ultimately show ?thesis using t by (simp add: heap_ok_def)
qed

section \<open>Construction\<close>

lemma heap_ok_alloc:
  assumes ok: "heap_ok h" and c: "c = new_container p rs" and p: "\<And>q. p = Some q \<Longrightarrow> q < length (conts h)"
  shows "heap_ok (h\<lparr>conts := conts h @ [c]\<rparr>)"
proof -
  let ?h = "h\<lparr>conts := conts h @ [c]\<rparr>" and ?n = "length (conts h)"
  have old: "cont ?h b = cont h b" if "b < ?n" for b
    using that by (simp add: cont_def nth_append)
  have new: "cont ?h ?n = new_container p rs" by (simp add: cont_def c)
  have len: "length (conts ?h) = Suc ?n" by simp
  have coh: "lookup_memo.coherent h" "multi_memo.coherent h" using ok by (simp_all add: heap_ok_def)
  have empty: "providerLookupPlanCache (cont ?h ?n) = []" "multiProviderPlanCache (cont ?h ?n) = []"
    unfolding new by (simp_all add: new_container_def)
  have "lookup_memo.coherent ?h"
    by (rule lookup_memo.coherent_alloc [OF coh(1) len old empty(1)])
  moreover have "multi_memo.coherent ?h"
    by (rule multi_memo.coherent_alloc [OF coh(2) len old empty(2)])
  moreover have "wf_heap ?h"
    using ok p by (simp add: heap_ok_def wf_heap_at less_Suc_eq_le)
      (auto simp: le_less old new new_container_def parent_below_def)
  moreover have "keyed ?h"
    using ok by (simp add: heap_ok_def keyed_conts less_Suc_eq_le)
      (auto simp: le_less old new new_container_def cont_keyed_def js_get_def)
  moreover have "ordered_scopes ?h"
  proof -
    have grow: "ordered_at (Suc n) b cs" if "ordered_at n b cs" for n b cs
      using that unfolding ordered_at_def by auto
    have "ordered_at (Suc ?n) b (childScopes (cont ?h b))" if "b < Suc ?n" for b
    proof (cases "b = ?n")
      case True
      then show ?thesis by (simp only: new) (simp add: new_container_def ordered_at_def)
    next
      case False
      with that have b: "b < ?n" by simp
      then show ?thesis using ok old [OF b] grow by (simp add: heap_ok_def ordered_scopes_at)
    qed
    then show ?thesis unfolding ordered_scopes_at len by blast
  qed
  moreover have "tasks_fresh ?h" using ok by (simp add: heap_ok_def tasks_fresh_def)
  ultimately show ?thesis by (simp add: heap_ok_def)
qed

lemma createRoot_ok: "heap_ok h \<Longrightarrow> heap_ok (snd (createRoot h))"
  unfolding createRoot_def snd_conv by (rule heap_ok_alloc [OF _ refl]) simp_all

lemma createRequestScope_ok:
  "heap_ok h \<Longrightarrow> a < length (conts h) \<Longrightarrow> heap_ok (snd (createRequestScope a h))"
  unfolding createRequestScope_def by (cases "isDisposedInHierarchy h a") (auto intro: heap_ok_alloc)

section \<open>Registration\<close>

lemma add_registration_simps [simp]:
  "parent (add_registration p c) = parent c" "childScopes (add_registration p c) = childScopes c"
  "graphRevision (add_registration p c) = Suc (graphRevision c)"
  "plan_part (add_registration p c) = ([], [], [], [])"
  by (simp_all add: add_registration_def advanceGraphRevision_def clearResolutionPlanCaches_def plan_part_def
      split: option.splits)


lemma add_registration_keyed: "cont_keyed c \<Longrightarrow> cont_keyed (add_registration p c)"
  by (auto simp: cont_keyed_def add_registration_def advanceGraphRevision_def clearResolutionPlanCaches_def
      js_get_set split: option.splits if_splits)

lemma keyed_upd:
  "keyed h \<Longrightarrow> a < length (conts h) \<Longrightarrow> (\<And>c. cont_keyed c \<Longrightarrow> cont_keyed (f c)) \<Longrightarrow> keyed (upd a f h)"
  by (simp add: keyed_conts cont_upd)

lemma heap_ok_registry_upd:
  assumes ok: "heap_ok h" and a: "a < length (conts h)"
    and f: "parent (f (cont h a)) = parent (cont h a)" "childScopes (f (cont h a)) = childScopes (cont h a)"
      "graphRevision (f (cont h a)) = Suc (graphRevision (cont h a))" "plan_part (f (cont h a)) = ([], [], [], [])"
      "cont_keyed (cont h a) \<Longrightarrow> cont_keyed (f (cont h a))"
  shows "heap_ok (upd a f h)"
proof (rule heap_ok_bumped [OF ok _ a])
  show "bumped a h (upd a f h)" using a f by (simp add: bumped_def cont_upd)
  show "plan_part (cont (upd a f h) x) = plan_part (cont h x)" if "x \<noteq> a" for x
    using a that by (simp add: cont_upd)
  show "plan_part (cont (upd a f h) a) = ([], [], [], [])" using a f(4) by (simp add: cont_upd)
  show "keyed (upd a f h)" using ok a f(5) by (simp add: heap_ok_def keyed_conts cont_upd)
  show "tasks_fresh (upd a f h)" using ok by (simp add: heap_ok_def tasks_fresh_def upd_def)
  show "ordered_scopes (upd a f h)" using ok a f(2) by (simp add: heap_ok_def ordered_scopes_at cont_upd)
qed

lemma heap_ok_fresh: "heap_ok h \<Longrightarrow> heap_ok (snd (fresh h))"
  by (rule heap_ok_graph)
    (auto simp: heap_ok_def fresh_def same_graph_def cont_def tasks_fresh_def ordered_scopes_at less_Suc_eq)

lemma register_one_ok:
  assumes "heap_ok h" and "a < length (conts h)"
  shows "heap_ok (fst (register_one env a d h)) \<and> length (conts (fst (register_one env a d h))) = length (conts h)"
proof -
  have "heap_ok (upd a (add_registration p) (snd (fresh h)))" for p
    using assms by (intro heap_ok_registry_upd heap_ok_fresh) (auto intro: add_registration_keyed)
  then show ?thesis
    using assms by (auto simp: register_one_def fresh_def Let_def split: sum.splits option.splits)
qed

lemma register_ok:
  assumes "heap_ok h" and "a < length (conts h)"
  shows "heap_ok (fst (register env a ds h))"
proof -
  have "heap_ok (fst (run_until_throw (register_one env a) ds h))"
    using assms
  proof (induction ds arbitrary: h)
    case (Cons d ds)
    then show ?case
      using register_one_ok [OF Cons.prems, of env d]
      by (cases "register_one env a d h") (auto split: option.splits)
  qed simp
  then show ?thesis using assms(1) by (simp add: register_def)
qed

section \<open>Overrides\<close>

lemma pruned_ok:
  assumes ok: "heap_ok h" and p: "pruned env tok a B h h'"
  shows "heap_ok h'"
proof (rule heap_ok_graph [OF ok pruned_graph [OF p]])
  have shape: "\<exists>s. cont h' x = (if x \<in> B then prune env h x tok (cont h x) else cont h x)
      \<lparr>staleDisposalTasks := staleDisposalTasks (cont h x) @ s\<rparr>" for x
    using p unfolding pruned_def by blast
  show "plan_part (cont h' b) = plan_part (cont h b)" for b
    using shape [of b] by (auto simp: prune_def plan_part_def)
  have "childScopes (cont h' b) = childScopes (cont h b)" for b
    using shape [of b] by (auto simp: prune_def)
  moreover have "length (conts h') = length (conts h)" and "tasks_fresh h'"
    using p unfolding pruned_def stale_growth_def by simp_all
  ultimately show "tasks_fresh h'" "ordered_scopes h'"
    using ok by (simp_all add: heap_ok_def ordered_scopes_at)
qed

lemma replace_registration_simps [simp]:
  "graphRevision (replace_registration t m ps c) = Suc (graphRevision c)"
  "plan_part (replace_registration t m ps c) = ([], [], [], [])"
  by (simp_all add: replace_registration_def advanceGraphRevision_def clearResolutionPlanCaches_def plan_part_def Let_def
      split: list.splits)

lemma replace_registration_keyed:
  "cont_keyed c \<Longrightarrow> \<forall>p \<in> set ps. p_provide p = t \<Longrightarrow> cont_keyed (replace_registration t m ps c)"
  by (auto simp: cont_keyed_def replace_registration_def advanceGraphRevision_def clearResolutionPlanCaches_def
      Let_def js_get_set js_get_delete split: list.splits if_splits)

lemma apply_override_ok:
  assumes ok: "heap_ok h" and a: "a < length (conts h)" and nps: "\<forall>np \<in> set nps. np_provide np = t"
  shows "heap_ok (apply_override env a (t, m, nps) h)"
proof -
  have fr: "tasks_fresh h" using ok by (simp add: heap_ok_def)
  from a fr obtain h1 h2 ps where p: "pruned env t a (set (subtree h a)) h h1" and ps: "map p_np ps = nps"
    and h2: "conts h2 = conts h1" "tasks h2 = tasks h1" "nextRef h1 \<le> nextRef h2"
    and r: "apply_override env a (t, m, nps) h = upd a (replace_registration t m ps) h2"
    by (rule apply_override_shape [where nps = nps and multi = m])
  have ok1: "heap_ok h1" using pruned_ok [OF ok p] .
  have c2: "cont h2 b = cont h1 b" for b using h2(1) by (simp add: cont_def)
  have ok2: "heap_ok h2"
  proof (rule heap_ok_graph [OF ok1])
    show "same_graph h1 h2" using h2(1) c2 by (simp add: same_graph_def)
    show "tasks_fresh h2" using ok1 h2 by (auto simp: heap_ok_def tasks_fresh_def)
    show "ordered_scopes h2" using ok1 h2(1) c2 by (simp add: heap_ok_def ordered_scopes_at)
  qed (simp add: c2)
  have prov: "\<forall>p \<in> set ps. p_provide p = t" using ps nps by auto
  have "length (conts h2) = length (conts h)"
    using p h2(1) unfolding pruned_def stale_growth_def by simp
  then show ?thesis
    unfolding r using a ok2 prov by (intro heap_ok_registry_upd) (auto intro: replace_registration_keyed)
qed

lemma override_ok:
  assumes ok: "heap_ok h" and a: "a < length (conts h)"
  shows "heap_ok (fst (override env a ds h))"
proof (cases "plan_overrides env a ds h")
  case (Inl e)
  with ok show ?thesis by (simp add: override_def)
next
  case (Inr plans)
  obtain nps where "res_map (normalizeProvider env) ds = Inr nps"
    and rel: "list_all2 (\<lambda>x y. planned_override x = Inr y) (group_by_token nps []) plans"
    using plan_overrides_group [OF Inr] .
  have js: "js_ok (group_by_token nps [])" by (rule group_keys) simp
  have "\<forall>np \<in> set qs. np_provide np = t" if y: "(t, m, qs) \<in> set plans" for t m qs
  proof -
    obtain t0 q0 where x: "(t0, q0) \<in> set (group_by_token nps [])" "planned_override (t0, q0) = Inr (t, m, qs)"
      using list_all2_members(1) [OF rel y] by auto
    then have "js_get (group_by_token nps []) t = Some qs"
      using planned_override_Inr [OF x(2)] js_in_get [OF js x(1)] by simp
    then have "qs = filter (\<lambda>np. np_provide np = t) nps"
      by (auto simp: group_members_all split: list.splits)
    then show ?thesis by simp
  qed
  then have "heap_ok (fold (apply_override env a) plans h) \<and> length (conts (fold (apply_override env a) plans h)) = length (conts h)"
  proof (induction plans rule: rev_induct)
    case Nil
    then show ?case using ok by simp
  next
    case (snoc y plans)
    obtain t m qs where y: "y = (t, m, qs)" by (cases y)
    have "heap_ok (fold (apply_override env a) plans h) \<and>
      length (conts (fold (apply_override env a) plans h)) = length (conts h)"
      using snoc.prems by (intro snoc.IH) auto
    then have IH: "heap_ok (fold (apply_override env a) plans h)"
      "length (conts (fold (apply_override env a) plans h)) = length (conts h)"
      by blast+
    then have "tasks_fresh (fold (apply_override env a) plans h)" by (simp add: heap_ok_def)
    moreover have "\<forall>np \<in> set qs. np_provide np = t" using snoc.prems [of t m qs] y by simp
    ultimately show ?case
      using apply_override_ok [OF IH(1), of a qs t env m] apply_override_keeps(1) [where env = env] IH a y by simp
  qed
  then show ?thesis using Inr by (simp add: override_def)
qed

section \<open>Cached lookups and resolution\<close>

lemma lookupProvider_tasks:
  "tasks (snd (lookupProvider h a t)) = tasks h \<and> nextRef (snd (lookupProvider h a t)) = nextRef h"
proof -
  have "tasks (snd (lookupProvider_in h as t)) = tasks h \<and> nextRef (snd (lookupProvider_in h as t)) = nextRef h" for as
    by (induction as) (auto simp: upd_def Let_def split: option.splits prod.splits)
  then show ?thesis by (simp add: lookupProvider_def)
qed

lemma collectMultiProviders_tasks:
  "tasks (snd (collectMultiProviders h a t)) = tasks h \<and> nextRef (snd (collectMultiProviders h a t)) = nextRef h"
proof -
  have "tasks (snd (collectMultiProviders_in h as t)) = tasks h \<and>
      nextRef (snd (collectMultiProviders_in h as t)) = nextRef h" for as
    by (induction as) (auto simp: upd_def Let_def split: option.splits prod.splits)
  then show ?thesis by (simp add: collectMultiProviders_def)
qed

lemma lookupProvider_ok:
  assumes ok: "heap_ok h" and a: "a < length (conts h)"
  shows "heap_ok (snd (lookupProvider h a t))"
proof -
  let ?h = "snd (lookupProvider h a t)"
  have l: "only_lookup_cache h ?h" "lookup_memo.coherent ?h"
    using lookupProvider_correct [OF _ a, of t] ok by (simp_all add: heap_ok_def)
  note g = only_lookup_cache_same_graph [OF l(1)]
  have same: "multiProviderPlanCache (cont ?h b) = multiProviderPlanCache (cont h b) \<and>
      childScopes (cont ?h b) = childScopes (cont h b)" for b
  proof -
    obtain m where "cont ?h b = (cont h b)\<lparr>providerLookupPlanCache := m\<rparr>"
      using l(1) unfolding only_lookup_cache_def by blast
    then show ?thesis by simp
  qed
  have "multi_memo.coherent h" using ok by (simp add: heap_ok_def)
  then have "multi_memo.coherent ?h"
    by (rule multi_memo.coherent_same_graph [OF _ g]) (simp add: same)
  moreover have "tasks_fresh ?h" using ok lookupProvider_tasks [of h a t] by (simp add: heap_ok_def tasks_fresh_def)
  moreover have "ordered_scopes ?h"
    using ok l(1) same by (simp add: heap_ok_def ordered_scopes_at only_lookup_cache_def)
  ultimately show ?thesis
    using ok l(2) wf_graph [OF _ g] same_graph_keyed [OF g] by (simp add: heap_ok_def)
qed

lemma collectMultiProviders_ok:
  assumes ok: "heap_ok h" and a: "a < length (conts h)"
  shows "heap_ok (snd (collectMultiProviders h a t))"
proof -
  let ?h = "snd (collectMultiProviders h a t)"
  have l: "only_multi_cache h ?h" "multi_memo.coherent ?h"
    using collectMultiProviders_correct [OF _ a, of t] ok by (simp_all add: heap_ok_def)
  note g = only_multi_cache_same_graph [OF l(1)]
  have same: "providerLookupPlanCache (cont ?h b) = providerLookupPlanCache (cont h b) \<and>
      childScopes (cont ?h b) = childScopes (cont h b)" for b
  proof -
    obtain m where "cont ?h b = (cont h b)\<lparr>multiProviderPlanCache := m\<rparr>"
      using l(1) unfolding only_multi_cache_def by blast
    then show ?thesis by simp
  qed
  have "lookup_memo.coherent h" using ok by (simp add: heap_ok_def)
  then have "lookup_memo.coherent ?h"
    by (rule lookup_memo.coherent_same_graph [OF _ g]) (simp add: same)
  moreover have "tasks_fresh ?h" using ok collectMultiProviders_tasks [of h a t] by (simp add: heap_ok_def tasks_fresh_def)
  moreover have "ordered_scopes ?h"
    using ok l(1) same by (simp add: heap_ok_def ordered_scopes_at only_multi_cache_def)
  ultimately show ?thesis
    using ok l(2) wf_graph [OF _ g] same_graph_keyed [OF g] by (simp add: heap_ok_def)
qed

lemma ext_ok:
  assumes ok: "heap_ok h" and e: "ext L C h h'"
  shows "heap_ok h'"
proof (rule heap_ok_graph [OF ok ext_same_graph [OF e]])
  show "plan_part (cont h' b) = plan_part (cont h b)" if "b < length (conts h)" for b
    using cont_ext_plan [OF ext_cont [OF e that]] .
  have "tasks h' = tasks h" "nextRef h \<le> nextRef h'" using e unfolding ext_def by blast+
  then show "tasks_fresh h'" using ok unfolding heap_ok_def tasks_fresh_def by fastforce
  have len: "length (conts h') = length (conts h)" using e by simp
  have "ordered_at (length (conts h)) b (childScopes (cont h' b))" if b: "b < length (conts h)" for b
  proof -
    have "ordered_at (length (conts h)) b (childScopes (cont h b))"
      using ok b by (simp add: heap_ok_def ordered_scopes_at)
    then show ?thesis using ext_children [OF e b] unfolding ordered_at_def by blast
  qed
  then show "ordered_scopes h'" by (simp add: ordered_scopes_at len)
qed

lemma api_step_ok: "api_step env h h' \<Longrightarrow> heap_ok h \<Longrightarrow> heap_ok h'"
proof (induction rule: api_step.induct)
  case (resolve_token a h u k t h' r)
  from resolve_token.prems have "keyed h" by (simp add: heap_ok_def)
  then have "ext (set (lineage h a)) (set []) h h'"
    using goodD [OF resolveWithChain_good resolve_token.hyps(2,1)] by blast
  then show ?case using ext_ok resolve_token.prems by blast
qed (simp_all add: createRoot_ok createRequestScope_ok register_ok override_ok lookupProvider_ok collectMultiProviders_ok)

lemma heap_ok_empty: "heap_ok empty_heap"
  by (simp add: heap_ok_def empty_heap_def wf_heap_def keyed_def tasks_fresh_def ordered_scopes_def js_get_def
      lookup_memo.coherent_def multi_memo.coherent_def)

lemma reachable_ok: "(api_step env)\<^sup>*\<^sup>* empty_heap h \<Longrightarrow> heap_ok h"
  by (induction rule: rtranclp_induct) (auto intro: heap_ok_empty api_step_ok)

end
