(* ===== verification/Container_Properties.thy ===== *)
theory Container_Properties
  imports Container_Lifecycle
begin

text \<open>The properties of \<open>Container\<close> that its callers rely on, over reachable heaps.\<close>

section \<open>Samples\<close>

definition sample_value :: jsv where
  "sample_value = JObj [(''provide'', JStr ''cfg''), (''useValue'', JNum 5)]"

definition sample_h1 :: heap where
  "sample_h1 = snd (createRoot empty_heap)"

definition sample_h2 :: heap where
  "sample_h2 = fst (register sample_env 0 [sample_value, JFun 1, sample_factory] sample_h1)"

text \<open>A root with three providers and one request scope.\<close>

definition sample_h3 :: heap where
  "sample_h3 = snd (createRequestScope 0 sample_h2)"

definition sample_user :: user_code where
  "sample_user = \<lparr>construct_throws = (\<lambda>_ _ _. None), call_factory = (\<lambda>_ _ r. Inr (JRef r))\<rparr>"


lemma sample_reachable:
  "(api_step sample_env)\<^sup>*\<^sup>* empty_heap sample_h1"
  "(api_step sample_env)\<^sup>*\<^sup>* empty_heap sample_h2"
  "(api_step sample_env)\<^sup>*\<^sup>* empty_heap sample_h3"
proof -
  show r1: "(api_step sample_env)\<^sup>*\<^sup>* empty_heap sample_h1"
    unfolding sample_h1_def by (rule r_into_rtranclp) (rule create_root)
  have "0 < length (conts sample_h1)" by code_simp
  then have "api_step sample_env sample_h1 sample_h2"
    unfolding sample_h2_def by (rule register_providers)
  with r1 show r2: "(api_step sample_env)\<^sup>*\<^sup>* empty_heap sample_h2" by (rule rtranclp.rtrancl_into_rtrancl)
  have "0 < length (conts sample_h2)" by code_simp
  then have "api_step sample_env sample_h2 sample_h3"
    unfolding sample_h3_def by (rule create_scope)
  with r2 show "(api_step sample_env)\<^sup>*\<^sup>* empty_heap sample_h3" by (rule rtranclp.rtrancl_into_rtrancl)
qed

lemma sample_size: "length (conts sample_h3) = 2" "length (conts sample_h2) = 1"
  by code_simp+

section \<open>Resolution\<close>



text \<open>
  C2. Resolution is isolated: it leaves every container outside the parent chain of the resolving
  scope untouched (sibling request scopes in particular), changes no registry and no revision, and
  never drops or replaces an instance that is already cached.
\<close>

theorem resolution_isolated:
  assumes "(api_step env)\<^sup>*\<^sup>* empty_heap h" and "a < length (conts h)"
    and "resolveWithChain u env k a [] t h = Some (h', r)" and "b < length (conts h)"
  shows "graph_part (cont h' b) = graph_part (cont h b) \<and>
    (b \<notin> set (lineage h a) \<longrightarrow> cont h' b = cont h b) \<and>
    (js_get (requestCache (cont h b)) s = Some pr \<longrightarrow> js_get (requestCache (cont h' b)) s = Some pr) \<and>
    (js_get (singletonCache (cont h b)) s = Some pr \<longrightarrow> js_get (singletonCache (cont h' b)) s = Some pr) \<and>
    (js_get (multiRequestCache (cont h b)) p = Some pr \<longrightarrow> js_get (multiRequestCache (cont h' b)) p = Some pr) \<and>
    (js_get (multiSingletonCache (cont h b)) p = Some pr \<longrightarrow> js_get (multiSingletonCache (cont h' b)) p = Some pr)"
proof -
  have "keyed h" using reachable_ok [OF assms(1)] by (simp add: heap_ok_def)
  then have e: "ext (set (lineage h a)) (set []) h h'"
    using goodD [OF resolveWithChain_good assms(3,2)] by blast
  show ?thesis
    using ext_cont [OF e assms(4), unfolded cont_ext_def cache_le_def] ext_outside [OF e assms(4)] by blast
qed

theorem resolution_isolated_witness:
  "\<exists>h'. resolveWithChain sample_user sample_env 9 0 [] (StrTok ''db'') sample_h3 = Some (h', Inr (JRef 6)) \<and>
     cont h' 1 = cont sample_h3 1"
proof -
  have r: "map_option snd (resolveWithChain sample_user sample_env 9 0 [] (StrTok ''db'') sample_h3) = Some (Inr (JRef 6))"
    by code_simp
  then obtain h' where h': "resolveWithChain sample_user sample_env 9 0 [] (StrTok ''db'') sample_h3 = Some (h', Inr (JRef 6))"
    by (auto simp: map_option_case split: option.splits)
  have "1 \<notin> set (lineage sample_h3 0)" by code_simp
  with resolution_isolated [OF sample_reachable(3) _ h', of 1] have "cont h' 1 = cont sample_h3 1"
    by (simp add: sample_size)
  with h' show ?thesis by blast
qed

section \<open>Singletons\<close>













section \<open>Plan caches\<close>



section \<open>Overrides\<close>


text \<open>The sample heap after \<open>db\<close> has been resolved.\<close>

definition sample_h4 :: heap where
  "sample_h4 = fst (the (resolveWithChain sample_user sample_env 9 0 [] (StrTok ''db'') sample_h3))"

lemma sample_h4: "resolveWithChain sample_user sample_env 9 0 [] (StrTok ''db'') sample_h3 = Some (sample_h4, Inr (JRef 6))"
proof -
  have "map_option snd (resolveWithChain sample_user sample_env 9 0 [] (StrTok ''db'') sample_h3) = Some (Inr (JRef 6))"
    by code_simp
  then show ?thesis by (auto simp: sample_h4_def map_option_case split: option.splits)
qed

lemma sample_h4_reachable: "(api_step sample_env)\<^sup>*\<^sup>* empty_heap sample_h4" "length (conts sample_h4) = 2"
proof -
  have "api_step sample_env sample_h3 sample_h4"
    using resolve_token [OF _ sample_h4] by (simp add: sample_size)
  with sample_reachable(3) show "(api_step sample_env)\<^sup>*\<^sup>* empty_heap sample_h4" by (rule rtranclp.rtrancl_into_rtrancl)
  show "length (conts sample_h4) = 2" by code_simp
qed


text \<open>
  C6. Batch atomicity of \<open>override\<close>: when any declaration of the batch is invalid, mixes single and
  multi replacements of a token, repeats a single replacement or introduces a singleton on a request
  scope, the call throws and the heap (registries, caches, disposal tasks) is exactly as before;
  otherwise every declaration of the batch is in force afterwards: a single one is the provider its
  token resolves to and hides every contribution of the token, and the contributions of a multi token
  are exactly those of the batch, in their order.
\<close>

theorem override_atomic:
  assumes "(api_step env)\<^sup>*\<^sup>* empty_heap h" and "a < length (conts h)" and "override env a decls h = (h', r)"
  shows "case r of
      Some e \<Rightarrow> h' = h
    | None \<Rightarrow> \<exists>nps. map (normalizeProvider env) decls = map Inr nps \<and>
        (\<forall>np \<in> set nps.
           if np_multi np
           then map p_np (multiPlan h' a (np_provide np)) = filter (\<lambda>q. np_provide q = np_provide np) nps
           else map_option p_np (lookupPlan h' a (np_provide np)) = Some np \<and> multiPlan h' a (np_provide np) = [])"
proof (cases r)
  case (Some e)
  with assms(3) show ?thesis by (auto simp: override_def split: sum.splits)
next
  case None
  have fr: "tasks_fresh h" using reachable_ok [OF assms(1)] by (simp add: heap_ok_def)
  obtain nps where nps: "res_map (normalizeProvider env) decls = Inr nps"
    using assms(3) None by (auto simp: override_def plan_overrides_def split: sum.splits if_splits)
  have rel: "list_all2 (\<lambda>d np. normalizeProvider env d = Inr np) decls nps"
    using nps by (simp add: res_laws)
  then have "map (normalizeProvider env) decls = map Inr nps"
    by (simp add: list_all2_conv_all_nth list_eq_iff_nth_eq)
  moreover have "if np_multi np
      then map p_np (multiPlan h' a (np_provide np)) = filter (\<lambda>q. np_provide q = np_provide np) nps
      else map_option p_np (lookupPlan h' a (np_provide np)) = Some np \<and> multiPlan h' a (np_provide np) = []"
    if np: "np \<in> set nps" for np
  proof -
    obtain d where d: "d \<in> set decls" "normalizeProvider env d = Inr np"
      using list_all2_members(1) [OF rel np] by blast
    have h: "holds_override (np_provide np) (np_multi np) (filter (\<lambda>q. np_provide q = np_provide np) nps) (cont h' a)"
      using override_success [OF assms(3) [unfolded None] assms(2) fr d] nps by auto
    obtain as where as: "lineage h' a = a # as" using lineage_Cons by blast
    have sole: "q = np" if "[q] = filter (\<lambda>q. np_provide q = np_provide np) nps" for q
    proof -
      have "np \<in> set (filter (\<lambda>q. np_provide q = np_provide np) nps)" using np by simp
      then show ?thesis unfolding that [symmetric] by simp
    qed
    with h show ?thesis
      by (auto simp: holds_override_def lookupPlan_def multiPlan_def as Let_def split: if_splits)
  qed
  ultimately show ?thesis using None by auto
qed

theorem override_atomic_witness:
  "snd (override sample_env 0 [sample_value, sample_value] sample_h4) = Some (DuplicateProvider (StrTok ''cfg'')) \<and>
   fst (override sample_env 0 [sample_value, sample_value] sample_h4) = sample_h4"
proof -
  have e: "snd (override sample_env 0 [sample_value, sample_value] sample_h4) = Some (DuplicateProvider (StrTok ''cfg''))"
    by code_simp
  then show ?thesis
    using override_atomic [OF sample_h4_reachable(1), of 0 "[sample_value, sample_value]"] sample_h4_reachable(2)
    by (cases "override sample_env 0 [sample_value, sample_value] sample_h4") auto
qed

section \<open>Disposal\<close>





end
