(* ===== verification/Module_Graph.thy ===== *)
theory Module_Graph
  imports Container_Analysis
begin

text \<open>
  \<open>packages/runtime/src/module-graph.ts\<close>: compilation of the module graph (imports in depth-first
  order, replacements, circular imports) and the visibility checks.

  A module is its class.  \<open>getRuntimeModuleMetadata\<close>, which reads the metadata that \<open>@Module\<close>
  stored, is the parameter \<open>meta\<close>; the DI metadata stores are those of \<open>di_env\<close>.  Middleware is
  carried along by the code without being looked at, and left out.  Error texts are left out too:
  an error is its class and the modules and tokens it names.
\<close>

record raw_module =
  rm_global :: "bool option"
  rm_imports :: "nat list option"
  rm_providers :: "jsv list option"
  rm_controllers :: "nat list option"
  rm_exports :: "token list option"

record module_def =
  md_global :: bool
  md_imports :: "nat list"
  md_providers :: "jsv list"
  md_controllers :: "nat list"
  md_exports :: "token list"

text \<open>The \<open>Set\<close>s of tokens, in insertion order.\<close>

record compiled_module =
  cm_type :: nat
  cm_definition :: module_def
  accessibleTokens :: "token list"
  exportedTokens :: "token list"
  importedExportedTokens :: "token list"
  providerTokens :: "token list"

datatype graph_error =
    CircularReplacement "nat list"
  | CircularImport nat
  | ImportNotCompiled nat
  | InvalidModuleProvider provider_error
  | MissingInjectionMetadata nat nat nat
  | ProviderVisibility nat token token
  | ControllerVisibility nat nat token
  | ExportVisibility nat token

definition add_tokens :: "token list \<Rightarrow> token list \<Rightarrow> token list" where
  "add_tokens ts acc = fold (\<lambda>t acc. if t \<in> set acc then acc else acc @ [t]) ts acc"

definition providerToken :: "di_env \<Rightarrow> jsv \<Rightarrow> token" where
  "providerToken env p =
     norm_tok env (case p of
        JFun c \<Rightarrow> ClassTok c
      | _ \<Rightarrow> (case as_token (env_rt env) (js_field p ''provide'') of Some t \<Rightarrow> t | None \<Rightarrow> StrTok []))"

section \<open>Module definitions and replacements\<close>

definition normalizeModuleDefinition :: "di_env \<Rightarrow> raw_module option \<Rightarrow> graph_error + module_def" where
  "normalizeModuleDefinition env raw =
     (case raw of
        None \<Rightarrow> Inr \<lparr>md_global = False, md_imports = [], md_providers = [], md_controllers = [], md_exports = []\<rparr>
      | Some r \<Rightarrow>
          (case validateProviderInputs env (case rm_providers r of None \<Rightarrow> [] | Some ps \<Rightarrow> ps) of
             Inl e \<Rightarrow> Inl (InvalidModuleProvider e)
           | Inr ps \<Rightarrow>
               Inr \<lparr>md_global = (rm_global r = Some True),
                    md_imports = (case rm_imports r of None \<Rightarrow> [] | Some ms \<Rightarrow> ms),
                    md_providers = ps,
                    md_controllers = (case rm_controllers r of None \<Rightarrow> [] | Some cs \<Rightarrow> cs),
                    md_exports = map (norm_tok env) (case rm_exports r of None \<Rightarrow> [] | Some ts \<Rightarrow> ts)\<rparr>))"

text \<open>\<open>path\<close> holds the modules visited so far, oldest first.\<close>

function resolveReplacementMetadataSource :: "(nat, nat) js_map \<Rightarrow> nat \<Rightarrow> nat list \<Rightarrow> graph_error + nat" where
  "resolveReplacementMetadataSource repl m path =
     (case js_get repl m of
        None \<Rightarrow> Inr m
      | Some r \<Rightarrow>
          if m \<in> set path then Inl (CircularReplacement (dropWhile (\<lambda>x. x \<noteq> m) path @ [m]))
          else resolveReplacementMetadataSource repl r (path @ [m]))"
  by pat_completeness auto
termination
proof (relation "measure (\<lambda>(repl, m, path). card (fst ` set repl - set path))")
  fix repl :: "(nat, nat) js_map" and m path r
  assume "js_get repl m = Some r" "m \<notin> set path"
  then have "fst ` set repl - set (path @ [m]) \<subset> fst ` set repl - set path"
    using js_get_in [of repl m r] by force
  then show "((repl, r, path @ [m]), repl, m, path) \<in> measure (\<lambda>(repl, m, path). card (fst ` set repl - set path))"
    by (simp add: psubset_card_mono)
qed simp

declare resolveReplacementMetadataSource.simps [simp del]

definition module_definition ::
  "di_env \<Rightarrow> (nat \<Rightarrow> raw_module option) \<Rightarrow> (nat, nat) js_map \<Rightarrow> nat \<Rightarrow> graph_error + module_def" where
  "module_definition env meta repl m =
     (case resolveReplacementMetadataSource repl m [] of
        Inl e \<Rightarrow> Inl e
      | Inr src \<Rightarrow> normalizeModuleDefinition env (meta src))"

section \<open>compileModule\<close>

text \<open>\<open>ordered\<close> stands for the map \<open>compiled\<close> too: the code always adds to both.  \<open>visiting\<close> is the
  current import path.\<close>

fun compile_imports ::
  "(nat \<Rightarrow> compiled_module list \<Rightarrow> (graph_error + compiled_module list) option) \<Rightarrow> nat list \<Rightarrow>
     compiled_module list \<Rightarrow> (graph_error + compiled_module list) option" where
  "compile_imports rec [] ordered = Some (Inr ordered)"
| "compile_imports rec (m # ms) ordered =
     (case rec m ordered of
        None \<Rightarrow> None
      | Some (Inl e) \<Rightarrow> Some (Inl e)
      | Some (Inr ordered') \<Rightarrow> compile_imports rec ms ordered')"

definition new_compiled :: "di_env \<Rightarrow> nat \<Rightarrow> module_def \<Rightarrow> compiled_module" where
  "new_compiled env m d =
     \<lparr>cm_type = m, cm_definition = d, accessibleTokens = [], exportedTokens = [],
      importedExportedTokens = [], providerTokens = add_tokens (map (providerToken env) (md_providers d)) []\<rparr>"

fun compileModule ::
  "di_env \<Rightarrow> (nat \<Rightarrow> raw_module option) \<Rightarrow> (nat, nat) js_map \<Rightarrow> nat \<Rightarrow> nat list \<Rightarrow> nat \<Rightarrow>
     compiled_module list \<Rightarrow> (graph_error + compiled_module list) option" where
  "compileModule env meta repl 0 visiting m ordered = None"
| "compileModule env meta repl (Suc k) visiting m ordered =
     (if m \<in> cm_type ` set ordered then Some (Inr ordered)
      else if m \<in> set visiting then Some (Inl (CircularImport m))
      else (case module_definition env meta repl m of
              Inl e \<Rightarrow> Some (Inl e)
            | Inr d \<Rightarrow>
                (case compile_imports (compileModule env meta repl k (m # visiting)) (md_imports d) ordered of
                   None \<Rightarrow> None
                 | Some (Inl e) \<Rightarrow> Some (Inl e)
                 | Some (Inr ordered') \<Rightarrow> Some (Inr (ordered' @ [new_compiled env m d])))))"

section \<open>Injection metadata\<close>

definition own_inject :: "di_env \<Rightarrow> nat \<Rightarrow> jsv" where
  "own_inject env c = opt_inject (js_get (env_di env) c)"

definition requiredConstructorParameters :: "di_env \<Rightarrow> nat \<Rightarrow> nat" where
  "requiredConstructorParameters env c = (if own_inject env c \<noteq> JUndef then 0 else arity (env_rt env) c)"

definition validateClassInjectionMetadata :: "di_env \<Rightarrow> nat \<Rightarrow> inject_token list \<Rightarrow> graph_error option" where
  "validateClassInjectionMetadata env c inj_tokens =
     (let required = requiredConstructorParameters env c
      in if required = 0 \<or> required \<le> length inj_tokens then None
         else Some (MissingInjectionMetadata c required (length inj_tokens)))"

definition class_inject :: "di_env \<Rightarrow> jsv \<Rightarrow> nat \<Rightarrow> inject_token list" where
  "class_inject env p c =
     (if nullish (js_field p ''inject'') then metadata_entries env c
      else inject_entries (env_rt env) (js_field p ''inject''))"

definition validateProviderInjectionMetadata :: "di_env \<Rightarrow> jsv \<Rightarrow> graph_error option" where
  "validateProviderInjectionMetadata env p =
     (case p of
        JFun c \<Rightarrow> validateClassInjectionMetadata env c (metadata_entries env c)
      | _ \<Rightarrow> if js_in ''useClass'' p
             then (case js_field p ''useClass'' of
                     JFun c \<Rightarrow> validateClassInjectionMetadata env c (class_inject env p c)
                   | _ \<Rightarrow> None)
             else None)"

definition validateControllerInjectionMetadata :: "di_env \<Rightarrow> nat \<Rightarrow> graph_error option" where
  "validateControllerInjectionMetadata env c = validateClassInjectionMetadata env c (metadata_entries env c)"

definition providerDependencies :: "di_env \<Rightarrow> jsv \<Rightarrow> inject_token list" where
  "providerDependencies env p =
     (case p of
        JFun c \<Rightarrow> metadata_entries env c
      | _ \<Rightarrow>
          if js_in ''useFactory'' p
          then (if nullish (js_field p ''inject'') then []
                else inject_entries (env_rt env) (js_field p ''inject''))
          else if js_in ''useClass'' p
          then (case js_field p ''useClass'' of JFun c \<Rightarrow> class_inject env p c | _ \<Rightarrow> [])
          else if js_in ''useExisting'' p
          then (case as_token (env_rt env) (js_field p ''useExisting'') of Some t \<Rightarrow> [PlainTok t] | None \<Rightarrow> [])
          else [])"

definition controllerDependencies :: "di_env \<Rightarrow> nat \<Rightarrow> inject_token list" where
  "controllerDependencies env c = metadata_entries env c"

section \<open>Visibility\<close>

definition createRuntimeTokenSet :: "di_env \<Rightarrow> jsv list \<Rightarrow> token list" where
  "createRuntimeTokenSet env ps = add_tokens (map (providerToken env) ps) []"

definition mergeRuntimeTokenSets :: "di_env \<Rightarrow> jsv list \<Rightarrow> token list \<Rightarrow> token list" where
  "mergeRuntimeTokenSets env ps vs = add_tokens (map (norm_tok env) vs) (createRuntimeTokenSet env ps)"

fun find_module :: "compiled_module list \<Rightarrow> nat \<Rightarrow> compiled_module option" where
  "find_module [] m = None"
| "find_module (c # cs) m = (if cm_type c = m then Some c else find_module cs m)"

definition resolveImportedModules ::
  "compiled_module list \<Rightarrow> compiled_module \<Rightarrow> graph_error + compiled_module list" where
  "resolveImportedModules mods c =
     res_map (\<lambda>m. case find_module mods m of None \<Rightarrow> Inl (ImportNotCompiled m) | Some i \<Rightarrow> Inr i)
       (md_imports (cm_definition c))"

definition createImportedExportedTokenSet :: "compiled_module list \<Rightarrow> token list" where
  "createImportedExportedTokenSet imported = fold (\<lambda>i. add_tokens (exportedTokens i)) imported []"

definition createAccessibleTokenSet :: "token list \<Rightarrow> token list \<Rightarrow> token list \<Rightarrow> token list \<Rightarrow> token list" where
  "createAccessibleTokenSet runtime own imported global =
     add_tokens global (add_tokens imported (add_tokens own (add_tokens runtime [])))"

definition memoizeAccessibleTokenSet ::
  "compiled_module \<Rightarrow> compiled_module list \<Rightarrow> token list \<Rightarrow> token list \<Rightarrow> compiled_module" where
  "memoizeAccessibleTokenSet c imported runtime global =
     (let ie = createImportedExportedTokenSet imported
      in c\<lparr>importedExportedTokens := ie,
           accessibleTokens := createAccessibleTokenSet runtime (providerTokens c) ie global\<rparr>)"

text \<open>The dependency loop shared by providers and controllers: the first token that is not visible;
  an optional token that nobody provides is skipped.\<close>

fun first_invisible :: "di_env \<Rightarrow> token list \<Rightarrow> token list \<Rightarrow> inject_token list \<Rightarrow> token option" where
  "first_invisible env accessible registered [] = None"
| "first_invisible env accessible registered (e # es) =
     (let t = resolveProviderDependencyToken env e
      in if is_optional e \<and> t \<notin> set accessible \<and> t \<notin> set registered
         then first_invisible env accessible registered es
         else if t \<notin> set accessible then Some t
         else first_invisible env accessible registered es)"

fun validateProviderVisibility ::
  "di_env \<Rightarrow> nat \<Rightarrow> token list \<Rightarrow> token list \<Rightarrow> jsv list \<Rightarrow> graph_error option" where
  "validateProviderVisibility env m accessible registered [] = None"
| "validateProviderVisibility env m accessible registered (p # ps) =
     (case validateProviderInjectionMetadata env p of
        Some e \<Rightarrow> Some e
      | None \<Rightarrow>
          (case first_invisible env accessible registered (providerDependencies env p) of
             Some t \<Rightarrow> Some (ProviderVisibility m (providerToken env p) t)
           | None \<Rightarrow> validateProviderVisibility env m accessible registered ps))"

fun validateControllerVisibility ::
  "di_env \<Rightarrow> nat \<Rightarrow> token list \<Rightarrow> token list \<Rightarrow> nat list \<Rightarrow> graph_error option" where
  "validateControllerVisibility env m accessible registered [] = None"
| "validateControllerVisibility env m accessible registered (c # cs) =
     (case validateControllerInjectionMetadata env c of
        Some e \<Rightarrow> Some e
      | None \<Rightarrow>
          (case first_invisible env accessible registered (controllerDependencies env c) of
             Some t \<Rightarrow> Some (ControllerVisibility m c t)
           | None \<Rightarrow> validateControllerVisibility env m accessible registered cs))"

definition createExportedTokenSet :: "compiled_module \<Rightarrow> token list \<Rightarrow> graph_error + token list" where
  "createExportedTokenSet c imported =
     (case find (\<lambda>t. t \<notin> set (providerTokens c) \<and> t \<notin> set imported) (md_exports (cm_definition c)) of
        Some t \<Rightarrow> Inl (ExportVisibility (cm_type c) t)
      | None \<Rightarrow> Inr (add_tokens (md_exports (cm_definition c)) []))"

definition collect_registered :: "token list \<Rightarrow> compiled_module list \<Rightarrow> token list" where
  "collect_registered runtime mods = fold (\<lambda>c. add_tokens (providerTokens c)) mods runtime"

definition collect_global_exports :: "compiled_module list \<Rightarrow> token list" where
  "collect_global_exports mods =
     fold (\<lambda>c. if md_global (cm_definition c) then add_tokens (md_exports (cm_definition c)) else id) mods []"

text \<open>One iteration of the validation loop; \<open>mods\<close> are all modules, those before \<open>c\<close> already validated and the
  rest not changed yet.\<close>

definition validate_module ::
  "di_env \<Rightarrow> token list \<Rightarrow> token list \<Rightarrow> token list \<Rightarrow> compiled_module list \<Rightarrow> compiled_module \<Rightarrow>
     graph_error + compiled_module" where
  "validate_module env runtime registered global mods c =
     (case resolveImportedModules mods c of
        Inl e \<Rightarrow> Inl e
      | Inr imported \<Rightarrow>
          (let c1 = memoizeAccessibleTokenSet c imported runtime global
           in case validateProviderVisibility env (cm_type c) (accessibleTokens c1) registered
                     (md_providers (cm_definition c)) of
                Some e \<Rightarrow> Inl e
              | None \<Rightarrow>
                  (case validateControllerVisibility env (cm_type c) (accessibleTokens c1) registered
                          (md_controllers (cm_definition c)) of
                     Some e \<Rightarrow> Inl e
                   | None \<Rightarrow>
                       (case createExportedTokenSet c1 (importedExportedTokens c1) of
                          Inl e \<Rightarrow> Inl e
                        | Inr ts \<Rightarrow> Inr (c1\<lparr>exportedTokens := ts\<rparr>)))))"

fun validate_modules ::
  "di_env \<Rightarrow> token list \<Rightarrow> token list \<Rightarrow> token list \<Rightarrow> compiled_module list \<Rightarrow> compiled_module list \<Rightarrow>
     graph_error + compiled_module list" where
  "validate_modules env runtime registered global finished [] = Inr finished"
| "validate_modules env runtime registered global finished (c # todo) =
     (case validate_module env runtime registered global (finished @ c # todo) c of
        Inl e \<Rightarrow> Inl e
      | Inr c' \<Rightarrow> validate_modules env runtime registered global (finished @ [c']) todo)"

definition validateCompiledModules ::
  "di_env \<Rightarrow> compiled_module list \<Rightarrow> jsv list \<Rightarrow> token list \<Rightarrow> graph_error + compiled_module list" where
  "validateCompiledModules env mods runtimeProviders runtime =
     (case res_map (\<lambda>p. case validateProviderInjectionMetadata env p of Some e \<Rightarrow> Inl e | None \<Rightarrow> Inr ()) runtimeProviders of
        Inl e \<Rightarrow> Inl e
      | Inr _ \<Rightarrow>
          validate_modules env runtime (collect_registered runtime mods) (collect_global_exports mods) [] mods)"

record module_options =
  opt_providers :: "jsv list"
  opt_validationTokens :: "token list"
  opt_moduleReplacements :: "(nat, nat) js_map"

text \<open>Compilation without the cache; \<open>k\<close> bounds the depth of imports.\<close>

definition compile_graph ::
  "di_env \<Rightarrow> (nat \<Rightarrow> raw_module option) \<Rightarrow> nat \<Rightarrow> nat \<Rightarrow> module_options \<Rightarrow>
     (graph_error + compiled_module list) option" where
  "compile_graph env meta k root_module opts =
     (case validateProviderInputs env (opt_providers opts) of
        Inl e \<Rightarrow> Some (Inl (InvalidModuleProvider e))
      | Inr ps \<Rightarrow>
          (case compileModule env meta (opt_moduleReplacements opts) k [] root_module [] of
             None \<Rightarrow> None
           | Some (Inl e) \<Rightarrow> Some (Inl e)
           | Some (Inr ordered) \<Rightarrow>
               Some (validateCompiledModules env ordered ps
                      (mergeRuntimeTokenSets env ps (opt_validationTokens opts)))))"

end
