(* ===== verification/Module_Graph_Correctness.thy ===== *)
theory Module_Graph_Correctness
  imports Module_Graph
begin

text \<open>
  The compiled graph lists every reachable module once, imports first; a circular import is
  reported exactly when there is one; and after validation every dependency of every provider and
  controller is visible in its module.
\<close>

section \<open>The import graph\<close>

definition import_edges ::
  "di_env \<Rightarrow> (nat \<Rightarrow> raw_module option) \<Rightarrow> (nat, nat) js_map \<Rightarrow> (nat \<times> nat) set" where
  "import_edges env meta repl =
     {(m, i). \<exists>d. module_definition env meta repl m = Inr d \<and> i \<in> set (md_imports d)}"

text \<open>Lists of compiled modules in which every import of a module comes before it.\<close>

inductive imports_first ::
  "di_env \<Rightarrow> (nat \<Rightarrow> raw_module option) \<Rightarrow> (nat, nat) js_map \<Rightarrow> compiled_module list \<Rightarrow> bool"
  for env meta repl where
  first_nil: "imports_first env meta repl []"
| first_snoc: "imports_first env meta repl ms \<Longrightarrow> m \<notin> cm_type ` set ms \<Longrightarrow>
     module_definition env meta repl m = Inr d \<Longrightarrow> set (md_imports d) \<subseteq> cm_type ` set ms \<Longrightarrow>
     imports_first env meta repl (ms @ [new_compiled env m d])"

inductive_cases imports_first_snocE: "imports_first env meta repl (ms @ [c])"

lemma new_compiled_simps [simp]:
  "cm_type (new_compiled env m d) = m" "cm_definition (new_compiled env m d) = d"
  by (simp_all add: new_compiled_def)

lemma imports_first_closed:
  "imports_first env meta repl ms \<Longrightarrow> m \<in> cm_type ` set ms \<Longrightarrow> (m, i) \<in> import_edges env meta repl \<Longrightarrow>
     i \<in> cm_type ` set ms"
  by (induction arbitrary: m i rule: imports_first.induct) (auto simp: import_edges_def)

lemma imports_first_reach:
  assumes "imports_first env meta repl ms" and "m \<in> cm_type ` set ms"
    and "(m, i) \<in> (import_edges env meta repl)\<^sup>*"
  shows "i \<in> cm_type ` set ms"
  using assms(3,2) by (induction rule: rtrancl_induct) (auto intro: imports_first_closed [OF assms(1)])

lemma imports_first_acyclic:
  "imports_first env meta repl ms \<Longrightarrow> m \<in> cm_type ` set ms \<Longrightarrow> (m, m) \<notin> (import_edges env meta repl)\<^sup>+"
proof (induction arbitrary: m rule: imports_first.induct)
  case (first_snoc ms n d)
  show ?case
  proof (cases "m \<in> cm_type ` set ms")
    case True
    then show ?thesis by (rule first_snoc.IH)
  next
    case False
    then have m: "m = n" using first_snoc.prems by auto
    show ?thesis
    proof
      assume "(m, m) \<in> (import_edges env meta repl)\<^sup>+"
      then obtain i where "(m, i) \<in> import_edges env meta repl" "(i, m) \<in> (import_edges env meta repl)\<^sup>*"
        by (meson tranclD)
      then have "i \<in> cm_type ` set ms" "(i, m) \<in> (import_edges env meta repl)\<^sup>*"
        using first_snoc.hyps(3,4) m by (auto simp: import_edges_def)
      then have "m \<in> cm_type ` set ms"
        using imports_first_reach [OF first_snoc.hyps(1)] by blast
      with False show False ..
    qed
  qed
qed simp

lemma imports_first_distinct: "imports_first env meta repl ms \<Longrightarrow> distinct (map cm_type ms)"
  by (induction rule: imports_first.induct) auto

section \<open>compileModule\<close>

lemma compile_success:
  assumes "compileModule env meta repl k vis m ms = Some (Inr ms')" and "imports_first env meta repl ms"
  shows "imports_first env meta repl ms' \<and> (\<exists>new. ms' = ms @ new) \<and> m \<in> cm_type ` set ms' \<and>
    cm_type ` set ms' \<subseteq> cm_type ` set ms \<union> (import_edges env meta repl)\<^sup>* `` {m}"
  using assms
proof (induction k arbitrary: vis m ms ms')
  case (Suc k)
  let ?E = "import_edges env meta repl"
  show ?case
  proof (cases "m \<in> cm_type ` set ms")
    case True
    with Suc.prems show ?thesis by auto
  next
    case False
    then obtain d ms1 where d: "module_definition env meta repl m = Inr d"
      and imp: "compile_imports (compileModule env meta repl k (m # vis)) (md_imports d) ms = Some (Inr ms1)"
      and ms': "ms' = ms1 @ [new_compiled env m d]"
      using Suc.prems(1) by (auto split: if_splits sum.splits option.splits)
    have all: "imports_first env meta repl ns' \<and> (\<exists>new. ns' = ns @ new) \<and> set is \<subseteq> cm_type ` set ns' \<and>
        cm_type ` set ns' \<subseteq> cm_type ` set ns \<union> ?E\<^sup>* `` set is"
      if "compile_imports (compileModule env meta repl k (m # vis)) is ns = Some (Inr ns')" "imports_first env meta repl ns"
      for "is" ns ns'
      using that
    proof (induction "is" arbitrary: ns)
      case (Cons i "is")
      then obtain ns1 where c: "compileModule env meta repl k (m # vis) i ns = Some (Inr ns1)"
        and r: "compile_imports (compileModule env meta repl k (m # vis)) is ns1 = Some (Inr ns')"
        by (auto split: option.splits sum.splits)
      note 1 = Suc.IH [OF c Cons.prems(2)]
      note 2 = Cons.IH [OF r conjunct1 [OF 1]]
      obtain new1 new2 where new: "ns1 = ns @ new1" "ns' = ns1 @ new2" using 1 2 by blast
      have "cm_type ` set ns' \<subseteq> cm_type ` set ns \<union> ?E\<^sup>* `` set (i # is)" using 1 2 by (simp add: Image_def) blast
      moreover have "set (i # is) \<subseteq> cm_type ` set ns'" using 1 2 new(2) by auto
      ultimately show ?case using 2 new by auto
    qed auto
    note imps = all [OF imp Suc.prems(2)]
    have notin: "m \<notin> cm_type ` set ms1"
    proof
      assume "m \<in> cm_type ` set ms1"
      then obtain i where i: "i \<in> set (md_imports d)" "(i, m) \<in> ?E\<^sup>*" using imps False by auto
      then have "(m, m) \<in> ?E\<^sup>+" using d by (auto simp: import_edges_def intro: rtrancl_into_trancl2)
      then show False using imports_first_acyclic imps \<open>m \<in> cm_type ` set ms1\<close> by blast
    qed
    have "?E\<^sup>* `` set (md_imports d) \<subseteq> ?E\<^sup>* `` {m}"
      using d by (auto simp: import_edges_def intro: converse_rtrancl_into_rtrancl)
    then have "cm_type ` set ms' \<subseteq> cm_type ` set ms \<union> ?E\<^sup>* `` {m}"
      using imps unfolding ms' by (simp add: subset_iff) blast
    moreover have "imports_first env meta repl ms'"
      using imps notin d unfolding ms' by (auto intro: first_snoc)
    ultimately show ?thesis using imps unfolding ms' by auto
  qed
qed simp

lemma compile_cycle:
  assumes "compileModule env meta repl k vis m ms = Some (Inl (CircularImport x))"
    and "\<forall>v \<in> set vis. (v, m) \<in> (import_edges env meta repl)\<^sup>+"
    and "\<And>n. module_definition env meta repl n \<noteq> Inl (CircularImport x)"
  shows "(m, x) \<in> (import_edges env meta repl)\<^sup>* \<and> (x, x) \<in> (import_edges env meta repl)\<^sup>+"
  using assms(1,2)
proof (induction k arbitrary: vis m ms)
  case (Suc k)
  let ?E = "import_edges env meta repl"
  show ?case
  proof (cases "m \<in> set vis")
    case True
    with Suc.prems show ?thesis by (auto split: if_splits)
  next
    case False
    then obtain d where d: "module_definition env meta repl m = Inr d"
      and imp: "compile_imports (compileModule env meta repl k (m # vis)) (md_imports d) ms = Some (Inl (CircularImport x))"
      using Suc.prems(1) assms(3) by (auto split: if_splits sum.splits option.splits)
    have first: "\<exists>i \<in> set is. \<exists>ns1. compileModule env meta repl k (m # vis) i ns1 = Some (Inl (CircularImport x))"
      if "compile_imports (compileModule env meta repl k (m # vis)) is ns = Some (Inl (CircularImport x))" for "is" ns
      using that by (induction "is" arbitrary: ns) (auto split: option.splits sum.splits)
    obtain i ns1 where i: "i \<in> set (md_imports d)"
      and c: "compileModule env meta repl k (m # vis) i ns1 = Some (Inl (CircularImport x))"
      using first [OF imp] by blast
    have mi: "(m, i) \<in> ?E" using d i by (auto simp: import_edges_def)
    then have "\<forall>v \<in> set (m # vis). (v, i) \<in> ?E\<^sup>+"
      using Suc.prems(2) by (auto intro: trancl_into_trancl)
    with Suc.IH [OF c] mi show ?thesis by (meson converse_rtrancl_into_rtrancl)
  qed
qed simp

lemma replacement_not_import: "resolveReplacementMetadataSource repl m path \<noteq> Inl (CircularImport x)"
  by (induction repl m path rule: resolveReplacementMetadataSource.induct)
    (subst resolveReplacementMetadataSource.simps, auto split: option.splits)

lemma definition_not_import: "module_definition env meta repl n \<noteq> Inl (CircularImport x)"
  using replacement_not_import
  by (auto simp: module_definition_def normalizeModuleDefinition_def split: sum.splits option.splits)

lemma compile_other_error:
  assumes "compileModule env meta repl k vis m ms = Some (Inl e)" and "\<And>x. e \<noteq> CircularImport x"
  shows "\<exists>n. (m, n) \<in> (import_edges env meta repl)\<^sup>* \<and> module_definition env meta repl n = Inl e"
  using assms(1)
proof (induction k arbitrary: vis m ms)
  case (Suc k)
  show ?case
  proof (cases "module_definition env meta repl m")
    case (Inl e')
    then show ?thesis using Suc.prems assms(2) by (auto split: if_splits)
  next
    case (Inr d)
    then have imp: "compile_imports (compileModule env meta repl k (m # vis)) (md_imports d) ms = Some (Inl e)"
      using Suc.prems assms(2) by (auto split: if_splits sum.splits option.splits)
    have first: "\<exists>i \<in> set is. \<exists>ns1. compileModule env meta repl k (m # vis) i ns1 = Some (Inl e)"
      if "compile_imports (compileModule env meta repl k (m # vis)) is ns = Some (Inl e)" for "is" ns
      using that by (induction "is" arbitrary: ns) (auto split: option.splits sum.splits)
    obtain i ns1 where i: "i \<in> set (md_imports d)" and c: "compileModule env meta repl k (m # vis) i ns1 = Some (Inl e)"
      using first [OF imp] by blast
    have "(m, i) \<in> import_edges env meta repl" using Inr i by (auto simp: import_edges_def)
    with Suc.IH [OF c] show ?thesis by (meson converse_rtrancl_into_rtrancl)
  qed
qed simp

lemma compile_returns:
  assumes "finite U" and "\<And>m i. m \<in> U \<Longrightarrow> (m, i) \<in> import_edges env meta repl \<Longrightarrow> i \<in> U"
  shows "m \<in> U \<Longrightarrow> card (U - set vis) < k \<Longrightarrow> compileModule env meta repl k vis m ms \<noteq> None"
proof (induction k arbitrary: vis m ms)
  case (Suc k)
  show ?case
  proof (cases "m \<in> set vis \<or> m \<in> cm_type ` set ms")
    case True
    then show ?thesis by auto
  next
    case False
    then have "U - set (m # vis) \<subset> U - set vis" using Suc.prems(1) by auto
    then have smaller: "card (U - set (m # vis)) < k"
      using Suc.prems(2) psubset_card_mono [of "U - set vis" "U - set (m # vis)"] assms(1) by simp
    have "compile_imports (compileModule env meta repl k (m # vis)) is ns \<noteq> None" if "set is \<subseteq> U" for "is" ns
      using that
    proof (induction "is" arbitrary: ns)
      case (Cons i "is")
      obtain r where "compileModule env meta repl k (m # vis) i ns = Some r"
        using Suc.IH [OF _ smaller, of i ns] Cons.prems by auto
      then show ?case using Cons by (auto split: sum.splits)
    qed simp
    moreover have "set (md_imports d) \<subseteq> U" if "module_definition env meta repl m = Inr d" for d
      using assms(2) [OF Suc.prems(1)] that by (auto simp: import_edges_def)
    ultimately show ?thesis using False by (cases "module_definition env meta repl m") (auto split: sum.splits option.splits)
  qed
qed simp

section \<open>Token sets\<close>

lemma set_add_tokens [simp]: "set (add_tokens ts acc) = set ts \<union> set acc"
  unfolding add_tokens_def by (induction ts arbitrary: acc) auto

lemma set_imported_exports: "set (createImportedExportedTokenSet is) = (\<Union>i \<in> set is. set (exportedTokens i))"
proof -
  have "set (fold (\<lambda>i. add_tokens (exportedTokens i)) is acc) = (\<Union>i \<in> set is. set (exportedTokens i)) \<union> set acc" for acc
    by (induction "is" arbitrary: acc) auto
  then show ?thesis by (simp add: createImportedExportedTokenSet_def)
qed

lemma set_global_exports:
  "set (collect_global_exports ms) = (\<Union>c \<in> {c \<in> set ms. md_global (cm_definition c)}. set (md_exports (cm_definition c)))"
proof -
  have "set (fold (\<lambda>c. if md_global (cm_definition c) then add_tokens (md_exports (cm_definition c)) else id) ms acc) =
      (\<Union>c \<in> {c \<in> set ms. md_global (cm_definition c)}. set (md_exports (cm_definition c))) \<union> set acc" for acc
    by (induction ms arbitrary: acc) auto
  then show ?thesis by (simp add: collect_global_exports_def)
qed

lemma set_registered: "set (collect_registered rt ms) = (\<Union>c \<in> set ms. set (providerTokens c)) \<union> set rt"
  unfolding collect_registered_def by (induction ms arbitrary: rt) auto

section \<open>Validation\<close>

text \<open>A dependency entry that the module may use: a visible token, or an optional one that no module
  and no runtime provider offers.\<close>

definition entry_visible :: "di_env \<Rightarrow> token list \<Rightarrow> token list \<Rightarrow> inject_token \<Rightarrow> bool" where
  "entry_visible env accessible registered e \<longleftrightarrow>
     resolveProviderDependencyToken env e \<in> set accessible \<or>
     (is_optional e \<and> resolveProviderDependencyToken env e \<notin> set registered)"

lemma first_invisible_None:
  "first_invisible env accessible registered es = None \<longleftrightarrow> list_all (entry_visible env accessible registered) es"
  by (induction es) (auto simp: entry_visible_def Let_def)

lemma provider_visibility_None:
  "validateProviderVisibility env m accessible registered ps = None \<Longrightarrow> p \<in> set ps \<Longrightarrow>
     list_all (entry_visible env accessible registered) (providerDependencies env p)"
  by (induction ps) (auto simp: first_invisible_None split: option.splits)

lemma controller_visibility_None:
  "validateControllerVisibility env m accessible registered cs = None \<Longrightarrow> c \<in> set cs \<Longrightarrow>
     list_all (entry_visible env accessible registered) (controllerDependencies env c)"
  by (induction cs) (auto simp: first_invisible_None split: option.splits)

text \<open>The tokens exported by the modules that \<open>c\<close> imports.\<close>

definition import_exports :: "compiled_module list \<Rightarrow> compiled_module \<Rightarrow> token set" where
  "import_exports ms c = (\<Union>i \<in> {i \<in> set ms. cm_type i \<in> set (md_imports (cm_definition c))}. set (exportedTokens i))"

definition module_valid :: "di_env \<Rightarrow> token list \<Rightarrow> token list \<Rightarrow> token list \<Rightarrow> compiled_module list \<Rightarrow> compiled_module \<Rightarrow> bool" where
  "module_valid env runtime registered global ms c \<longleftrightarrow>
     set (accessibleTokens c) = set runtime \<union> set (providerTokens c) \<union> import_exports ms c \<union> set global \<and>
     (\<forall>p \<in> set (md_providers (cm_definition c)).
        list_all (entry_visible env (accessibleTokens c) registered) (providerDependencies env p)) \<and>
     (\<forall>k \<in> set (md_controllers (cm_definition c)).
        list_all (entry_visible env (accessibleTokens c) registered) (controllerDependencies env k)) \<and>
     set (exportedTokens c) = set (md_exports (cm_definition c)) \<and>
     set (exportedTokens c) \<subseteq> set (providerTokens c) \<union> import_exports ms c"

definition same_module :: "compiled_module \<Rightarrow> compiled_module \<Rightarrow> bool" where
  "same_module c c' \<longleftrightarrow> cm_type c' = cm_type c \<and> cm_definition c' = cm_definition c \<and> providerTokens c' = providerTokens c"

fun imports_before :: "nat set \<Rightarrow> compiled_module list \<Rightarrow> bool" where
  "imports_before T [] = True"
| "imports_before T (c # cs) \<longleftrightarrow>
     set (md_imports (cm_definition c)) \<subseteq> T \<and> imports_before (insert (cm_type c) T) cs"

lemma imports_before_snoc:
  "imports_before T (ms @ [c]) \<longleftrightarrow>
     imports_before T ms \<and> set (md_imports (cm_definition c)) \<subseteq> T \<union> cm_type ` set ms"
  by (induction ms arbitrary: T) auto

lemma imports_first_before: "imports_first env meta repl ms \<Longrightarrow> imports_before {} ms"
  by (induction rule: imports_first.induct) (auto simp: imports_before_snoc)

lemma find_module_append:
  "m \<in> cm_type ` set ms \<Longrightarrow> \<exists>c \<in> set ms. cm_type c = m \<and> find_module (ms @ ns) m = Some c"
  by (induction ms) auto

lemma resolve_imports_members:
  assumes "resolveImportedModules (done' @ rest) c = Inr is" and "set (md_imports (cm_definition c)) \<subseteq> cm_type ` set done'"
    and "distinct (map cm_type done')"
  shows "set is = {i \<in> set done'. cm_type i \<in> set (md_imports (cm_definition c))}"
proof -
  have rel: "list_all2 (\<lambda>m i. (case find_module (done' @ rest) m of None \<Rightarrow> Inl (ImportNotCompiled m) | Some i \<Rightarrow> Inr i) = Inr i)
      (md_imports (cm_definition c)) is"
    using assms(1) by (simp add: resolveImportedModules_def res_laws)
  have found: "i \<in> set done' \<and> cm_type i = m"
    if "find_module (done' @ rest) m = Some i" "m \<in> set (md_imports (cm_definition c))" for m i
    using find_module_append [of m done' rest] that assms(2) by auto
  have "i \<in> set done' \<and> cm_type i \<in> set (md_imports (cm_definition c))" if "i \<in> set is" for i
    using rel that found by (induction rule: list_all2_induct) (auto split: option.splits)
  moreover have "i \<in> set is" if i: "i \<in> set done'" "cm_type i \<in> set (md_imports (cm_definition c))" for i
  proof -
    obtain x where x: "x \<in> set done'" "cm_type x = cm_type i" "find_module (done' @ rest) (cm_type i) = Some x"
      using find_module_append [of "cm_type i" done' rest] i(1) by auto
    have "x = i" using x(1,2) i(1) assms(3) by (meson distinct_map inj_onD)
    have "\<exists>y \<in> set is. (case find_module (done' @ rest) m of None \<Rightarrow> Inl (ImportNotCompiled m) | Some i \<Rightarrow> Inr i) = Inr y"
      if "m \<in> set (md_imports (cm_definition c))" for m
      using rel that by (induction rule: list_all2_induct) auto
    from this [OF i(2)] x(3) \<open>x = i\<close> show ?thesis by auto
  qed
  ultimately show ?thesis by blast
qed

lemma validate_module_spec:
  assumes v: "validate_module env rt reg gl (fin @ c # todo) c = Inr c'"
    and imp: "set (md_imports (cm_definition c)) \<subseteq> cm_type ` set fin" and dist: "distinct (map cm_type fin)"
  shows "same_module c c'" and "module_valid env rt reg gl fin c'"
proof -
  obtain "is" where r: "resolveImportedModules (fin @ c # todo) c = Inr is"
    using v by (auto simp: validate_module_def split: sum.splits)
  define c1 where "c1 = memoizeAccessibleTokenSet c is rt gl"
  obtain ts where pv: "validateProviderVisibility env (cm_type c) (accessibleTokens c1) reg (md_providers (cm_definition c)) = None"
    and cv: "validateControllerVisibility env (cm_type c) (accessibleTokens c1) reg (md_controllers (cm_definition c)) = None"
    and ex: "createExportedTokenSet c1 (importedExportedTokens c1) = Inr ts" and c': "c' = c1\<lparr>exportedTokens := ts\<rparr>"
    using v r by (auto simp: validate_module_def Let_def c1_def split: option.splits sum.splits)
  have c1: "cm_type c1 = cm_type c" "cm_definition c1 = cm_definition c" "providerTokens c1 = providerTokens c"
    "set (importedExportedTokens c1) = import_exports fin c"
    "set (accessibleTokens c1) = set rt \<union> set (providerTokens c) \<union> import_exports fin c \<union> set gl"
    using resolve_imports_members [OF r imp dist]
    by (auto simp: c1_def memoizeAccessibleTokenSet_def Let_def set_imported_exports createAccessibleTokenSet_def
        import_exports_def)
  show "same_module c c'" by (simp add: same_module_def c' c1)
  have "set ts = set (md_exports (cm_definition c))" "set ts \<subseteq> set (providerTokens c) \<union> import_exports fin c"
    using ex c1 by (auto simp: createExportedTokenSet_def find_None_iff split: option.splits)
  moreover have "import_exports fin c' = import_exports fin c" by (simp add: import_exports_def c' c1)
  ultimately show "module_valid env rt reg gl fin c'"
    using provider_visibility_None [OF pv] controller_visibility_None [OF cv]
    unfolding module_valid_def by (simp add: c' c1)
qed

lemma module_valid_append:
  assumes "module_valid env rt reg gl fin c" and "set (md_imports (cm_definition c)) \<subseteq> cm_type ` set fin"
    and "distinct (map cm_type (fin @ new))"
  shows "module_valid env rt reg gl (fin @ new) c"
proof -
  have "{i \<in> set (fin @ new). cm_type i \<in> set (md_imports (cm_definition c))} =
      {i \<in> set fin. cm_type i \<in> set (md_imports (cm_definition c))}"
    using assms(2,3) by auto
  then have same: "import_exports (fin @ new) c = import_exports fin c" by (simp add: import_exports_def)
  show ?thesis using assms(1) unfolding module_valid_def same .
qed

lemma validate_modules_spec:
  assumes "validate_modules env rt reg gl fin todo = Inr out" and "imports_before (cm_type ` set fin) todo"
    and "distinct (map cm_type (fin @ todo))"
  shows "\<exists>new. out = fin @ new \<and> list_all2 same_module todo new \<and> (\<forall>c \<in> set new. module_valid env rt reg gl out c)"
  using assms
proof (induction todo arbitrary: fin)
  case (Cons c todo)
  obtain c' where v: "validate_module env rt reg gl (fin @ c # todo) c = Inr c'"
    and rest: "validate_modules env rt reg gl (fin @ [c']) todo = Inr out"
    using Cons.prems(1) by (auto split: sum.splits)
  have imp: "set (md_imports (cm_definition c)) \<subseteq> cm_type ` set fin" using Cons.prems(2) by simp
  have dist: "distinct (map cm_type fin)" using Cons.prems(3) by simp
  note spec = validate_module_spec [OF v imp dist]
  have ty: "cm_type c' = cm_type c" using spec(1) by (simp add: same_module_def)
  obtain new where new: "out = (fin @ [c']) @ new" "list_all2 same_module todo new"
    "\<forall>c \<in> set new. module_valid env rt reg gl out c"
    using Cons.IH [OF rest] Cons.prems(2,3) ty by auto
  have types: "map cm_type new = map cm_type todo"
    using new(2) by (induction rule: list_all2_induct) (auto simp: same_module_def)
  have "distinct (map cm_type (fin @ c' # new))"
    using Cons.prems(3) ty types by simp
  then have "module_valid env rt reg gl out c'"
    using module_valid_append [OF spec(2), of "c' # new"] imp spec(1) new(1) by (simp add: same_module_def)
  then show ?case using new spec(1) by (intro exI [of _ "c' # new"]) auto
qed simp

section \<open>Properties\<close>

lemma map_sum_InrD: "map_sum id f x = Inr y \<Longrightarrow> \<exists>z. x = Inr z \<and> f z = y"
  by (cases x) auto

lemma imports_first_topological:
  "imports_first env meta repl ms \<Longrightarrow> j < length ms \<Longrightarrow>
     set (md_imports (cm_definition (ms ! j))) \<subseteq> cm_type ` set (take j ms)"
proof (induction arbitrary: j rule: imports_first.induct)
  case (first_snoc ms m d)
  then show ?case by (cases "j = length ms") (auto simp: nth_append)
qed simp

text \<open>
  C11. Compilation of the module graph is exact.  If the modules reachable from the root are among
  the finite set \<open>U\<close>, compilation returns; on success it lists exactly the modules reachable through
  imports, each once and after everything it imports, and there is no import cycle; a circular
  import error names a reachable module that lies on an import cycle; any other error is the error
  of the metadata or replacement of a reachable module.
\<close>

theorem compile_module_exact:
  assumes "finite U" and "r \<in> U" and "\<And>m i. m \<in> U \<Longrightarrow> (m, i) \<in> import_edges env meta repl \<Longrightarrow> i \<in> U"
    and "card U < k"
  shows "case compileModule env meta repl k [] r [] of
      None \<Rightarrow> False
    | Some (Inr ms) \<Rightarrow>
        cm_type ` set ms = (import_edges env meta repl)\<^sup>* `` {r} \<and> distinct (map cm_type ms) \<and>
        (\<forall>j < length ms. set (md_imports (cm_definition (ms ! j))) \<subseteq> cm_type ` set (take j ms)) \<and>
        (\<forall>m. (r, m) \<in> (import_edges env meta repl)\<^sup>* \<longrightarrow> (m, m) \<notin> (import_edges env meta repl)\<^sup>+)
    | Some (Inl e) \<Rightarrow>
        (case e of
           CircularImport x \<Rightarrow> (r, x) \<in> (import_edges env meta repl)\<^sup>* \<and> (x, x) \<in> (import_edges env meta repl)\<^sup>+
         | _ \<Rightarrow> \<exists>m. (r, m) \<in> (import_edges env meta repl)\<^sup>* \<and> module_definition env meta repl m = Inl e)"
proof (cases "compileModule env meta repl k [] r []")
  case None
  have "compileModule env meta repl k [] r [] \<noteq> None"
    by (rule compile_returns [OF assms(1)]) (use assms(2-4) in auto)
  with None show ?thesis by simp
next
  case (Some res)
  show ?thesis
  proof (cases res)
    case (Inr ms)
    note ok = compile_success [OF Some [unfolded Inr] first_nil]
    then have first: "imports_first env meta repl ms" and r: "r \<in> cm_type ` set ms" by blast+
    have reach: "cm_type ` set ms = (import_edges env meta repl)\<^sup>* `` {r}"
      using ok imports_first_reach [OF first r] by auto
    have "(m, m) \<notin> (import_edges env meta repl)\<^sup>+" if "(r, m) \<in> (import_edges env meta repl)\<^sup>*" for m
      using imports_first_acyclic [OF first] imports_first_reach [OF first r that] by blast
    then show ?thesis
      using Some Inr reach imports_first_distinct [OF first] imports_first_topological [OF first] by simp
  next
    case (Inl e)
    show ?thesis
    proof (cases "\<exists>x. e = CircularImport x")
      case True
      then show ?thesis
        using compile_cycle [OF _ _ definition_not_import, of env meta repl k "[]" r "[]"] Some Inl by auto
    next
      case False
      then have "\<exists>m. (r, m) \<in> (import_edges env meta repl)\<^sup>* \<and> module_definition env meta repl m = Inl e"
        using compile_other_error [OF Some [unfolded Inl]] by blast
      with False Some Inl show ?thesis by (cases e) auto
    qed
  qed
qed

definition sample_module :: "nat list \<Rightarrow> jsv list \<Rightarrow> token list \<Rightarrow> raw_module option" where
  "sample_module is ps es = Some \<lparr>rm_global = None, rm_imports = Some is, rm_providers = Some ps,
     rm_controllers = None, rm_exports = Some es\<rparr>"

text \<open>Module 10 imports 11 and 12, and 11 imports 12.\<close>

definition sample_modules :: "nat \<Rightarrow> raw_module option" where
  "sample_modules m =
     (if m = 10 then sample_module [11, 12] [sample_factory, JFun 1] []
      else if m = 11 then sample_module [12] [] [StrTok ''cfg'']
      else if m = 12 then sample_module [] [JObj [(''provide'', JStr ''cfg''), (''useValue'', JNum 1)]] [StrTok ''cfg'']
      else None)"

lemma sample_module_closed:
  assumes "(m, i) \<in> import_edges sample_env sample_modules []"
  shows "i \<in> {10, 11, 12}"
proof -
  have "module_definition sample_env sample_modules [] m =
      normalizeModuleDefinition sample_env (sample_modules m)"
    by (simp add: module_definition_def resolveReplacementMetadataSource.simps js_get_def)
  with assms obtain d where "normalizeModuleDefinition sample_env (sample_modules m) = Inr d" "i \<in> set (md_imports d)"
    by (auto simp: import_edges_def)
  then show ?thesis
    by (auto simp: normalizeModuleDefinition_def sample_modules_def sample_module_def split: if_splits sum.splits)
qed

theorem compile_module_exact_witness:
  "\<exists>ms. compileModule sample_env sample_modules [] 4 [] 10 [] = Some (Inr ms) \<and> map cm_type ms = [12, 11, 10] \<and>
     (import_edges sample_env sample_modules [])\<^sup>* `` {10} = {10, 11, 12}"
proof -
  have "map_option (map_sum id (map cm_type)) (compileModule sample_env sample_modules [] 4 [] 10 []) = Some (Inr [12, 11, 10])"
    by code_simp
  then obtain x where "compileModule sample_env sample_modules [] 4 [] 10 [] = Some x" "map_sum id (map cm_type) x = Inr [12, 11, 10]"
    by (cases "compileModule sample_env sample_modules [] 4 [] 10 []") auto
  then obtain ms where ms: "compileModule sample_env sample_modules [] 4 [] 10 [] = Some (Inr ms)" "map cm_type ms = [12, 11, 10]"
    using map_sum_InrD [of "map cm_type" x] by auto
  then have types: "cm_type ` set ms = {10, 11, 12}"
    by (metis insert_commute list.set_map list.simps(15) list.set(1))
  have "cm_type ` set ms = (import_edges sample_env sample_modules [])\<^sup>* `` {10}"
    using compile_module_exact [of "{10, 11, 12}" 10 sample_env sample_modules "[]" 4] sample_module_closed ms(1) by simp
  with ms types show ?thesis by auto
qed

text \<open>
  C12. After a successful compilation the visibility rules hold: what a module can access is exactly
  the runtime providers, its own providers, the exports of the modules it imports and the exports of
  global modules; every dependency of each of its providers and controllers is accessible, unless it
  is optional and provided nowhere; and a module exports only its own providers and what its imports
  export.
\<close>

theorem compiled_graph_visibility:
  assumes "compile_graph env meta k r opts = Some (Inr ms)" and "c \<in> set ms"
  shows "\<exists>runtime registered global.
    set registered = (\<Union>c \<in> set ms. set (providerTokens c)) \<union> set runtime \<and>
    set global = (\<Union>c \<in> {c \<in> set ms. md_global (cm_definition c)}. set (md_exports (cm_definition c))) \<and>
    set runtime = providerToken env ` set (opt_providers opts) \<union> norm_tok env ` set (opt_validationTokens opts) \<and>
    module_valid env runtime registered global ms c"
proof -
  obtain ps ordered where ps: "validateProviderInputs env (opt_providers opts) = Inr ps"
    and o: "compileModule env meta (opt_moduleReplacements opts) k [] r [] = Some (Inr ordered)"
    and v: "validateCompiledModules env ordered ps (mergeRuntimeTokenSets env ps (opt_validationTokens opts)) = Inr ms"
    using assms(1) by (auto simp: compile_graph_def split: sum.splits option.splits)
  have p: "ps = opt_providers opts" using ps by (auto simp: validateProviderInputs_def split: sum.splits)
  let ?rt = "mergeRuntimeTokenSets env ps (opt_validationTokens opts)"
  let ?reg = "collect_registered ?rt ordered" and ?gl = "collect_global_exports ordered"
  have first: "imports_first env meta (opt_moduleReplacements opts) ordered"
    using compile_success [OF o first_nil] by blast
  have "validate_modules env ?rt ?reg ?gl [] ordered = Inr ms"
    using v by (auto simp: validateCompiledModules_def split: sum.splits)
  then obtain new where new: "ms = [] @ new" "list_all2 same_module ordered new" "\<forall>c \<in> set new. module_valid env ?rt ?reg ?gl ms c"
    using validate_modules_spec [of env ?rt ?reg ?gl "[]" ordered ms] imports_first_before [OF first]
      imports_first_distinct [OF first] by auto
  have "map providerTokens ms = map providerTokens ordered" "map cm_definition ms = map cm_definition ordered"
    using new(1,2) by (auto simp: list_all2_conv_all_nth list_eq_iff_nth_eq same_module_def)
  then have same: "providerTokens ` set ms = providerTokens ` set ordered" "cm_definition ` set ms = cm_definition ` set ordered"
    by (metis list.set_map)+
  have "set ?reg = (\<Union>c \<in> set ms. set (providerTokens c)) \<union> set ?rt"
    unfolding set_registered using same(1) by (metis image_image)
  moreover have "set ?gl = (\<Union>c \<in> {c \<in> set ms. md_global (cm_definition c)}. set (md_exports (cm_definition c)))"
  proof -
    have u: "(\<Union>c \<in> {c \<in> A. md_global (cm_definition c)}. set (md_exports (cm_definition c))) =
        (\<Union>d \<in> {d \<in> cm_definition ` A. md_global d}. set (md_exports d))" for A
      by auto
    show ?thesis unfolding set_global_exports u same(2) ..
  qed
  moreover have "set ?rt = providerToken env ` set (opt_providers opts) \<union> norm_tok env ` set (opt_validationTokens opts)"
    by (auto simp: mergeRuntimeTokenSets_def createRuntimeTokenSet_def p)
  moreover have "module_valid env ?rt ?reg ?gl ms c" using new(1,3) assms(2) by simp
  ultimately show ?thesis by blast
qed

definition sample_options :: module_options where
  "sample_options = \<lparr>opt_providers = [], opt_validationTokens = [], opt_moduleReplacements = []\<rparr>"

theorem compiled_graph_visibility_witness:
  "\<exists>ms c rt reg gl. compile_graph sample_env sample_modules 4 10 sample_options = Some (Inr ms) \<and> c \<in> set ms \<and>
     cm_type c = 10 \<and> module_valid sample_env rt reg gl ms c"
proof -
  have e: "map_option (map_sum id (map cm_type)) (compile_graph sample_env sample_modules 4 10 sample_options) = Some (Inr [12, 11, 10])"
    by code_simp
  then obtain x where "compile_graph sample_env sample_modules 4 10 sample_options = Some x" "map_sum id (map cm_type) x = Inr [12, 11, 10]"
    by (cases "compile_graph sample_env sample_modules 4 10 sample_options") auto
  then obtain ms where ms: "compile_graph sample_env sample_modules 4 10 sample_options = Some (Inr ms)" "map cm_type ms = [12, 11, 10]"
    using map_sum_InrD [of "map cm_type" x] by auto
  then have "10 \<in> set (map cm_type ms)" by simp
  then obtain c where c: "c \<in> set ms" "cm_type c = 10" by auto
  obtain rt reg gl where "module_valid sample_env rt reg gl ms c"
    using compiled_graph_visibility [OF ms(1) c(1)] by (elim exE conjE)
  with ms(1) c show ?thesis by (intro exI conjI)
qed

end
