(* ===== verification/JS_Number.thy ===== *)
theory JS_Number
  imports Complex_Main
begin

text \<open>
  Numbers of the language: a rational, or one of the values that are not finite.  The sources use
  integers far below the range in which doubles are exact, so rounding is left out.
\<close>

datatype js_number = Fin rat | PosInf | NegInf | NaN

definition is_finite :: "js_number \<Rightarrow> bool" where
  "is_finite v = (case v of Fin x \<Rightarrow> True | _ \<Rightarrow> False)"

definition as_integer :: "js_number \<Rightarrow> int option" where
  "as_integer v = (case v of Fin x \<Rightarrow> if of_int \<lfloor>x\<rfloor> = x then Some \<lfloor>x\<rfloor> else None | _ \<Rightarrow> None)"

definition max_safe_integer :: int where
  "max_safe_integer = 9007199254740991"

lemma as_integer_of_int [simp]: "as_integer (Fin (of_int n)) = Some n"
  by (simp add: as_integer_def)

end
