(* ===== verification/Module_Graph_Cache.thy ===== *)
theory Module_Graph_Cache
  imports Fluo_Prelude JS_Number
begin

text \<open>
  The class \<open>ModuleGraphCompileCache\<close> of \<open>packages/runtime/src/module-graph.ts\<close>: a bounded map of
  compile snapshots whose insertion order is the order of use.  The specification is a cache that
  forgets nothing (\<open>ideal_step\<close>) and answers only for the \<open>maxEntries\<close> keys used last; the bounded
  cache is a refinement of it.  Snapshots are opaque values.
\<close>

record ('k, 'v) graph_cache =
  gc_disposed :: bool
  gc_entries :: "('k, 'v) js_map"
  gc_maxEntries :: nat

datatype cache_range_error = MaxEntriesRange

definition new_graph_cache :: "int \<Rightarrow> cache_range_error + ('k, 'v) graph_cache" where
  "new_graph_cache maxEntries =
     (if maxEntries > max_safe_integer \<or> maxEntries \<le> 0 then Inl MaxEntriesRange
      else Inr \<lparr>gc_disposed = False, gc_entries = [], gc_maxEntries = nat maxEntries\<rparr>)"

definition graph_cache_get :: "'k \<Rightarrow> ('k, 'v) graph_cache \<Rightarrow> ('k, 'v) graph_cache \<times> 'v option" where
  "graph_cache_get k c =
     (if gc_disposed c then (c, None)
      else (case js_get (gc_entries c) k of
              None \<Rightarrow> (c, None)
            | Some v \<Rightarrow> (c\<lparr>gc_entries := js_set (js_delete (gc_entries c) k) k v\<rparr>, Some v)))"

definition graph_cache_set :: "'k \<Rightarrow> 'v \<Rightarrow> ('k, 'v) graph_cache \<Rightarrow> ('k, 'v) graph_cache" where
  "graph_cache_set k v c =
     (if gc_disposed c then c
      else (let es = js_set (js_delete (gc_entries c) k) k v
            in if length es \<le> gc_maxEntries c then c\<lparr>gc_entries := es\<rparr>
               else (case js_keys es of
                       [] \<Rightarrow> c\<lparr>gc_entries := es\<rparr>
                     | oldest # _ \<Rightarrow> c\<lparr>gc_entries := js_delete es oldest\<rparr>)))"

definition graph_cache_dispose :: "('k, 'v) graph_cache \<Rightarrow> ('k, 'v) graph_cache" where
  "graph_cache_dispose c = c\<lparr>gc_entries := [], gc_disposed := True\<rparr>"

definition graph_cache_size :: "('k, 'v) graph_cache \<Rightarrow> nat" where
  "graph_cache_size c = length (gc_entries c)"

section \<open>The unbounded cache\<close>

datatype ('k, 'v) cache_call = CacheGet 'k | CacheSet 'k 'v | CacheDispose

definition cache_step :: "('k, 'v) cache_call \<Rightarrow> ('k, 'v) graph_cache \<Rightarrow> ('k, 'v) graph_cache \<times> 'v option" where
  "cache_step op c =
     (case op of
        CacheGet k \<Rightarrow> graph_cache_get k c
      | CacheSet k v \<Rightarrow> (graph_cache_set k v c, None)
      | CacheDispose \<Rightarrow> (graph_cache_dispose c, None))"

fun cache_run :: "('k, 'v) cache_call list \<Rightarrow> ('k, 'v) graph_cache \<Rightarrow> ('k, 'v) graph_cache \<times> 'v option list" where
  "cache_run [] c = (c, [])"
| "cache_run (op # ops) c =
     (let (c1, r) = cache_step op c; (c2, rs) = cache_run ops c1 in (c2, r # rs))"

text \<open>\<open>window n m\<close> are the \<open>n\<close> entries of \<open>m\<close> used last.\<close>

definition window :: "nat \<Rightarrow> 'a list \<Rightarrow> 'a list" where
  "window n m = drop (length m - n) m"

definition ideal_step ::
  "nat \<Rightarrow> ('k, 'v) cache_call \<Rightarrow> bool \<times> ('k, 'v) js_map \<Rightarrow> (bool \<times> ('k, 'v) js_map) \<times> 'v option" where
  "ideal_step n op s =
     (let (gone, m) = s
      in case op of
           CacheGet k \<Rightarrow>
             (case (if gone then None else js_get (window n m) k) of
                None \<Rightarrow> (s, None)
              | Some v \<Rightarrow> ((gone, js_delete m k @ [(k, v)]), Some v))
         | CacheSet k v \<Rightarrow> ((if gone then s else (gone, js_delete m k @ [(k, v)])), None)
         | CacheDispose \<Rightarrow> ((True, []), None))"

fun ideal_run ::
  "nat \<Rightarrow> ('k, 'v) cache_call list \<Rightarrow> bool \<times> ('k, 'v) js_map \<Rightarrow> (bool \<times> ('k, 'v) js_map) \<times> 'v option list" where
  "ideal_run n [] s = (s, [])"
| "ideal_run n (op # ops) s =
     (let (s1, r) = ideal_step n op s; (s2, rs) = ideal_run n ops s1 in (s2, r # rs))"

definition cache_of :: "nat \<Rightarrow> bool \<times> ('k, 'v) js_map \<Rightarrow> ('k, 'v) graph_cache" where
  "cache_of n s = \<lparr>gc_disposed = fst s, gc_entries = window n (snd s), gc_maxEntries = n\<rparr>"

section \<open>The refinement\<close>

lemma window_split: obtains a where "m = a @ window n m"
  by (metis append_take_drop_id window_def)

lemma window_long: "length (window n m) = n \<Longrightarrow> window n (a @ window n m) = window n m"
  by (simp add: window_def)

lemma window_short: "length (window n m) < n \<Longrightarrow> window n m = m"
  by (simp add: window_def split: if_splits)

lemma window_length: "length (window n m) \<le> n"
  by (simp add: window_def)

lemma js_delete_append: "js_delete (a @ b) k = js_delete a k @ js_delete b k"
  by (simp add: js_delete_def)

lemma js_delete_absent: "k \<notin> fst ` set m \<Longrightarrow> js_delete m k = m"
  by (induction m) (auto simp: js_delete_def)

lemma js_set_delete: "js_set (js_delete m k) k v = js_delete m k @ [(k, v)]"
  by (auto simp: js_set_def js_has_def js_delete_def)

lemma js_set_absent: "k \<notin> fst ` set m \<Longrightarrow> js_set m k v = m @ [(k, v)]"
  by (simp add: js_set_def js_has_def)

lemma length_js_delete: "js_ok m \<Longrightarrow> k \<in> fst ` set m \<Longrightarrow> Suc (length (js_delete m k)) = length m"
proof (induction m)
  case (Cons x m)
  then show ?case
    using js_delete_absent [of k m] by (auto simp: js_delete_def)
qed simp

lemma js_ok_delete: "js_ok m \<Longrightarrow> js_ok (js_delete m k)"
  by (rule jsm.ok_del)

lemma js_ok_refresh: "js_ok m \<Longrightarrow> js_ok (js_delete m k @ [(k, v)])"
  using jsm.ok_put [of "js_delete m k" k v] by (simp add: js_set_delete js_ok_delete)

lemma delete_oldest: "js_ok (x # m) \<Longrightarrow> js_delete (x # m) (fst x) = m"
  using js_delete_absent [of "fst x" m] by (cases x) (simp add: js_delete_def)

lemma refresh_in_window:
  assumes ok: "js_ok m" and k: "k \<in> fst ` set (window n m)"
  shows "window n (js_delete m k @ [(k, v)]) = js_delete (window n m) k @ [(k, v)]"
    and "length (js_delete (window n m) k @ [(k, v)]) \<le> n"
proof -
  obtain a where m: "m = a @ window n m"
    by (rule window_split)
  have oka: "js_ok (a @ window n m)"
    using ok m by metis
  then have len: "length (js_delete (window n m) k @ [(k, v)]) = length (window n m)"
    using length_js_delete [OF _ k] by simp
  have "k \<notin> fst ` set a"
    using oka k by auto
  then have "js_delete m k = a @ js_delete (window n m) k"
    using m js_delete_append js_delete_absent by metis
  then show "window n (js_delete m k @ [(k, v)]) = js_delete (window n m) k @ [(k, v)]"
    using len m window_short [of n m] window_length [of n m]
    by (cases "length (window n m) < n") (simp_all add: window_def)
  show "length (js_delete (window n m) k @ [(k, v)]) \<le> n"
    using len window_length [of n m] by simp
qed

lemma refresh_outside_window:
  assumes n: "0 < n" and k: "k \<notin> fst ` set (window n m)"
  shows "window n (js_delete m k @ [(k, v)]) =
    (if length (window n m) < n then window n m @ [(k, v)] else tl (window n m @ [(k, v)]))"
proof -
  obtain a where m: "m = a @ window n m"
    by (rule window_split)
  show ?thesis
  proof (cases "length (window n m) < n")
    case True
    have w: "window n m = m"
      using True by (rule window_short)
    then have "window n (m @ [(k, v)]) = m @ [(k, v)]"
      using True by (simp add: window_def [of n "m @ _"])
    then show ?thesis
      using True k by (simp add: js_delete_absent w)
  next
    case False
    then have len: "length (window n m) = n"
      using window_length [of n m] by simp
    define w where "w = window n m"
    have "js_delete m k = js_delete a k @ w"
      unfolding w_def using m k js_delete_append js_delete_absent by metis
    moreover have "window n (js_delete a k @ w @ [(k, v)]) = tl (w @ [(k, v)])"
      using len n unfolding w_def [symmetric] by (cases w) (simp_all add: window_def)
    ultimately show ?thesis
      using False by (simp add: w_def)
  qed
qed

lemma set_refines:
  assumes ok: "js_ok m" and n: "0 < n"
  shows "graph_cache_set k v (cache_of n (False, m)) = cache_of n (False, js_delete m k @ [(k, v)])"
proof (cases "k \<in> fst ` set (window n m)")
  case True
  from refresh_in_window [OF ok True, of v] show ?thesis
    by (simp add: graph_cache_set_def cache_of_def js_set_delete)
next
  case False
  have okw: "js_ok (window n m @ [(k, v)])"
    using ok False distinct_drop [of "map fst m" "length m - n"]
    by (simp add: window_def drop_map)
  show ?thesis
  proof (cases "length (window n m) < n")
    case True
    then show ?thesis
      using refresh_outside_window [OF n False, of v] False
      by (simp add: graph_cache_set_def cache_of_def js_set_absent js_delete_absent)
  next
    case full: False
    then have len: "length (window n m) = n"
      using window_length [of n m] by simp
    then obtain x w where w: "window n m = x # w"
      using n by (cases "window n m") auto
    have "js_delete ((x # w) @ [(k, v)]) (fst x) = w @ [(k, v)]"
      using okw delete_oldest [of x "w @ [(k, v)]"] by (simp add: w)
    then show ?thesis
      using refresh_outside_window [OF n False, of v] False full w len
      by (simp add: graph_cache_set_def cache_of_def js_set_absent js_delete_absent js_keys_def Let_def)
  qed
qed

lemma get_refines:
  assumes ok: "js_ok m"
  shows "graph_cache_get k (cache_of n (False, m)) =
    (case js_get (window n m) k of
       None \<Rightarrow> (cache_of n (False, m), None)
     | Some v \<Rightarrow> (cache_of n (False, js_delete m k @ [(k, v)]), Some v))"
proof (cases "js_get (window n m) k")
  case (Some v)
  then have "k \<in> fst ` set (window n m)"
    by (force dest: js_get_in)
  from refresh_in_window [OF ok this, of v] Some show ?thesis
    by (simp add: graph_cache_get_def cache_of_def js_set_delete)
qed (simp add: graph_cache_get_def cache_of_def)

lemma step_refines:
  assumes "js_ok (snd s)" "0 < n"
  shows "cache_step op (cache_of n s) = map_prod (cache_of n) id (ideal_step n op s)
    \<and> js_ok (snd (fst (ideal_step n op s)))"
proof (cases "fst s")
  case True
  then show ?thesis
    using assms
    by (cases s; cases op)
      (simp_all add: cache_step_def ideal_step_def cache_of_def graph_cache_get_def graph_cache_set_def
        graph_cache_dispose_def window_def)
next
  case False
  then obtain m where s: "s = (False, m)"
    by (cases s) auto
  show ?thesis
  proof (cases op)
    case (CacheGet k)
    with s assms show ?thesis
      using get_refines [of m k n]
      by (simp add: cache_step_def ideal_step_def js_ok_refresh [simplified] split: option.splits)
  next
    case (CacheSet k v)
    with s assms show ?thesis
      using set_refines [of m n k v] js_ok_refresh [of m k v]
      by (simp add: cache_step_def ideal_step_def)
  next
    case CacheDispose
    with s show ?thesis
      by (simp add: cache_step_def ideal_step_def cache_of_def graph_cache_dispose_def window_def)
  qed
qed

lemma run_refines:
  "js_ok (snd s) \<Longrightarrow> 0 < n \<Longrightarrow>
     cache_run ops (cache_of n s) = map_prod (cache_of n) id (ideal_run n ops s)"
proof (induction ops arbitrary: s)
  case (Cons op ops)
  then show ?case
    using step_refines [OF Cons.prems, of op]
    by (auto simp: split: prod.splits)
qed simp

text \<open>
  C13. The bounded compile cache is a refinement of one that forgets nothing: over any sequence of
  \<open>get\<close>, \<open>set\<close> and \<open>dispose\<close> calls on a freshly constructed cache, every answer is the answer of the
  unbounded cache restricted to the \<open>maxEntries\<close> keys used last, the retained entries are exactly those,
  in order of use, and there are never more than \<open>maxEntries\<close> of them.
\<close>

theorem graph_cache_is_lru:
  assumes "new_graph_cache maxEntries = Inr c"
  shows "cache_run ops c =
      map_prod (cache_of (nat maxEntries)) id (ideal_run (nat maxEntries) ops (False, []))
    \<and> graph_cache_size (fst (cache_run ops c)) \<le> nat maxEntries"
proof -
  have c: "c = cache_of (nat maxEntries) (False, [])" and pos: "0 < nat maxEntries"
    using assms by (auto simp: new_graph_cache_def cache_of_def window_def split: if_splits)
  show ?thesis
    using run_refines [of "(False, [])" "nat maxEntries" ops, OF _ pos] window_length
    unfolding c graph_cache_size_def by (simp add: cache_of_def)
qed

definition sample_calls :: "(string, string) cache_call list" where
  "sample_calls = [CacheSet ''a'' ''1'', CacheSet ''b'' ''2'', CacheGet ''a'', CacheSet ''c'' ''3'',
     CacheGet ''b'', CacheGet ''a'']"

theorem graph_cache_is_lru_witness:
  "new_graph_cache 2 = Inr (\<lparr>gc_disposed = False, gc_entries = [], gc_maxEntries = 2\<rparr> :: (string, string) graph_cache)
   \<and> cache_run sample_calls \<lparr>gc_disposed = False, gc_entries = [], gc_maxEntries = 2\<rparr>
     = (\<lparr>gc_disposed = False, gc_entries = [(''c'', ''3''), (''a'', ''1'')], gc_maxEntries = 2\<rparr>,
        [None, None, Some ''1'', None, None, Some ''1''])"
proof -
  have new: "new_graph_cache 2 = Inr (\<lparr>gc_disposed = False, gc_entries = [], gc_maxEntries = 2\<rparr> :: (string, string) graph_cache)"
    by (simp add: new_graph_cache_def max_safe_integer_def)
  have "map_prod (cache_of 2) id (ideal_run 2 sample_calls (False, []))
     = (\<lparr>gc_disposed = False, gc_entries = [(''c'', ''3''), (''a'', ''1'')], gc_maxEntries = 2\<rparr>,
        [None, None, Some ''1'', None, None, Some ''1''])"
    by code_simp
  then show ?thesis
    using graph_cache_is_lru [OF new, of sample_calls] new by simp
qed

end
