(* ===== verification/Expiring_Entries.thy ===== *)
theory Expiring_Entries
  imports Fluo_Prelude
begin

text \<open>
  What the in-memory stores of the code base share: the loop that sweeps expired entries out of a
  \<open>Map\<close> and reports the earliest remaining expiry, and the contract of a fixed-window request
  counter (\<open>fixed_window\<close>), which both the throttler store and the rate-limit middleware
  provide.  Times are milliseconds, as mathematical integers.
\<close>

section \<open>Sweeping\<close>

definition live_at :: "('e \<Rightarrow> int option) \<Rightarrow> int \<Rightarrow> 'e \<Rightarrow> bool" where
  "live_at expiry now e = (case expiry e of None \<Rightarrow> True | Some x \<Rightarrow> now < x)"

text \<open>The accumulator is \<open>nextSweepAt\<close>, \<open>None\<close> for positive infinity.\<close>

fun sweep_loop ::
  "('e \<Rightarrow> int option) \<Rightarrow> int \<Rightarrow> ('k, 'e) js_map \<Rightarrow> int option \<Rightarrow> ('k, 'e) js_map \<times> int option" where
  "sweep_loop expiry now [] next = ([], next)"
| "sweep_loop expiry now ((k, e) # m) next =
     (case expiry e of
        None \<Rightarrow> (let (m', n) = sweep_loop expiry now m next in ((k, e) # m', n))
      | Some x \<Rightarrow>
          if now \<ge> x then sweep_loop expiry now m next
          else (let (m', n) = sweep_loop expiry now m (Some (case next of None \<Rightarrow> x | Some y \<Rightarrow> min y x))
                in ((k, e) # m', n)))"

definition sweep_entries :: "('e \<Rightarrow> int option) \<Rightarrow> ('k, 'e) js_map \<Rightarrow> int \<Rightarrow> ('k, 'e) js_map \<times> int" where
  "sweep_entries expiry m now =
     (let (m', n) = sweep_loop expiry now m None in (m', case n of None \<Rightarrow> 0 | Some x \<Rightarrow> x))"

text \<open>\<open>next\<close> is positive and no later than any expiry.\<close>

definition next_ok :: "('e \<Rightarrow> int option) \<Rightarrow> ('k, 'e) js_map \<Rightarrow> int \<Rightarrow> bool" where
  "next_ok expiry m next \<longleftrightarrow> (\<forall>(k, e) \<in> set m. case expiry e of None \<Rightarrow> True | Some x \<Rightarrow> 0 < next \<and> next \<le> x)"

lemma sweep_loop_keeps: "fst (sweep_loop expiry now m next) = filter (\<lambda>(k, e). live_at expiry now e) m"
  by (induction expiry now m "next" rule: sweep_loop.induct)
    (auto simp: live_at_def split: option.splits prod.splits)

lemma sweep_loop_bound:
  "snd (sweep_loop expiry now m (Some y)) \<noteq> None \<and> the (snd (sweep_loop expiry now m (Some y))) \<le> y"
proof (induction m arbitrary: y)
  case (Cons p m)
  obtain k e where p: "p = (k, e)"
    by (cases p)
  show ?case
    using Cons.IH [of y] Cons.IH [of "min y (the (expiry e))"]
    by (auto simp: p split: option.splits prod.splits)
qed simp

lemma sweep_loop_next:
  "(k, e) \<in> set m \<Longrightarrow> expiry e = Some x \<Longrightarrow> now < x \<Longrightarrow>
     (\<exists>n. snd (sweep_loop expiry now m next) = Some n \<and> n \<le> x)"
proof (induction m arbitrary: "next")
  case (Cons p m)
  obtain k' e' where p: "p = (k', e')"
    by (cases p)
  show ?case
  proof (cases "(k, e) \<in> set m")
    case True
    then show ?thesis
      using Cons.IH [OF True Cons.prems(2,3)]
      by (auto simp: p split: option.splits prod.splits if_splits) (metis snd_conv)+
  next
    case False
    with Cons.prems(1) have "e' = e"
      by (simp add: p)
    then show ?thesis
      using Cons.prems(2,3) sweep_loop_bound [of expiry now m "case next of None \<Rightarrow> x | Some y \<Rightarrow> min y x"]
      by (auto simp: p split: option.splits prod.splits)
  qed
qed simp

lemma sweep_loop_positive:
  "0 \<le> now \<Longrightarrow> (case next of None \<Rightarrow> True | Some y \<Rightarrow> 0 < y) \<Longrightarrow>
     snd (sweep_loop expiry now m next) = Some n \<Longrightarrow> 0 < n"
  by (induction expiry now m "next" arbitrary: n rule: sweep_loop.induct)
    (auto split: option.splits prod.splits if_splits)

lemma sweep_loop_empty:
  "(\<And>k e. (k, e) \<in> set m \<Longrightarrow> \<exists>x. expiry e = Some x \<and> x \<le> now) \<Longrightarrow> snd (sweep_loop expiry now m next) = next"
proof (induction m)
  case (Cons p m)
  obtain k e where p: "p = (k, e)"
    by (cases p)
  obtain x where "expiry e = Some x" "x \<le> now"
    using Cons.prems [of k e] by (auto simp: p)
  moreover have "snd (sweep_loop expiry now m next) = next"
    using Cons.prems by (intro Cons.IH) auto
  ultimately show ?case
    by (simp add: p)
qed simp

lemma sweep_entries_keeps: "fst (sweep_entries expiry m now) = filter (\<lambda>(k, e). live_at expiry now e) m"
  using sweep_loop_keeps [of expiry now m None] by (auto simp: sweep_entries_def split: prod.splits)

lemma sweep_entries_next:
  assumes "0 \<le> now"
  shows "next_ok expiry (fst (sweep_entries expiry m now)) (snd (sweep_entries expiry m now))"
proof -
  have "0 < snd (sweep_entries expiry m now) \<and> snd (sweep_entries expiry m now) \<le> x"
    if "(k, e) \<in> set m" "expiry e = Some x" "now < x" for k e x
  proof -
    have "\<exists>n. snd (sweep_loop expiry now m None) = Some n \<and> n \<le> x"
      using that by (rule sweep_loop_next)
    then obtain n where n: "snd (sweep_loop expiry now m None) = Some n" "n \<le> x"
      by blast
    moreover have "0 < n"
      using sweep_loop_positive [OF assms, of None expiry m n] n(1) by simp
    ultimately show ?thesis
      by (auto simp: sweep_entries_def split: prod.splits)
  qed
  then show ?thesis
    by (auto simp: next_ok_def sweep_entries_keeps live_at_def split: option.splits)
qed

text \<open>The sweep that runs only when the clock has reached \<open>next\<close> removes as much as one that always runs.\<close>

definition swept :: "('e \<Rightarrow> int option) \<Rightarrow> int \<Rightarrow> ('k, 'e) js_map \<Rightarrow> int \<Rightarrow> ('k, 'e) js_map \<times> int" where
  "swept expiry now m next = (if now \<ge> next then sweep_entries expiry m now else (m, next))"

lemma swept_keeps:
  assumes "next_ok expiry m next"
  shows "fst (swept expiry now m next) = filter (\<lambda>(k, e). live_at expiry now e) m"
proof (cases "now \<ge> next")
  case False
  then have "\<forall>p \<in> set m. case p of (k, e) \<Rightarrow> live_at expiry now e"
    using assms by (fastforce simp: next_ok_def live_at_def split: option.splits)
  then have "filter (\<lambda>(k, e). live_at expiry now e) m = m"
    by simp
  with False show ?thesis
    by (simp add: swept_def)
qed (simp add: swept_def sweep_entries_keeps)

lemma swept_next: "next_ok expiry m next \<Longrightarrow> 0 \<le> now \<Longrightarrow>
    next_ok expiry (fst (swept expiry now m next)) (snd (swept expiry now m next))"
  using sweep_entries_next by (auto simp: swept_def)

lemma swept_subset: "set (fst (swept expiry now m next)) \<subseteq> set m"
  by (auto simp: swept_def sweep_entries_keeps)

lemma js_ok_filter: "js_ok m \<Longrightarrow> js_ok (filter P m)"
  by (induction m) auto

lemma js_get_filter:
  "js_ok m \<Longrightarrow> js_get (filter P m) k = (case js_get m k of None \<Rightarrow> None | Some e \<Rightarrow> if P (k, e) then Some e else None)"
proof (induction m)
  case (Cons p m)
  then show ?case
    by (cases p) (force simp: js_get_Cons js_get_def dest: map_of_SomeD split: option.splits)
qed simp

lemma swept_ok: "js_ok m \<Longrightarrow> js_ok (fst (swept expiry now m next))"
  by (simp add: swept_def sweep_entries_keeps js_ok_filter)

lemma swept_get:
  assumes "js_ok m"
  shows "js_get (fst (swept expiry now m next)) k =
    (case js_get m k of
       None \<Rightarrow> None
     | Some e \<Rightarrow> if now \<ge> next \<and> \<not> live_at expiry now e then None else Some e)"
  using assms by (simp add: swept_def sweep_entries_keeps js_get_filter split: option.splits)

lemma next_ok_subset: "next_ok expiry m next \<Longrightarrow> set m' \<subseteq> set m \<Longrightarrow> next_ok expiry m' next"
  by (auto simp: next_ok_def)

text \<open>Adding an entry and lowering \<open>next\<close> to its expiry, as the stores do.\<close>

lemma next_ok_add:
  assumes "next_ok expiry m next" "set m' \<subseteq> insert (k, e) (set m)" "expiry e = Some x" "0 < x" "0 \<le> next"
  shows "next_ok expiry m' (if next = 0 then x else min next x)"
  unfolding next_ok_def
proof (intro ballI)
  fix p
  assume "p \<in> set m'"
  then consider "p = (k, e)" | "p \<in> set m"
    using assms(2) by auto
  then show "case p of (k, e) \<Rightarrow> case expiry e of None \<Rightarrow> True | Some y \<Rightarrow> 0 < (if next = 0 then x else min next x) \<and> (if next = 0 then x else min next x) \<le> y"
  proof cases
    case 1
    with assms(3-5) show ?thesis
      by simp
  next
    case 2
    with assms(1) have "case p of (k, e) \<Rightarrow> case expiry e of None \<Rightarrow> True | Some y \<Rightarrow> 0 < next \<and> next \<le> y"
      by (auto simp: next_ok_def)
    with assms(4) show ?thesis
      by (cases p) (auto split: option.splits)
  qed
qed

section \<open>Fixed-window counters\<close>

text \<open>A window is the number of requests it has seen and the time it ends.\<close>

definition next_window :: "(int \<times> int) option \<Rightarrow> int \<Rightarrow> int \<Rightarrow> int \<times> int" where
  "next_window w now span_ms =
     (case w of
        None \<Rightarrow> (1, now + span_ms)
      | Some (c, r) \<Rightarrow> if now \<ge> r then (1, now + span_ms) else (c + 1, r))"

definition live_window :: "int \<Rightarrow> (int \<times> int) option \<Rightarrow> (int \<times> int) option" where
  "live_window now w = (case w of None \<Rightarrow> None | Some (c, r) \<Rightarrow> if now < r then Some (c, r) else None)"

type_synonym 'k hit = "'k \<times> int \<times> int"

definition bucket :: "'k \<Rightarrow> int \<Rightarrow> 'k hit list \<Rightarrow> 'k hit list" where
  "bucket k r trace = filter (\<lambda>(k', r', c). k' = k \<and> r' = r) trace"

fun run_hits :: "('k \<Rightarrow> int \<Rightarrow> 'w \<Rightarrow> 's \<Rightarrow> 's \<times> int \<times> int) \<Rightarrow> ('k \<times> int \<times> 'w) list \<Rightarrow> 's \<Rightarrow> 'k hit list" where
  "run_hits hit [] s = []"
| "run_hits hit ((k, now, w) # calls) s = (let (s', c, r) = hit k now w s in (k, r, c) # run_hits hit calls s')"

text \<open>A counter that sees the requests of one key only.\<close>

fun solo_windows :: "('w \<Rightarrow> int) \<Rightarrow> (int \<times> int) option \<Rightarrow> (int \<times> 'w) list \<Rightarrow> (int \<times> int) list" where
  "solo_windows span w [] = []"
| "solo_windows span w ((now, x) # calls) =
     (let w' = next_window w now (span x) in w' # solo_windows span (Some w') calls)"

lemma next_window_live: "t \<le> now \<Longrightarrow> next_window (live_window t w) now span_ms = next_window w now span_ms"
  by (auto simp: next_window_def live_window_def split: option.splits)

lemma live_window_later: "t \<le> now \<Longrightarrow> live_window now (live_window t w) = live_window now w"
  by (auto simp: live_window_def split: option.splits)

lemma next_window_live_eq:
  assumes "live_window t w = live_window t w'" "t \<le> now"
  shows "next_window w now span_ms = next_window w' now span_ms"
  using next_window_live [OF assms(2)] assms(1) by metis

lemma live_window_mono:
  assumes "live_window t w = live_window t w'" "t \<le> now"
  shows "live_window now w = live_window now w'"
  using live_window_later [OF assms(2)] assms(1) by metis

locale fixed_window =
  fixes hit :: "'k \<Rightarrow> int \<Rightarrow> 'w \<Rightarrow> 's \<Rightarrow> 's \<times> int \<times> int"
    and span :: "'w \<Rightarrow> int"
    and look :: "'s \<Rightarrow> 'k \<Rightarrow> (int \<times> int) option"
    and inv :: "'s \<Rightarrow> bool"
  assumes hit_result: "inv s \<Longrightarrow> snd (hit k now w s) = next_window (look s k) now (span w)"
    and hit_look: "inv s \<Longrightarrow> live_window now (look (fst (hit k now w s)) k') =
      live_window now (if k' = k then Some (next_window (look s k) now (span w)) else look s k')"
    and hit_inv: "inv s \<Longrightarrow> inv (fst (hit k now w s))"
begin

definition counted :: "'k hit list \<Rightarrow> int \<Rightarrow> 's \<Rightarrow> bool" where
  "counted trace t s \<longleftrightarrow> inv s
     \<and> (\<forall>k r. map (\<lambda>(k', r', c). c) (bucket k r trace) = [1..int (length (bucket k r trace))])
     \<and> (\<forall>k r. bucket k r trace \<noteq> [] \<longrightarrow> t < r \<longrightarrow> (\<exists>c. look s k = Some (c, r)))
     \<and> (\<forall>k c r. look s k = Some (c, r) \<longrightarrow> t < r \<longrightarrow> c = int (length (bucket k r trace)))"

lemma hit_counted:
  assumes rel: "counted trace t s" and t: "t \<le> now" and span: "0 < span w"
    and hit: "hit k now w s = (s', c, r)"
  shows "counted (trace @ [(k, r, c)]) now s'"
proof -
  have inv: "inv s"
    using rel by (simp add: counted_def)
  have res: "(c, r) = next_window (look s k) now (span w)"
    using hit_result [OF inv, of k now w] hit by simp
  have later: "now < r"
    using res span by (auto simp: next_window_def split: option.splits if_splits)
  have look: "live_window now (look s' k') = live_window now (if k' = k then Some (c, r) else look s k')" for k'
    using hit_look [OF inv, of now k w k'] hit res by simp
  have same: "look s' k = Some (c, r)"
    using look [of k] later by (auto simp: live_window_def split: option.splits if_splits)
  have other: "look s' k' = Some (c', r') \<longleftrightarrow> look s k' = Some (c', r')" if "k' \<noteq> k" "now < r'" for k' c' r'
    using look [of k'] that by (auto simp: live_window_def split: option.splits if_splits)
  have bucket_new: "bucket k' r' (trace @ [(k, r, c)]) = bucket k' r' trace @ (if k' = k \<and> r' = r then [(k, r, c)] else [])" for k' r'
    by (auto simp: bucket_def)
  have only: "look s k = Some (c', r')" if "bucket k r' trace \<noteq> []" "now < r'" "c' = int (length (bucket k r' trace))" for r' c'
    using rel that t unfolding counted_def by (metis order.strict_trans1)
  have counts: "c = int (length (bucket k r trace)) + 1"
  proof (cases "live_window now (look s k)")
    case None
    then have fresh: "c = 1" "r = now + span w"
      using res by (auto simp: next_window_def live_window_def split: option.splits if_splits)
    have "bucket k r trace = []"
      using only [of r] None later by (force simp: live_window_def)
    with fresh show ?thesis
      by simp
  next
    case (Some w)
    then have "look s k = Some (c - 1, r)"
      using res by (auto simp: next_window_def live_window_def split: option.splits if_splits)
    then have "c - 1 = int (length (bucket k r trace))"
      using rel later t unfolding counted_def by (metis order.strict_trans1)
    then show ?thesis
      by simp
  qed
  have run: "map (\<lambda>(k', r', c). c) (bucket k' r' (trace @ [(k, r, c)])) = [1..int (length (bucket k' r' (trace @ [(k, r, c)])))]" for k' r'
  proof (cases "k' = k \<and> r' = r")
    case True
    define b where "b = bucket k r trace"
    have new: "bucket k r (trace @ [(k, r, c)]) = b @ [(k, r, c)]"
      by (simp add: bucket_new b_def)
    have "map (\<lambda>(k', r', c). c) b = [1..int (length b)]"
      using rel by (simp add: counted_def b_def)
    moreover have "[1..int (length b)] @ [c] = [1..int (length (b @ [(k, r, c)]))]"
      using counts upto_rec2 [of 1 c] by (simp add: b_def add.commute)
    ultimately show ?thesis
      using True by (simp add: new)
  next
    case False
    then show ?thesis
      using rel by (auto simp: counted_def bucket_new)
  qed
  have present: "\<exists>c'. look s' k' = Some (c', r')" if ne: "bucket k' r' (trace @ [(k, r, c)]) \<noteq> []" and l: "now < r'" for k' r'
  proof (cases "k' = k")
    case True
    show ?thesis
    proof (cases "r' = r")
      case True
      with \<open>k' = k\<close> same show ?thesis by blast
    next
      case False
      with ne True have "bucket k r' trace \<noteq> []"
        by (simp add: bucket_new)
      from only [OF this l refl] have "r = r'"
        using res l by (auto simp: next_window_def split: if_splits)
      with False show ?thesis by simp
    qed
  next
    case False
    with ne have "bucket k' r' trace \<noteq> []"
      by (simp add: bucket_new)
    then obtain c' where "look s k' = Some (c', r')"
      using rel l t unfolding counted_def by (metis order.strict_trans1)
    with other [OF False l] show ?thesis by blast
  qed
  have length: "c' = int (length (bucket k' r' (trace @ [(k, r, c)])))" if lk: "look s' k' = Some (c', r')" and l: "now < r'" for k' c' r'
  proof (cases "k' = k")
    case True
    then have "c' = c" "r' = r"
      using lk same by simp_all
    moreover have "int (length (bucket k r (trace @ [(k, r, c)]))) = c"
      using counts by (subst bucket_new) simp
    ultimately show ?thesis
      using True by simp
  next
    case False
    with lk other [OF False l] have "look s k' = Some (c', r')" by blast
    then have "c' = int (length (bucket k' r' trace))"
      using rel l t unfolding counted_def by (metis order.strict_trans1)
    with False show ?thesis by (simp add: bucket_new)
  qed
  have "inv s'"
    using hit_inv [OF inv, of k now w] hit by simp
  with run present length show ?thesis
    unfolding counted_def by blast
qed

text \<open>Other keys do not interfere.\<close>

lemma run_isolated:
  "inv s \<Longrightarrow> sorted (t # map (fst \<circ> snd) calls) \<Longrightarrow> live_window t (look s k) = live_window t w \<Longrightarrow>
     map (\<lambda>(k', r, c). (c, r)) (filter (\<lambda>(k', r, c). k' = k) (run_hits hit calls s)) =
       solo_windows span w (map snd (filter (\<lambda>(k', call). k' = k) calls))"
proof (induction calls arbitrary: s t w)
  case (Cons call calls)
  obtain k' now x s' c r where call: "call = (k', now, x)" and h: "hit k' now x s = (s', c, r)"
    by (metis prod_cases3)
  have t: "t \<le> now" "sorted (now # map (fst \<circ> snd) calls)"
    using Cons.prems(2) by (simp_all add: call comp_def)
  have inv: "inv s'"
    using hit_inv [OF Cons.prems(1), of k' now x] by (simp add: h)
  have look: "live_window now (look s' k) = live_window now (if k = k' then Some (next_window (look s k') now (span x)) else look s k)"
    using hit_look [OF Cons.prems(1), of now k' x k] by (simp add: h)
  show ?case
  proof (cases "k' = k")
    case True
    have "next_window w now (span x) = (c, r)"
      using hit_result [OF Cons.prems(1), of k' now x] next_window_live_eq [OF Cons.prems(3) t(1)] True h by simp
    moreover have "live_window now (look s' k) = live_window now (Some (next_window w now (span x)))"
      using look next_window_live_eq [OF Cons.prems(3) t(1)] True by simp
    ultimately show ?thesis
      using Cons.IH [OF inv t(2), of "Some (next_window w now (span x))"] True h by (simp add: call Let_def)
  next
    case False
    then have "live_window now (look s' k) = live_window now w"
      using look live_window_mono [OF Cons.prems(3) t(1)] by auto
    from Cons.IH [OF inv t(2) this] False show ?thesis
      by (simp add: call h)
  qed
qed simp

lemma counted_init: "inv s \<Longrightarrow> (\<And>k. look s k = None) \<Longrightarrow> counted [] t s"
  by (simp add: counted_def bucket_def)

lemma run_counted:
  assumes "counted trace t s" "sorted (t # map (fst \<circ> snd) calls)" "\<forall>(k, now, w) \<in> set calls. 0 < span w"
  shows "\<exists>t' s'. counted (trace @ run_hits hit calls s) t' s'"
  using assms
proof (induction calls arbitrary: trace t s)
  case (Cons call calls)
  obtain k now w s' c r where call: "call = (k, now, w)" and h: "hit k now w s = (s', c, r)"
    by (metis prod_cases3)
  have "counted (trace @ [(k, r, c)]) now s'"
    using Cons.prems h by (intro hit_counted [of trace t]) (auto simp: call)
  from Cons.IH [OF this] Cons.prems show ?case
    by (auto simp: call h)
qed auto

lemma counted_counts:
  "counted trace t s \<Longrightarrow> map (\<lambda>(k', r', c). c) (bucket k r trace) = [1..int (length (bucket k r trace))]"
  by (simp add: counted_def)

end

text \<open>Admitting the requests whose count is within the limit admits the first \<open>limit\<close> of them.\<close>

lemma admitted_prefix:
  "map (\<lambda>c. c \<le> limit) [1..int n] = map (\<lambda>i. int i < limit) [0..<n]"
proof (induction n)
  case (Suc n)
  have "[1..int (Suc n)] = [1..int n] @ [int n + 1]"
    using upto_rec2 [of 1 "int n + 1"] by (simp add: add.commute)
  with Suc show ?case
    by auto
qed simp

end
