(* ===== verification/Uri_Component.thy ===== *)
theory Uri_Component
  imports JS_String
begin

text \<open>
  Percent coding on strings of code units below 256: a character that is kept stands for itself, any
  other one for its UTF-8 bytes in hexadecimal.  The locale \<open>percent_coding\<close> proves, for every set of
  kept characters without \<open>%\<close>, that \<open>decode_uri\<close> inverts the coding and which characters can
  occur in its output; it is interpreted on the characters of the language's \<open>encodeURIComponent\<close> here
  and on those of RFC 8187 in \<open>Http_Headers\<close>.
\<close>

definition hex_digit :: "nat \<Rightarrow> char" where
  "hex_digit d = char_of (if d < 10 then 48 + d else 55 + d)"

definition unhex_digit :: "char \<Rightarrow> nat" where
  "unhex_digit c = (let n = of_char c in if n < 58 then n - 48 else n - 55)"

definition percent_byte :: "nat \<Rightarrow> string" where
  "percent_byte n = [CHR ''%'', hex_digit (n div 16), hex_digit (n mod 16)]"

definition is_alnum :: "char \<Rightarrow> bool" where
  "is_alnum c \<longleftrightarrow>
     (let n = of_char c :: nat
      in 48 \<le> n \<and> n \<le> 57 \<or> 65 \<le> n \<and> n \<le> 90 \<or> 97 \<le> n \<and> n \<le> 122)"

definition percent_char :: "(char \<Rightarrow> bool) \<Rightarrow> char \<Rightarrow> string" where
  "percent_char keep c =
     (let n = of_char c
      in if keep c then [c]
         else if n < 128 then percent_byte n
         else percent_byte (192 + n div 64) @ percent_byte (128 + n mod 64))"

definition percent_encode :: "(char \<Rightarrow> bool) \<Rightarrow> string \<Rightarrow> string" where
  "percent_encode keep s = concat (map (percent_char keep) s)"

definition uri_unreserved :: "char \<Rightarrow> bool" where
  "uri_unreserved c \<longleftrightarrow> is_alnum c \<or> c \<in> set ''-_.!~*()'' \<or> c = CHR 0x27"

definition encodeURIComponent :: "string \<Rightarrow> string" where
  "encodeURIComponent s = percent_encode uri_unreserved s"

fun decode_uri :: "string \<Rightarrow> string" where
  "decode_uri [] = []"
| "decode_uri (c # cs) =
     (if c \<noteq> CHR ''%'' then c # decode_uri cs
      else (case cs of
              h # l # rest \<Rightarrow>
                (let b = 16 * unhex_digit h + unhex_digit l
                 in if b < 128 then char_of b # decode_uri rest
                    else (case rest of
                            p # h2 # l2 # rest2 \<Rightarrow>
                              char_of (64 * (b - 192) + (16 * unhex_digit h2 + unhex_digit l2 - 128)) # decode_uri rest2
                          | _ \<Rightarrow> []))
            | _ \<Rightarrow> []))"

lemma unhex_hex: "d < 16 \<Longrightarrow> unhex_digit (hex_digit d) = d"
  by (simp add: unhex_digit_def hex_digit_def Let_def)

lemma unhex_byte: "n < 256 \<Longrightarrow> 16 * unhex_digit (hex_digit (n div 16)) + unhex_digit (hex_digit (n mod 16)) = n"
  by (simp add: unhex_hex)

lemma hex_alnum: "d < 16 \<Longrightarrow> is_alnum (hex_digit d)"
  by (simp add: is_alnum_def hex_digit_def Let_def)

lemma of_char_bound: "(of_char c :: nat) < 256"
  using nat_of_char_less_256 [of c] .

lemma decode_one_byte: "n < 128 \<Longrightarrow> decode_uri (percent_byte n @ s) = char_of n # decode_uri s"
  using unhex_byte [of n] by (simp add: percent_byte_def Let_def)

lemma decode_two_bytes:
  assumes "n < 256" "128 \<le> n"
  shows "decode_uri (percent_byte (192 + n div 64) @ percent_byte (128 + n mod 64) @ s) = char_of n # decode_uri s"
proof -
  define b where "b = 192 + n div 64"
  define l where "l = 128 + n mod 64"
  have bounds: "b < 256" "l < 256" "128 \<le> b" "64 * (b - 192) + (l - 128) = n"
    using assms by (simp_all add: b_def l_def)
  then show ?thesis
    using unhex_byte [of b] unhex_byte [of l]
    by (simp add: percent_byte_def Let_def b_def [symmetric] l_def [symmetric]
        del: decode_uri.simps add: decode_uri.simps(2) [of "CHR ''%''"])
qed

lemma percent_byte_chars: "x \<in> set (percent_byte n) \<Longrightarrow> n < 256 \<Longrightarrow> is_alnum x \<or> x = CHR ''%''"
  using hex_alnum [of "n div 16"] hex_alnum [of "n mod 16"] by (auto simp: percent_byte_def)

locale percent_coding =
  fixes keep :: "char \<Rightarrow> bool"
  assumes no_percent: "\<not> keep CHR ''%''"
begin

lemma decode_char: "decode_uri (percent_char keep c @ s) = c # decode_uri s"
proof -
  have n: "(of_char c :: nat) < 256" "char_of (of_char c :: nat) = c"
    by (simp_all add: of_char_bound)
  consider "keep c" | "\<not> keep c" "(of_char c :: nat) < 128" | "\<not> keep c" "128 \<le> (of_char c :: nat)"
    by linarith
  then show ?thesis
  proof cases
    case 1
    then show ?thesis
      using no_percent by (auto simp: percent_char_def Let_def)
  next
    case 2
    then show ?thesis
      using n decode_one_byte [of "of_char c" s] by (simp add: percent_char_def Let_def del: decode_uri.simps)
  next
    case 3
    then show ?thesis
      using n decode_two_bytes [of "of_char c" s] by (simp add: percent_char_def Let_def del: decode_uri.simps)
  qed
qed

lemma decode_encode_append: "decode_uri (percent_encode keep s @ t) = s @ decode_uri t"
  by (induction s) (simp_all add: percent_encode_def decode_char del: decode_uri.simps)

lemma decode_encode: "decode_uri (percent_encode keep s) = s"
  using decode_encode_append [of s "[]"] by simp

lemma encode_inject: "percent_encode keep s = percent_encode keep t \<longleftrightarrow> s = t"
  by (metis decode_encode)

lemma encode_char_chars:
  assumes "x \<in> set (percent_char keep d)"
  shows "keep x \<or> is_alnum x \<or> x = CHR ''%''"
proof -
  have bounds: "192 + of_char d div 64 < (256 :: nat)" "128 + of_char d mod 64 < (256 :: nat)"
    using of_char_bound [of d] by linarith+
  consider "keep d" "x = d" | "x \<in> set (percent_byte (of_char d))"
    | "x \<in> set (percent_byte (192 + of_char d div 64))" | "x \<in> set (percent_byte (128 + of_char d mod 64))"
    using assms by (auto simp: percent_char_def Let_def split: if_splits)
  then show ?thesis
    using percent_byte_chars bounds of_char_bound [of d] by cases blast+
qed

lemma encode_chars: "c \<in> set (percent_encode keep s) \<Longrightarrow> keep c \<or> is_alnum c \<or> c = CHR ''%''"
  using encode_char_chars by (auto simp: percent_encode_def)

end

interpretation uri: percent_coding uri_unreserved
  by unfold_locales (simp add: uri_unreserved_def is_alnum_def)

lemma encode_uri_inject [simp]: "encodeURIComponent s = encodeURIComponent t \<longleftrightarrow> s = t"
  by (simp add: encodeURIComponent_def uri.encode_inject)

lemma encode_no_colon [simp]: "CHR '':'' \<notin> set (encodeURIComponent s)"
  using uri.encode_chars [of "CHR '':''" s] by (auto simp: encodeURIComponent_def uri_unreserved_def is_alnum_def)

lemma encode_no_bar [simp]: "CHR ''|'' \<notin> set (encodeURIComponent s)"
  using uri.encode_chars [of "CHR ''|''" s] by (auto simp: encodeURIComponent_def uri_unreserved_def is_alnum_def)

end
