(* ===== verification/Throttler.thy ===== *)
theory Throttler
  imports JS_Number Expiring_Entries Uri_Component
begin

text \<open>
  \<open>packages/throttler/src\<close>: the option and entry validation (\<open>validation.ts\<close>), the in-memory store
  (\<open>store.ts\<close>) and the guard that enforces the limits (\<open>guard.ts\<close>).

  The metadata a handler's decorators stored is part of its descriptor.  The client key is an argument: what \<open>keyGenerator\<close> or
  \<open>resolveClientIdentity\<close> returned, or the error it threw.  The custom store of the options is the
  parameter \<open>consume\<close> of the guard; with none configured it is the in-memory store.
\<close>

section \<open>Validation\<close>

datatype throttle_error = InvalidNumber string | NoClientIdentity

definition assertPositiveFiniteInteger :: "js_number \<Rightarrow> string \<Rightarrow> throttle_error + int" where
  "assertPositiveFiniteInteger v field =
     (case as_integer v of
        Some n \<Rightarrow> if n \<le> 0 then Inl (InvalidNumber field) else Inr n
      | None \<Rightarrow> Inl (InvalidNumber field))"

definition assertFiniteInteger :: "js_number \<Rightarrow> string \<Rightarrow> throttle_error + int" where
  "assertFiniteInteger v field =
     (case as_integer v of Some n \<Rightarrow> Inr n | None \<Rightarrow> Inl (InvalidNumber field))"

definition assertNonNegativeFiniteInteger :: "js_number \<Rightarrow> string \<Rightarrow> throttle_error + int" where
  "assertNonNegativeFiniteInteger v field =
     (case as_integer v of
        Some n \<Rightarrow> if n < 0 then Inl (InvalidNumber field) else Inr n
      | None \<Rightarrow> Inl (InvalidNumber field))"

record throttle_options =
  th_limit :: js_number
  th_ttl :: js_number

record throttle_limits =
  tl_limit :: int
  tl_ttl :: int

definition validateThrottleOptions :: "throttle_options \<Rightarrow> throttle_error + throttle_limits" where
  "validateThrottleOptions opts =
     (case assertPositiveFiniteInteger (th_limit opts) ''limit'' of
        Inl e \<Rightarrow> Inl e
      | Inr l \<Rightarrow>
          (case assertPositiveFiniteInteger (th_ttl opts) ''ttl'' of
             Inl e \<Rightarrow> Inl e
           | Inr t \<Rightarrow> Inr \<lparr>tl_limit = l, tl_ttl = t\<rparr>))"

text \<open>What a store may answer, and the validated entry.\<close>

record store_answer =
  re_count :: js_number
  re_resetAt :: js_number
  re_retryAfterMs :: "js_number option"

record throttle_entry =
  te_count :: int
  te_resetAt :: int
  te_retryAfterMs :: "int option"

definition validateThrottlerStoreEntry :: "store_answer \<Rightarrow> throttle_error + throttle_entry" where
  "validateThrottlerStoreEntry e =
     (case assertPositiveFiniteInteger (re_count e) ''store count'' of
        Inl er \<Rightarrow> Inl er
      | Inr c \<Rightarrow>
          (case assertFiniteInteger (re_resetAt e) ''store resetAt'' of
             Inl er \<Rightarrow> Inl er
           | Inr r \<Rightarrow>
               (case re_retryAfterMs e of
                  None \<Rightarrow> Inr \<lparr>te_count = c, te_resetAt = r, te_retryAfterMs = None\<rparr>
                | Some ms \<Rightarrow>
                    (case assertNonNegativeFiniteInteger ms ''store retryAfterMs'' of
                       Inl er \<Rightarrow> Inl er
                     | Inr n \<Rightarrow> Inr \<lparr>te_count = c, te_resetAt = r, te_retryAfterMs = Some n\<rparr>))))"

section \<open>The in-memory store\<close>

record window_entry =
  we_count :: int
  we_resetAt :: int

record throttler_store =
  ts_map :: "(string, window_entry) js_map"
  ts_nextSweepAt :: int

definition consumeWindow :: "window_entry option \<Rightarrow> int \<Rightarrow> int \<Rightarrow> window_entry" where
  "consumeWindow entry now ttlSeconds =
     (let resetAt = now + ttlSeconds * 1000
      in case entry of
           None \<Rightarrow> \<lparr>we_count = 1, we_resetAt = resetAt\<rparr>
         | Some e \<Rightarrow>
             if now \<ge> we_resetAt e then \<lparr>we_count = 1, we_resetAt = resetAt\<rparr>
             else \<lparr>we_count = we_count e + 1, we_resetAt = we_resetAt e\<rparr>)"

definition sweepExpiredEntries :: "(string, window_entry) js_map \<Rightarrow> int \<Rightarrow> (string, window_entry) js_map \<times> int" where
  "sweepExpiredEntries m now = sweep_entries (\<lambda>e. Some (we_resetAt e)) m now"

definition createMemoryThrottlerStore :: throttler_store where
  "createMemoryThrottlerStore = \<lparr>ts_map = [], ts_nextSweepAt = 0\<rparr>"

definition consume :: "string \<Rightarrow> int \<Rightarrow> int \<Rightarrow> throttler_store \<Rightarrow> throttler_store \<times> window_entry" where
  "consume key now ttlSeconds s =
     (let (m, next) = (if now \<ge> ts_nextSweepAt s then sweepExpiredEntries (ts_map s) now
                       else (ts_map s, ts_nextSweepAt s));
          e = consumeWindow (js_get m key) now ttlSeconds
      in (\<lparr>ts_map = js_set m key e,
           ts_nextSweepAt = (if next = 0 then we_resetAt e else min next (we_resetAt e))\<rparr>, e))"

section \<open>The guard\<close>

record handler_info =
  h_id :: nat
  h_moduleName :: "string option"
  h_controllerName :: string
  h_method :: string
  h_path :: string
  h_routeVersion :: "string option"
  h_effectiveVersion :: "string option"
  h_methodName :: string
  h_compiledIdentity :: "string option"
  h_classSkip :: bool
  h_methodSkip :: bool
  h_classThrottle :: "throttle_options option"
  h_methodThrottle :: "throttle_options option"

record handler_policy =
  hp_encodedHandlerKey :: string
  hp_limit :: int
  hp_skip :: bool
  hp_ttlSeconds :: int

record 's guard_state =
  gs_policies :: "(handler_info, handler_policy) js_map"
  gs_store :: 's

datatype guard_outcome =
    Allowed
  | TooManyRequests string int
  | GuardFailed throttle_error

definition or_default :: "string option \<Rightarrow> string \<Rightarrow> string" where
  "or_default s d = (case s of None \<Rightarrow> d | Some [] \<Rightarrow> d | Some (c # cs) \<Rightarrow> c # cs)"

definition buildHandlerKey :: "handler_info \<Rightarrow> string" where
  "buildHandlerKey h =
     (let version = (case h_routeVersion h of
                       Some v \<Rightarrow> v
                     | None \<Rightarrow> (case h_effectiveVersion h of Some v \<Rightarrow> v | None \<Rightarrow> ''unversioned''));
          moduleName = or_default (h_moduleName h) ''<moduleless>'';
          controllerName = or_default (Some (h_controllerName h)) ''<anonymous-controller>'';
          compiled = (case h_compiledIdentity h of Some i \<Rightarrow> i | None \<Rightarrow> ''<uncompiled>'')
      in join_with ''|''
           [''module:'' @ encodeURIComponent moduleName,
            ''controller:'' @ encodeURIComponent controllerName,
            ''method:'' @ h_method h,
            ''path:'' @ encodeURIComponent (h_path h),
            ''version:'' @ encodeURIComponent version,
            ''handler:'' @ encodeURIComponent (h_methodName h),
            ''compiled:'' @ encodeURIComponent compiled])"

definition buildStoreKey :: "string \<Rightarrow> string \<Rightarrow> string" where
  "buildStoreKey encodedHandlerKey clientKey =
     ''throttler:'' @ encodedHandlerKey @ '':'' @ encodeURIComponent clientKey"

definition getThrottleMetadata :: "throttle_options option \<Rightarrow> throttle_error + throttle_limits option" where
  "getThrottleMetadata stored =
     (case stored of
        None \<Rightarrow> Inr None
      | Some opts \<Rightarrow> (case validateThrottleOptions opts of Inl e \<Rightarrow> Inl e | Inr l \<Rightarrow> Inr (Some l)))"

definition resolve_policy :: "throttle_options \<Rightarrow> handler_info \<Rightarrow> throttle_error + handler_policy" where
  "resolve_policy opts h =
     (case getThrottleMetadata (h_methodThrottle h) of
        Inl e \<Rightarrow> Inl e
      | Inr methodThrottle \<Rightarrow>
          (case getThrottleMetadata (h_classThrottle h) of
             Inl e \<Rightarrow> Inl e
           | Inr classThrottle \<Rightarrow>
               (case (case methodThrottle of
                        Some l \<Rightarrow> Inr l
                      | None \<Rightarrow> (case classThrottle of Some l \<Rightarrow> Inr l | None \<Rightarrow> validateThrottleOptions opts)) of
                  Inl e \<Rightarrow> Inl e
                | Inr limits \<Rightarrow>
                    Inr \<lparr>hp_encodedHandlerKey = encodeURIComponent (buildHandlerKey h),
                         hp_limit = tl_limit limits,
                         hp_skip = (h_classSkip h \<or> h_methodSkip h),
                         hp_ttlSeconds = tl_ttl limits\<rparr>)))"

definition getResolvedPolicy ::
  "throttle_options \<Rightarrow> handler_info \<Rightarrow> 's guard_state \<Rightarrow> 's guard_state \<times> (throttle_error + handler_policy)" where
  "getResolvedPolicy opts h gs =
     (case js_get (gs_policies gs) h of
        Some p \<Rightarrow> (gs, Inr p)
      | None \<Rightarrow>
          (case resolve_policy opts h of
             Inl e \<Rightarrow> (gs, Inl e)
           | Inr p \<Rightarrow> (gs\<lparr>gs_policies := js_set (gs_policies gs) h p\<rparr>, Inr p)))"

definition ceil_seconds :: "int \<Rightarrow> int" where
  "ceil_seconds ms = - ((- ms) div 1000)"

definition resolveRetryAfterSeconds :: "throttle_entry \<Rightarrow> int \<Rightarrow> int" where
  "resolveRetryAfterSeconds e now =
     (case te_retryAfterMs e of
        Some ms \<Rightarrow> max 1 (ceil_seconds ms)
      | None \<Rightarrow> max 1 (ceil_seconds (te_resetAt e - now)))"

text \<open>\<open>TooManyRequests s n\<close> sets the header \<open>Retry-After\<close> to \<open>s\<close> and throws with \<open>n\<close> in its details.\<close>

definition canActivate ::
  "(string \<Rightarrow> int \<Rightarrow> int \<Rightarrow> 's \<Rightarrow> 's \<times> store_answer) \<Rightarrow> throttle_options \<Rightarrow> handler_info \<Rightarrow>
     (throttle_error + string) \<Rightarrow> int \<Rightarrow> 's guard_state \<Rightarrow> 's guard_state \<times> guard_outcome" where
  "canActivate consume_in opts h client now gs =
     (let (gs1, policy) = getResolvedPolicy opts h gs
      in case policy of
           Inl e \<Rightarrow> (gs1, GuardFailed e)
         | Inr p \<Rightarrow>
             if hp_skip p then (gs1, Allowed)
             else (case client of
                     Inl e \<Rightarrow> (gs1, GuardFailed e)
                   | Inr clientKey \<Rightarrow>
                       (let (s', raw) = consume_in (buildStoreKey (hp_encodedHandlerKey p) clientKey) now
                                          (hp_ttlSeconds p) (gs_store gs1);
                            gs2 = gs1\<lparr>gs_store := s'\<rparr>
                        in case validateThrottlerStoreEntry raw of
                             Inl e \<Rightarrow> (gs2, GuardFailed e)
                           | Inr e \<Rightarrow>
                               if te_count e > hp_limit p
                               then (let retryAfter = resolveRetryAfterSeconds e now
                                     in (gs2, TooManyRequests (show_nat (nat retryAfter)) retryAfter))
                               else (gs2, Allowed))))"

text \<open>The in-memory store as the guard sees it.\<close>

definition memory_consume :: "string \<Rightarrow> int \<Rightarrow> int \<Rightarrow> throttler_store \<Rightarrow> throttler_store \<times> store_answer" where
  "memory_consume key now ttlSeconds s =
     (let (s', e) = consume key now ttlSeconds s
      in (s', \<lparr>re_count = Fin (of_int (we_count e)), re_resetAt = Fin (of_int (we_resetAt e)), re_retryAfterMs = None\<rparr>))"

end
