(* ===== verification/Throttler_Correctness.thy ===== *)
theory Throttler_Correctness
  imports Throttler
begin

text \<open>
  The in-memory throttler store is a fixed-window counter (an interpretation of \<open>fixed_window\<close>), its
  lazy sweeping is invisible and complete, and the guard gives each handler and client the verdicts of
  a limiter of its own.
\<close>

section \<open>The store is a fixed-window counter\<close>

definition throttle_hit :: "string \<Rightarrow> int \<Rightarrow> int \<Rightarrow> throttler_store \<Rightarrow> throttler_store \<times> int \<times> int" where
  "throttle_hit k now ttl s = (let (s', e) = consume k now ttl s in (s', we_count e, we_resetAt e))"

definition throttle_look :: "throttler_store \<Rightarrow> string \<Rightarrow> (int \<times> int) option" where
  "throttle_look s k = map_option (\<lambda>e. (we_count e, we_resetAt e)) (js_get (ts_map s) k)"

definition throttle_expiry :: "window_entry \<Rightarrow> int option" where
  "throttle_expiry e = Some (we_resetAt e)"

lemma consume_swept:
  "consume key now ttl s =
     (let (m, next) = swept throttle_expiry now (ts_map s) (ts_nextSweepAt s);
          e = consumeWindow (js_get m key) now ttl
      in (\<lparr>ts_map = js_set m key e,
           ts_nextSweepAt = (if next = 0 then we_resetAt e else min next (we_resetAt e))\<rparr>, e))"
  by (simp add: consume_def swept_def sweepExpiredEntries_def throttle_expiry_def [abs_def])

lemma consumeWindow_next:
  "(we_count (consumeWindow e now ttl), we_resetAt (consumeWindow e now ttl)) =
     next_window (map_option (\<lambda>e. (we_count e, we_resetAt e)) e) now (ttl * 1000)"
  by (auto simp: consumeWindow_def next_window_def Let_def split: option.splits)

lemma swept_window:
  assumes "js_ok (ts_map s)"
  shows "live_window now (map_option (\<lambda>e. (we_count e, we_resetAt e))
      (js_get (fst (swept throttle_expiry now (ts_map s) next)) k)) = live_window now (throttle_look s k)"
  using swept_get [OF assms, of throttle_expiry now "next" k]
  by (auto simp: throttle_look_def live_window_def live_at_def throttle_expiry_def split: option.splits)

lemma throttle_hit_result:
  assumes "js_ok (ts_map s)"
  shows "snd (throttle_hit k now ttl s) = next_window (throttle_look s k) now (ttl * 1000)"
proof -
  have "snd (throttle_hit k now ttl s) =
    next_window (map_option (\<lambda>e. (we_count e, we_resetAt e))
      (js_get (fst (swept throttle_expiry now (ts_map s) (ts_nextSweepAt s))) k)) now (ttl * 1000)"
    by (simp add: throttle_hit_def consume_swept consumeWindow_next Let_def split: prod.splits)
  also have "\<dots> = next_window (throttle_look s k) now (ttl * 1000)"
    by (rule next_window_live_eq [OF swept_window [OF assms] order_refl])
  finally show ?thesis .
qed

lemma throttle_hit_look:
  assumes "js_ok (ts_map s)"
  shows "live_window now (throttle_look (fst (throttle_hit k now ttl s)) k') =
    live_window now (if k' = k then Some (next_window (throttle_look s k) now (ttl * 1000)) else throttle_look s k')"
proof (cases "k' = k")
  case True
  then show ?thesis
    using throttle_hit_result [OF assms, of k now ttl]
    by (auto simp: throttle_hit_def consume_swept throttle_look_def js_get_set Let_def split: prod.splits)
next
  case False
  then have "throttle_look (fst (throttle_hit k now ttl s)) k' =
    map_option (\<lambda>e. (we_count e, we_resetAt e)) (js_get (fst (swept throttle_expiry now (ts_map s) (ts_nextSweepAt s))) k')"
    by (simp add: throttle_hit_def consume_swept throttle_look_def js_get_set Let_def split: prod.splits)
  with False swept_window [OF assms] show ?thesis
    by simp
qed

lemma throttle_hit_ok: "js_ok (ts_map s) \<Longrightarrow> js_ok (ts_map (fst (throttle_hit k now ttl s)))"
  using swept_ok [of "ts_map s" throttle_expiry now "ts_nextSweepAt s"] jsm.ok_put
  by (auto simp: throttle_hit_def consume_swept Let_def split: prod.splits)

interpretation tw: fixed_window throttle_hit "\<lambda>ttl. ttl * 1000" throttle_look "\<lambda>s. js_ok (ts_map s)"
  by unfold_locales (rule throttle_hit_result throttle_hit_look throttle_hit_ok; assumption)+

section \<open>Sweeping\<close>

fun consume_all :: "(string \<times> int \<times> int) list \<Rightarrow> throttler_store \<Rightarrow> throttler_store" where
  "consume_all [] s = s"
| "consume_all ((k, now, ttl) # calls) s = consume_all calls (fst (consume k now ttl s))"

definition store_inv :: "throttler_store \<Rightarrow> bool" where
  "store_inv s \<longleftrightarrow> js_ok (ts_map s) \<and> next_ok throttle_expiry (ts_map s) (ts_nextSweepAt s) \<and> 0 \<le> ts_nextSweepAt s"

lemma swept_nonneg: "0 \<le> next \<Longrightarrow> 0 \<le> now \<Longrightarrow> 0 \<le> snd (swept expiry now m next)"
  using sweep_loop_positive [of now None expiry m]
  by (force simp: swept_def sweep_entries_def split: prod.splits option.splits)

lemma consume_live:
  assumes inv: "store_inv s" and now: "0 \<le> now" and ttl: "0 < ttl"
  shows "store_inv (fst (consume k now ttl s))
    \<and> (\<forall>(k', e) \<in> set (ts_map (fst (consume k now ttl s))). now < we_resetAt e)"
proof -
  obtain m n where sw: "swept throttle_expiry now (ts_map s) (ts_nextSweepAt s) = (m, n)"
    by force
  define e where "e = consumeWindow (js_get m k) now ttl"
  have m: "js_ok m" "next_ok throttle_expiry m n" "0 \<le> n" "m = filter (\<lambda>(k, e). live_at throttle_expiry now e) (ts_map s)"
    using swept_ok [of "ts_map s" throttle_expiry now "ts_nextSweepAt s"] swept_next [of throttle_expiry "ts_map s" "ts_nextSweepAt s" now]
      swept_keeps [of throttle_expiry "ts_map s" "ts_nextSweepAt s" now] swept_nonneg [of "ts_nextSweepAt s" now throttle_expiry "ts_map s"]
      inv now by (simp_all add: sw store_inv_def)
  have e: "now < we_resetAt e"
    using ttl by (auto simp: e_def consumeWindow_def Let_def split: option.splits)
  have sub: "set (js_set m k e) \<subseteq> insert (k, e) (set m)"
    by (rule js_set_subset)
  have "js_ok (js_set m k e)"
    using m(1) by (rule jsm.ok_put)
  moreover have "next_ok throttle_expiry (js_set m k e) (if n = 0 then we_resetAt e else min n (we_resetAt e))"
    using e now by (intro next_ok_add [OF m(2) sub _ _ m(3)]) (auto simp: throttle_expiry_def)
  moreover have "\<forall>(k', e') \<in> set (js_set m k e). now < we_resetAt e'"
    using sub e m(4) by (auto simp: live_at_def throttle_expiry_def)
  ultimately show ?thesis
    using m(3) e now by (auto simp: consume_swept sw store_inv_def e_def [symmetric])
qed

lemma store_init: "store_inv createMemoryThrottlerStore"
  by (simp add: store_inv_def createMemoryThrottlerStore_def next_ok_def)

lemma consume_all_inv:
  "store_inv s \<Longrightarrow> \<forall>(k, now, ttl) \<in> set calls. 0 \<le> now \<and> 0 < ttl \<Longrightarrow> store_inv (consume_all calls s)"
proof (induction calls arbitrary: s)
  case (Cons call calls)
  then show ?case
    using consume_live by (cases call) auto
qed simp

text \<open>
  The throttler store counts exactly and holds only live windows.  Over any sequence of \<open>consume\<close>
  calls with a clock that does not run backwards, the counts returned for one key and one window are
  \<open>1, 2, 3, \<dots>\<close> without gap or repetition; and after a further call at time \<open>now\<close> every entry left in
  the map is live, although the sweep runs only when \<open>nextSweepAt\<close> is reached.
\<close>

theorem throttler_store_counts:
  assumes "sorted (0 # map (fst \<circ> snd) calls)" and "\<forall>(k, now, ttl) \<in> set calls. 0 < ttl"
    and "0 \<le> now" and "0 < ttl"
  shows "map (\<lambda>(k, r, c). c) (bucket k r (run_hits throttle_hit calls createMemoryThrottlerStore)) =
      [1..int (length (bucket k r (run_hits throttle_hit calls createMemoryThrottlerStore)))]
    \<and> (\<forall>(k', e) \<in> set (ts_map (fst (consume key now ttl (consume_all calls createMemoryThrottlerStore)))).
         now < we_resetAt e)"
proof -
  have init: "tw.counted [] 0 createMemoryThrottlerStore"
    by (rule tw.counted_init) (simp_all add: createMemoryThrottlerStore_def throttle_look_def)
  then obtain t s where "tw.counted ([] @ run_hits throttle_hit calls createMemoryThrottlerStore) t s"
    using tw.run_counted [OF init assms(1)] assms(2) by auto
  note counts = tw.counted_counts [OF this, of k r]
  have "\<forall>(k, now, ttl) \<in> set calls. 0 \<le> now \<and> 0 < ttl"
    using assms(1,2) by fastforce
  then have "store_inv (consume_all calls createMemoryThrottlerStore)"
    using consume_all_inv store_init by blast
  with consume_live [of _ now ttl key] assms(3,4) counts show ?thesis
    by auto
qed

theorem throttler_store_counts_witness:
  "map (\<lambda>(k, r, c). c) (bucket ''a'' 11000 (run_hits throttle_hit
       [(''a'', 1000, 10), (''b'', 2000, 10), (''a'', 3000, 10), (''a'', 12000, 10)] createMemoryThrottlerStore)) = [1, 2]
   \<and> list_all (\<lambda>(k', e). 13000 < we_resetAt e) (ts_map (fst (consume ''b'' 13000 10 (consume_all
       [(''a'', 1000, 10), (''b'', 2000, 10), (''a'', 3000, 10), (''a'', 12000, 10)] createMemoryThrottlerStore))))"
proof -
  have "length (bucket ''a'' 11000 (run_hits throttle_hit
       [(''a'', 1000, 10), (''b'', 2000, 10), (''a'', 3000, 10), (''a'', 12000, 10)] createMemoryThrottlerStore)) = 2"
    by code_simp
  moreover have "[1..2 :: int] = [1, 2]"
    by code_simp
  ultimately show ?thesis
    using throttler_store_counts [of "[(''a'', 1000, 10), (''b'', 2000, 10), (''a'', 3000, 10), (''a'', 12000, 10)]" 13000 10 "''a''" 11000 "''b''"]
    by (simp add: list_all_iff)
qed

section \<open>The guard\<close>

lemma store_key_inject:
  "buildStoreKey (encodeURIComponent k1) c1 = buildStoreKey (encodeURIComponent k2) c2 \<longleftrightarrow> k1 = k2 \<and> c1 = c2"
proof
  assume "buildStoreKey (encodeURIComponent k1) c1 = buildStoreKey (encodeURIComponent k2) c2"
  then have "split_on (CHR '':'') (encodeURIComponent k1 @ CHR '':'' # encodeURIComponent c1) =
      split_on (CHR '':'') (encodeURIComponent k2 @ CHR '':'' # encodeURIComponent c2)"
    by (simp add: buildStoreKey_def)
  then show "k1 = k2 \<and> c1 = c2"
    by (simp add: split_on_append split_on_free)
qed simp

lemma handler_key_parts:
  "CHR ''|'' \<notin> set (h_method h) \<Longrightarrow> split_on (CHR ''|'') (buildHandlerKey h) =
     [''module:'' @ encodeURIComponent (or_default (h_moduleName h) ''<moduleless>''),
      ''controller:'' @ encodeURIComponent (or_default (Some (h_controllerName h)) ''<anonymous-controller>''),
      ''method:'' @ h_method h, ''path:'' @ encodeURIComponent (h_path h),
      ''version:'' @ encodeURIComponent (case h_routeVersion h of
          Some v \<Rightarrow> v | None \<Rightarrow> (case h_effectiveVersion h of Some v \<Rightarrow> v | None \<Rightarrow> ''unversioned'')),
      ''handler:'' @ encodeURIComponent (h_methodName h),
      ''compiled:'' @ encodeURIComponent (case h_compiledIdentity h of Some i \<Rightarrow> i | None \<Rightarrow> ''<uncompiled>'')]"
  unfolding buildHandlerKey_def Let_def by (rule split_join) auto

text \<open>
  Buckets are separate: two store keys agree only for the same handler key and the same client key,
  whatever characters a client key contains; and two handler keys agree only if HTTP method, path,
  handler method and compiled route identity agree.
\<close>

theorem throttler_buckets_separate:
  assumes "CHR ''|'' \<notin> set (h_method h1)" "CHR ''|'' \<notin> set (h_method h2)"
    and "h_compiledIdentity h1 = Some i1" "h_compiledIdentity h2 = Some i2"
  shows "(buildStoreKey (encodeURIComponent (buildHandlerKey h1)) c1 = buildStoreKey (encodeURIComponent (buildHandlerKey h2)) c2
      \<longleftrightarrow> buildHandlerKey h1 = buildHandlerKey h2 \<and> c1 = c2)
    \<and> (buildHandlerKey h1 = buildHandlerKey h2 \<longrightarrow>
      h_method h1 = h_method h2 \<and> h_path h1 = h_path h2 \<and> h_methodName h1 = h_methodName h2 \<and> i1 = i2)"
  using handler_key_parts [OF assms(1)] handler_key_parts [OF assms(2)] assms(3,4)
  by (auto simp: store_key_inject)

definition sample_handler :: handler_info where
  "sample_handler = \<lparr>h_id = 1, h_moduleName = Some ''Users'', h_controllerName = ''UserController'',
     h_method = ''GET'', h_path = ''/users/:id'', h_routeVersion = None, h_effectiveVersion = None,
     h_methodName = ''find'', h_compiledIdentity = Some ''v1:0:1'', h_classSkip = False, h_methodSkip = False,
     h_classThrottle = Some \<lparr>th_limit = Fin 5, th_ttl = Fin 60\<rparr>,
     h_methodThrottle = Some \<lparr>th_limit = Fin 2, th_ttl = Fin 10\<rparr>\<rparr>"

definition sample_other :: handler_info where
  "sample_other = sample_handler\<lparr>h_id := 2, h_methodName := ''list'', h_path := ''/users'',
     h_compiledIdentity := Some ''v1:0:2'', h_methodThrottle := None\<rparr>"

theorem throttler_buckets_separate_witness:
  "buildStoreKey (encodeURIComponent (buildHandlerKey sample_handler)) ''x:y'' \<noteq>
     buildStoreKey (encodeURIComponent (buildHandlerKey sample_other)) ''x:y''"
  using throttler_buckets_separate [of sample_handler sample_other "''v1:0:1''" "''v1:0:2''" "''x:y''" "''x:y''"]
  by (auto simp: sample_handler_def sample_other_def)

record throttle_request =
  rq_handler :: handler_info
  rq_client :: "throttle_error + string"
  rq_now :: int

fun guard_run ::
  "throttle_options \<Rightarrow> throttle_request list \<Rightarrow> throttler_store guard_state \<Rightarrow> guard_outcome list" where
  "guard_run opts [] gs = []"
| "guard_run opts (rq # rqs) gs =
     (let (gs', out) = canActivate memory_consume opts (rq_handler rq) (rq_client rq) (rq_now rq) gs
      in out # guard_run opts rqs gs')"

text \<open>The specification: a limiter for one client of one handler, with nothing else around.\<close>

fun limiter :: "int \<Rightarrow> int \<Rightarrow> (int \<times> int) option \<Rightarrow> int list \<Rightarrow> guard_outcome list" where
  "limiter limit ttl w [] = []"
| "limiter limit ttl w (now # ts) =
     (let (c, r) = next_window w now (ttl * 1000)
      in (if c \<le> limit then Allowed
          else TooManyRequests (show_nat (nat (ceil_seconds (r - now)))) (ceil_seconds (r - now)))
         # limiter limit ttl (Some (c, r)) ts)"

definition policies_ok :: "throttle_options \<Rightarrow> (handler_info, handler_policy) js_map \<Rightarrow> bool" where
  "policies_ok opts m \<longleftrightarrow> (\<forall>h p. js_get m h = Some p \<longrightarrow> resolve_policy opts h = Inr p)"

lemma policy_correct:
  assumes "policies_ok opts (gs_policies gs)"
  shows "snd (getResolvedPolicy opts h gs) = resolve_policy opts h
    \<and> policies_ok opts (gs_policies (fst (getResolvedPolicy opts h gs)))
    \<and> gs_store (fst (getResolvedPolicy opts h gs)) = gs_store gs"
  using assms
  by (auto simp: getResolvedPolicy_def policies_ok_def js_get_set split: option.splits sum.splits)

lemma limits_positive: "validateThrottleOptions opts = Inr l \<Longrightarrow> 0 < tl_limit l \<and> 0 < tl_ttl l"
  by (auto simp: validateThrottleOptions_def assertPositiveFiniteInteger_def split: sum.splits option.splits if_splits)

lemma metadata_positive: "getThrottleMetadata m = Inr (Some l) \<Longrightarrow> 0 < tl_limit l \<and> 0 < tl_ttl l"
  using limits_positive by (auto simp: getThrottleMetadata_def split: sum.splits option.splits)

lemma resolved_limits: "resolve_policy opts h = Inr p \<Longrightarrow> 0 < hp_limit p \<and> 0 < hp_ttlSeconds p
    \<and> hp_encodedHandlerKey p = encodeURIComponent (buildHandlerKey h)"
  unfolding resolve_policy_def
  by (auto split: sum.splits option.splits dest: limits_positive metadata_positive)

lemma ceil_seconds_pos: "0 < ms \<Longrightarrow> 1 \<le> ceil_seconds ms"
  unfolding ceil_seconds_def using pos_imp_zdiv_neg_iff [of 1000 "- ms"] by linarith

lemma memory_consume_valid:
  assumes "js_ok (ts_map s)" "next_window (throttle_look s k) now (ttl * 1000) = (c, r)" "0 < c"
  shows "validateThrottlerStoreEntry (snd (memory_consume k now ttl s)) =
      Inr \<lparr>te_count = c, te_resetAt = r, te_retryAfterMs = None\<rparr>"
proof -
  obtain s' e where c: "consume k now ttl s = (s', e)"
    by force
  have "we_count e = c" "we_resetAt e = r"
    using throttle_hit_result [OF assms(1), of k now ttl] assms(2) by (simp_all add: throttle_hit_def c)
  with assms(3) show ?thesis
    by (simp add: memory_consume_def c validateThrottlerStoreEntry_def assertPositiveFiniteInteger_def assertFiniteInteger_def)
qed

lemma memory_consume_store: "fst (memory_consume k now ttl s) = fst (throttle_hit k now ttl s)"
  by (simp add: memory_consume_def throttle_hit_def split: prod.splits)

text \<open>A request consumes from the bucket of its handler and client, or from none.\<close>

lemma guard_effect:
  assumes pol: "policies_ok opts (gs_policies gs)"
    and run: "canActivate memory_consume opts h client now gs = (gs', out)"
  shows "policies_ok opts (gs_policies gs') \<and>
    (gs_store gs' = gs_store gs \<or>
     (\<exists>p c. resolve_policy opts h = Inr p \<and> client = Inr c \<and>
        gs_store gs' = fst (throttle_hit (buildStoreKey (hp_encodedHandlerKey p) c) now (hp_ttlSeconds p) (gs_store gs))))"
proof -
  obtain gs1 where p: "getResolvedPolicy opts h gs = (gs1, resolve_policy opts h)"
    and gs1: "policies_ok opts (gs_policies gs1)" "gs_store gs1 = gs_store gs"
    using policy_correct [OF pol, of h] by (metis prod.collapse)
  show ?thesis
  proof (cases "resolve_policy opts h")
    case (Inl e)
    with run p gs1 show ?thesis
      by (simp add: canActivate_def)
  next
    case (Inr q)
    show ?thesis
    proof (cases "hp_skip q \<or> (\<exists>e. client = Inl e)")
      case True
      with run p gs1 Inr show ?thesis
        by (auto simp: canActivate_def split: if_splits)
    next
      case False
      then obtain c where c: "client = Inr c"
        by (cases client) auto
      have "gs' = gs1\<lparr>gs_store := fst (memory_consume (buildStoreKey (hp_encodedHandlerKey q) c) now (hp_ttlSeconds q) (gs_store gs1))\<rparr>"
        using run p Inr c False
        by (auto simp: canActivate_def Let_def split: sum.splits if_splits prod.splits)
      with gs1 Inr c show ?thesis
        by (simp add: memory_consume_store)
    qed
  qed
qed

lemma guard_invariant:
  assumes "policies_ok opts (gs_policies gs)" and "js_ok (ts_map (gs_store gs))"
    and "canActivate memory_consume opts h client now gs = (gs', out)"
  shows "policies_ok opts (gs_policies gs')" and "js_ok (ts_map (gs_store gs'))"
  using guard_effect [OF assms(1,3)] assms(2) throttle_hit_ok by metis+

lemma guard_other:
  assumes pol: "policies_ok opts (gs_policies gs)" and ok: "js_ok (ts_map (gs_store gs))"
    and run: "canActivate memory_consume opts h' client now gs = (gs', out)"
    and other: "buildHandlerKey h' \<noteq> hk \<or> client \<noteq> Inr c"
  shows "live_window now (throttle_look (gs_store gs') (buildStoreKey (encodeURIComponent hk) c)) =
    live_window now (throttle_look (gs_store gs) (buildStoreKey (encodeURIComponent hk) c))"
proof -
  consider "gs_store gs' = gs_store gs"
    | q d where "resolve_policy opts h' = Inr q" "client = Inr d"
      "gs_store gs' = fst (throttle_hit (buildStoreKey (hp_encodedHandlerKey q) d) now (hp_ttlSeconds q) (gs_store gs))"
    using guard_effect [OF pol run] by blast
  then show ?thesis
  proof cases
    case 2
    then have "buildStoreKey (encodeURIComponent hk) c \<noteq> buildStoreKey (hp_encodedHandlerKey q) d"
      using other resolved_limits [OF 2(1)] by (auto simp: store_key_inject)
    with 2(3) throttle_hit_look [OF ok, of now _ _ "buildStoreKey (encodeURIComponent hk) c"] show ?thesis
      by simp
  qed simp
qed

lemma guard_verdict:
  assumes pol: "policies_ok opts (gs_policies gs)" and ok: "js_ok (ts_map (gs_store gs))"
    and p: "resolve_policy opts h = Inr p" "\<not> hp_skip p"
    and w: "next_window (throttle_look (gs_store gs) (buildStoreKey (hp_encodedHandlerKey p) c)) now (hp_ttlSeconds p * 1000) = (n, r)"
    and n: "0 < n" "now < r"
  shows "canActivate memory_consume opts h (Inr c) now gs =
    ((fst (getResolvedPolicy opts h gs))\<lparr>gs_store :=
        fst (throttle_hit (buildStoreKey (hp_encodedHandlerKey p) c) now (hp_ttlSeconds p) (gs_store gs))\<rparr>,
     if n \<le> hp_limit p then Allowed
     else TooManyRequests (show_nat (nat (ceil_seconds (r - now)))) (ceil_seconds (r - now)))"
proof -
  obtain gs1 where gs1: "getResolvedPolicy opts h gs = (gs1, Inr p)" "gs_store gs1 = gs_store gs"
    using policy_correct [OF pol, of h] p(1) by (metis prod.collapse)
  let ?k = "buildStoreKey (hp_encodedHandlerKey p) c"
  obtain s' raw where m: "memory_consume ?k now (hp_ttlSeconds p) (gs_store gs) = (s', raw)"
    by force
  have raw: "validateThrottlerStoreEntry raw = Inr \<lparr>te_count = n, te_resetAt = r, te_retryAfterMs = None\<rparr>"
    using memory_consume_valid [OF ok w n(1)] by (simp add: m)
  have s': "s' = fst (throttle_hit ?k now (hp_ttlSeconds p) (gs_store gs))"
    using memory_consume_store [of ?k now "hp_ttlSeconds p" "gs_store gs"] by (simp add: m)
  have "1 \<le> ceil_seconds (r - now)"
    using n(2) by (intro ceil_seconds_pos) simp
  with p(2) gs1 m raw s' show ?thesis
    by (simp add: canActivate_def resolveRetryAfterSeconds_def max_def Let_def)
qed

lemma next_window_pos:
  assumes "next_window w now span_ms = (n, r)" "0 < span_ms" "\<And>c e. w = Some (c, e) \<Longrightarrow> 0 < c"
  shows "0 < n \<and> now < r"
  using assms by (fastforce simp: next_window_def split: option.splits if_splits)

lemma guard_isolated:
  assumes p: "resolve_policy opts h = Inr p" "\<not> hp_skip p"
    and others: "\<And>rq. rq \<in> set rqs \<Longrightarrow> buildHandlerKey (rq_handler rq) = buildHandlerKey h \<Longrightarrow> rq_handler rq = h"
  shows "policies_ok opts (gs_policies gs) \<Longrightarrow> js_ok (ts_map (gs_store gs)) \<Longrightarrow> sorted (t # map rq_now rqs) \<Longrightarrow>
     live_window t (throttle_look (gs_store gs) (buildStoreKey (hp_encodedHandlerKey p) c)) = live_window t w \<Longrightarrow>
     (\<And>n r. w = Some (n, r) \<Longrightarrow> 0 < n) \<Longrightarrow>
     map snd (filter (\<lambda>(rq, out). rq_handler rq = h \<and> rq_client rq = Inr c) (zip rqs (guard_run opts rqs gs))) =
       limiter (hp_limit p) (hp_ttlSeconds p) w
         (map rq_now (filter (\<lambda>rq. rq_handler rq = h \<and> rq_client rq = Inr c) rqs))"
  using others
proof (induction rqs arbitrary: gs t w)
  case (Cons rq rqs)
  let ?k = "buildStoreKey (hp_encodedHandlerKey p) c"
  obtain gs' out where run: "canActivate memory_consume opts (rq_handler rq) (rq_client rq) (rq_now rq) gs = (gs', out)"
    by force
  have t: "t \<le> rq_now rq" "sorted (rq_now rq # map rq_now rqs)"
    using Cons.prems(3) by simp_all
  note IH = Cons.IH [OF guard_invariant [OF Cons.prems(1,2) run] t(2)]
  have key: "hp_encodedHandlerKey p = encodeURIComponent (buildHandlerKey h)" and ttl: "0 < hp_ttlSeconds p"
    using resolved_limits [OF p(1)] by simp_all
  show ?case
  proof (cases "rq_handler rq = h \<and> rq_client rq = Inr c")
    case True
    obtain n r where w': "next_window w (rq_now rq) (hp_ttlSeconds p * 1000) = (n, r)"
      by force
    then have pos: "0 < n" "rq_now rq < r"
      using next_window_pos [OF w'] ttl Cons.prems(5) by auto
    have look: "next_window (throttle_look (gs_store gs) ?k) (rq_now rq) (hp_ttlSeconds p * 1000) = (n, r)"
      using next_window_live_eq [OF Cons.prems(4) t(1)] w' by metis
    note verdict = guard_verdict [OF Cons.prems(1,2) p look pos]
    have "gs_store gs' = fst (throttle_hit ?k (rq_now rq) (hp_ttlSeconds p) (gs_store gs))"
      "out = (if n \<le> hp_limit p then Allowed else TooManyRequests (show_nat (nat (ceil_seconds (r - rq_now rq)))) (ceil_seconds (r - rq_now rq)))"
      using verdict run True by auto
    moreover have "live_window (rq_now rq) (throttle_look (gs_store gs') ?k) = live_window (rq_now rq) (Some (n, r))"
      using throttle_hit_look [OF Cons.prems(2), of "rq_now rq" ?k "hp_ttlSeconds p" ?k] calculation(1) look by simp
    ultimately show ?thesis
      using True IH [of "Some (n, r)"] Cons.prems(6) pos run w' by simp
  next
    case False
    have "live_window (rq_now rq) (throttle_look (gs_store gs') ?k) = live_window (rq_now rq) (throttle_look (gs_store gs) ?k)"
      unfolding key using False Cons.prems(6) [of rq]
      by (intro guard_other [OF Cons.prems(1,2) run]) auto
    then have "live_window (rq_now rq) (throttle_look (gs_store gs') ?k) = live_window (rq_now rq) w"
      using live_window_mono [OF Cons.prems(4) t(1)] by simp
    from IH [OF this] False Cons.prems(5,6) run show ?thesis
      by auto
  qed
qed simp

fun guard_after ::
  "throttle_options \<Rightarrow> throttle_request list \<Rightarrow> throttler_store guard_state \<Rightarrow> throttler_store guard_state" where
  "guard_after opts [] gs = gs"
| "guard_after opts (rq # rqs) gs =
     guard_after opts rqs (fst (canActivate memory_consume opts (rq_handler rq) (rq_client rq) (rq_now rq) gs))"

definition new_guard :: "throttler_store guard_state" where
  "new_guard = \<lparr>gs_policies = [], gs_store = createMemoryThrottlerStore\<rparr>"

lemma new_guard_ok: "policies_ok opts (gs_policies new_guard)" "js_ok (ts_map (gs_store new_guard))"
  "throttle_look (gs_store new_guard) k = None"
  by (simp_all add: new_guard_def policies_ok_def createMemoryThrottlerStore_def throttle_look_def)

lemma guard_after_ok:
  "policies_ok opts (gs_policies gs) \<Longrightarrow> js_ok (ts_map (gs_store gs)) \<Longrightarrow>
     policies_ok opts (gs_policies (guard_after opts rqs gs)) \<and> js_ok (ts_map (gs_store (guard_after opts rqs gs)))"
proof (induction rqs arbitrary: gs)
  case (Cons rq rqs)
  obtain gs' out where run: "canActivate memory_consume opts (rq_handler rq) (rq_client rq) (rq_now rq) gs = (gs', out)"
    by force
  from Cons.IH [OF guard_invariant [OF Cons.prems run]] run show ?case
    by simp
qed simp

text \<open>
  C14. The guard refines a limiter per handler and client.  In any interleaving of requests of any
  handlers and clients, with a clock that does not run backwards and a handler whose key no other
  handler shares, the verdicts for one client of the handler are those of a limiter that sees only that
  client's requests: the first \<open>limit\<close> requests of each window pass, the others are rejected with the
  number of seconds, rounded up, until the window ends.
\<close>

theorem throttler_guard_refines_limiter:
  assumes "resolve_policy opts h = Inr p" "\<not> hp_skip p"
    and "\<forall>rq \<in> set rqs. buildHandlerKey (rq_handler rq) = buildHandlerKey h \<longrightarrow> rq_handler rq = h"
    and "sorted (map rq_now rqs)"
  shows "map snd (filter (\<lambda>(rq, out). rq_handler rq = h \<and> rq_client rq = Inr c) (zip rqs (guard_run opts rqs new_guard))) =
    limiter (hp_limit p) (hp_ttlSeconds p) None
      (map rq_now (filter (\<lambda>rq. rq_handler rq = h \<and> rq_client rq = Inr c) rqs))"
proof -
  obtain t where "sorted (t # map rq_now rqs)"
    using assms(4) by (cases rqs) (auto intro: exI [of _ "rq_now (hd rqs)"])
  then show ?thesis
    using guard_isolated [OF assms(1,2) _ new_guard_ok(1,2), of rqs t c None] assms(3)
    by (simp add: new_guard_ok(3))
qed

definition sample_requests :: "throttle_request list" where
  "sample_requests =
     [\<lparr>rq_handler = sample_handler, rq_client = Inr ''ann'', rq_now = 0\<rparr>,
      \<lparr>rq_handler = sample_other, rq_client = Inr ''ann'', rq_now = 100\<rparr>,
      \<lparr>rq_handler = sample_handler, rq_client = Inr ''bob'', rq_now = 200\<rparr>,
      \<lparr>rq_handler = sample_handler, rq_client = Inr ''ann'', rq_now = 300\<rparr>,
      \<lparr>rq_handler = sample_handler, rq_client = Inr ''ann'', rq_now = 2500\<rparr>,
      \<lparr>rq_handler = sample_handler, rq_client = Inr ''ann'', rq_now = 10000\<rparr>]"

definition sample_limits :: throttle_options where
  "sample_limits = \<lparr>th_limit = Fin 100, th_ttl = Fin 60\<rparr>"

lemma sample_policy:
  "resolve_policy sample_limits sample_handler =
     Inr \<lparr>hp_encodedHandlerKey = encodeURIComponent (buildHandlerKey sample_handler), hp_limit = 2, hp_skip = False, hp_ttlSeconds = 10\<rparr>"
  by (simp add: resolve_policy_def getThrottleMetadata_def validateThrottleOptions_def assertPositiveFiniteInteger_def sample_handler_def as_integer_def)

lemma sample_keys: "buildHandlerKey sample_other \<noteq> buildHandlerKey sample_handler"
  using handler_key_parts [of sample_handler] handler_key_parts [of sample_other]
  by (auto simp: sample_handler_def sample_other_def)

theorem throttler_guard_refines_limiter_witness:
  "map snd (filter (\<lambda>(rq, out). rq_handler rq = sample_handler \<and> rq_client rq = Inr ''ann'')
      (zip sample_requests (guard_run sample_limits sample_requests new_guard))) =
    [Allowed, Allowed, TooManyRequests ''8'' 8, Allowed]"
proof -
  have ne: "sample_other \<noteq> sample_handler"
    using sample_keys by auto
  have "limiter 2 10 None [0, 300, 2500, 10000] = [Allowed, Allowed, TooManyRequests ''8'' 8, Allowed]"
    by code_simp
  then show ?thesis
    using throttler_guard_refines_limiter [OF sample_policy, of sample_requests "''ann''"] ne sample_keys
    by (simp add: sample_requests_def)
qed

lemma memory_consume_invalid:
  assumes "js_ok (ts_map s)" "next_window (throttle_look s k) now (ttl * 1000) = (n, r)" "n \<le> 0"
  shows "\<exists>e. validateThrottlerStoreEntry (snd (memory_consume k now ttl s)) = Inl e"
proof -
  obtain s' e where c: "consume k now ttl s = (s', e)"
    by force
  have "we_count e = n"
    using throttle_hit_result [OF assms(1), of k now ttl] assms(2) by (simp add: throttle_hit_def c)
  with assms(3) show ?thesis
    by (simp add: memory_consume_def c validateThrottlerStoreEntry_def assertPositiveFiniteInteger_def)
qed

text \<open>What a rejection says about the bucket.\<close>

lemma guard_rejected:
  assumes pol: "policies_ok opts (gs_policies gs)" and ok: "js_ok (ts_map (gs_store gs))"
    and run: "canActivate memory_consume opts h (Inr c) now gs = (gs', TooManyRequests s n)"
  shows "\<exists>p m r. resolve_policy opts h = Inr p \<and> \<not> hp_skip p \<and> 0 < m \<and> now < r
    \<and> next_window (throttle_look (gs_store gs) (buildStoreKey (hp_encodedHandlerKey p) c)) now (hp_ttlSeconds p * 1000) = (m, r)"
proof -
  obtain gs1 where gs1: "getResolvedPolicy opts h gs = (gs1, resolve_policy opts h)" "gs_store gs1 = gs_store gs"
    using policy_correct [OF pol, of h] by (metis prod.collapse)
  then obtain p where p: "resolve_policy opts h = Inr p" "\<not> hp_skip p"
    using run by (auto simp: canActivate_def split: sum.splits if_splits)
  obtain m r where w: "next_window (throttle_look (gs_store gs) (buildStoreKey (hp_encodedHandlerKey p) c)) now (hp_ttlSeconds p * 1000) = (m, r)"
    by force
  have "0 < m"
  proof (rule ccontr)
    assume "\<not> 0 < m"
    then have "m \<le> 0" by simp
    from memory_consume_invalid [OF ok w this] obtain e where
      "validateThrottlerStoreEntry (snd (memory_consume (buildStoreKey (hp_encodedHandlerKey p) c) now (hp_ttlSeconds p) (gs_store gs))) = Inl e"
      by blast
    with run gs1 p show False
      by (auto simp: canActivate_def Let_def split: prod.splits)
  qed
  moreover have "now < r"
    using w resolved_limits [OF p(1)] by (auto simp: next_window_def split: option.splits if_splits)
  ultimately show ?thesis
    using p w by blast
qed

lemma ceil_seconds_covers: "ms \<le> ceil_seconds ms * 1000"
  unfolding ceil_seconds_def by linarith

text \<open>
  \<open>Retry-After\<close> is truthful: whatever happened before, when a request is rejected with \<open>n\<close> seconds
  then \<open>n\<close> is at least one, the header spells \<open>n\<close>, and the same client's next request \<open>n\<close> seconds later or
  any time after that is allowed.
\<close>

theorem throttler_retry_after_suffices:
  assumes "canActivate memory_consume opts h (Inr c) now (guard_after opts rqs new_guard) = (gs', TooManyRequests s n)"
    and "now + n * 1000 \<le> later"
  shows "1 \<le> n \<and> s = show_nat (nat n) \<and> snd (canActivate memory_consume opts h (Inr c) later gs') = Allowed"
proof -
  let ?gs = "guard_after opts rqs new_guard"
  have ok: "policies_ok opts (gs_policies ?gs)" "js_ok (ts_map (gs_store ?gs))"
    using guard_after_ok [OF new_guard_ok(1,2)] by auto
  obtain p m r where p: "resolve_policy opts h = Inr p" "\<not> hp_skip p" and m: "0 < m" "now < r"
    and w: "next_window (throttle_look (gs_store ?gs) (buildStoreKey (hp_encodedHandlerKey p) c)) now (hp_ttlSeconds p * 1000) = (m, r)"
    using guard_rejected [OF ok assms(1)] by blast
  let ?k = "buildStoreKey (hp_encodedHandlerKey p) c"
  have out: "s = show_nat (nat n)" "n = ceil_seconds (r - now)"
    and gs': "gs_store gs' = fst (throttle_hit ?k now (hp_ttlSeconds p) (gs_store ?gs))"
    using guard_verdict [OF ok p w m] assms(1) by (auto split: if_splits)
  have over: "r \<le> later"
    using assms(2) ceil_seconds_covers [of "r - now"] out(2) by simp
  have "live_window now (throttle_look (gs_store gs') ?k) = Some (m, r)"
    using throttle_hit_look [OF ok(2), of now ?k "hp_ttlSeconds p" ?k] gs' w m(2) by (simp add: live_window_def)
  then have "throttle_look (gs_store gs') ?k = Some (m, r)"
    by (auto simp: live_window_def split: option.splits if_splits)
  then have fresh: "next_window (throttle_look (gs_store gs') ?k) later (hp_ttlSeconds p * 1000) = (1, later + hp_ttlSeconds p * 1000)"
    using over by (simp add: next_window_def)
  have "snd (canActivate memory_consume opts h (Inr c) later gs') = Allowed"
    using guard_verdict [OF guard_invariant [OF ok assms(1)] p fresh] resolved_limits [OF p(1)] by simp
  moreover have "1 \<le> n"
    using out(2) m(2) by (simp add: ceil_seconds_pos)
  ultimately show ?thesis
    using out by simp
qed

theorem throttler_retry_after_suffices_witness:
  "\<exists>gs'. canActivate memory_consume sample_limits sample_handler (Inr ''ann'') 2500
      (guard_after sample_limits (take 4 sample_requests) new_guard) = (gs', TooManyRequests ''8'' 8)
    \<and> snd (canActivate memory_consume sample_limits sample_handler (Inr ''ann'') 10500 gs') = Allowed"
proof -
  have "snd (canActivate memory_consume sample_limits sample_handler (Inr ''ann'') 2500
      (guard_after sample_limits (take 4 sample_requests) new_guard)) = TooManyRequests ''8'' 8"
    by code_simp
  then obtain gs' where gs': "canActivate memory_consume sample_limits sample_handler (Inr ''ann'') 2500
      (guard_after sample_limits (take 4 sample_requests) new_guard) = (gs', TooManyRequests ''8'' 8)"
    by (metis prod.collapse)
  from throttler_retry_after_suffices [OF gs', of 10500] gs' show ?thesis
    by auto
qed

end
