(* ===== verification/Rate_Limit.thy ===== *)
theory Rate_Limit
  imports Expiring_Entries JS_String
begin

text \<open>
  \<open>packages/http/src/middleware/rate-limit.ts\<close>: the in-memory window store and the middleware.

  Each \<open>await\<close> of the middleware ends a step (\<open>handle_step\<close>), so that interleavings of concurrent
  requests can be written down; \<open>rate_limit_handle\<close> runs the steps of one request without
  interruption.  The key is an argument: what \<open>keyResolver\<close> or \<open>resolveClientIdentity\<close> returned.
  The store is a record of operations, as \<open>RateLimitStore\<close> is.
\<close>

record rate_entry =
  rl_count :: int
  rl_resetAt :: int

record 's rate_store_ops =
  rs_get :: "string \<Rightarrow> 's \<Rightarrow> rate_entry option"
  rs_set :: "string \<Rightarrow> rate_entry \<Rightarrow> 's \<Rightarrow> 's"
  rs_increment :: "string \<Rightarrow> 's \<Rightarrow> 's \<times> int"
  rs_evict :: "int \<Rightarrow> 's \<Rightarrow> 's"

section \<open>The in-memory store\<close>

record rate_store =
  rl_map :: "(string, rate_entry) js_map"
  rl_nextSweepAt :: int

definition rate_get :: "string \<Rightarrow> rate_store \<Rightarrow> rate_entry option" where
  "rate_get key s = js_get (rl_map s) key"

definition rate_set :: "string \<Rightarrow> rate_entry \<Rightarrow> rate_store \<Rightarrow> rate_store" where
  "rate_set key e s = s\<lparr>rl_map := js_set (rl_map s) key e\<rparr>"

definition rate_increment :: "string \<Rightarrow> rate_store \<Rightarrow> rate_store \<times> int" where
  "rate_increment key s =
     (case js_get (rl_map s) key of
        None \<Rightarrow> (s, 0)
      | Some e \<Rightarrow>
          (let e' = e\<lparr>rl_count := rl_count e + 1\<rparr>
           in (s\<lparr>rl_map := js_set (rl_map s) key e'\<rparr>, rl_count e')))"

definition rate_evict :: "int \<Rightarrow> rate_store \<Rightarrow> rate_store" where
  "rate_evict now s =
     (if now < rl_nextSweepAt s then s
      else (let (m, next) = sweep_entries (\<lambda>e. Some (rl_resetAt e)) (rl_map s) now
            in \<lparr>rl_map = m, rl_nextSweepAt = next\<rparr>))"

definition createMemoryRateLimitStore :: "rate_store rate_store_ops" where
  "createMemoryRateLimitStore =
     \<lparr>rs_get = rate_get, rs_set = rate_set, rs_increment = rate_increment, rs_evict = rate_evict\<rparr>"

definition empty_rate_store :: rate_store where
  "empty_rate_store = \<lparr>rl_map = [], rl_nextSweepAt = 0\<rparr>"

section \<open>The middleware\<close>

record rate_options =
  ro_limit :: int
  ro_windowMs :: int

text \<open>\<open>Responded429 h n\<close>: the response got the header \<open>Retry-After: h\<close> and an error body with \<open>n\<close>.\<close>

datatype rate_outcome = CallNext | Responded429 string int

datatype rate_pc =
    RateStart
  | RateEvicted
  | RateGot "rate_entry option"
  | RateOpened
  | RateCounted int int
  | RateDone rate_outcome

definition ceil_thousandth :: "int \<Rightarrow> int" where
  "ceil_thousandth ms = - ((- ms) div 1000)"

definition too_many :: "int \<Rightarrow> rate_outcome" where
  "too_many ms = Responded429 (show_int (ceil_thousandth ms)) (ceil_thousandth ms)"

fun handle_step ::
  "'s rate_store_ops \<Rightarrow> rate_options \<Rightarrow> string \<Rightarrow> int \<Rightarrow> rate_pc \<Rightarrow> 's \<Rightarrow> rate_pc \<times> 's" where
  "handle_step ops opts key now RateStart s = (RateEvicted, rs_evict ops now s)"
| "handle_step ops opts key now RateEvicted s = (RateGot (rs_get ops key s), s)"
| "handle_step ops opts key now (RateGot entry) s =
     (let opened = (RateOpened, rs_set ops key \<lparr>rl_count = 1, rl_resetAt = now + ro_windowMs opts\<rparr> s)
      in case entry of
           None \<Rightarrow> opened
         | Some e \<Rightarrow>
             if now \<ge> rl_resetAt e then opened
             else (let (s', c) = rs_increment ops key s in (RateCounted c (rl_resetAt e), s')))"
| "handle_step ops opts key now RateOpened s =
     (RateDone (if 1 > ro_limit opts then too_many (ro_windowMs opts) else CallNext), s)"
| "handle_step ops opts key now (RateCounted c resetAt) s =
     (RateDone (if c > ro_limit opts then too_many (resetAt - now) else CallNext), s)"
| "handle_step ops opts key now (RateDone out) s = (RateDone out, s)"

definition rate_limit_handle ::
  "'s rate_store_ops \<Rightarrow> rate_options \<Rightarrow> string \<Rightarrow> int \<Rightarrow> 's \<Rightarrow> rate_pc \<times> 's" where
  "rate_limit_handle ops opts key now s =
     (let step = (\<lambda>(pc, s). handle_step ops opts key now pc s)
      in step (step (step (step (RateStart, s)))))"

section \<open>The store of a middleware instance is a fixed-window counter\<close>

text \<open>The store part of one uninterrupted request: what it counted, and when the window ends.\<close>

definition rate_hit :: "string \<Rightarrow> int \<Rightarrow> int \<Rightarrow> rate_store \<Rightarrow> rate_store \<times> int \<times> int" where
  "rate_hit key now windowMs s =
     (let s1 = rate_evict now s
      in case rate_get key s1 of
           None \<Rightarrow> (rate_set key \<lparr>rl_count = 1, rl_resetAt = now + windowMs\<rparr> s1, 1, now + windowMs)
         | Some e \<Rightarrow>
             if now \<ge> rl_resetAt e
             then (rate_set key \<lparr>rl_count = 1, rl_resetAt = now + windowMs\<rparr> s1, 1, now + windowMs)
             else (let (s2, c) = rate_increment key s1 in (s2, c, rl_resetAt e)))"

definition rate_look :: "rate_store \<Rightarrow> string \<Rightarrow> (int \<times> int) option" where
  "rate_look s k = map_option (\<lambda>e. (rl_count e, rl_resetAt e)) (js_get (rl_map s) k)"

lemma evict_get:
  assumes "js_ok (rl_map s)"
  shows "js_get (rl_map (rate_evict now s)) k =
    (case js_get (rl_map s) k of
       None \<Rightarrow> None
     | Some e \<Rightarrow> if now \<ge> rl_nextSweepAt s \<and> now \<ge> rl_resetAt e then None else Some e)"
proof -
  have "rl_map (rate_evict now s) = fst (swept (\<lambda>e. Some (rl_resetAt e)) now (rl_map s) (rl_nextSweepAt s))"
    by (simp add: rate_evict_def swept_def split: prod.splits)
  then show ?thesis
    by (simp add: swept_get [OF assms] live_at_def not_less cong: option.case_cong if_cong)
qed

lemma evict_ok: "js_ok (rl_map s) \<Longrightarrow> js_ok (rl_map (rate_evict now s))"
  using sweep_entries_keeps [of "\<lambda>e. Some (rl_resetAt e)" "rl_map s" now]
  by (auto simp: rate_evict_def js_ok_filter split: prod.splits)

lemma rate_hit_result:
  assumes "js_ok (rl_map s)"
  shows "snd (rate_hit k now w s) = next_window (rate_look s k) now w"
  using evict_get [OF assms, of now k]
  by (auto simp: rate_hit_def rate_get_def rate_increment_def rate_look_def next_window_def Let_def split: option.splits if_splits)

lemma rate_hit_look:
  assumes "js_ok (rl_map s)"
  shows "live_window now (rate_look (fst (rate_hit k now w s)) k') =
    live_window now (if k' = k then Some (next_window (rate_look s k) now w) else rate_look s k')"
  using evict_get [OF assms, of now k] evict_get [OF assms, of now k']
  by (auto simp: rate_hit_def rate_get_def rate_set_def rate_increment_def rate_look_def next_window_def live_window_def
      js_get_set Let_def split: option.splits if_splits)

lemma rate_hit_ok: "js_ok (rl_map s) \<Longrightarrow> js_ok (rl_map (fst (rate_hit k now w s)))"
  using evict_ok [of s now] jsm.ok_put
  by (auto simp: rate_hit_def rate_set_def rate_increment_def Let_def split: option.splits)

interpretation rl: fixed_window rate_hit "\<lambda>w. w" rate_look "\<lambda>s. js_ok (rl_map s)"
  by unfold_locales (rule rate_hit_result rate_hit_look rate_hit_ok; assumption)+

definition rate_verdict :: "rate_options \<Rightarrow> int \<Rightarrow> int \<times> int \<Rightarrow> rate_outcome" where
  "rate_verdict opts now w = (if fst w \<le> ro_limit opts then CallNext else too_many (snd w - now))"

lemma handle_hit:
  "rate_limit_handle createMemoryRateLimitStore opts key now s =
     (RateDone (rate_verdict opts now (snd (rate_hit key now (ro_windowMs opts) s))), fst (rate_hit key now (ro_windowMs opts) s))"
  by (auto simp: rate_limit_handle_def createMemoryRateLimitStore_def rate_hit_def rate_verdict_def Let_def
      split: option.splits prod.splits)

section \<open>Requests one after the other\<close>

fun rate_run :: "rate_options \<Rightarrow> (string \<times> int) list \<Rightarrow> rate_store \<Rightarrow> rate_pc list" where
  "rate_run opts [] s = []"
| "rate_run opts ((key, now) # calls) s =
     (let (pc, s') = rate_limit_handle createMemoryRateLimitStore opts key now s in pc # rate_run opts calls s')"

fun rate_after :: "rate_options \<Rightarrow> (string \<times> int) list \<Rightarrow> rate_store \<Rightarrow> rate_store" where
  "rate_after opts [] s = s"
| "rate_after opts ((key, now) # calls) s =
     rate_after opts calls (snd (rate_limit_handle createMemoryRateLimitStore opts key now s))"

definition rate_hits :: "rate_options \<Rightarrow> (string \<times> int) list \<Rightarrow> string hit list" where
  "rate_hits opts calls = run_hits rate_hit (map (\<lambda>(k, now). (k, now, ro_windowMs opts)) calls) empty_rate_store"

lemma passes_iff: "RateDone (rate_verdict opts now (c, r)) = RateDone CallNext \<longleftrightarrow> c \<le> ro_limit opts"
  by (simp add: rate_verdict_def too_many_def)

lemma rate_run_passes:
  "map (\<lambda>pc. pc = RateDone CallNext) (rate_run opts calls s) =
     map (\<lambda>(k, r, c). c \<le> ro_limit opts) (run_hits rate_hit (map (\<lambda>(k, now). (k, now, ro_windowMs opts)) calls) s)"
  by (induction opts calls s rule: rate_run.induct)
    (auto simp: handle_hit rate_verdict_def too_many_def split: prod.splits)

lemma sorted_windows:
  "sorted (t # map snd calls) \<Longrightarrow> sorted (t # map (fst \<circ> snd) (map (\<lambda>(k, now). (k, now, w)) calls))"
proof -
  have "map (fst \<circ> snd) (map (\<lambda>(k, now). (k, now, w)) calls) = map snd calls"
    by auto
  then show "sorted (t # map snd calls) \<Longrightarrow> sorted (t # map (fst \<circ> snd) (map (\<lambda>(k, now). (k, now, w)) calls))"
    by metis
qed

lemma filter_zip_passes:
  "length xs = length ys \<Longrightarrow> map f ys = map g xs \<Longrightarrow> map (\<lambda>(x, y). f y) (filter (\<lambda>(x, y). P x) (zip xs ys)) = map g (filter P xs)"
  by (induction xs ys rule: list_induct2) auto

lemma rate_run_length: "length (rate_run opts calls s) = length calls"
  by (induction opts calls s rule: rate_run.induct) (auto split: prod.splits)

lemma run_hits_length: "length (run_hits hit calls s) = length calls"
  by (induction hit calls s rule: run_hits.induct) (auto split: prod.splits)

text \<open>
  The rate-limit middleware admits exactly the budget.  When requests are handled one after the
  other, with a clock that does not run backwards and a positive window, the requests of one key that fall
  into one window (same end \<open>r\<close>) pass if and only if they are among the first \<open>limit\<close> of that window.
\<close>

theorem rate_limit_admits_budget:
  assumes "sorted (0 # map snd calls)" and "0 < ro_windowMs opts"
  shows "map (\<lambda>(hit, pc). pc = RateDone CallNext)
      (filter (\<lambda>((k', r', c), pc). k' = k \<and> r' = r) (zip (rate_hits opts calls) (rate_run opts calls empty_rate_store)))
    = map (\<lambda>i. int i < ro_limit opts) [0..<length (bucket k r (rate_hits opts calls))]"
proof -
  have init: "rl.counted [] 0 empty_rate_store"
    by (rule rl.counted_init) (simp_all add: empty_rate_store_def rate_look_def)
  have "\<forall>(k, now, w) \<in> set (map (\<lambda>(k, now). (k, now, ro_windowMs opts)) calls). 0 < w"
    using assms(2) by auto
  from rl.run_counted [OF init sorted_windows [OF assms(1)] this]
  obtain t s where "rl.counted ([] @ rate_hits opts calls) t s"
    by (auto simp: rate_hits_def)
  note counts = rl.counted_counts [OF this, of k r, unfolded append_Nil]
  have "map (\<lambda>(hit, pc). pc = RateDone CallNext)
      (filter (\<lambda>(hit, pc). case hit of (k', r', c) \<Rightarrow> k' = k \<and> r' = r) (zip (rate_hits opts calls) (rate_run opts calls empty_rate_store)))
    = map (\<lambda>(k, r, c). c \<le> ro_limit opts) (bucket k r (rate_hits opts calls))"
    unfolding bucket_def rate_hits_def
    by (rule filter_zip_passes) (simp_all add: rate_run_length run_hits_length rate_run_passes)
  also have "\<dots> = map (\<lambda>c. c \<le> ro_limit opts) (map (\<lambda>(k, r, c). c) (bucket k r (rate_hits opts calls)))"
    by (simp add: case_prod_beta)
  also have "(\<lambda>(hit, pc :: rate_pc). case hit of (k', r', c :: int) \<Rightarrow> k' = k \<and> r' = r) = (\<lambda>((k', r', c), pc). k' = k \<and> r' = r)"
    by auto
  finally show ?thesis
    unfolding counts admitted_prefix .
qed

definition sample_rate :: rate_options where
  "sample_rate = \<lparr>ro_limit = 2, ro_windowMs = 1000\<rparr>"

definition sample_calls_rl :: "(string \<times> int) list" where
  "sample_calls_rl = [(''a'', 0), (''b'', 10), (''a'', 20), (''a'', 500), (''a'', 1200)]"

theorem rate_limit_admits_budget_witness:
  "map (\<lambda>(hit, pc). pc = RateDone CallNext)
      (filter (\<lambda>((k', r', c), pc). k' = ''a'' \<and> r' = 1000)
        (zip (rate_hits sample_rate sample_calls_rl) (rate_run sample_rate sample_calls_rl empty_rate_store)))
    = [True, True, False]"
proof -
  have "map (\<lambda>i. int i < ro_limit sample_rate) [0..<length (bucket ''a'' 1000 (rate_hits sample_rate sample_calls_rl))] = [True, True, False]"
    by code_simp
  then show ?thesis
    using rate_limit_admits_budget [of sample_calls_rl sample_rate "''a''" 1000]
    by (simp add: sample_calls_rl_def sample_rate_def)
qed

section \<open>The store keeps no dead windows\<close>

text \<open>\<open>set\<close> does not lower \<open>nextSweepAt\<close>; with one window length and a clock that does not run
  backwards it need not.\<close>

definition rate_inv :: "int \<Rightarrow> int \<Rightarrow> rate_store \<Rightarrow> bool" where
  "rate_inv w t s \<longleftrightarrow> js_ok (rl_map s) \<and> rl_nextSweepAt s \<le> t + w
     \<and> (\<forall>(k, e) \<in> set (rl_map s). rl_nextSweepAt s \<le> rl_resetAt e \<and> rl_resetAt e \<le> t + w)"

lemma evict_live:
  assumes inv: "rate_inv w t s" and t: "0 \<le> t" "t \<le> now" "0 < w"
  shows "rate_inv w now (rate_evict now s) \<and> (\<forall>(k, e) \<in> set (rl_map (rate_evict now s)). now < rl_resetAt e)"
proof (cases "now < rl_nextSweepAt s")
  case True
  with inv t show ?thesis
    by (fastforce simp: rate_inv_def rate_evict_def)
next
  case False
  let ?x = "\<lambda>e. Some (rl_resetAt e)"
  have keeps: "fst (sweep_entries ?x (rl_map s) now) = filter (\<lambda>(k, e). now < rl_resetAt e) (rl_map s)"
    by (simp add: sweep_entries_keeps live_at_def)
  have "next_ok ?x (fst (sweep_entries ?x (rl_map s) now)) (snd (sweep_entries ?x (rl_map s) now))"
    using t by (intro sweep_entries_next) simp
  then have lower: "\<forall>(k, e) \<in> set (filter (\<lambda>(k, e). now < rl_resetAt e) (rl_map s)). snd (sweep_entries ?x (rl_map s) now) \<le> rl_resetAt e"
    unfolding keeps by (auto simp: next_ok_def)
  have upper: "\<forall>(k, e) \<in> set (rl_map s). rl_resetAt e \<le> now + w"
    using inv t(2) by (fastforce simp: rate_inv_def)
  have "snd (sweep_entries ?x (rl_map s) now) \<le> now + w"
  proof (cases "filter (\<lambda>(k, e). now < rl_resetAt e) (rl_map s)")
    case Nil
    then have "snd (sweep_loop ?x now (rl_map s) None) = None"
      by (intro sweep_loop_empty) (auto simp: filter_empty_conv)
    with t show ?thesis
      by (cases "sweep_loop ?x now (rl_map s) None") (simp add: sweep_entries_def)
  next
    case (Cons p m)
    then have "p \<in> set (filter (\<lambda>(k, e). now < rl_resetAt e) (rl_map s))"
      by simp
    with lower upper show ?thesis
      by (cases p) fastforce
  qed
  with inv lower upper keeps False show ?thesis
    by (auto simp: rate_inv_def rate_evict_def js_ok_filter split: prod.splits)
qed

lemma handle_live:
  assumes inv: "rate_inv (ro_windowMs opts) t s" and t: "0 \<le> t" "t \<le> now" "0 < ro_windowMs opts"
    and s': "s' = snd (rate_limit_handle createMemoryRateLimitStore opts key now s)"
  shows "rate_inv (ro_windowMs opts) now s' \<and> (\<forall>(k, e) \<in> set (rl_map s'). now < rl_resetAt e)"
proof -
  let ?s1 = "rate_evict now s"
  have ev: "rate_inv (ro_windowMs opts) now ?s1" "\<forall>(k, e) \<in> set (rl_map ?s1). now < rl_resetAt e"
    using evict_live [OF inv t] by auto
  consider "s' = rate_set key \<lparr>rl_count = 1, rl_resetAt = now + ro_windowMs opts\<rparr> ?s1"
    | e where "js_get (rl_map ?s1) key = Some e" "s' = ?s1\<lparr>rl_map := js_set (rl_map ?s1) key (e\<lparr>rl_count := rl_count e + 1\<rparr>)\<rparr>"
  proof (cases "js_get (rl_map ?s1) key")
    case None
    then have "s' = rate_set key \<lparr>rl_count = 1, rl_resetAt = now + ro_windowMs opts\<rparr> ?s1"
      by (simp add: s' handle_hit rate_hit_def rate_get_def)
    then show thesis by (rule that(1))
  next
    case (Some e)
    with ev(2) have "now < rl_resetAt e"
      by (auto dest: js_get_in)
    with Some have "s' = ?s1\<lparr>rl_map := js_set (rl_map ?s1) key (e\<lparr>rl_count := rl_count e + 1\<rparr>)\<rparr>"
      by (simp add: s' handle_hit rate_hit_def rate_get_def rate_increment_def Let_def)
    with Some show thesis by (rule that(2))
  qed
  then show ?thesis
  proof cases
    case 1
    have "set (rl_map s') \<subseteq> insert (key, \<lparr>rl_count = 1, rl_resetAt = now + ro_windowMs opts\<rparr>) (set (rl_map ?s1))"
      unfolding 1 rate_set_def using js_set_subset by force
    moreover have "js_ok (rl_map s')" "rl_nextSweepAt s' = rl_nextSweepAt ?s1"
      using ev(1) jsm.ok_put by (auto simp: 1 rate_set_def rate_inv_def)
    ultimately show ?thesis
      using ev t(3) by (fastforce simp: rate_inv_def)
  next
    case 2
    have "set (rl_map s') \<subseteq> insert (key, e\<lparr>rl_count := rl_count e + 1\<rparr>) (set (rl_map ?s1))"
      unfolding 2 using js_set_subset by force
    moreover have "(key, e) \<in> set (rl_map ?s1)"
      using js_get_in [OF 2(1)] .
    moreover have "js_ok (rl_map s')" "rl_nextSweepAt s' = rl_nextSweepAt ?s1"
      using ev(1) jsm.ok_put by (auto simp: 2 rate_inv_def)
    ultimately show ?thesis
      using ev by (fastforce simp: rate_inv_def)
  qed
qed

lemma rate_after_inv:
  "rate_inv (ro_windowMs opts) t s \<Longrightarrow> 0 \<le> t \<Longrightarrow> sorted (t # map snd calls) \<Longrightarrow> 0 < ro_windowMs opts \<Longrightarrow>
     rate_inv (ro_windowMs opts) (last (t # map snd calls)) (rate_after opts calls s)"
proof (induction calls arbitrary: t s)
  case (Cons call calls)
  obtain key now where call: "call = (key, now)"
    by (cases call)
  have now: "t \<le> now" "0 \<le> now" "sorted (now # map snd calls)"
    using Cons.prems(2,3) by (auto simp: call)
  from Cons.IH [OF _ now(2,3) Cons.prems(4)] handle_live [OF Cons.prems(1,2) now(1) Cons.prems(4) refl]
  show ?case
    by (simp add: call)
qed simp

text \<open>
  The rate-limit store keeps no dead windows: after a request at time \<open>now\<close>, following any earlier
  requests, every window in the map is still open at \<open>now\<close>, and no \<open>Retry-After\<close> that the middleware
  announces is below one second.
\<close>

theorem rate_limit_store_bounded:
  assumes "sorted (0 # map snd calls @ [now])" and "0 < ro_windowMs opts"
    and "rate_limit_handle createMemoryRateLimitStore opts key now (rate_after opts calls empty_rate_store) = (pc, s)"
  shows "(\<forall>(k, e) \<in> set (rl_map s). now < rl_resetAt e \<and> rl_resetAt e \<le> now + ro_windowMs opts)
    \<and> (\<forall>h n. pc = RateDone (Responded429 h n) \<longrightarrow> 1 \<le> n \<and> h = show_nat (nat n))"
proof -
  have sorted: "sorted (0 # map snd calls)" and now: "\<forall>x \<in> set (0 # map snd calls). 0 \<le> x \<and> x \<le> now"
    using assms(1) by (auto simp: sorted_append)
  then have last: "last (0 # map snd calls) \<le> now" "0 \<le> last (0 # map snd calls)"
    using last_in_set [of "0 # map snd calls"] by (metis list.distinct(1))+
  have "rate_inv (ro_windowMs opts) 0 empty_rate_store"
    using assms(2) by (simp add: rate_inv_def empty_rate_store_def)
  then have inv: "rate_inv (ro_windowMs opts) (last (0 # map snd calls)) (rate_after opts calls empty_rate_store)"
    using rate_after_inv sorted assms(2) by blast
  have live: "rate_inv (ro_windowMs opts) now s" "\<forall>(k, e) \<in> set (rl_map s). now < rl_resetAt e"
    using handle_live [OF inv last(2,1) assms(2), of s key] assms(3) by simp_all
  obtain c r where hit: "snd (rate_hit key now (ro_windowMs opts) (rate_after opts calls empty_rate_store)) = (c, r)"
    by force
  have "js_ok (rl_map (rate_after opts calls empty_rate_store))"
    using inv by (simp add: rate_inv_def)
  from rate_hit_result [OF this, of key now "ro_windowMs opts"] hit have "now < r"
    using assms(2) by (auto simp: next_window_def split: option.splits if_splits)
  then have "1 \<le> ceil_thousandth (r - now)"
    unfolding ceil_thousandth_def using pos_imp_zdiv_neg_iff [of 1000 "now - r"] by linarith
  moreover have "pc = RateDone (rate_verdict opts now (c, r))"
    using assms(3) by (simp add: handle_hit hit)
  ultimately have "\<forall>h n. pc = RateDone (Responded429 h n) \<longrightarrow> 1 \<le> n \<and> h = show_nat (nat n)"
    by (auto simp: rate_verdict_def too_many_def show_int_def split: if_splits)
  moreover have "\<forall>(k, e) \<in> set (rl_map s). now < rl_resetAt e \<and> rl_resetAt e \<le> now + ro_windowMs opts"
    using live by (auto simp: rate_inv_def)
  ultimately show ?thesis
    by blast
qed

theorem rate_limit_store_bounded_witness:
  "\<exists>s. rate_limit_handle createMemoryRateLimitStore sample_rate ''a'' 700 (rate_after sample_rate (take 4 sample_calls_rl) empty_rate_store)
      = (RateDone (Responded429 ''1'' 1), s) \<and> list_all (\<lambda>(k, e). 700 < rl_resetAt e \<and> rl_resetAt e \<le> 1700) (rl_map s)"
proof -
  have "fst (rate_limit_handle createMemoryRateLimitStore sample_rate ''a'' 700 (rate_after sample_rate (take 4 sample_calls_rl) empty_rate_store))
      = RateDone (Responded429 ''1'' 1)"
    by code_simp
  then obtain s where s: "rate_limit_handle createMemoryRateLimitStore sample_rate ''a'' 700
      (rate_after sample_rate (take 4 sample_calls_rl) empty_rate_store) = (RateDone (Responded429 ''1'' 1), s)"
    by (metis prod.collapse)
  have "sorted (0 # map snd (take 4 sample_calls_rl) @ [700])" "0 < ro_windowMs sample_rate" "700 + ro_windowMs sample_rate = 1700"
    by (simp_all add: sample_calls_rl_def sample_rate_def)
  with rate_limit_store_bounded [OF _ _ s] s show ?thesis
    by (auto simp: list_all_iff)
qed

section \<open>Interleaved requests\<close>

text \<open>A schedule names the request that takes the next step.\<close>

fun interleave ::
  "rate_options \<Rightarrow> (string \<times> int) list \<Rightarrow> nat list \<Rightarrow> rate_pc list \<times> rate_store \<Rightarrow> rate_pc list \<times> rate_store" where
  "interleave opts reqs [] (pcs, s) = (pcs, s)"
| "interleave opts reqs (i # sched) (pcs, s) =
     (let (pc, s') = handle_step createMemoryRateLimitStore opts (fst (reqs ! i)) (snd (reqs ! i)) (pcs ! i) s
      in interleave opts reqs sched (pcs[i := pc], s'))"

lemma interleave_round:
  assumes step: "\<And>i. i < n \<Longrightarrow> handle_step createMemoryRateLimitStore opts (fst (reqs ! i)) (snd (reqs ! i)) p s = (q, s')"
    "\<And>i. i < n \<Longrightarrow> handle_step createMemoryRateLimitStore opts (fst (reqs ! i)) (snd (reqs ! i)) p s' = (q, s')"
  shows "m \<le> n \<Longrightarrow> 0 < n \<Longrightarrow>
    interleave opts reqs ([m..<n] @ sched) (replicate m q @ replicate (n - m) p, if m = 0 then s else s') =
    interleave opts reqs sched (replicate n q, s')"
proof (induction "n - m" arbitrary: m)
  case (Suc d)
  then have m: "m < n"
    by simp
  have "(replicate m q @ replicate (n - m) p)[m := q] = replicate (Suc m) q @ replicate (n - Suc m) p"
    using m by (simp add: list_update_append replicate_app_Cons_same flip: Suc_diff_Suc)
  moreover have "handle_step createMemoryRateLimitStore opts (fst (reqs ! m)) (snd (reqs ! m)) p (if m = 0 then s else s') = (q, s')"
    using step m by simp
  moreover have "(replicate m q @ replicate (n - m) p) ! m = p"
    using m by (simp add: nth_append)
  ultimately show ?case
    using Suc.hyps(1) [of "Suc m"] Suc.hyps(2) Suc.prems m by (simp add: upt_conv_Cons)
qed simp

lemma interleave_rounds:
  assumes "0 < n" "\<And>i. i < n \<Longrightarrow> reqs ! i = (key, now)"
    and "handle_step createMemoryRateLimitStore opts key now p s = (q, s')" "handle_step createMemoryRateLimitStore opts key now p s' = (q, s')"
  shows "interleave opts reqs ([0..<n] @ sched) (replicate n p, s) = interleave opts reqs sched (replicate n q, s')"
  using interleave_round [of n opts reqs p s q s' 0 sched] assms by simp

text \<open>
  Reading and opening a window are separate awaited steps, so requests of one key that interleave all find no
  window: however many requests \<open>n\<close> of a key take their steps in turn, starting from a fresh store, each of them
  passes.  The budget of the sequential case is not enforced across interleavings.
\<close>

theorem rate_limit_interleaving_exceeds:
  assumes "1 \<le> ro_limit opts" and "0 < n"
  shows "fst (interleave opts (replicate n (key, now)) ([0..<n] @ [0..<n] @ [0..<n] @ [0..<n])
      (replicate n RateStart, empty_rate_store)) = replicate n (RateDone CallNext)"
proof -
  let ?e = "\<lparr>rl_count = 1, rl_resetAt = now + ro_windowMs opts\<rparr>"
  have "rate_evict now empty_rate_store = empty_rate_store"
    by (simp add: rate_evict_def empty_rate_store_def sweep_entries_def)
  moreover have "rate_get key empty_rate_store = None"
    by (simp add: rate_get_def empty_rate_store_def)
  moreover have "rate_set key ?e (rate_set key ?e empty_rate_store) = rate_set key ?e empty_rate_store"
    by (simp add: rate_set_def empty_rate_store_def js_set_def js_has_def)
  moreover have "interleave opts (replicate n (key, now)) [0..<n] (replicate n RateOpened, s) = (replicate n (RateDone CallNext), s)" for s
    using interleave_rounds [OF assms(2), of "replicate n (key, now)" key now opts RateOpened s "RateDone CallNext" s "[]"] assms(1) by simp
  ultimately show ?thesis
    using assms interleave_rounds [OF assms(2), of "replicate n (key, now)" key now opts]
    by (simp add: createMemoryRateLimitStore_def)
qed

theorem rate_limit_interleaving_exceeds_witness:
  "fst (interleave \<lparr>ro_limit = 1, ro_windowMs = 1000\<rparr> (replicate 3 (''a'', 0)) ([0..<3] @ [0..<3] @ [0..<3] @ [0..<3])
      (replicate 3 RateStart, empty_rate_store)) = replicate 3 (RateDone CallNext)
   \<and> rate_run \<lparr>ro_limit = 1, ro_windowMs = 1000\<rparr> (replicate 3 (''a'', 0)) empty_rate_store =
       [RateDone CallNext, RateDone (Responded429 ''1'' 1), RateDone (Responded429 ''1'' 1)]"
proof -
  have "rate_run \<lparr>ro_limit = 1, ro_windowMs = 1000\<rparr> (replicate 3 (''a'', 0)) empty_rate_store =
       [RateDone CallNext, RateDone (Responded429 ''1'' 1), RateDone (Responded429 ''1'' 1)]"
    by code_simp
  with rate_limit_interleaving_exceeds [of "\<lparr>ro_limit = 1, ro_windowMs = 1000\<rparr>" 3 "''a''" 0] show ?thesis
    by simp
qed

end
