(* ===== verification/Memory_Cache.thy ===== *)
theory Memory_Cache
  imports JS_Number Expiring_Entries
begin

text \<open>
  \<open>packages/cache-manager/src/stores/memory-store.ts\<close> and the expiry rule and error codes of
  \<open>atomic-update.ts\<close>.

  Values are opaque, and \<open>cloneCacheValue\<close> (a structural copy) is the identity on them.  The code
  compares entries by object identity, so an entry carries the reference it was allocated with.  The
  clock reading of each operation is an argument.  The retry loop of \<open>atomicUpdate.update\<close> is given,
  for each attempt, the operations that other callers perform while the snapshot and the reducer are
  awaited.  The per-key queue that admits updates one at a time is not modelled.
\<close>

record 'v mem_entry =
  me_expiresAt :: "int option"
  me_value :: 'v
  me_ref :: nat

record 'v mem_store =
  ms_entries :: "(string, 'v mem_entry) js_map"
  ms_nextSweepAt :: int
  ms_nextRef :: nat

definition new_mem_store :: "'v mem_store" where
  "new_mem_store = \<lparr>ms_entries = [], ms_nextSweepAt = 0, ms_nextRef = 0\<rparr>"

definition max_memory_cache_entries :: nat where
  "max_memory_cache_entries = 1000"

definition mem_sweepExpiredEntries ::
  "(string, 'v mem_entry) js_map \<Rightarrow> int \<Rightarrow> (string, 'v mem_entry) js_map \<times> int" where
  "mem_sweepExpiredEntries entries now = sweep_entries me_expiresAt entries now"

text \<open>The \<open>while\<close> loop: delete the oldest key until the bound \<open>n\<close> holds.\<close>

function enforce_bound :: "nat \<Rightarrow> ('k, 'e) js_map \<Rightarrow> ('k, 'e) js_map" where
  "enforce_bound n [] = []"
| "enforce_bound n ((k, e) # es) =
     (if length ((k, e) # es) > n then enforce_bound n (js_delete ((k, e) # es) k) else (k, e) # es)"
  by pat_completeness auto
termination
  by (relation "measure (\<lambda>(n, es). length es)") (auto simp: js_delete_def less_Suc_eq_le)

declare enforce_bound.simps(2) [simp del]

definition enforceEntryLimit :: "(string, 'v mem_entry) js_map \<Rightarrow> (string, 'v mem_entry) js_map" where
  "enforceEntryLimit entries = enforce_bound max_memory_cache_entries entries"

definition normalizePositiveTtlMilliseconds :: "js_number \<Rightarrow> int \<Rightarrow> int" where
  "normalizePositiveTtlMilliseconds ttlSeconds maximum =
     (case ttlSeconds of
        Fin x \<Rightarrow> min maximum (max 1 \<lfloor>x * 1000\<rfloor>)
      | _ \<Rightarrow> maximum)"

definition positive_ttl :: "js_number \<Rightarrow> bool" where
  "positive_ttl t = (case t of Fin x \<Rightarrow> 0 < x | PosInf \<Rightarrow> True | _ \<Rightarrow> False)"

definition sweep_if_due :: "int \<Rightarrow> 'v mem_store \<Rightarrow> 'v mem_store" where
  "sweep_if_due now s =
     (if now \<ge> ms_nextSweepAt s
      then (let (es, next) = mem_sweepExpiredEntries (ms_entries s) now
            in s\<lparr>ms_entries := es, ms_nextSweepAt := next\<rparr>)
      else s)"

definition mem_get :: "string \<Rightarrow> int \<Rightarrow> 'v mem_store \<Rightarrow> 'v mem_store \<times> 'v option" where
  "mem_get key now s =
     (let s1 = sweep_if_due now s
      in case js_get (ms_entries s1) key of
           None \<Rightarrow> (s1, None)
         | Some e \<Rightarrow>
             if (case me_expiresAt e of None \<Rightarrow> False | Some x \<Rightarrow> now \<ge> x)
             then (let (es, next) = mem_sweepExpiredEntries (js_delete (ms_entries s1) key) now
                   in (s1\<lparr>ms_entries := es, ms_nextSweepAt := next\<rparr>, None))
             else (s1, Some (me_value e)))"

definition lower_next :: "int option \<Rightarrow> int \<Rightarrow> int" where
  "lower_next expiresAt next =
     (case expiresAt of None \<Rightarrow> next | Some x \<Rightarrow> if next = 0 then x else min next x)"

definition put_entry :: "string \<Rightarrow> 'v \<Rightarrow> int option \<Rightarrow> 'v mem_store \<Rightarrow> 'v mem_store" where
  "put_entry key v expiresAt s =
     (let e = \<lparr>me_expiresAt = expiresAt, me_value = v, me_ref = ms_nextRef s\<rparr>
      in \<lparr>ms_entries = enforceEntryLimit (js_set (js_delete (ms_entries s) key) key e),
          ms_nextSweepAt = lower_next expiresAt (ms_nextSweepAt s),
          ms_nextRef = Suc (ms_nextRef s)\<rparr>)"

definition mem_set :: "string \<Rightarrow> 'v \<Rightarrow> js_number \<Rightarrow> int \<Rightarrow> 'v mem_store \<Rightarrow> 'v mem_store" where
  "mem_set key v ttlSeconds now s =
     put_entry key v
       (if positive_ttl ttlSeconds
        then Some (now + normalizePositiveTtlMilliseconds ttlSeconds (max_safe_integer - now))
        else None)
       (sweep_if_due now s)"

definition mem_del :: "string \<Rightarrow> 'v mem_store \<Rightarrow> 'v mem_store" where
  "mem_del key s = s\<lparr>ms_entries := js_delete (ms_entries s) key\<rparr>"

definition mem_reset :: "'v mem_store \<Rightarrow> 'v mem_store" where
  "mem_reset s = s\<lparr>ms_entries := [], ms_nextSweepAt := 0\<rparr>"

section \<open>Atomic updates\<close>

datatype cache_update_error = Invalidated | Cancelled | Conflict | TtlRange | ReducerFailed

datatype 'v cache_update = UpdateSet 'v "js_number option" | UpdateDelete

definition resolveUpdateExpiry ::
  "js_number option \<Rightarrow> int option \<Rightarrow> bool \<Rightarrow> js_number \<Rightarrow> int \<Rightarrow> cache_update_error + int option" where
  "resolveUpdateExpiry ttlSeconds previous present defaultTtl now =
     (if ttlSeconds = None \<and> present then Inr previous
      else (case (case ttlSeconds of Some t \<Rightarrow> t | None \<Rightarrow> defaultTtl) of
              Fin x \<Rightarrow>
                if x < 0 then Inl TtlRange
                else if x = 0 then Inr None
                else Inr (Some (min max_safe_integer (now + max 1 \<lceil>x * 1000\<rceil>)))
            | _ \<Rightarrow> Inl TtlRange))"

datatype 'v mem_call =
    MemGet string int
  | MemSet string 'v js_number int
  | MemDel string
  | MemReset
  | Cancel

text \<open>The operations of other callers, and what they do to the signal of an update of \<open>key\<close>: \<open>del\<close> of the
  key and \<open>reset\<close> invalidate it, the caller may cancel it, and the first reason stays.\<close>

definition run_call :: "'v mem_call \<Rightarrow> 'v mem_store \<Rightarrow> 'v mem_store" where
  "run_call c s =
     (case c of
        MemGet k now \<Rightarrow> fst (mem_get k now s)
      | MemSet k v ttl now \<Rightarrow> mem_set k v ttl now s
      | MemDel k \<Rightarrow> mem_del k s
      | MemReset \<Rightarrow> mem_reset s
      | Cancel \<Rightarrow> s)"

definition call_signal :: "string \<Rightarrow> 'v mem_call \<Rightarrow> cache_update_error option \<Rightarrow> cache_update_error option" where
  "call_signal key c sig =
     (if sig \<noteq> None then sig
      else (case c of
              MemDel k \<Rightarrow> if k = key then Some Invalidated else None
            | MemReset \<Rightarrow> Some Invalidated
            | Cancel \<Rightarrow> Some Cancelled
            | _ \<Rightarrow> None))"

fun interfere ::
  "string \<Rightarrow> 'v mem_call list \<Rightarrow> 'v mem_store \<times> cache_update_error option \<Rightarrow> 'v mem_store \<times> cache_update_error option" where
  "interfere key [] p = p"
| "interfere key (c # cs) (s, sig) = interfere key cs (run_call c s, call_signal key c sig)"

record 'v update_attempt =
  ua_readAt :: int
  ua_whileRead :: "'v mem_call list"
  ua_whileReduce :: "'v mem_call list"
  ua_commitAt :: int

definition same_entry :: "'v mem_entry option \<Rightarrow> 'v mem_entry option \<Rightarrow> bool" where
  "same_entry a b = (map_option me_ref a = map_option me_ref b)"

text \<open>What happens once the reducer has decided and the signal is clear; \<open>None\<close> is the \<open>continue\<close> of the loop.\<close>

definition commit_update ::
  "string \<Rightarrow> 'v mem_entry option \<Rightarrow> 'v cache_update \<Rightarrow> js_number \<Rightarrow> int \<Rightarrow> 'v mem_store \<Rightarrow>
     ('v mem_store \<times> (cache_update_error + 'v option)) option" where
  "commit_update key entry decision defaultTtl now s =
     (if (case entry of None \<Rightarrow> False | Some e \<Rightarrow> (case me_expiresAt e of None \<Rightarrow> False | Some x \<Rightarrow> x \<le> now))
      then Some (s, Inl Invalidated)
      else if \<not> same_entry (js_get (ms_entries s) key) entry then None
      else (case decision of
              UpdateDelete \<Rightarrow> Some (s\<lparr>ms_entries := js_delete (ms_entries s) key\<rparr>, Inr None)
            | UpdateSet v ttl \<Rightarrow>
                (case resolveUpdateExpiry ttl (Option.bind entry me_expiresAt) (entry \<noteq> None) defaultTtl now of
                   Inl er \<Rightarrow> Some (s, Inl er)
                 | Inr expiresAt \<Rightarrow> Some (put_entry key v expiresAt s, Inr (Some v)))))"

fun update_loop ::
  "string \<Rightarrow> ('v option \<Rightarrow> nat \<Rightarrow> cache_update_error + 'v cache_update) \<Rightarrow> js_number \<Rightarrow> 'v update_attempt list \<Rightarrow> nat \<Rightarrow>
     'v mem_store \<times> cache_update_error option \<Rightarrow> 'v mem_store \<times> (cache_update_error + 'v option)" where
  "update_loop key reducer defaultTtl [] attempt (s, sig) = (s, Inl Conflict)"
| "update_loop key reducer defaultTtl (a # rest) attempt (s, sig) =
     (case sig of
        Some er \<Rightarrow> (s, Inl er)
      | None \<Rightarrow>
          (let (s1, snapshot) = mem_get key (ua_readAt a) s;
               entry = js_get (ms_entries s1) key;
               (s2, sig2) = interfere key (ua_whileRead a) (s1, None)
           in case sig2 of
                Some er \<Rightarrow> (s2, Inl er)
              | None \<Rightarrow>
                  (let decided = reducer snapshot attempt;
                       (s3, sig3) = interfere key (ua_whileReduce a) (s2, None)
                   in case decided of
                        Inl er \<Rightarrow> (s3, Inl er)
                      | Inr decision \<Rightarrow>
                          (case sig3 of
                             Some er \<Rightarrow> (s3, Inl er)
                           | None \<Rightarrow>
                               (case commit_update key entry decision defaultTtl (ua_commitAt a) s3 of
                                  Some result \<Rightarrow> result
                                | None \<Rightarrow> update_loop key reducer defaultTtl rest (Suc attempt) (s3, None))))))"

end
