(* ===== verification/Memory_Cache_Correctness.thy ===== *)
theory Memory_Cache_Correctness
  imports Memory_Cache
begin

text \<open>
  The in-memory cache store: its invariant, its refinement of a map whose entries expire, and the
  absence of lost updates in \<open>atomicUpdate.update\<close>.
\<close>

section \<open>The invariant\<close>

definition mem_inv :: "'v mem_store \<Rightarrow> bool" where
  "mem_inv s \<longleftrightarrow> js_ok (ms_entries s)
     \<and> next_ok me_expiresAt (ms_entries s) (ms_nextSweepAt s) \<and> 0 \<le> ms_nextSweepAt s
     \<and> length (ms_entries s) \<le> max_memory_cache_entries
     \<and> (\<forall>(k, e) \<in> set (ms_entries s). me_ref e < ms_nextRef s)
     \<and> distinct (map (me_ref \<circ> snd) (ms_entries s))"

lemma js_ok_refreshed: "js_ok m \<Longrightarrow> js_ok (js_set (js_delete m k) k v)"
  by (intro jsm.ok_put jsm.ok_del)

lemma inv_refreshed: "mem_inv s \<Longrightarrow> js_ok (js_set (js_delete (ms_entries s) k) k v)"
  by (simp add: mem_inv_def js_ok_refreshed)

lemma next_ok_delete: "next_ok expiry m next \<Longrightarrow> next_ok expiry (js_delete m k) next"
  using next_ok_subset [OF _ js_delete_subset] .

lemma js_delete_head: "js_ok ((k, e) # es) \<Longrightarrow> js_delete ((k, e) # es) k = es"
  by (induction es) (auto simp: js_delete_def)

lemma enforce_bound_drop: "js_ok es \<Longrightarrow> enforce_bound n es = drop (length es - n) es"
proof (induction n es rule: enforce_bound.induct)
  case (2 n k e es)
  show ?case
  proof (cases "length ((k, e) # es) > n")
    case True
    then have "enforce_bound n es = drop (length es - n) es"
      using 2 by (simp add: js_delete_head)
    with True 2(2) show ?thesis
      by (simp add: enforce_bound.simps(2) js_delete_head Suc_diff_le)
  qed (simp add: enforce_bound.simps(2))
qed simp

lemma enforce_limit:
  assumes "js_ok es"
  shows "length (enforceEntryLimit es) \<le> max_memory_cache_entries"
    and "set (enforceEntryLimit es) \<subseteq> set es"
    and "js_ok (enforceEntryLimit es)"
    and "distinct (map (me_ref \<circ> snd) es) \<Longrightarrow> distinct (map (me_ref \<circ> snd) (enforceEntryLimit es))"
    and "length es \<le> max_memory_cache_entries \<Longrightarrow> enforceEntryLimit es = es"
  using assms distinct_drop [of "map fst es"] distinct_drop [of "map (me_ref \<circ> snd) es"]
  by (auto simp: enforceEntryLimit_def enforce_bound_drop drop_map dest: in_set_dropD)

lemma inv_new: "mem_inv new_mem_store"
  by (simp add: mem_inv_def new_mem_store_def next_ok_def)

lemma inv_fewer:
  assumes "mem_inv s" and "es = filter P (ms_entries s)" and "next_ok me_expiresAt es next" and "0 \<le> next"
  shows "mem_inv (s\<lparr>ms_entries := es, ms_nextSweepAt := next\<rparr>)"
proof -
  have "length (filter P (ms_entries s)) \<le> max_memory_cache_entries"
    using length_filter_le [of P "ms_entries s"] assms(1) unfolding mem_inv_def by linarith
  then show ?thesis
    using assms by (auto simp: mem_inv_def js_ok_filter distinct_map_filter)
qed

lemma sweep_nonneg: "0 \<le> now \<Longrightarrow> 0 \<le> snd (sweep_entries expiry m now)"
  using sweep_loop_positive [of now None expiry m]
  by (force simp: sweep_entries_def split: prod.splits option.splits)

lemma inv_sweep:
  assumes "mem_inv s" and "0 \<le> now"
  shows "mem_inv (sweep_if_due now s)"
proof (cases "now \<ge> ms_nextSweepAt s")
  case True
  obtain es n where sw: "sweep_entries me_expiresAt (ms_entries s) now = (es, n)"
    by force
  have "es = filter (\<lambda>(k, e). live_at me_expiresAt now e) (ms_entries s)" "next_ok me_expiresAt es n" "0 \<le> n"
    using sweep_entries_keeps [of me_expiresAt "ms_entries s" now] sweep_entries_next [OF assms(2), of me_expiresAt "ms_entries s"]
      sweep_nonneg [OF assms(2), of me_expiresAt "ms_entries s"] by (simp_all add: sw)
  from inv_fewer [OF assms(1) this] True sw show ?thesis
    by (simp add: sweep_if_due_def mem_sweepExpiredEntries_def)
qed (simp add: sweep_if_due_def assms)

lemma swept_entries:
  assumes "mem_inv s"
  shows "ms_entries (sweep_if_due now s) = filter (\<lambda>(k, e). live_at me_expiresAt now e) (ms_entries s)"
    and "ms_nextRef (sweep_if_due now s) = ms_nextRef s"
proof -
  have "ms_entries (sweep_if_due now s) = fst (swept me_expiresAt now (ms_entries s) (ms_nextSweepAt s))"
    by (simp add: sweep_if_due_def swept_def mem_sweepExpiredEntries_def split: prod.splits)
  then show "ms_entries (sweep_if_due now s) = filter (\<lambda>(k, e). live_at me_expiresAt now e) (ms_entries s)"
    using assms swept_keeps [of me_expiresAt "ms_entries s" "ms_nextSweepAt s" now] by (simp add: mem_inv_def)
  show "ms_nextRef (sweep_if_due now s) = ms_nextRef s"
    by (simp add: sweep_if_due_def split: prod.splits)
qed

text \<open>The branch of \<open>get\<close> for an entry that survived the sweep but is expired is dead: the sweep is complete.\<close>

lemma mem_get_eq:
  assumes "mem_inv s"
  shows "mem_get key now s = (sweep_if_due now s, map_option me_value (js_get (ms_entries (sweep_if_due now s)) key))"
proof (cases "js_get (ms_entries (sweep_if_due now s)) key")
  case (Some e)
  then have "(key, e) \<in> set (filter (\<lambda>(k, e). live_at me_expiresAt now e) (ms_entries s))"
    using js_get_in swept_entries(1) [OF assms] by metis
  then have "case me_expiresAt e of None \<Rightarrow> True | Some x \<Rightarrow> now < x"
    by (simp add: live_at_def)
  with Some show ?thesis
    by (auto simp: mem_get_def Let_def split: option.splits)
qed (simp add: mem_get_def)

lemma inv_get: "mem_inv s \<Longrightarrow> 0 \<le> now \<Longrightarrow> mem_inv (fst (mem_get key now s))"
  by (simp add: mem_get_eq inv_sweep)

lemma inv_del: "mem_inv s \<Longrightarrow> mem_inv (s\<lparr>ms_entries := js_delete (ms_entries s) key\<rparr>)"
proof -
  assume inv: "mem_inv s"
  have "next_ok me_expiresAt (js_delete (ms_entries s) key) (ms_nextSweepAt s)" "0 \<le> ms_nextSweepAt s"
    using inv by (simp_all add: mem_inv_def next_ok_delete)
  from inv_fewer [OF inv _ this, of "\<lambda>(k, e). k \<noteq> key"] show ?thesis
    by (simp add: js_delete_def)
qed

lemma inv_put:
  assumes inv: "mem_inv s" and x: "\<And>x. expiresAt = Some x \<Longrightarrow> 0 < x"
  shows "mem_inv (put_entry key v expiresAt s)"
proof -
  define e where "e = \<lparr>me_expiresAt = expiresAt, me_value = v, me_ref = ms_nextRef s\<rparr>"
  define es where "es = js_delete (ms_entries s) key @ [(key, e)]"
  have es: "js_set (js_delete (ms_entries s) key) key e = es"
    by (auto simp: es_def js_set_def js_has_def js_delete_def)
  have sub: "set es \<subseteq> insert (key, e) (set (ms_entries s))"
    using js_delete_subset [of "ms_entries s" key] by (auto simp: es_def)
  have ok: "js_ok es"
    using inv_refreshed [OF inv, of key e] es by simp
  have "distinct (map (me_ref \<circ> snd) (js_delete (ms_entries s) key))"
    using inv by (simp add: mem_inv_def js_delete_def distinct_map_filter)
  then have refs: "distinct (map (me_ref \<circ> snd) es)"
    using inv js_delete_subset [of "ms_entries s" key] by (fastforce simp: es_def e_def mem_inv_def)
  have bound: "\<forall>(k, e) \<in> set es. me_ref e < Suc (ms_nextRef s)"
    using sub inv by (fastforce simp: e_def mem_inv_def less_Suc_eq)
  have "next_ok me_expiresAt es (lower_next expiresAt (ms_nextSweepAt s)) \<and> 0 \<le> lower_next expiresAt (ms_nextSweepAt s)"
  proof (cases expiresAt)
    case None
    with inv sub show ?thesis
      by (auto simp: lower_next_def next_ok_def mem_inv_def e_def)
  next
    case (Some y)
    then have "next_ok me_expiresAt es (if ms_nextSweepAt s = 0 then y else min (ms_nextSweepAt s) y)"
      using inv x by (intro next_ok_add [OF _ sub]) (auto simp: mem_inv_def e_def)
    with Some x inv show ?thesis
      by (auto simp: lower_next_def mem_inv_def)
  qed
  moreover have "set (enforceEntryLimit es) \<subseteq> set es"
    using enforce_limit(2) [OF ok] .
  ultimately show ?thesis
    using enforce_limit(1,3) [OF ok] enforce_limit(4) [OF ok refs] bound
    by (auto simp: put_entry_def es e_def [symmetric] mem_inv_def intro: next_ok_subset)
qed

lemma inv_put_keys:
  assumes "mem_inv s"
  shows "fst ` set (ms_entries (put_entry key v x s)) \<subseteq> insert key (fst ` set (ms_entries s))"
proof -
  let ?es = "js_set (js_delete (ms_entries s) key) key \<lparr>me_expiresAt = x, me_value = v, me_ref = ms_nextRef s\<rparr>"
  have "js_ok ?es"
    using assms by (rule inv_refreshed)
  from enforce_limit(2) [OF this] have "fst ` set (enforceEntryLimit ?es) \<subseteq> fst ` set ?es"
    by (rule image_mono)
  also have "\<dots> \<subseteq> insert key (fst ` set (js_delete (ms_entries s) key))"
    using image_mono [OF js_set_subset [of "js_delete (ms_entries s) key" key]] by (metis fst_conv image_insert)
  also have "\<dots> \<subseteq> insert key (fst ` set (ms_entries s))"
    using image_mono [OF js_delete_subset [of "ms_entries s" key]] by (rule insert_mono)
  finally show ?thesis
    by (simp add: put_entry_def)
qed

definition valid_clock :: "int \<Rightarrow> bool" where
  "valid_clock now \<longleftrightarrow> 0 \<le> now \<and> now < max_safe_integer"

definition expiry_of :: "js_number \<Rightarrow> int \<Rightarrow> int option" where
  "expiry_of ttl now =
     (if positive_ttl ttl then Some (now + normalizePositiveTtlMilliseconds ttl (max_safe_integer - now)) else None)"

lemma expiry_later: "valid_clock now \<Longrightarrow> expiry_of ttl now = Some x \<Longrightarrow> now < x \<and> x \<le> max_safe_integer"
  by (auto simp: expiry_of_def valid_clock_def normalizePositiveTtlMilliseconds_def positive_ttl_def
      split: if_splits js_number.splits)

lemma inv_set: "mem_inv s \<Longrightarrow> valid_clock now \<Longrightarrow> mem_inv (mem_set key v ttl now s)"
  unfolding mem_set_def expiry_of_def [symmetric]
  using expiry_later [of now ttl] by (intro inv_put inv_sweep) (auto simp: valid_clock_def)

fun call_clock :: "'v mem_call \<Rightarrow> int option" where
  "call_clock (MemGet k now) = Some now"
| "call_clock (MemSet k v ttl now) = Some now"
| "call_clock c = None"

definition clocked :: "'v mem_call \<Rightarrow> bool" where
  "clocked c \<longleftrightarrow> (case call_clock c of None \<Rightarrow> True | Some now \<Rightarrow> valid_clock now)"

lemma inv_call: "mem_inv s \<Longrightarrow> clocked c \<Longrightarrow> mem_inv (run_call c s)"
proof (cases c)
  case MemReset
  then show "mem_inv s \<Longrightarrow> clocked c \<Longrightarrow> mem_inv (run_call c s)"
    by (simp add: run_call_def mem_reset_def mem_inv_def next_ok_def)
qed (auto simp: run_call_def clocked_def mem_del_def inv_get inv_set inv_del valid_clock_def)

section \<open>The store is a map whose entries expire\<close>

text \<open>The specification: the last write of each key, with its expiry.\<close>

definition ideal_call :: "'v mem_call \<Rightarrow> (string \<Rightarrow> ('v \<times> int option) option) \<Rightarrow> string \<Rightarrow> ('v \<times> int option) option" where
  "ideal_call c m =
     (case c of
        MemSet k v ttl now \<Rightarrow> m(k \<mapsto> (v, expiry_of ttl now))
      | MemDel k \<Rightarrow> m(k := None)
      | MemReset \<Rightarrow> Map.empty
      | _ \<Rightarrow> m)"

definition ideal_read :: "(string \<Rightarrow> ('v \<times> int option) option) \<Rightarrow> string \<Rightarrow> int \<Rightarrow> 'v option" where
  "ideal_read m k now =
     (case m k of
        Some (v, x) \<Rightarrow> if (case x of None \<Rightarrow> True | Some y \<Rightarrow> now < y) then Some v else None
      | None \<Rightarrow> None)"

definition entry_of :: "'v mem_store \<Rightarrow> string \<Rightarrow> ('v \<times> int option) option" where
  "entry_of s k = map_option (\<lambda>e. (me_value e, me_expiresAt e)) (js_get (ms_entries s) k)"

lemma entry_swept:
  assumes "mem_inv s"
  shows "entry_of (sweep_if_due now s) k = (if ideal_read (entry_of s) k now = None then None else entry_of s k)"
  using js_get_filter [of "ms_entries s" "\<lambda>(k, e). live_at me_expiresAt now e" k] assms
  by (auto simp: entry_of_def swept_entries(1) [OF assms] ideal_read_def mem_inv_def live_at_def split: option.splits)

lemma mem_get_read: "mem_inv s \<Longrightarrow> snd (mem_get k now s) = ideal_read (entry_of s) k now"
  using entry_swept [of s now k]
  by (auto simp: mem_get_eq entry_of_def ideal_read_def split: option.splits if_splits)

lemma put_entry_sound:
  assumes inv: "mem_inv s"
  shows "entry_of (put_entry key v x s) k = None
    \<or> entry_of (put_entry key v x s) k = (if k = key then Some (v, x) else entry_of s k)"
proof -
  let ?es = "js_set (js_delete (ms_entries s) key) key \<lparr>me_expiresAt = x, me_value = v, me_ref = ms_nextRef s\<rparr>"
  have ok: "js_ok ?es"
    using inv by (rule inv_refreshed)
  have "js_get (enforceEntryLimit ?es) k = None \<or> js_get (enforceEntryLimit ?es) k = js_get ?es k"
    using enforce_limit(2) [OF ok] js_get_in [of "enforceEntryLimit ?es" k] js_in_get [OF ok, of k]
    by (cases "js_get (enforceEntryLimit ?es) k") auto
  then show ?thesis
    by (auto simp: entry_of_def put_entry_def js_get_set js_get_delete)
qed

lemma put_entry_complete:
  assumes inv: "mem_inv s" and K: "finite K" "card K \<le> max_memory_cache_entries"
    and keys: "fst ` set (ms_entries s) \<subseteq> K" "key \<in> K"
  shows "entry_of (put_entry key v x s) k = (if k = key then Some (v, x) else entry_of s k)"
proof -
  let ?es = "js_set (js_delete (ms_entries s) key) key \<lparr>me_expiresAt = x, me_value = v, me_ref = ms_nextRef s\<rparr>"
  have ok: "js_ok ?es"
    using inv by (rule inv_refreshed)
  have "set (map fst ?es) \<subseteq> K"
    using keys js_set_subset [of "js_delete (ms_entries s) key" key] js_delete_subset [of "ms_entries s" key] by fastforce
  then have "card (set (map fst ?es)) \<le> card K"
    using K(1) by (rule card_mono [rotated])
  then have "length ?es \<le> max_memory_cache_entries"
    using K(2) distinct_card [OF ok] by simp
  then show ?thesis
    by (simp add: entry_of_def put_entry_def enforce_limit(5) [OF ok] js_get_set js_get_delete)
qed

definition sound_for :: "(string \<Rightarrow> ('v \<times> int option) option) \<Rightarrow> 'v mem_store \<Rightarrow> bool" where
  "sound_for m s \<longleftrightarrow> (\<forall>k. entry_of s k = None \<or> entry_of s k = m k)"

lemma sound_sweep: "mem_inv s \<Longrightarrow> sound_for m s \<Longrightarrow> sound_for m (sweep_if_due now s)"
  by (simp add: sound_for_def entry_swept)

lemma sound_call:
  assumes "mem_inv s" "clocked c" "sound_for m s"
  shows "sound_for (ideal_call c m) (run_call c s)"
proof (cases c)
  case (MemSet key v ttl now)
  then have "mem_inv (sweep_if_due now s)" "sound_for m (sweep_if_due now s)"
    using assms by (auto simp: clocked_def valid_clock_def intro: inv_sweep sound_sweep)
  then show ?thesis
    using put_entry_sound [of "sweep_if_due now s" key v "expiry_of ttl now"]
    unfolding MemSet run_call_def ideal_call_def mem_set_def sound_for_def expiry_of_def [symmetric]
    by (auto split: if_splits) metis+
next
  case (MemGet key now)
  with assms show ?thesis
    by (simp add: run_call_def ideal_call_def mem_get_eq sound_sweep)
qed (use assms in \<open>auto simp: run_call_def ideal_call_def sound_for_def entry_of_def mem_del_def mem_reset_def js_get_delete\<close>)

text \<open>All keys are in \<open>K\<close>, and from time \<open>t\<close> on reads agree with the specification.\<close>

definition agrees :: "string set \<Rightarrow> int \<Rightarrow> (string \<Rightarrow> ('v \<times> int option) option) \<Rightarrow> 'v mem_store \<Rightarrow> bool" where
  "agrees K t m s \<longleftrightarrow> fst ` set (ms_entries s) \<subseteq> K \<and> (\<forall>k now. t \<le> now \<longrightarrow> ideal_read (entry_of s) k now = ideal_read m k now)"

fun keys_set :: "'v mem_call \<Rightarrow> string set" where
  "keys_set (MemSet k v ttl now) = {k}"
| "keys_set c = {}"

lemma keys_set_finite [simp]: "finite (keys_set c)"
  by (cases c) simp_all

lemma read_swept: "mem_inv s \<Longrightarrow> t \<le> now \<Longrightarrow> ideal_read (entry_of (sweep_if_due t s)) k now = ideal_read (entry_of s) k now"
  using entry_swept [of s t k] by (auto simp: ideal_read_def split: option.splits if_splits)

lemma agrees_sweep:
  assumes "mem_inv s" "agrees K t m s" "t \<le> now"
  shows "agrees K now m (sweep_if_due now s)"
proof -
  have "fst ` set (ms_entries (sweep_if_due now s)) \<subseteq> K"
    using assms(2) by (auto simp: agrees_def swept_entries(1) [OF assms(1)])
  with assms(2,3) show ?thesis
    by (auto simp: agrees_def read_swept [OF assms(1)])
qed

lemma agrees_call:
  assumes inv: "mem_inv s" and c: "clocked c" and ag: "agrees K t m s"
    and K: "finite K" "card K \<le> max_memory_cache_entries" "keys_set c \<subseteq> K"
    and t: "\<And>now. call_clock c = Some now \<Longrightarrow> t \<le> now"
  shows "agrees K (case call_clock c of None \<Rightarrow> t | Some now \<Rightarrow> now) (ideal_call c m) (run_call c s)"
proof (cases c)
  case (MemSet key v ttl now)
  let ?s1 = "sweep_if_due now s"
  have s1: "mem_inv ?s1" "agrees K now m ?s1"
    using inv c ag t MemSet by (auto simp: clocked_def valid_clock_def intro: inv_sweep agrees_sweep)
  then have "entry_of (put_entry key v x ?s1) k = (if k = key then Some (v, x) else entry_of ?s1 k)" for k x
    using K MemSet by (intro put_entry_complete [of _ K]) (auto simp: agrees_def)
  moreover have "fst ` set (ms_entries (put_entry key v x ?s1)) \<subseteq> K" for x
    using s1(2) K(3) MemSet inv_put_keys [OF s1(1), of key v x] by (auto simp: agrees_def)
  ultimately show ?thesis
    using s1(2) unfolding agrees_def MemSet run_call_def ideal_call_def mem_set_def expiry_of_def [symmetric]
    by (auto simp: ideal_read_def)
next
  case (MemGet key now)
  with inv ag t show ?thesis
    by (simp add: run_call_def ideal_call_def mem_get_eq agrees_sweep)
next
  case (MemDel key)
  with ag js_delete_subset [of "ms_entries s" key] show ?thesis
    by (fastforce simp: agrees_def run_call_def ideal_call_def mem_del_def ideal_read_def entry_of_def js_get_delete)
qed (use ag in \<open>auto simp: agrees_def run_call_def ideal_call_def mem_reset_def ideal_read_def entry_of_def\<close>)

definition clocks :: "'v mem_call list \<Rightarrow> int list" where
  "clocks cs = concat (map (\<lambda>c. case call_clock c of None \<Rightarrow> [] | Some now \<Rightarrow> [now]) cs)"

lemma clocks_Cons: "clocks (c # cs) = (case call_clock c of None \<Rightarrow> clocks cs | Some now \<Rightarrow> now # clocks cs)"
  by (simp add: clocks_def split: option.splits)

lemma calls_inv: "mem_inv s \<Longrightarrow> list_all clocked cs \<Longrightarrow> mem_inv (fold run_call cs s)"
  by (induction cs arbitrary: s) (auto simp: inv_call)

lemma calls_sound:
  "mem_inv s \<Longrightarrow> list_all clocked cs \<Longrightarrow> sound_for m s \<Longrightarrow> sound_for (fold ideal_call cs m) (fold run_call cs s)"
  by (induction cs arbitrary: s m) (auto simp: inv_call sound_call)

lemma calls_agree:
  "mem_inv s \<Longrightarrow> list_all clocked cs \<Longrightarrow> agrees K t m s \<Longrightarrow> finite K \<Longrightarrow> card K \<le> max_memory_cache_entries \<Longrightarrow>
     (\<Union>c \<in> set cs. keys_set c) \<subseteq> K \<Longrightarrow> sorted (t # clocks cs @ [now]) \<Longrightarrow>
     ideal_read (entry_of (fold run_call cs s)) k now = ideal_read (fold ideal_call cs m) k now"
proof (induction cs arbitrary: s m t)
  case Nil
  then show ?case
    by (simp add: agrees_def clocks_def)
next
  case (Cons c cs)
  let ?t = "case call_clock c of None \<Rightarrow> t | Some now \<Rightarrow> now"
  have "agrees K ?t (ideal_call c m) (run_call c s)"
    using Cons.prems by (intro agrees_call) (auto simp: clocks_Cons split: option.splits)
  moreover have "sorted (?t # clocks cs @ [now])"
    using Cons.prems(7) by (auto simp: clocks_Cons split: option.splits)
  ultimately show ?case
    using Cons.IH [of "run_call c s" ?t "ideal_call c m"] Cons.prems by (auto simp: inv_call)
qed

text \<open>
  C15. The memory cache is a map whose entries expire.  After any sequence of \<open>get\<close>, \<open>set\<close>, \<open>del\<close> and
  \<open>reset\<close> calls with a clock that does not run backwards it holds at most 1000 entries; a later \<open>get\<close> never
  returns anything but the value of the last \<open>set\<close> of that key, not deleted since and not yet expired; and as long
  as no more than 1000 different keys were written, \<open>get\<close> returns exactly that.
\<close>

theorem memory_cache_is_ttl_map:
  assumes "list_all clocked cs" and "valid_clock now" and "sorted (0 # clocks cs @ [now])"
  shows "length (ms_entries (fold run_call cs new_mem_store)) \<le> 1000
    \<and> (\<forall>v. snd (mem_get k now (fold run_call cs new_mem_store)) = Some v \<longrightarrow>
          ideal_read (fold ideal_call cs Map.empty) k now = Some v)
    \<and> (card (\<Union>c \<in> set cs. keys_set c) \<le> 1000 \<longrightarrow>
          snd (mem_get k now (fold run_call cs new_mem_store)) = ideal_read (fold ideal_call cs Map.empty) k now)"
proof -
  let ?s = "fold run_call cs (new_mem_store :: 'a mem_store)" and ?m = "fold ideal_call cs (Map.empty :: string \<Rightarrow> ('a \<times> int option) option)"
  have inv: "mem_inv ?s"
    using calls_inv inv_new assms(1) by blast
  have sound: "sound_for ?m ?s"
    using calls_sound [OF inv_new assms(1), of Map.empty] by (simp add: sound_for_def entry_of_def new_mem_store_def)
  then have "entry_of ?s k = None \<or> entry_of ?s k = ?m k"
    by (simp add: sound_for_def)
  then have "snd (mem_get k now ?s) = Some v \<longrightarrow> ideal_read ?m k now = Some v" for v
    by (auto simp: mem_get_read [OF inv] ideal_read_def)
  moreover have "snd (mem_get k now ?s) = ideal_read ?m k now" if "card (\<Union>c \<in> set cs. keys_set c) \<le> 1000"
  proof -
    have "finite (\<Union>c \<in> set cs. keys_set c)"
      by simp
    moreover have "agrees (\<Union>c \<in> set cs. keys_set c) 0 Map.empty (new_mem_store :: 'a mem_store)"
      by (simp add: agrees_def new_mem_store_def entry_of_def ideal_read_def)
    ultimately show ?thesis
      using calls_agree [OF inv_new assms(1) _ _ _ subset_refl assms(3)] that mem_get_read [OF inv]
      by (simp add: max_memory_cache_entries_def)
  qed
  moreover have "length (ms_entries ?s) \<le> 1000"
    using inv by (simp add: mem_inv_def max_memory_cache_entries_def)
  ultimately show ?thesis
    by blast
qed

definition sample_cache_calls :: "string mem_call list" where
  "sample_cache_calls =
     [MemSet ''a'' ''1'' (Fin (1/2)) 100, MemSet ''b'' ''2'' (Fin 0) 200, MemGet ''a'' 300, MemSet ''c'' ''3'' PosInf 400,
      MemDel ''c'', MemGet ''b'' 650]"

theorem memory_cache_is_ttl_map_witness:
  "snd (mem_get ''a'' 500 (fold run_call (take 4 sample_cache_calls) new_mem_store)) = Some ''1''
   \<and> snd (mem_get ''a'' 700 (fold run_call sample_cache_calls new_mem_store)) = None
   \<and> length (ms_entries (fold run_call sample_cache_calls new_mem_store)) \<le> 1000"
proof -
  have ok: "list_all clocked (take 4 sample_cache_calls)" "list_all clocked sample_cache_calls" "valid_clock 500" "valid_clock 700"
    "sorted (0 # clocks (take 4 sample_cache_calls) @ [500])" "sorted (0 # clocks sample_cache_calls @ [700])"
    by (simp_all add: sample_cache_calls_def clocked_def valid_clock_def max_safe_integer_def clocks_def)
  have "(\<Union>c \<in> set (take 4 sample_cache_calls). keys_set c) = {''a'', ''b'', ''c''}"
    "(\<Union>c \<in> set sample_cache_calls. keys_set c) = {''a'', ''b'', ''c''}"
    by (auto simp: sample_cache_calls_def)
  then have card: "card (\<Union>c \<in> set (take 4 sample_cache_calls). keys_set c) \<le> 1000"
    "card (\<Union>c \<in> set sample_cache_calls. keys_set c) \<le> 1000"
    by simp_all
  have "ideal_read (fold ideal_call (take 4 sample_cache_calls) Map.empty) ''a'' 500 = Some ''1''"
    "ideal_read (fold ideal_call sample_cache_calls Map.empty) ''a'' 700 = None"
    by (simp_all add: sample_cache_calls_def ideal_call_def ideal_read_def expiry_of_def positive_ttl_def
        normalizePositiveTtlMilliseconds_def max_safe_integer_def)
  then show ?thesis
    using memory_cache_is_ttl_map [OF ok(1,3,5), of "''a''"] memory_cache_is_ttl_map [OF ok(2,4,6), of "''a''"] card
    by metis
qed

section \<open>Atomic updates\<close>

text \<open>Entries are replaced, never mutated: an old reference means an old entry.\<close>

definition evolves :: "'v mem_store \<Rightarrow> 'v mem_store \<Rightarrow> bool" where
  "evolves s s' \<longleftrightarrow> ms_nextRef s \<le> ms_nextRef s' \<and>
     (\<forall>(k, e) \<in> set (ms_entries s'). (k, e) \<in> set (ms_entries s) \<or> ms_nextRef s \<le> me_ref e)"

lemma evolves_refl: "evolves s s"
  by (auto simp: evolves_def)

lemma evolves_trans: "evolves s s' \<Longrightarrow> evolves s' s'' \<Longrightarrow> evolves s s''"
  by (fastforce simp: evolves_def)

lemma evolves_sweep: "mem_inv s \<Longrightarrow> evolves s (sweep_if_due now s)"
  by (auto simp: evolves_def swept_entries)

lemma evolves_put:
  assumes "mem_inv s"
  shows "evolves s (put_entry key v x s)"
proof -
  let ?e = "\<lparr>me_expiresAt = x, me_value = v, me_ref = ms_nextRef s\<rparr>"
  have "set (enforceEntryLimit (js_set (js_delete (ms_entries s) key) key ?e)) \<subseteq> insert (key, ?e) (set (ms_entries s))"
    using enforce_limit(2) [OF inv_refreshed [OF assms, of key ?e]] js_set_subset [of "js_delete (ms_entries s) key" key ?e]
      js_delete_subset [of "ms_entries s" key] by blast
  then show ?thesis
    by (auto simp: evolves_def put_entry_def)
qed

lemma evolves_set: "mem_inv s \<Longrightarrow> 0 \<le> now \<Longrightarrow> evolves s (mem_set key v ttl now s)"
  unfolding mem_set_def by (rule evolves_trans [OF evolves_sweep evolves_put [OF inv_sweep]])

lemma evolves_call: "mem_inv s \<Longrightarrow> clocked c \<Longrightarrow> evolves s (run_call c s)"
proof (cases c)
  case (MemSet key v ttl now)
  then show "mem_inv s \<Longrightarrow> clocked c \<Longrightarrow> evolves s (run_call c s)"
    by (simp add: run_call_def evolves_set clocked_def valid_clock_def)
next
  case (MemGet key now)
  then show "mem_inv s \<Longrightarrow> clocked c \<Longrightarrow> evolves s (run_call c s)"
    by (simp add: run_call_def mem_get_eq evolves_sweep)
qed (auto simp: run_call_def evolves_def mem_del_def mem_reset_def js_delete_def)

lemma evolves_calls: "mem_inv s \<Longrightarrow> list_all clocked cs \<Longrightarrow> evolves s (fold run_call cs s)"
proof (induction cs arbitrary: s)
  case (Cons c cs)
  then show ?case
    using evolves_trans [OF evolves_call [of s c]] by (simp add: inv_call)
qed (simp add: evolves_refl)

lemma same_entry_evolved:
  assumes "mem_inv s" "mem_inv s'" "evolves s s'" "same_entry (js_get (ms_entries s') k) (js_get (ms_entries s) k)"
  shows "js_get (ms_entries s') k = js_get (ms_entries s) k"
proof (cases "js_get (ms_entries s') k")
  case (Some e')
  then obtain e where e: "js_get (ms_entries s) k = Some e" "me_ref e' = me_ref e"
    using assms(4) by (cases "js_get (ms_entries s) k") (auto simp: same_entry_def)
  have "me_ref e < ms_nextRef s"
    using js_get_in [OF e(1)] assms(1) by (auto simp: mem_inv_def)
  moreover have "(k, e') \<in> set (ms_entries s) \<or> ms_nextRef s \<le> me_ref e'"
    using js_get_in [OF Some] assms(3) by (auto simp: evolves_def)
  ultimately have "(k, e') \<in> set (ms_entries s)"
    using e(2) by simp
  then show ?thesis
    using js_in_get [of "ms_entries s" k e'] assms(1) Some by (simp add: mem_inv_def)
qed (use assms(4) in \<open>simp add: same_entry_def\<close>)

lemma interfere_calls: "fst (interfere key cs (s, sig)) = fold run_call cs s"
  by (induction cs arbitrary: s sig) simp_all

definition attempt_clocked :: "'v update_attempt \<Rightarrow> bool" where
  "attempt_clocked a \<longleftrightarrow> valid_clock (ua_readAt a) \<and> valid_clock (ua_commitAt a)
     \<and> list_all clocked (ua_whileRead a) \<and> list_all clocked (ua_whileReduce a)"

text \<open>Everything that happens to the store up to the commit of attempt \<open>a\<close>.\<close>

definition attempt_calls :: "string \<Rightarrow> 'v update_attempt \<Rightarrow> 'v mem_call list" where
  "attempt_calls key a = MemGet key (ua_readAt a) # ua_whileRead a @ ua_whileReduce a"

text \<open>A result of the loop, and the state \<open>s\<close> it was committed in.\<close>

definition committed ::
  "string \<Rightarrow> ('v option \<Rightarrow> nat \<Rightarrow> cache_update_error + 'v cache_update) \<Rightarrow> 'v mem_store \<Rightarrow> nat \<Rightarrow> int \<Rightarrow> 'v mem_store \<Rightarrow> 'v option \<Rightarrow> bool" where
  "committed key reducer s n now s' r \<longleftrightarrow>
     (case reducer (map_option me_value (js_get (ms_entries s) key)) n of
        Inl er \<Rightarrow> False
      | Inr UpdateDelete \<Rightarrow> r = None \<and> s' = s\<lparr>ms_entries := js_delete (ms_entries s) key\<rparr>
      | Inr (UpdateSet v ttl) \<Rightarrow> r = Some v \<and> (\<exists>x. s' = put_entry key v x s))
     \<and> (\<forall>e x. js_get (ms_entries s) key = Some e \<longrightarrow> me_expiresAt e = Some x \<longrightarrow> now < x)"

lemma attempt_run:
  assumes inv: "mem_inv s" and a: "attempt_clocked a"
    and read: "mem_get key (ua_readAt a) s = (s1, snapshot)"
    and i: "interfere key (ua_whileRead a) (s1, None) = (s2, sig2)" "interfere key (ua_whileReduce a) (s2, None) = (s3, sig3)"
  shows "s3 = fold run_call (attempt_calls key a) s" and "mem_inv s1" and "mem_inv s3" and "evolves s1 s3"
    and "snapshot = map_option me_value (js_get (ms_entries s1) key)"
proof -
  have s1: "s1 = run_call (MemGet key (ua_readAt a)) s"
    using read by (simp add: run_call_def)
  have s3: "s3 = fold run_call (ua_whileRead a @ ua_whileReduce a) s1"
    using interfere_calls [of key "ua_whileRead a" s1 None] interfere_calls [of key "ua_whileReduce a" s2 None] i by simp
  show "s3 = fold run_call (attempt_calls key a) s"
    by (simp add: attempt_calls_def s1 s3)
  show inv1: "mem_inv s1"
    using inv a by (simp add: s1 inv_call clocked_def attempt_clocked_def)
  have cl: "list_all clocked (ua_whileRead a @ ua_whileReduce a)"
    using a by (simp add: attempt_clocked_def)
  show "mem_inv s3" "evolves s1 s3"
    unfolding s3 using calls_inv [OF inv1 cl] evolves_calls [OF inv1 cl] by simp_all
  show "snapshot = map_option me_value (js_get (ms_entries s1) key)"
    using read by (auto simp: mem_get_eq [OF inv])
qed

lemma commit_result:
  assumes "commit_update key entry decision defaultTtl now s = Some (s', Inr r)"
    and "same_entry (js_get (ms_entries s) key) entry \<Longrightarrow> entry = js_get (ms_entries s) key"
    and "reducer (map_option me_value entry) n = Inr decision"
  shows "committed key reducer s n now s' r"
proof -
  have entry: "entry = js_get (ms_entries s) key"
    using assms(1,2) by (auto simp: commit_update_def split: if_splits)
  moreover have "\<forall>e x. entry = Some e \<longrightarrow> me_expiresAt e = Some x \<longrightarrow> now < x"
    using assms(1) by (auto simp: commit_update_def split: if_splits)
  ultimately show ?thesis
    using assms(1,3)
    by (auto simp: commit_update_def committed_def split: if_splits cache_update.splits sum.splits)
qed

lemma update_linearizes:
  assumes "mem_inv s" "list_all attempt_clocked as" "update_loop key reducer defaultTtl as n (s, sig) = (s', Inr r)"
  shows "\<exists>i < length as. \<exists>sc. sc = fold run_call (concat (map (attempt_calls key) (take (Suc i) as))) s
     \<and> committed key reducer sc (n + i) (ua_commitAt (as ! i)) s' r"
  using assms
proof (induction as arbitrary: n s sig)
  case (Cons a as)
  have sig: "sig = None"
    using Cons.prems(3) by (cases sig) simp_all
  obtain s1 snapshot where read: "mem_get key (ua_readAt a) s = (s1, snapshot)"
    by force
  obtain s2 sig2 where i2: "interfere key (ua_whileRead a) (s1, None) = (s2, sig2)"
    by force
  obtain s3 sig3 where i3: "interfere key (ua_whileReduce a) (s2, None) = (s3, sig3)"
    by force
  have a: "attempt_clocked a"
    using Cons.prems(2) by simp
  note run = attempt_run [OF Cons.prems(1) a read i2 i3]
  let ?entry = "js_get (ms_entries s1) key"
  obtain decision where d: "reducer snapshot n = Inr decision" "sig2 = None" "sig3 = None"
    using Cons.prems(3) sig read i2 i3 by (auto split: option.splits sum.splits)
  have same: "same_entry (js_get (ms_entries s3) key) ?entry \<Longrightarrow> ?entry = js_get (ms_entries s3) key"
    by (rule same_entry_evolved [OF run(2,3,4), symmetric])
  show ?case
  proof (cases "commit_update key ?entry decision defaultTtl (ua_commitAt a) s3")
    case (Some result)
    then have "commit_update key ?entry decision defaultTtl (ua_commitAt a) s3 = Some (s', Inr r)"
      using Cons.prems(3) sig read i2 i3 d by simp
    from commit_result [OF this same] d(1) run(5) have "committed key reducer s3 n (ua_commitAt a) s' r"
      by simp
    then show ?thesis
      using run(1) by (intro exI [of _ 0]) simp
  next
    case None
    then have again: "update_loop key reducer defaultTtl as (Suc n) (s3, None) = (s', Inr r)"
      using Cons.prems(3) sig read i2 i3 d by simp
    have "list_all attempt_clocked as"
      using Cons.prems(2) by simp
    from Cons.IH [OF run(3) this again] obtain i where i: "i < length as"
      "committed key reducer (fold run_call (concat (map (attempt_calls key) (take (Suc i) as))) s3) (Suc n + i) (ua_commitAt (as ! i)) s' r"
      by blast
    then show ?thesis
      using run(1) by (intro exI [of _ "Suc i"]) simp
  qed
qed simp

text \<open>
  Atomic updates lose nothing.  Whatever other callers do to the store while an update awaits its snapshot and
  its reducer, an update that succeeds takes effect at one point: there is a state of the store, reached by those
  calls alone, in which the key has the very value the reducer was given, not expired, and the final store is
  that state with the reducer's decision applied.
\<close>

theorem atomic_update_no_lost_update:
  assumes "list_all clocked cs" and "list_all attempt_clocked as"
    and "update_loop key reducer defaultTtl as 1 (fold run_call cs new_mem_store, None) = (s', Inr r)"
  shows "\<exists>i < length as. committed key reducer
      (fold run_call (cs @ concat (map (attempt_calls key) (take (Suc i) as))) new_mem_store) (1 + i) (ua_commitAt (as ! i)) s' r"
  using update_linearizes [OF calls_inv [OF inv_new assms(1)] assms(2,3)] by auto

definition sample_reducer :: "nat option \<Rightarrow> nat \<Rightarrow> cache_update_error + nat cache_update" where
  "sample_reducer v n = Inr (UpdateSet (case v of None \<Rightarrow> 1 | Some x \<Rightarrow> x + 1) None)"

definition sample_attempts :: "nat update_attempt list" where
  "sample_attempts =
     [\<lparr>ua_readAt = 10, ua_whileRead = [], ua_whileReduce = [MemSet ''a'' 7 (Fin 0) 20], ua_commitAt = 30\<rparr>,
      \<lparr>ua_readAt = 40, ua_whileRead = [], ua_whileReduce = [], ua_commitAt = 50\<rparr>]"

theorem atomic_update_no_lost_update_witness:
  "\<exists>s'. update_loop ''a'' sample_reducer (Fin 0) sample_attempts 1 (fold run_call [MemSet ''a'' 3 (Fin 0) 5] new_mem_store, None) = (s', Inr (Some 8))
    \<and> (\<exists>i < 2. committed ''a'' sample_reducer
      (fold run_call ([MemSet ''a'' 3 (Fin 0) 5] @ concat (map (attempt_calls ''a'') (take (Suc i) sample_attempts))) new_mem_store)
      (1 + i) (ua_commitAt (sample_attempts ! i)) s' (Some 8))"
proof -
  have "snd (update_loop ''a'' sample_reducer (Fin 0) sample_attempts 1 (fold run_call [MemSet ''a'' 3 (Fin 0) 5] new_mem_store, None)) = Inr (Some 8)"
    by code_simp
  then obtain s' where s': "update_loop ''a'' sample_reducer (Fin 0) sample_attempts 1 (fold run_call [MemSet ''a'' 3 (Fin 0) 5] new_mem_store, None) = (s', Inr (Some 8))"
    by (metis prod.collapse)
  have "list_all clocked [MemSet ''a'' (3 :: nat) (Fin 0) 5]" "list_all attempt_clocked sample_attempts" "length sample_attempts = 2"
    by (simp_all add: clocked_def attempt_clocked_def sample_attempts_def valid_clock_def max_safe_integer_def)
  with atomic_update_no_lost_update [OF _ _ s'] s' show ?thesis
    by auto
qed

end
