(* ===== verification/Route_Path.thy ===== *)
theory Route_Path
  imports JS_String
begin

text \<open>
  \<open>packages/http/src/route-path.ts\<close>: normalization, parsing and matching of route paths.  An error
  keeps its reason and the segment, not the text.  A parameter record is the own properties of the
  object in insertion order; assigning a string to \<open>__proto__\<close> of an object literal adds no own property.
\<close>

datatype route_segment = Literal string | Param string

datatype route_error =
    BadParamName string
  | EmbeddedParam string
  | UnsupportedToken string
  | RouteConflict string

definition name_start :: "char \<Rightarrow> bool" where
  "name_start c \<longleftrightarrow> (let n = of_char c :: nat in 65 \<le> n \<and> n \<le> 90 \<or> 97 \<le> n \<and> n \<le> 122 \<or> n = 95)"

definition routeParamNamePattern :: "string \<Rightarrow> bool" where
  "routeParamNamePattern s =
     (case s of [] \<Rightarrow> False | c # cs \<Rightarrow> name_start c \<and> list_all (\<lambda>d. name_start d \<or> is_digit d) cs)"

text \<open>The characters of \<open>[*?+()[\]{}\\]\<close>.\<close>

definition unsupportedLiteralTokenPattern :: "string \<Rightarrow> bool" where
  "unsupportedLiteralTokenPattern s = list_ex (\<lambda>c. c \<in> set ''*?+()[]{}'' \<or> c = CHR 0x5C) s"

definition parseRoutePathSegment :: "string \<Rightarrow> route_error + route_segment" where
  "parseRoutePathSegment segment =
     (if starts_with '':'' segment
      then (if routeParamNamePattern (tl segment) then Inr (Param (tl segment)) else Inl (BadParamName segment))
      else if CHR '':'' \<in> set segment then Inl (EmbeddedParam segment)
      else if unsupportedLiteralTokenPattern segment then Inl (UnsupportedToken segment)
      else Inr (Literal segment))"

definition path_segments :: "string \<Rightarrow> string list" where
  "path_segments path = filter (\<lambda>s. s \<noteq> []) (split_on (CHR ''/'') path)"

definition normalizeRoutePath :: "string \<Rightarrow> string" where
  "normalizeRoutePath path = CHR ''/'' # join_with ''/'' (path_segments path)"

definition parseRoutePath :: "string \<Rightarrow> route_error + route_segment list" where
  "parseRoutePath path = res_map parseRoutePathSegment (path_segments (normalizeRoutePath path))"

definition param_names :: "route_segment list \<Rightarrow> string list" where
  "param_names segs = concat (map (\<lambda>s. case s of Param n \<Rightarrow> [n] | Literal _ \<Rightarrow> []) segs)"

definition extractRoutePathParams :: "string \<Rightarrow> route_error + string list" where
  "extractRoutePathParams path = (case parseRoutePath path of Inl e \<Rightarrow> Inl e | Inr segs \<Rightarrow> Inr (param_names segs))"

definition set_param :: "string \<Rightarrow> string \<Rightarrow> (string, string) js_map \<Rightarrow> (string, string) js_map" where
  "set_param n v m = (if n = ''__proto__'' then m else js_set m n v)"

text \<open>The loop of \<open>matchRoutePath\<close>, after the check of the lengths.\<close>

fun match_loop :: "route_segment list \<Rightarrow> string list \<Rightarrow> (string, string) js_map \<Rightarrow> (string, string) js_map option" where
  "match_loop [] incoming params = Some params"
| "match_loop (Param n # segs) incoming params = match_loop segs (tl incoming) (set_param n (hd incoming) params)"
| "match_loop (Literal l # segs) incoming params =
     (if l \<noteq> hd incoming then None else match_loop segs (tl incoming) params)"

definition matchRoutePath :: "route_segment list \<Rightarrow> string list \<Rightarrow> (string, string) js_map option" where
  "matchRoutePath registered incoming =
     (if length registered \<noteq> length incoming then None else match_loop registered incoming [])"

section \<open>Normalization\<close>

lemma segments_no_slash: "s \<in> set (path_segments p) \<Longrightarrow> CHR ''/'' \<notin> set s \<and> s \<noteq> []"
  using split_on_no_sep [of s "CHR ''/''" p] by (auto simp: path_segments_def)

lemma segments_slash: "path_segments (CHR ''/'' # p) = path_segments p"
  by (simp add: path_segments_def)

lemma segments_join:
  assumes "\<And>s. s \<in> set ss \<Longrightarrow> CHR ''/'' \<notin> set s \<and> s \<noteq> []"
  shows "path_segments (join_with ''/'' ss) = ss"
proof (cases "ss = []")
  case False
  then have "split_on (CHR ''/'') (join_with [CHR ''/''] ss) = ss"
    using assms by (intro split_join) auto
  then show ?thesis
    using assms by (simp add: path_segments_def filter_id_conv)
qed (simp add: path_segments_def)

lemma segments_normalize [simp]: "path_segments (normalizeRoutePath p) = path_segments p"
  by (simp add: normalizeRoutePath_def segments_slash segments_join segments_no_slash)

lemma normalize_idem [simp]: "normalizeRoutePath (normalizeRoutePath p) = normalizeRoutePath p"
  unfolding normalizeRoutePath_def [of "normalizeRoutePath p"] segments_normalize
  by (simp add: normalizeRoutePath_def)

lemma normalize_eq_iff: "normalizeRoutePath p = normalizeRoutePath q \<longleftrightarrow> path_segments p = path_segments q"
proof
  assume "normalizeRoutePath p = normalizeRoutePath q"
  then show "path_segments p = path_segments q"
    using segments_normalize by metis
qed (simp add: normalizeRoutePath_def)

section \<open>Printing\<close>

fun print_segment :: "route_segment \<Rightarrow> string" where
  "print_segment (Literal l) = l"
| "print_segment (Param n) = CHR '':'' # n"

definition print_route :: "route_segment list \<Rightarrow> string" where
  "print_route segs = CHR ''/'' # join_with ''/'' (map print_segment segs)"

fun segment_wf :: "route_segment \<Rightarrow> bool" where
  "segment_wf (Literal l) \<longleftrightarrow> l \<noteq> [] \<and> CHR ''/'' \<notin> set l \<and> CHR '':'' \<notin> set l \<and> \<not> unsupportedLiteralTokenPattern l"
| "segment_wf (Param n) \<longleftrightarrow> routeParamNamePattern n"

lemma starts_colon: "starts_with '':'' s \<longleftrightarrow> (\<exists>t. s = CHR '':'' # t)"
  by (cases s) (auto simp: starts_with_def)

lemma parse_segment_print: "parseRoutePathSegment s = Inr seg \<Longrightarrow> print_segment seg = s"
  by (auto simp: parseRoutePathSegment_def starts_colon split: if_splits)

lemma print_segment_parse: "segment_wf seg \<Longrightarrow> parseRoutePathSegment (print_segment seg) = Inr seg"
  by (cases seg) (auto simp: parseRoutePathSegment_def starts_colon)

lemma name_no_slash: "routeParamNamePattern n \<Longrightarrow> CHR ''/'' \<notin> set n"
  by (auto simp: routeParamNamePattern_def name_start_def is_digit_def list_all_iff split: list.splits)

lemma print_segment_free: "segment_wf seg \<Longrightarrow> CHR ''/'' \<notin> set (print_segment seg) \<and> print_segment seg \<noteq> []"
  by (cases seg) (auto simp: name_no_slash)

lemma parse_segment_wf: "s \<noteq> [] \<Longrightarrow> CHR ''/'' \<notin> set s \<Longrightarrow> parseRoutePathSegment s = Inr seg \<Longrightarrow> segment_wf seg"
  by (auto simp: parseRoutePathSegment_def split: if_splits)

lemma parse_list:
  "(\<And>s. s \<in> set ss \<Longrightarrow> CHR ''/'' \<notin> set s \<and> s \<noteq> []) \<Longrightarrow>
     list_all2 (\<lambda>s seg. parseRoutePathSegment s = Inr seg) ss segs \<longleftrightarrow> map print_segment segs = ss \<and> list_all segment_wf segs"
proof (induction ss arbitrary: segs)
  case (Cons s ss)
  show ?case
    using Cons.IH Cons.prems parse_segment_print parse_segment_wf [of s] print_segment_parse
    by (cases segs) auto
qed auto

lemma parse_segments: "parseRoutePath p = Inr segs \<longleftrightarrow> map print_segment segs = path_segments p \<and> list_all segment_wf segs"
  unfolding parseRoutePath_def res_map_Inr_iff segments_normalize
  by (rule parse_list) (rule segments_no_slash)

lemma print_route_segments: "list_all segment_wf segs \<Longrightarrow> path_segments (print_route segs) = map print_segment segs"
  unfolding print_route_def segments_slash
  by (rule segments_join) (auto simp: list_all_iff print_segment_free)

text \<open>
  Parsing and printing route paths are inverse: a path that parses is the printed form of its segments up to
  redundant slashes, every well-formed segment list is the parse of its printed form, and normalization keeps
  the segments and is idempotent.
\<close>

theorem route_path_round_trip:
  "(parseRoutePath p = Inr segs \<longleftrightarrow> print_route segs = normalizeRoutePath p \<and> list_all segment_wf segs)
   \<and> parseRoutePath (normalizeRoutePath p) = parseRoutePath p
   \<and> normalizeRoutePath (normalizeRoutePath p) = normalizeRoutePath p"
proof -
  have "print_route segs = normalizeRoutePath p" if "map print_segment segs = path_segments p"
    using that by (simp add: print_route_def normalizeRoutePath_def)
  moreover have "map print_segment segs = path_segments p" if "print_route segs = normalizeRoutePath p" "list_all segment_wf segs"
    using print_route_segments [OF that(2)] segments_normalize [of p] that(1) by metis
  moreover have "parseRoutePath (normalizeRoutePath p) = parseRoutePath p"
    by (simp add: parseRoutePath_def)
  ultimately show ?thesis
    using parse_segments [of p segs] normalize_idem by blast
qed

end
