(* ===== verification/Http_Headers.thy ===== *)
theory Http_Headers
  imports Uri_Component
begin

text \<open>
  \<open>packages/http/src/header-helpers.ts\<close> and the request record the HTTP components read: header maps
  in insertion order, case-insensitive lookup, joined values, the \<open>Vary\<close> merge and
  \<open>Content-Disposition\<close>.
\<close>

type_synonym header_value = "string option list"

text \<open>A header value is a list of entries: one for a string, one \<open>None\<close> for \<open>undefined\<close>.\<close>

record http_request =
  hr_method :: string
  hr_path :: string
  hr_headers :: "(string \<times> header_value) list"
  hr_headExplicitOrGet :: bool

definition normalizeHeaderName :: "string \<Rightarrow> string option" where
  "normalizeHeaderName name = (let n = js_lower (js_trim name) in if n = [] then None else Some n)"

text \<open>The trimmed entries that are not empty, in order.\<close>

definition present_values :: "header_value list \<Rightarrow> string list" where
  "present_values vs = filter (\<lambda>s. s \<noteq> []) (map js_trim (List.map_filter id (concat vs)))"

section \<open>Reading headers\<close>

text \<open>The first matching entry with a value, else the first matching entry.\<close>

definition findCaseInsensitiveHeaderEntry :: "(string \<times> header_value) list \<Rightarrow> string \<Rightarrow> (string \<times> header_value) option" where
  "findCaseInsensitiveHeaderEntry headers headerName =
     (case normalizeHeaderName headerName of
        None \<Rightarrow> None
      | Some n \<Rightarrow>
          (let found = filter (\<lambda>(name, v). js_lower name = n) headers
           in case find (\<lambda>(name, v). v \<noteq> [None]) found of
                Some e \<Rightarrow> Some e
              | None \<Rightarrow> (case found of [] \<Rightarrow> None | e # _ \<Rightarrow> Some e)))"

definition getRequestHeader :: "http_request \<Rightarrow> string \<Rightarrow> header_value option" where
  "getRequestHeader request name = map_option snd (findCaseInsensitiveHeaderEntry (hr_headers request) name)"

definition readJoinedNonEmptyHeaderValue :: "header_value \<Rightarrow> string option" where
  "readJoinedNonEmptyHeaderValue v =
     (let vs = present_values [v] in if vs = [] then None else Some (join_with '','' vs))"

definition readFirstNonEmptyRequestHeaderValue :: "http_request \<Rightarrow> string \<Rightarrow> string option" where
  "readFirstNonEmptyRequestHeaderValue request name =
     (case normalizeHeaderName name of
        None \<Rightarrow> None
      | Some n \<Rightarrow>
          (case List.map_filter (\<lambda>(h, v). if js_lower h = n then readJoinedNonEmptyHeaderValue v else None) (hr_headers request) of
             [] \<Rightarrow> None
           | v # _ \<Rightarrow> Some v))"

definition readJoinedNonEmptyRequestHeaderValues :: "http_request \<Rightarrow> string \<Rightarrow> string option" where
  "readJoinedNonEmptyRequestHeaderValues request name =
     (case normalizeHeaderName name of
        None \<Rightarrow> None
      | Some n \<Rightarrow>
          (let vs = List.map_filter (\<lambda>(h, v). if js_lower h = n then readJoinedNonEmptyHeaderValue v else None) (hr_headers request)
           in if vs = [] then None else Some (join_with '','' vs)))"

definition getResponseHeader :: "(string \<times> header_value) list \<Rightarrow> string \<Rightarrow> header_value option" where
  "getResponseHeader headers name = map_option snd (findCaseInsensitiveHeaderEntry headers name)"

definition hasResponseHeader :: "(string \<times> header_value) list \<Rightarrow> string \<Rightarrow> bool" where
  "hasResponseHeader headers name \<longleftrightarrow> getResponseHeader headers name \<notin> {None, Some [None]}"

section \<open>Content-Disposition\<close>

datatype disposition_error = UnsupportedDisposition | LineBreakInFilename

definition printable_ascii :: "char \<Rightarrow> char" where
  "printable_ascii c = (if 32 \<le> (of_char c :: nat) \<and> (of_char c :: nat) \<le> 126 then c else CHR ''?'')"

definition replace_all :: "char \<Rightarrow> string \<Rightarrow> string \<Rightarrow> string" where
  "replace_all c r s = concat (map (\<lambda>x. if x = c then r else [x]) s)"

definition ascii_filename :: "string \<Rightarrow> string" where
  "ascii_filename filename =
     replace_all (CHR 0x22) [CHR 0x5C, CHR 0x22]
       (replace_all (CHR 0x5C) [CHR 0x5C, CHR 0x5C] (map printable_ascii filename))"

definition rfc8187_char :: "char \<Rightarrow> bool" where
  "rfc8187_char c \<longleftrightarrow>
     is_alnum c \<or> of_char c \<in> ({0x21, 0x23, 0x24, 0x26, 0x2B, 0x2D, 0x2E, 0x5E, 0x5F, 0x60, 0x7C, 0x7E} :: nat set)"

definition utf8_filename :: "string \<Rightarrow> string" where
  "utf8_filename filename = percent_encode rfc8187_char filename"

definition buildContentDisposition :: "string \<Rightarrow> string \<Rightarrow> disposition_error + string" where
  "buildContentDisposition disposition filename =
     (if disposition \<noteq> ''attachment'' \<and> disposition \<noteq> ''inline'' then Inl UnsupportedDisposition
      else if CHR 0x0D \<in> set filename \<or> CHR 0x0A \<in> set filename then Inl LineBreakInFilename
      else Inr (disposition @ ''; filename='' @ [CHR 0x22] @ ascii_filename filename @ [CHR 0x22]
                @ ''; filename*=UTF-8'' @ [CHR 0x27, CHR 0x27] @ utf8_filename filename))"

section \<open>Vary\<close>

definition parseHeaderTokens :: "string list \<Rightarrow> string list" where
  "parseHeaderTokens values = filter (\<lambda>s. s \<noteq> []) (map js_trim (concat (map (split_on (CHR '','')) values)))"

fun dedupe_tokens :: "string list \<Rightarrow> string list \<Rightarrow> string list" where
  "dedupe_tokens seen [] = []"
| "dedupe_tokens seen (t # ts) =
     (if js_lower t \<in> set seen then dedupe_tokens seen ts else t # dedupe_tokens (js_lower t # seen) ts)"

text \<open>Response headers are strings or lists of strings.\<close>

type_synonym response_headers = "(string, string list) js_map"

definition is_vary :: "string \<Rightarrow> bool" where
  "is_vary name \<longleftrightarrow> js_lower name = ''vary''"

definition appendVaryHeader :: "string list \<Rightarrow> response_headers \<Rightarrow> response_headers" where
  "appendVaryHeader added headers =
     (let existing = filter (\<lambda>(name, v). is_vary name) headers;
          merged = parseHeaderTokens (concat (map snd existing)) @ parseHeaderTokens added
      in if merged = [] then headers
         else (let canonical = (case existing of [] \<Rightarrow> ''Vary'' | (name, v) # _ \<Rightarrow> name);
                   kept = fold (\<lambda>(name, v) h. js_delete h name) (tl existing) headers
               in if ''*'' \<in> set merged then js_set kept canonical [''*'']
                  else js_set kept canonical [join_with '', '' (dedupe_tokens [] merged)]))"

section \<open>Quoted filenames\<close>

text \<open>
  How a recipient reads the rest of a quoted string (RFC 9110, 5.6.4): up to the first quote that is
  not escaped.  The result is the text and what follows the closing quote.
\<close>

fun read_quoted :: "string \<Rightarrow> (string \<times> string) option" where
  "read_quoted [] = None"
| "read_quoted (c # s) =
     (if c = CHR 0x22 then Some ([], s)
      else if c = CHR 0x5C then
        (case s of [] \<Rightarrow> None | d # t \<Rightarrow> map_option (\<lambda>(text, rest). (d # text, rest)) (read_quoted t))
      else map_option (\<lambda>(text, rest). (c # text, rest)) (read_quoted s))"

lemma read_quoted_escaped:
  "read_quoted (replace_all (CHR 0x22) [CHR 0x5C, CHR 0x22] (replace_all (CHR 0x5C) [CHR 0x5C, CHR 0x5C] s) @ CHR 0x22 # rest) =
   Some (s, rest)"
  by (induction s) (auto simp: replace_all_def)

interpretation ext: percent_coding rfc8187_char
  by unfold_locales (simp add: rfc8187_char_def is_alnum_def)

lemma replace_all_chars: "x \<in> set (replace_all c r s) \<Longrightarrow> x \<in> set s \<or> x \<in> set r"
  by (auto simp: replace_all_def split: if_splits)

lemma printable_range: "32 \<le> (of_char (printable_ascii c) :: nat) \<and> (of_char (printable_ascii c) :: nat) \<le> 126"
  by (simp add: printable_ascii_def)

lemma ascii_filename_chars: "x \<in> set (ascii_filename f) \<Longrightarrow> 32 \<le> (of_char x :: nat) \<and> (of_char x :: nat) \<le> 126"
  using printable_range by (fastforce simp: ascii_filename_def dest!: replace_all_chars)

lemma utf8_filename_chars:
  assumes "x \<in> set (utf8_filename f)"
  shows "32 \<le> (of_char x :: nat) \<and> (of_char x :: nat) \<le> 126 \<and> x \<notin> {CHR 0x22, CHR '';'', CHR '' '', CHR '',''}"
  using ext.encode_chars [OF assms [unfolded utf8_filename_def]]
  by (auto simp: rfc8187_char_def is_alnum_def Let_def)

text \<open>
  A filename survives its trip through \<open>Content-Disposition\<close>: the value is built unless the
  disposition is unknown or the filename has a line break; every character of the value is printable
  ASCII, so nothing can end the header line; reading the quoted parameter consumes exactly the escaped
  filename, whatever quotes and backslashes it contains, and yields it with unprintable characters
  replaced; percent decoding the extended parameter yields the filename itself.
\<close>

theorem content_disposition_round_trip:
  "(case buildContentDisposition disposition filename of
      Inl UnsupportedDisposition \<Rightarrow> disposition \<noteq> ''attachment'' \<and> disposition \<noteq> ''inline''
    | Inl LineBreakInFilename \<Rightarrow> CHR 0x0D \<in> set filename \<or> CHR 0x0A \<in> set filename
    | Inr v \<Rightarrow>
        list_all (\<lambda>c. 32 \<le> (of_char c :: nat) \<and> (of_char c :: nat) \<le> 126) v \<and>
        (\<exists>quoted rest. v = disposition @ ''; filename='' @ CHR 0x22 # quoted \<and>
           read_quoted quoted = Some (map printable_ascii filename, ''; filename*=UTF-8'' @ [CHR 0x27, CHR 0x27] @ rest) \<and>
           CHR '';'' \<notin> set rest \<and> decode_uri rest = filename))"
proof (cases "buildContentDisposition disposition filename")
  case (Inl e)
  then show ?thesis
    by (auto simp: buildContentDisposition_def split: if_splits)
next
  case (Inr v)
  then have d: "disposition = ''attachment'' \<or> disposition = ''inline''"
    and v: "v = disposition @ ''; filename='' @ [CHR 0x22] @ ascii_filename filename @ [CHR 0x22]
                @ ''; filename*=UTF-8'' @ [CHR 0x27, CHR 0x27] @ utf8_filename filename"
    by (auto simp: buildContentDisposition_def split: if_splits)
  have "32 \<le> (of_char c :: nat) \<and> (of_char c :: nat) \<le> 126" if "c \<in> set v" for c
    using that d ascii_filename_chars utf8_filename_chars unfolding v by auto
  moreover have "read_quoted (ascii_filename filename @ CHR 0x22 # rest) = Some (map printable_ascii filename, rest)" for rest
    by (simp add: ascii_filename_def read_quoted_escaped)
  moreover have "CHR '';'' \<notin> set (utf8_filename filename)"
    using utf8_filename_chars by blast
  ultimately show ?thesis
    by (simp add: Inr v utf8_filename_def ext.decode_encode list_all_iff)
qed

section \<open>The Vary merge\<close>

definition vary_tokens :: "response_headers \<Rightarrow> string list" where
  "vary_tokens headers = parseHeaderTokens (concat (map snd (filter (\<lambda>(name, v). is_vary name) headers)))"

definition is_token :: "string \<Rightarrow> bool" where
  "is_token t \<longleftrightarrow> t \<noteq> [] \<and> CHR '','' \<notin> set t \<and> js_trim t = t"

lemma js_trim_idem [simp]: "js_trim (js_trim s) = js_trim s"
proof -
  have "dropWhile is_space (rev (dropWhile is_space (rev u))) = rev (dropWhile is_space (rev u))"
    if "u = [] \<or> \<not> is_space (hd u)" for u
    using that by (cases u) (auto simp: dropWhile_append3)
  moreover have "dropWhile is_space s = [] \<or> \<not> is_space (hd (dropWhile is_space s))"
    using hd_dropWhile by blast
  ultimately show ?thesis
    by (simp add: js_trim_def)
qed

lemma js_trim_space [simp]: "js_trim (CHR '' '' # s) = js_trim s"
  by (simp add: js_trim_def is_space_def)

lemma parse_tokens: "t \<in> set (parseHeaderTokens vs) \<Longrightarrow> is_token t"
  using set_js_trim split_on_no_sep by (fastforce simp: parseHeaderTokens_def is_token_def)

lemma parse_space: "parseHeaderTokens [CHR '' '' # s] = parseHeaderTokens [s]"
  by (cases "split_on (CHR '','') s") (auto simp: parseHeaderTokens_def)

lemma parse_join: "list_all is_token ts \<Longrightarrow> parseHeaderTokens [join_with '', '' ts] = ts"
proof (induction ts)
  case (Cons t ts)
  then have t: "t \<noteq> []" "CHR '','' \<notin> set t" "js_trim t = t" and ts: "parseHeaderTokens [join_with '', '' ts] = ts"
    by (simp_all add: is_token_def)
  show ?case
  proof (cases ts)
    case Nil
    with t show ?thesis
      by (simp add: parseHeaderTokens_def split_on_free)
  next
    case (Cons u us)
    have "parseHeaderTokens [t @ CHR '','' # s] = t # parseHeaderTokens [s]" for s
      using t by (simp add: parseHeaderTokens_def split_on_append)
    then show ?thesis
      using ts Cons by (simp add: join_with_Cons parse_space)
  qed
qed (simp add: parseHeaderTokens_def js_trim_def)

lemma dedupe_spec:
  "js_lower ` set (dedupe_tokens seen ts) = js_lower ` set ts - set seen \<and>
   distinct (map js_lower (dedupe_tokens seen ts)) \<and> set (dedupe_tokens seen ts) \<subseteq> set ts"
  by (induction ts arbitrary: seen) auto

lemma dedupe_id:
  "distinct (map js_lower ts) \<Longrightarrow> js_lower ` set ts \<inter> set seen = {} \<Longrightarrow> js_lower ` set us \<subseteq> js_lower ` set ts \<union> set seen \<Longrightarrow>
   dedupe_tokens seen (ts @ us) = ts"
proof (induction ts arbitrary: seen)
  case Nil
  then show ?case
    by (induction us) auto
next
  case (Cons t ts)
  then have "dedupe_tokens (js_lower t # seen) (ts @ us) = ts"
    by (intro Cons.IH) auto
  with Cons.prems show ?case
    by auto
qed

lemma fold_js_delete: "fold (\<lambda>(name, v) h. js_delete h name) xs h = filter (\<lambda>(k, v). k \<notin> fst ` set xs) h"
proof (induction xs arbitrary: h)
  case (Cons x xs)
  then show ?case
    by (cases x) (auto simp: js_delete_def intro!: filter_cong)
qed simp

lemma filter_js_set:
  "filter (\<lambda>(name, v). P name) (js_set m k v) =
     (if P k then js_set (filter (\<lambda>(name, v). P name) m) k v else filter (\<lambda>(name, v). P name) m)"
proof -
  have "filter (\<lambda>(name, v). P name) (map (\<lambda>(k', v'). if k' = k then (k, v) else (k', v')) m) =
      (if P k then map (\<lambda>(k', v'). if k' = k then (k, v) else (k', v')) (filter (\<lambda>(name, v). P name) m)
       else filter (\<lambda>(name, v). P name) m)"
    by (induction m) (simp_all add: case_prod_beta')
  moreover have "js_has (filter (\<lambda>(name, v). P name) m) k \<longleftrightarrow> js_has m k" if "P k"
    using that by (force simp: js_has_def)
  ultimately show ?thesis
    by (auto simp: js_set_def)
qed

text \<open>The headers of a response and where the merge puts the new value.\<close>

definition vary_name :: "response_headers \<Rightarrow> string" where
  "vary_name headers = (case filter (\<lambda>(name, v). is_vary name) headers of [] \<Rightarrow> ''Vary'' | (name, v) # _ \<Rightarrow> name)"

definition put_vary :: "string list \<Rightarrow> response_headers \<Rightarrow> response_headers" where
  "put_vary v headers =
     js_set (fold (\<lambda>(name, v) h. js_delete h name) (tl (filter (\<lambda>(name, v). is_vary name) headers)) headers)
       (vary_name headers) v"

lemma append_vary_put:
  "appendVaryHeader added headers =
     (let merged = vary_tokens headers @ parseHeaderTokens added
      in if merged = [] then headers
         else put_vary [if ''*'' \<in> set merged then ''*'' else join_with '', '' (dedupe_tokens [] merged)] headers)"
  by (simp add: appendVaryHeader_def put_vary_def vary_name_def vary_tokens_def Let_def)

lemma is_vary_name: "is_vary (vary_name headers)"
proof (cases "filter (\<lambda>(name, v). is_vary name) headers")
  case (Cons e es)
  then have "e \<in> set (filter (\<lambda>(name, v). is_vary name) headers)"
    by simp
  then have "is_vary (fst e)"
    by auto
  with Cons show ?thesis
    by (simp add: vary_name_def case_prod_beta')
next
  case Nil
  have "is_vary ''Vary''"
    by code_simp
  with Nil show ?thesis
    by (simp add: vary_name_def)
qed

lemma vary_after_put:
  assumes "js_ok headers"
  shows "filter (\<lambda>(name, v). is_vary name) (put_vary v headers) = [(vary_name headers, v)]"
proof -
  define vs where "vs = filter (\<lambda>(name, v). is_vary name) headers"
  have none: "filter (\<lambda>(k, v). k \<notin> fst ` set xs) xs = []" for xs :: response_headers
    by (force simp: filter_empty_conv)
  have "distinct (map fst vs)"
    using assms by (simp add: vs_def distinct_map_filter)
  moreover have "filter (\<lambda>(name, v). is_vary name) (filter (\<lambda>(k, v). k \<notin> fst ` set (tl vs)) headers)
      = filter (\<lambda>(k, v). k \<notin> fst ` set (tl vs)) vs"
    by (simp add: vs_def conj_commute case_prod_beta')
  ultimately have "js_set (filter (\<lambda>(name, v). is_vary name) (filter (\<lambda>(k, v). k \<notin> fst ` set (tl vs)) headers)) (vary_name headers) v
      = [(vary_name headers, v)]"
    using none by (cases vs) (auto simp: vary_name_def vs_def [symmetric] js_set_def js_has_def)
  then show ?thesis
    by (simp only: put_vary_def fold_js_delete filter_js_set is_vary_name vs_def [symmetric] if_True)
qed

lemma others_after_put: "filter (\<lambda>(name, v). \<not> is_vary name) (put_vary v headers) = filter (\<lambda>(name, v). \<not> is_vary name) headers"
proof -
  have "is_vary k" if "k \<in> fst ` set (tl (filter (\<lambda>(name, v). is_vary name) headers))" for k
  proof -
    have "k \<in> fst ` set (filter (\<lambda>(name, v). is_vary name) headers)"
      using that by (cases "filter (\<lambda>(name, v). is_vary name) headers") auto
    then show ?thesis
      by auto
  qed
  moreover have "filter (\<lambda>(name, v). \<not> is_vary name) (filter (\<lambda>(k, v). k \<notin> K) h) = filter (\<lambda>(name, v). \<not> is_vary name) h"
    if "\<And>k. k \<in> K \<Longrightarrow> is_vary k" for K and h :: response_headers
    using that by (induction h) auto
  ultimately show ?thesis
    by (simp only: put_vary_def fold_js_delete filter_js_set [where P = "\<lambda>n. \<not> is_vary n"] is_vary_name simp_thms if_False)
qed

lemma vary_tokens_put: "js_ok headers \<Longrightarrow> vary_tokens (put_vary [s] headers) = parseHeaderTokens [s]"
  by (simp add: vary_tokens_def vary_after_put)

lemma js_ok_put: "js_ok headers \<Longrightarrow> js_ok (put_vary v headers)"
  unfolding put_vary_def fold_js_delete by (intro jsm.ok_put) (simp add: distinct_map_filter)

lemma put_put: "js_ok headers \<Longrightarrow> put_vary v (put_vary v headers) = put_vary v headers"
proof -
  assume ok: "js_ok headers"
  define h where "h = put_vary v headers"
  have one: "filter (\<lambda>(name, v). is_vary name) h = [(vary_name headers, v)]"
    by (simp add: h_def ok vary_after_put)
  have "(vary_name headers, v) \<in> set (filter (\<lambda>(name, v). is_vary name) h)"
    by (simp only: one list.set_intros)
  then have "(vary_name headers, v) \<in> set h"
    by simp
  moreover have "js_ok h"
    by (simp add: h_def ok js_ok_put)
  ultimately have "js_set h (vary_name headers) v = h"
    by (force simp: js_set_def js_has_def eq_key_imp_eq_value intro!: map_idI)
  then show ?thesis
    unfolding h_def [symmetric] by (simp add: put_vary_def [of v h] vary_name_def [of h] one)
qed

text \<open>The whole text of the tokens a response varies on.\<close>

lemma merged_tokens:
  assumes "merged = vary_tokens headers @ parseHeaderTokens added"
  shows "list_all is_token (dedupe_tokens [] merged)"
  using dedupe_spec [of "[]" merged] parse_tokens unfolding assms vary_tokens_def by (auto simp: list_all_iff)

lemma append_vary_cases:
  assumes ok: "js_ok headers"
    and merged: "merged = vary_tokens headers @ parseHeaderTokens added" and "merged \<noteq> []"
  obtains s where "appendVaryHeader added headers = put_vary [s] headers" "parseHeaderTokens [s] = (if ''*'' \<in> set merged then [''*''] else dedupe_tokens [] merged)"
    "s = (if ''*'' \<in> set merged then ''*'' else join_with '', '' (dedupe_tokens [] merged))"
proof
  have star: "parseHeaderTokens [''*''] = [''*'']"
    by code_simp
  show "appendVaryHeader added headers = put_vary [if ''*'' \<in> set merged then ''*'' else join_with '', '' (dedupe_tokens [] merged)] headers"
    using assms(3) by (simp only: append_vary_put merged [symmetric] Let_def if_False)
  show "parseHeaderTokens [if ''*'' \<in> set merged then ''*'' else join_with '', '' (dedupe_tokens [] merged)] =
      (if ''*'' \<in> set merged then [''*''] else dedupe_tokens [] merged)"
    using parse_join [OF merged_tokens [OF merged]] star by simp
qed simp

lemma append_vary_again:
  assumes ok: "js_ok headers"
  shows "appendVaryHeader added (appendVaryHeader added headers) = appendVaryHeader added headers"
proof (cases "vary_tokens headers @ parseHeaderTokens added = []")
  case False
  define merged where "merged = vary_tokens headers @ parseHeaderTokens added"
  have "merged \<noteq> []"
    using False by (simp add: merged_def)
  then obtain s where s: "appendVaryHeader added headers = put_vary [s] headers"
      "parseHeaderTokens [s] = (if ''*'' \<in> set merged then [''*''] else dedupe_tokens [] merged)"
      "s = (if ''*'' \<in> set merged then ''*'' else join_with '', '' (dedupe_tokens [] merged))"
    using append_vary_cases [OF ok merged_def] by blast
  let ?toks = "parseHeaderTokens [s]"
  have dedupe: "''*'' \<notin> set (dedupe_tokens [] merged)" "''*'' \<notin> set (parseHeaderTokens added)"
      "dedupe_tokens [] (dedupe_tokens [] merged @ parseHeaderTokens added) = dedupe_tokens [] merged" if "''*'' \<notin> set merged"
    using that dedupe_spec [of "[]" merged] by (auto simp: merged_def intro!: dedupe_id)
  have "?toks \<noteq> []"
    using \<open>merged \<noteq> []\<close> s(2) by (cases merged) auto
  then have "appendVaryHeader added (put_vary [s] headers) = put_vary [s] (put_vary [s] headers)"
    using dedupe s(2, 3) by (auto simp: append_vary_put vary_tokens_put [OF ok] Let_def)
  then show ?thesis
    by (simp add: s(1) put_put [OF ok])
qed (simp add: append_vary_put)

text \<open>
  Appending to \<open>Vary\<close> is a case-insensitive union: in a response whose header names are distinct
  the other headers keep their values and order; if a wildcard is among the old and new tokens the
  response varies on exactly \<open>*\<close>; otherwise it varies on the old and the new tokens, none lost and
  none twice up to case; there is at most one \<open>Vary\<close> header left as soon as there is a token; and
  appending the same fields again changes nothing.
\<close>

theorem append_vary_union:
  assumes ok: "js_ok headers"
  shows "let result = appendVaryHeader added headers; merged = vary_tokens headers @ parseHeaderTokens added
    in filter (\<lambda>(name, v). \<not> is_vary name) result = filter (\<lambda>(name, v). \<not> is_vary name) headers \<and>
       (if ''*'' \<in> set merged then vary_tokens result = [''*'']
        else js_lower ` set (vary_tokens result) = js_lower ` set merged \<and>
             (merged \<noteq> [] \<longrightarrow> distinct (map js_lower (vary_tokens result)))) \<and>
       (merged \<noteq> [] \<longrightarrow> length (filter (\<lambda>(name, v). is_vary name) result) = 1) \<and>
       appendVaryHeader added result = result"
proof (cases "vary_tokens headers @ parseHeaderTokens added = []")
  case True
  then show ?thesis
    by (simp add: append_vary_put)
next
  case False
  define merged where "merged = vary_tokens headers @ parseHeaderTokens added"
  obtain s where "appendVaryHeader added headers = put_vary [s] headers"
      "parseHeaderTokens [s] = (if ''*'' \<in> set merged then [''*''] else dedupe_tokens [] merged)"
    using append_vary_cases [OF ok merged_def] False merged_def by blast
  then show ?thesis
    using dedupe_spec [of "[]" merged] append_vary_again [OF ok, of added]
    by (simp add: Let_def merged_def [symmetric] vary_tokens_put [OF ok] others_after_put vary_after_put [OF ok])
qed

theorem append_vary_union_witness:
  "appendVaryHeader [''accept-encoding, Origin''] (appendVaryHeader [''accept-encoding, Origin'']
      [(''VARY'', [''Accept-Encoding'']), (''ETag'', [''x'']), (''vary'', [''Cookie''])]) =
   appendVaryHeader [''accept-encoding, Origin''] [(''VARY'', [''Accept-Encoding'']), (''ETag'', [''x'']), (''vary'', [''Cookie''])] \<and>
   appendVaryHeader [''accept-encoding, Origin''] [(''VARY'', [''Accept-Encoding'']), (''ETag'', [''x'']), (''vary'', [''Cookie''])] =
     [(''VARY'', [''Accept-Encoding, Cookie, Origin'']), (''ETag'', [''x''])]"
proof
  show "appendVaryHeader [''accept-encoding, Origin''] [(''VARY'', [''Accept-Encoding'']), (''ETag'', [''x'']), (''vary'', [''Cookie''])] =
     [(''VARY'', [''Accept-Encoding, Cookie, Origin'']), (''ETag'', [''x''])]"
    by code_simp
next
  have "js_ok [(''VARY'', [''Accept-Encoding'']), (''ETag'', [''x'']), (''vary'', [''Cookie''])]"
    by simp
  from append_vary_union [OF this, of "[''accept-encoding, Origin'']"]
  show "appendVaryHeader [''accept-encoding, Origin''] (appendVaryHeader [''accept-encoding, Origin'']
      [(''VARY'', [''Accept-Encoding'']), (''ETag'', [''x'']), (''vary'', [''Cookie''])]) =
   appendVaryHeader [''accept-encoding, Origin''] [(''VARY'', [''Accept-Encoding'']), (''ETag'', [''x'']), (''vary'', [''Cookie''])]"
    by (simp only: Let_def)
qed

end
