(* ===== verification/Handler_Mapping.thy ===== *)
theory Handler_Mapping
  imports Route_Path Http_Headers
begin

text \<open>
  \<open>packages/http/src/mapping.ts\<close>: from controllers to route descriptors, the static and parameter
  indexes over them, and the selection of the handler of a request, with URI, header, media-type and
  custom versioning.

  The controller and route metadata that the decorators stored are fields of the handler source.  Guards,
  interceptors and module middleware are opaque values that the code only concatenates and copies.
\<close>

section \<open>Requests and versions\<close>

datatype versioning =
    UriVersioning
  | HeaderVersioning string
  | MediaTypeVersioning "string option"
  | CustomVersioning "http_request \<Rightarrow> string option list"

definition is_uri :: "versioning \<Rightarrow> bool" where
  "is_uri v = (case v of UriVersioning \<Rightarrow> True | _ \<Rightarrow> False)"

definition joinPaths :: "string \<Rightarrow> string \<Rightarrow> string" where
  "joinPaths basePath routePath = normalizeRoutePath (basePath @ ''/'' @ routePath)"

definition normalizeVersionValue :: "string \<Rightarrow> string" where
  "normalizeVersionValue version =
     (case js_trim version of
        [] \<Rightarrow> []
      | c # cs \<Rightarrow> if c = CHR ''v'' \<or> c = CHR ''V'' then cs else c # cs)"

definition normalizeVersionSegment :: "string \<Rightarrow> string" where
  "normalizeVersionSegment version = CHR ''v'' # normalizeVersionValue version"

definition applyVersionPrefix :: "string \<Rightarrow> string option \<Rightarrow> string" where
  "applyVersionPrefix path version =
     (case version of
        None \<Rightarrow> path
      | Some v \<Rightarrow> if v = [] then path else joinPaths (CHR ''/'' # normalizeVersionSegment v) path)"

definition getMatchingRequestHeaderValues :: "http_request \<Rightarrow> string \<Rightarrow> header_value list" where
  "getMatchingRequestHeaderValues request headerName =
     (case normalizeHeaderName headerName of
        None \<Rightarrow> []
      | Some n \<Rightarrow> map snd (filter (\<lambda>(name, v). js_lower name = n) (hr_headers request)))"

definition readHeaderValue :: "http_request \<Rightarrow> string \<Rightarrow> string option" where
  "readHeaderValue request headerName =
     (case present_values (getMatchingRequestHeaderValues request headerName) of [] \<Rightarrow> None | v # _ \<Rightarrow> Some v)"

definition readCombinedHeaderValue :: "http_request \<Rightarrow> string \<Rightarrow> string option" where
  "readCombinedHeaderValue request headerName =
     (let vs = present_values (getMatchingRequestHeaderValues request headerName)
      in if vs = [] then None else Some (join_with '','' vs))"

text \<open>The leftmost match of the escaped key, ignoring case, followed by at least one character that is none of
  \<open>;\<close>, \<open>,\<close>, \<open>+\<close> or white space.\<close>

fun match_key :: "string \<Rightarrow> string \<Rightarrow> string option" where
  "match_key key s =
     (let rest = takeWhile (\<lambda>c. c \<notin> set '';,+'' \<and> \<not> is_space c) (drop (length key) s)
      in if starts_with (js_lower key) (js_lower s) \<and> rest \<noteq> [] then Some rest
         else (case s of [] \<Rightarrow> None | c # cs \<Rightarrow> match_key key cs))"

declare match_key.simps [simp del]

fun first_version :: "string \<Rightarrow> string list \<Rightarrow> string option" where
  "first_version key [] = None"
| "first_version key (m # ms) =
     (case match_key key m of
        None \<Rightarrow> first_version key ms
      | Some v \<Rightarrow> if js_trim v = [] then first_version key ms else Some (js_trim v))"

definition extractVersionFromMediaType :: "http_request \<Rightarrow> string \<Rightarrow> string option" where
  "extractVersionFromMediaType request key =
     (case readCombinedHeaderValue request ''accept'' of
        None \<Rightarrow> None
      | Some accept \<Rightarrow> first_version key (filter (\<lambda>s. s \<noteq> []) (map js_trim (split_on (CHR '','') accept))))"

definition version_extractor :: "versioning \<Rightarrow> http_request \<Rightarrow> string option list" where
  "version_extractor v request =
     (case v of
        UriVersioning \<Rightarrow> [None]
      | HeaderVersioning h \<Rightarrow> [readHeaderValue request h]
      | MediaTypeVersioning k \<Rightarrow> [extractVersionFromMediaType request (case k of None \<Rightarrow> ''v='' | Some k \<Rightarrow> k)]
      | CustomVersioning f \<Rightarrow> f request)"

definition resolveRequestVersion :: "http_request \<Rightarrow> versioning \<Rightarrow> string option" where
  "resolveRequestVersion request v =
     (case filter (\<lambda>s. s \<noteq> []) (map normalizeVersionValue (List.map_filter id (version_extractor v request))) of
        [] \<Rightarrow> None
      | s # _ \<Rightarrow> Some s)"

section \<open>Descriptors\<close>

record route_meta =
  rm_method :: string
  rm_path :: string
  rm_version :: "string option"
  rm_guards :: "nat list"
  rm_interceptors :: "nat list"
  rm_produces :: "string list option"

record controller_meta =
  cm_basePath :: string
  cm_version :: "string option"
  cm_guards :: "nat list"
  cm_interceptors :: "nat list"

text \<open>A source: the class, its metadata if decorated, its own methods with their route metadata if decorated
  and the \<open>@Produces\<close> metadata.\<close>

record handler_source =
  hs_controller :: nat
  hs_meta :: "controller_meta option"
  hs_methods :: "(string \<times> route_meta option \<times> string list option) list"
  hs_middleware :: "nat list"
  hs_module :: "nat option"

record descriptor =
  de_controller :: nat
  de_methodName :: string
  de_method :: string
  de_path :: string
  de_version :: "string option"
  de_guards :: "nat list"
  de_interceptors :: "nat list"
  de_produces :: "string list option"
  de_controllerPath :: string
  de_pathParams :: "string list"
  de_middleware :: "nat list"
  de_module :: "nat option"
  de_identity :: string

definition create_descriptor ::
  "handler_source \<Rightarrow> versioning \<Rightarrow> nat \<Rightarrow> nat \<Rightarrow> string \<Rightarrow> route_meta \<Rightarrow> string list option \<Rightarrow> route_error + descriptor" where
  "create_descriptor source v sourceIndex methodIndex name rm produces =
     (let meta = (case hs_meta source of
                    Some m \<Rightarrow> m
                  | None \<Rightarrow> \<lparr>cm_basePath = [], cm_version = None, cm_guards = [], cm_interceptors = []\<rparr>);
          effectiveVersion = (case rm_version rm of Some x \<Rightarrow> Some x | None \<Rightarrow> cm_version meta);
          routePath = joinPaths (cm_basePath meta) (rm_path rm);
          effectivePath = (if is_uri v then applyVersionPrefix routePath effectiveVersion else routePath)
      in case extractRoutePathParams effectivePath of
           Inl e \<Rightarrow> Inl e
         | Inr params \<Rightarrow>
             Inr \<lparr>de_controller = hs_controller source, de_methodName = name, de_method = rm_method rm,
                  de_path = effectivePath, de_version = effectiveVersion,
                  de_guards = cm_guards meta @ rm_guards rm, de_interceptors = cm_interceptors meta @ rm_interceptors rm,
                  de_produces = (case produces of Some ps \<Rightarrow> Some ps | None \<Rightarrow> rm_produces rm),
                  de_controllerPath = cm_basePath meta, de_pathParams = params,
                  de_middleware = hs_middleware source, de_module = hs_module source,
                  de_identity = ''v1:'' @ show_nat sourceIndex @ '':'' @ show_nat methodIndex\<rparr>)"

fun create_from :: "handler_source \<Rightarrow> versioning \<Rightarrow> nat \<Rightarrow> nat \<Rightarrow> (string \<times> route_meta option \<times> string list option) list \<Rightarrow> route_error + descriptor list" where
  "create_from source v si mi [] = Inr []"
| "create_from source v si mi ((name, None, produces) # ms) = create_from source v si (Suc mi) ms"
| "create_from source v si mi ((name, Some rm, produces) # ms) =
     (case create_descriptor source v si mi name rm produces of
        Inl e \<Rightarrow> Inl e
      | Inr d \<Rightarrow> (case create_from source v si (Suc mi) ms of Inl e \<Rightarrow> Inl e | Inr ds \<Rightarrow> Inr (d # ds)))"

definition createHandlerDescriptors :: "handler_source \<Rightarrow> versioning \<Rightarrow> nat \<Rightarrow> route_error + descriptor list" where
  "createHandlerDescriptors source v sourceIndex =
     create_from source v sourceIndex 0 (filter (\<lambda>(name, m). name \<noteq> ''constructor'') (hs_methods source))"

definition route_key :: "descriptor \<Rightarrow> string" where
  "route_key d =
     de_method d @ '':'' @ de_path d @ '':'' @
     (case de_version d of None \<Rightarrow> ''<none>'' | Some v \<Rightarrow> normalizeVersionValue v)"

fun check_conflicts :: "string list \<Rightarrow> descriptor list \<Rightarrow> route_error option" where
  "check_conflicts seen [] = None"
| "check_conflicts seen (d # ds) =
     (if route_key d \<in> set seen then Some (RouteConflict (route_key d)) else check_conflicts (route_key d # seen) ds)"

definition buildDescriptorList :: "handler_source list \<Rightarrow> versioning \<Rightarrow> route_error + descriptor list" where
  "buildDescriptorList sources v =
     (case res_map (\<lambda>(si, source). createHandlerDescriptors source v si) (zip [0..<length sources] sources) of
        Inl e \<Rightarrow> Inl e
      | Inr dss \<Rightarrow> (case check_conflicts [] (concat dss) of Some e \<Rightarrow> Inl e | None \<Rightarrow> Inr (concat dss)))"

section \<open>The index\<close>

type_synonym static_index = "(string, (string, descriptor list) js_map) js_map"
type_synonym param_index = "(string, (nat, (descriptor \<times> route_segment list) list) js_map) js_map"

definition all_literal :: "route_segment list \<Rightarrow> bool" where
  "all_literal segs = list_all (\<lambda>s. case s of Literal _ \<Rightarrow> True | Param _ \<Rightarrow> False) segs"

definition or_empty :: "'a list option \<Rightarrow> 'a list" where
  "or_empty x = (case x of None \<Rightarrow> [] | Some xs \<Rightarrow> xs)"

text \<open>Pushes a value onto the bucket \<open>k2\<close> of the map under \<open>k1\<close>, creating both when missing.\<close>

definition push_bucket :: "'k1 \<Rightarrow> 'k2 \<Rightarrow> 'a \<Rightarrow> ('k1, ('k2, 'a list) js_map) js_map \<Rightarrow> ('k1, ('k2, 'a list) js_map) js_map" where
  "push_bucket k1 k2 x index =
     (let inner = or_empty (js_get index k1)
      in js_set index k1 (js_set inner k2 (or_empty (js_get inner k2) @ [x])))"

fun build_index :: "descriptor list \<Rightarrow> static_index \<times> param_index \<Rightarrow> route_error + static_index \<times> param_index" where
  "build_index [] idx = Inr idx"
| "build_index (d # ds) idx =
     (case parseRoutePath (de_path d) of
        Inl e \<Rightarrow> Inl e
      | Inr segs \<Rightarrow>
          if all_literal segs then build_index ds (push_bucket (de_method d) (de_path d) d (fst idx), snd idx)
          else build_index ds (fst idx, push_bucket (de_method d) (length segs) (d, segs) (snd idx)))"

definition buildDescriptorIndex :: "descriptor list \<Rightarrow> route_error + static_index \<times> param_index" where
  "buildDescriptorIndex ds = build_index ds ([], [])"

definition look2 :: "('k1, ('k2, 'a list) js_map) js_map \<Rightarrow> 'k1 \<Rightarrow> 'k2 \<Rightarrow> 'a list" where
  "look2 index k1 k2 = or_empty (Option.bind (js_get index k1) (\<lambda>inner. js_get inner k2))"

section \<open>Matching\<close>

type_synonym handler_match = "descriptor \<times> (string, string) js_map"

definition matchesRouteVersion :: "descriptor \<Rightarrow> string option \<Rightarrow> bool" where
  "matchesRouteVersion d requestVersion =
     (case de_version d of
        None \<Rightarrow> requestVersion = None
      | Some v \<Rightarrow>
          if v = [] then requestVersion = None
          else (case requestVersion of
                  None \<Rightarrow> False
                | Some r \<Rightarrow> r \<noteq> [] \<and> normalizeVersionValue v = r))"

text \<open>The two selection loops of \<open>findStaticMatch\<close> and \<open>matchMethod\<close>; \<open>firstUnversioned\<close> is the variable of that name.\<close>

fun static_loop :: "versioning \<Rightarrow> string option \<Rightarrow> handler_match option \<Rightarrow> descriptor list \<Rightarrow> handler_match option" where
  "static_loop v rv firstUnversioned [] = firstUnversioned"
| "static_loop v rv firstUnversioned (d # ds) =
     (if is_uri v then Some (d, [])
      else if matchesRouteVersion d rv then Some (d, [])
      else static_loop v rv
             (if de_version d = None \<and> firstUnversioned = None then Some (d, []) else firstUnversioned) ds)"

definition findStaticMatch :: "descriptor list list \<Rightarrow> string option \<Rightarrow> versioning \<Rightarrow> handler_match option" where
  "findStaticMatch buckets rv v = static_loop v rv None (concat buckets)"

definition matchParameterizedRoute :: "route_segment list \<Rightarrow> string list \<Rightarrow> (string, string) js_map option" where
  "matchParameterizedRoute segs incoming =
     (if length segs \<noteq> length incoming then None
      else if list_ex (\<lambda>(s, x). case s of Literal l \<Rightarrow> l \<noteq> x | Param _ \<Rightarrow> False) (zip segs incoming) then None
      else Some (fold (\<lambda>(s, x) params. case s of Param n \<Rightarrow> set_param n x params | Literal _ \<Rightarrow> params)
                  (zip segs incoming) []))"

fun param_loop ::
  "versioning \<Rightarrow> string option \<Rightarrow> string list \<Rightarrow> handler_match option \<Rightarrow> (descriptor \<times> route_segment list) list \<Rightarrow> handler_match option" where
  "param_loop v rv incoming firstUnversioned [] = (if is_uri v then None else firstUnversioned)"
| "param_loop v rv incoming firstUnversioned ((d, segs) # cs) =
     (case matchParameterizedRoute segs incoming of
        None \<Rightarrow> param_loop v rv incoming firstUnversioned cs
      | Some params \<Rightarrow>
          if is_uri v then Some (d, params)
          else if matchesRouteVersion d rv then Some (d, params)
          else param_loop v rv incoming
                 (if de_version d = None \<and> firstUnversioned = None then Some (d, params) else firstUnversioned) cs)"

definition matchMethod ::
  "static_index \<times> param_index \<Rightarrow> versioning \<Rightarrow> string \<Rightarrow> string option \<Rightarrow> string \<Rightarrow> bool \<Rightarrow> handler_match option" where
  "matchMethod idx v meth rv normalizedPath includeAll =
     (case findStaticMatch
             [look2 (fst idx) meth normalizedPath, if includeAll then look2 (fst idx) ''ALL'' normalizedPath else []] rv v of
        Some m \<Rightarrow> Some m
      | None \<Rightarrow>
          (let incoming = path_segments normalizedPath
           in param_loop v rv incoming None
                (look2 (snd idx) meth (length incoming) @ (if includeAll then look2 (snd idx) ''ALL'' (length incoming) else []))))"

definition or_else :: "'a option \<Rightarrow> 'a option \<Rightarrow> 'a option" where
  "or_else a b = (case a of None \<Rightarrow> b | Some x \<Rightarrow> Some x)"

definition match_request :: "static_index \<times> param_index \<Rightarrow> versioning \<Rightarrow> http_request \<Rightarrow> handler_match option" where
  "match_request idx v request =
     (let meth = js_upper (hr_method request);
          rv = (if is_uri v then None else resolveRequestVersion request v);
          path = normalizeRoutePath (hr_path request)
      in if meth = ''HEAD'' \<and> hr_headExplicitOrGet request
         then or_else (matchMethod idx v ''HEAD'' rv path False)
                (or_else (matchMethod idx v ''ALL'' rv path False) (matchMethod idx v ''GET'' rv path False))
         else matchMethod idx v meth rv path True)"

record handler_mapping =
  ma_descriptors :: "descriptor list"
  ma_index :: "static_index \<times> param_index"
  ma_versioning :: versioning

definition createHandlerMapping :: "handler_source list \<Rightarrow> versioning \<Rightarrow> route_error + handler_mapping" where
  "createHandlerMapping sources v =
     (case buildDescriptorList sources v of
        Inl e \<Rightarrow> Inl e
      | Inr ds \<Rightarrow>
          (case buildDescriptorIndex ds of
             Inl e \<Rightarrow> Inl e
           | Inr idx \<Rightarrow> Inr \<lparr>ma_descriptors = ds, ma_index = idx, ma_versioning = v\<rparr>))"

definition mapping_match :: "handler_mapping \<Rightarrow> http_request \<Rightarrow> handler_match option" where
  "mapping_match m request = match_request (ma_index m) (ma_versioning m) request"

end
