(* ===== verification/Handler_Mapping_Correctness.thy ===== *)
theory Handler_Mapping_Correctness
  imports Handler_Mapping
begin

text \<open>
  The indexed handler mapping against its reference: a scan of all descriptors in registration order that
  matches segment by segment.  Selection is sound, complete, and prefers literal routes.
\<close>

section \<open>Matching one route\<close>

definition bind_params :: "route_segment list \<Rightarrow> string list \<Rightarrow> (string, string) js_map \<Rightarrow> (string, string) js_map" where
  "bind_params segs incoming params =
     fold (\<lambda>(s, x) params. case s of Param n \<Rightarrow> set_param n x params | Literal _ \<Rightarrow> params) (zip segs incoming) params"

definition literals_agree :: "route_segment list \<Rightarrow> string list \<Rightarrow> bool" where
  "literals_agree segs incoming \<longleftrightarrow> (\<forall>(s, x) \<in> set (zip segs incoming). case s of Literal l \<Rightarrow> l = x | Param _ \<Rightarrow> True)"

lemma match_loop_eq:
  "length segs = length incoming \<Longrightarrow>
     match_loop segs incoming params = (if literals_agree segs incoming then Some (bind_params segs incoming params) else None)"
proof (induction segs incoming params rule: match_loop.induct)
  case (2 n segs incoming params)
  then show ?case
    by (cases incoming) (auto simp: literals_agree_def bind_params_def)
next
  case (3 l segs incoming params)
  then show ?case
    by (cases incoming) (auto simp: literals_agree_def bind_params_def)
qed (simp add: literals_agree_def bind_params_def)

text \<open>The two-pass matcher of \<open>mapping.ts\<close> and the one-pass matcher of \<open>route-path.ts\<close> agree.\<close>

lemma parameterized_eq: "matchParameterizedRoute segs incoming = matchRoutePath segs incoming"
proof (cases "length segs = length incoming")
  case True
  have "list_ex (\<lambda>(s, x). case s of Literal l \<Rightarrow> l \<noteq> x | Param _ \<Rightarrow> False) (zip segs incoming) \<longleftrightarrow> \<not> literals_agree segs incoming"
  proof -
    have "(\<lambda>(s, x). case s of Literal l \<Rightarrow> l \<noteq> x | Param _ \<Rightarrow> False) =
      (\<lambda>p. \<not> (case p of (s, x) \<Rightarrow> case s of Literal l \<Rightarrow> l = x | Param _ \<Rightarrow> True))"
      by (auto simp: fun_eq_iff split: route_segment.splits)
    then show ?thesis
      by (simp add: list_ex_iff literals_agree_def)
  qed
  with True show ?thesis
    by (simp add: matchParameterizedRoute_def matchRoutePath_def match_loop_eq bind_params_def)
qed (simp add: matchParameterizedRoute_def matchRoutePath_def)

lemma literal_params: "all_literal segs \<Longrightarrow> bind_params segs incoming params = params"
proof (induction segs arbitrary: incoming params)
  case (Cons s segs)
  then show ?case
    by (cases s; cases incoming) (auto simp: all_literal_def bind_params_def)
qed (simp add: bind_params_def)

lemma literal_agree:
  "all_literal segs \<Longrightarrow> length segs = length incoming \<Longrightarrow> literals_agree segs incoming \<longleftrightarrow> map print_segment segs = incoming"
proof (induction segs arbitrary: incoming)
  case (Cons s segs)
  then show ?case
    by (cases s; cases incoming) (auto simp: all_literal_def literals_agree_def)
qed (simp add: literals_agree_def)

lemma literal_match:
  "all_literal segs \<Longrightarrow> matchRoutePath segs incoming = (if map print_segment segs = incoming then Some [] else None)"
proof (cases "length segs = length incoming")
  case True
  assume "all_literal segs"
  with True show ?thesis
    by (simp add: matchRoutePath_def match_loop_eq literal_agree literal_params)
next
  case False
  then have "map print_segment segs \<noteq> incoming"
    by auto
  with False show ?thesis
    by (simp add: matchRoutePath_def)
qed

section \<open>The index holds what a scan finds\<close>

definition segs_of :: "descriptor \<Rightarrow> route_segment list" where
  "segs_of d = (case parseRoutePath (de_path d) of Inr segs \<Rightarrow> segs | Inl _ \<Rightarrow> [])"

definition static_cands :: "descriptor list \<Rightarrow> string \<Rightarrow> string \<Rightarrow> descriptor list" where
  "static_cands ds meth path = filter (\<lambda>d. de_method d = meth \<and> all_literal (segs_of d) \<and> de_path d = path) ds"

definition param_cands :: "descriptor list \<Rightarrow> string \<Rightarrow> nat \<Rightarrow> (descriptor \<times> route_segment list) list" where
  "param_cands ds meth n =
     map (\<lambda>d. (d, segs_of d)) (filter (\<lambda>d. de_method d = meth \<and> \<not> all_literal (segs_of d) \<and> length (segs_of d) = n) ds)"

lemma look2_push: "look2 (push_bucket k1 k2 x index) a b = (if a = k1 \<and> b = k2 then look2 index a b @ [x] else look2 index a b)"
  by (auto simp: look2_def push_bucket_def Let_def js_get_set or_empty_def split: option.splits)

lemma build_index_look:
  "build_index ds (s, p) = Inr (s', p') \<Longrightarrow>
     look2 s' meth path = look2 s meth path @ static_cands ds meth path \<and>
     look2 p' meth n = look2 p meth n @ param_cands ds meth n"
proof (induction ds arbitrary: s p)
  case (Cons d ds)
  obtain segs where segs: "parseRoutePath (de_path d) = Inr segs"
    using Cons.prems by (auto split: sum.splits)
  then have so: "segs_of d = segs"
    by (simp add: segs_of_def)
  show ?case
  proof (cases "all_literal segs")
    case True
    with Cons.prems segs have "build_index ds (push_bucket (de_method d) (de_path d) d s, p) = Inr (s', p')"
      by simp
    from Cons.IH [OF this] True so show ?thesis
      by (auto simp: look2_push static_cands_def param_cands_def)
  next
    case False
    with Cons.prems segs have "build_index ds (s, push_bucket (de_method d) (length segs) (d, segs) p) = Inr (s', p')"
      by simp
    from Cons.IH [OF this] False so show ?thesis
      by (auto simp: look2_push static_cands_def param_cands_def)
  qed
qed (simp add: static_cands_def param_cands_def)

lemma look2_Nil: "look2 [] k1 k2 = []"
  by (simp add: look2_def or_empty_def)

lemma index_look:
  assumes "buildDescriptorIndex ds = Inr idx"
  shows "look2 (fst idx) meth path = static_cands ds meth path" and "look2 (snd idx) meth n = param_cands ds meth n"
  using build_index_look [of ds "[]" "[]" "fst idx" "snd idx" meth path n] assms
  by (simp_all add: buildDescriptorIndex_def look2_Nil)

section \<open>The reference\<close>

text \<open>The first candidate in URI mode; else the first of the requested version, else the first unversioned one.\<close>

definition pick :: "versioning \<Rightarrow> string option \<Rightarrow> handler_match list \<Rightarrow> handler_match option" where
  "pick v rv cs =
     (if is_uri v then (case cs of [] \<Rightarrow> None | c # _ \<Rightarrow> Some c)
      else or_else (find (\<lambda>(d, ps). matchesRouteVersion d rv) cs) (find (\<lambda>(d, ps). de_version d = None) cs))"

text \<open>All descriptors of a method, literal or not, that match the segments, with their parameters.\<close>

definition matches :: "descriptor list \<Rightarrow> string \<Rightarrow> bool \<Rightarrow> string list \<Rightarrow> handler_match list" where
  "matches ds meth literal incoming =
     List.map_filter (\<lambda>d. if de_method d = meth \<and> all_literal (segs_of d) = literal
                          then map_option (Pair d) (matchRoutePath (segs_of d) incoming) else None) ds"

definition scan_method :: "descriptor list \<Rightarrow> versioning \<Rightarrow> string list \<Rightarrow> string option \<Rightarrow> string list \<Rightarrow> handler_match option" where
  "scan_method ds v meths rv incoming =
     or_else (pick v rv (concat (map (\<lambda>m. matches ds m True incoming) meths)))
             (pick v rv (concat (map (\<lambda>m. matches ds m False incoming) meths)))"

definition scan_match :: "descriptor list \<Rightarrow> versioning \<Rightarrow> http_request \<Rightarrow> handler_match option" where
  "scan_match ds v request =
     (let meth = js_upper (hr_method request);
          rv = (if is_uri v then None else resolveRequestVersion request v);
          incoming = path_segments (hr_path request)
      in if meth = ''HEAD'' \<and> hr_headExplicitOrGet request
         then or_else (scan_method ds v [''HEAD''] rv incoming)
                (or_else (scan_method ds v [''ALL''] rv incoming) (scan_method ds v [''GET''] rv incoming))
         else scan_method ds v [meth, ''ALL''] rv incoming)"

lemma static_loop_pick:
  "static_loop v rv u ds =
     (if is_uri v then (case ds of [] \<Rightarrow> u | d # _ \<Rightarrow> Some (d, []))
      else or_else (find (\<lambda>(d, ps). matchesRouteVersion d rv) (map (\<lambda>d. (d, [])) ds))
             (or_else u (find (\<lambda>(d, ps). de_version d = None) (map (\<lambda>d. (d, [])) ds))))"
  by (induction v rv u ds rule: static_loop.induct) (auto simp: or_else_def split: option.splits)

lemma param_loop_pick:
  "\<not> is_uri v \<Longrightarrow> param_loop v rv incoming u cs =
     or_else (find (\<lambda>(d, ps). matchesRouteVersion d rv) (List.map_filter (\<lambda>(d, segs). map_option (Pair d) (matchRoutePath segs incoming)) cs))
       (or_else u (find (\<lambda>(d, ps). de_version d = None) (List.map_filter (\<lambda>(d, segs). map_option (Pair d) (matchRoutePath segs incoming)) cs)))"
  by (induction v rv incoming u cs rule: param_loop.induct)
    (auto simp: or_else_def parameterized_eq List.map_filter_simps split: option.splits)

lemma param_loop_uri:
  "is_uri v \<Longrightarrow> param_loop v rv incoming u cs =
     (case List.map_filter (\<lambda>(d, segs). map_option (Pair d) (matchRoutePath segs incoming)) cs of [] \<Rightarrow> None | c # _ \<Rightarrow> Some c)"
  by (induction v rv incoming u cs rule: param_loop.induct)
    (auto simp: parameterized_eq List.map_filter_simps split: option.splits)

section \<open>The index and the scan agree\<close>

text \<open>Every descriptor's path parses and is normalized.\<close>

definition paths_ok :: "descriptor list \<Rightarrow> bool" where
  "paths_ok ds \<longleftrightarrow> (\<forall>d \<in> set ds. parseRoutePath (de_path d) = Inr (segs_of d) \<and> normalizeRoutePath (de_path d) = de_path d)"

lemma static_matches:
  assumes "paths_ok ds" "normalizeRoutePath path = path"
  shows "map (\<lambda>d. (d, [])) (static_cands ds meth path) = matches ds meth True (path_segments path)"
  using assms(1)
proof (induction ds)
  case (Cons d ds)
  have d: "parseRoutePath (de_path d) = Inr (segs_of d)" "normalizeRoutePath (de_path d) = de_path d"
    using Cons.prems by (simp_all add: paths_ok_def)
  have "de_path d = path \<longleftrightarrow> path_segments (de_path d) = path_segments path"
    using normalize_eq_iff [of "de_path d" path] d(2) assms(2) by simp
  also have "\<dots> \<longleftrightarrow> map print_segment (segs_of d) = path_segments path"
    using d(1) by (simp add: parse_segments)
  finally have "de_path d = path \<longleftrightarrow> map print_segment (segs_of d) = path_segments path" .
  with Cons show ?case
    by (auto simp: static_cands_def matches_def List.map_filter_simps literal_match paths_ok_def)
qed (simp add: static_cands_def matches_def List.map_filter_simps)

lemma param_matches:
  "List.map_filter (\<lambda>(d, segs). map_option (Pair d) (matchRoutePath segs incoming)) (param_cands ds meth (length incoming)) =
     matches ds meth False incoming"
  by (induction ds) (auto simp: param_cands_def matches_def List.map_filter_simps matchRoutePath_def split: option.splits)

lemma map_filter_append: "List.map_filter f (xs @ ys) = List.map_filter f xs @ List.map_filter f ys"
  by (simp add: List.map_filter_def)

lemma matchMethod_scan:
  assumes idx: "buildDescriptorIndex ds = Inr idx" and ok: "paths_ok ds" and path: "normalizeRoutePath path = path"
  shows "matchMethod idx v meth rv path includeAll =
    scan_method ds v (if includeAll then [meth, ''ALL''] else [meth]) rv (path_segments path)"
proof -
  let ?meths = "if includeAll then [meth, ''ALL''] else [meth]" and ?in = "path_segments path"
  let ?st = "look2 (fst idx) meth path @ (if includeAll then look2 (fst idx) ''ALL'' path else [])"
  let ?pa = "look2 (snd idx) meth (length ?in) @ (if includeAll then look2 (snd idx) ''ALL'' (length ?in) else [])"
  have st: "map (\<lambda>d. (d, [])) ?st = concat (map (\<lambda>m. matches ds m True ?in) ?meths)"
    by (simp add: index_look [OF idx] static_matches [OF ok path])
  have pa: "List.map_filter (\<lambda>(d, segs). map_option (Pair d) (matchRoutePath segs ?in)) ?pa = concat (map (\<lambda>m. matches ds m False ?in) ?meths)"
    by (simp add: index_look [OF idx] map_filter_append param_matches List.map_filter_simps)
  have "static_loop v rv None ?st = pick v rv (map (\<lambda>d. (d, [])) ?st)"
    by (cases ?st) (simp_all add: static_loop_pick pick_def or_else_def split: option.splits)
  moreover have "param_loop v rv ?in None ?pa = pick v rv (List.map_filter (\<lambda>(d, segs). map_option (Pair d) (matchRoutePath segs ?in)) ?pa)"
    by (cases "is_uri v") (simp_all add: param_loop_uri param_loop_pick pick_def or_else_def)
  moreover have "concat [look2 (fst idx) meth path, if includeAll then look2 (fst idx) ''ALL'' path else []] = ?st"
    by simp
  ultimately show ?thesis
    unfolding matchMethod_def findStaticMatch_def scan_method_def st pa Let_def
    by (cases includeAll) (simp_all add: or_else_def split: option.splits)
qed

lemma match_scan:
  assumes "buildDescriptorIndex ds = Inr idx" and "paths_ok ds"
  shows "match_request idx v request = scan_match ds v request"
  using matchMethod_scan [OF assms, of "normalizeRoutePath (hr_path request)" v]
  by (simp add: match_request_def scan_match_def Let_def)

section \<open>What is registered\<close>

lemma create_descriptor_ok:
  assumes "create_descriptor source v si mi name rm produces = Inr d"
  shows "parseRoutePath (de_path d) = Inr (segs_of d) \<and> normalizeRoutePath (de_path d) = de_path d
    \<and> de_pathParams d = param_names (segs_of d)"
proof -
  have "normalizeRoutePath (de_path d) = de_path d"
    using assms by (auto simp: create_descriptor_def Let_def joinPaths_def applyVersionPrefix_def split: sum.splits option.splits)
  moreover have "extractRoutePathParams (de_path d) = Inr (de_pathParams d)"
    using assms by (auto simp: create_descriptor_def Let_def split: sum.splits)
  ultimately show ?thesis
    by (auto simp: extractRoutePathParams_def segs_of_def split: sum.splits)
qed

lemma create_from_ok:
  "create_from source v si mi ms = Inr ds \<Longrightarrow> d \<in> set ds \<Longrightarrow> \<exists>mi name rm produces. create_descriptor source v si mi name rm produces = Inr d"
proof (induction source v si mi ms arbitrary: ds rule: create_from.induct)
  case (3 source v si mi name rm produces ms)
  then obtain d' ds' where "create_descriptor source v si mi name rm produces = Inr d'"
    "create_from source v si (Suc mi) ms = Inr ds'" "ds = d' # ds'"
    by (auto split: sum.splits)
  with 3 show ?case
    by auto
qed auto

lemma conflicts_none: "check_conflicts seen ds = None \<longleftrightarrow> distinct (map route_key ds) \<and> set (map route_key ds) \<inter> set seen = {}"
  by (induction seen ds rule: check_conflicts.induct) auto

lemma conflicts_some:
  "check_conflicts seen ds = Some e \<Longrightarrow> \<exists>i < length ds. e = RouteConflict (route_key (ds ! i)) \<and>
     (route_key (ds ! i) \<in> set seen \<or> (\<exists>j < i. route_key (ds ! j) = route_key (ds ! i)))"
proof (induction seen ds rule: check_conflicts.induct)
  case (2 seen d ds)
  show ?case
  proof (cases "route_key d \<in> set seen")
    case True
    with 2(2) show ?thesis
      by (intro exI [of _ 0]) auto
  next
    case False
    with 2 obtain i where i: "i < length ds" "e = RouteConflict (route_key (ds ! i))"
      "route_key (ds ! i) \<in> set (route_key d # seen) \<or> (\<exists>j < i. route_key (ds ! j) = route_key (ds ! i))"
      by auto
    then have "route_key (ds ! i) \<in> set seen \<or> (\<exists>j < Suc i. route_key ((d # ds) ! j) = route_key (ds ! i))"
      by (metis Suc_less_eq list.set_intros(1) nth_Cons_0 nth_Cons_Suc set_ConsD zero_less_Suc)
    with i show ?thesis
      by (intro exI [of _ "Suc i"]) simp
  qed
qed simp

lemma descriptor_list_ok:
  assumes "buildDescriptorList sources v = Inr ds"
  shows "paths_ok ds" and "distinct (map route_key ds)" and "\<forall>d \<in> set ds. de_pathParams d = param_names (segs_of d)"
proof -
  obtain dss where dss: "res_map (\<lambda>(si, source). createHandlerDescriptors source v si) (zip [0..<length sources] sources) = Inr dss"
    and ds: "ds = concat dss" "check_conflicts [] ds = None"
    using assms by (auto simp: buildDescriptorList_def split: sum.splits option.splits)
  show "distinct (map route_key ds)"
    using ds(2) by (simp add: conflicts_none)
  have "\<exists>source v si mi name rm produces. create_descriptor source v si mi name rm produces = Inr d" if d: "d \<in> set ds" for d
  proof -
    obtain xs where xs: "xs \<in> set dss" "d \<in> set xs"
      using d ds(1) by auto
    from dss xs(1) obtain si source where c: "createHandlerDescriptors source v si = Inr xs"
      unfolding res_map_Inr_iff by (fastforce simp: list_all2_conv_all_nth in_set_conv_nth split: prod.splits)
    from create_from_ok [OF c [unfolded createHandlerDescriptors_def] xs(2)] show ?thesis
      by blast
  qed
  then have "parseRoutePath (de_path d) = Inr (segs_of d) \<and> normalizeRoutePath (de_path d) = de_path d \<and> de_pathParams d = param_names (segs_of d)"
    if "d \<in> set ds" for d
    using that create_descriptor_ok by blast
  then show "paths_ok ds" "\<forall>d \<in> set ds. de_pathParams d = param_names (segs_of d)"
    by (simp_all add: paths_ok_def)
qed

lemma mapping_parts:
  assumes "createHandlerMapping sources v = Inr m"
  shows "buildDescriptorList sources v = Inr (ma_descriptors m)" and "buildDescriptorIndex (ma_descriptors m) = Inr (ma_index m)"
    and "ma_versioning m = v"
  using assms by (auto simp: createHandlerMapping_def split: sum.splits)

lemma mapping_scan:
  assumes "createHandlerMapping sources v = Inr m"
  shows "mapping_match m request = scan_match (ma_descriptors m) v request"
  using mapping_parts [OF assms] descriptor_list_ok(1) match_scan by (simp add: mapping_match_def)

lemma build_index_total: "paths_ok ds \<Longrightarrow> \<exists>idx'. build_index ds idx = Inr idx'"
  by (induction ds arbitrary: idx) (auto simp: paths_ok_def)

text \<open>
  C16. The compiled handler mapping is the linear scan.  Whenever compilation succeeds, matching a request through
  the static and parameter indexes gives the result of scanning all descriptors in registration order and
  matching them segment by segment; the registered route keys are pairwise different, and the recorded
  parameter names are those of the path.  Compilation fails only for an invalid path or two routes with one key.
\<close>

theorem handler_mapping_is_scan:
  "(case createHandlerMapping sources v of
      Inr m \<Rightarrow> mapping_match m request = scan_match (ma_descriptors m) v request
        \<and> distinct (map route_key (ma_descriptors m))
        \<and> list_all (\<lambda>d. parseRoutePath (de_path d) = Inr (segs_of d) \<and> de_pathParams d = param_names (segs_of d)) (ma_descriptors m)
    | Inl (RouteConflict k) \<Rightarrow>
        (\<exists>dss i j. res_map (\<lambda>(si, source). createHandlerDescriptors source v si) (zip [0..<length sources] sources) = Inr dss
           \<and> j < i \<and> i < length (concat dss) \<and> route_key (concat dss ! i) = k \<and> route_key (concat dss ! j) = k)
        \<or> res_map (\<lambda>(si, source). createHandlerDescriptors source v si) (zip [0..<length sources] sources) = Inl (RouteConflict k)
    | Inl e \<Rightarrow> res_map (\<lambda>(si, source). createHandlerDescriptors source v si) (zip [0..<length sources] sources) = Inl e)"
proof (cases "createHandlerMapping sources v")
  case (Inr m)
  note parts = mapping_parts [OF Inr]
  note ok = descriptor_list_ok [OF parts(1)]
  show ?thesis
    using mapping_scan [OF Inr] ok by (auto simp: Inr list_all_iff paths_ok_def)
next
  case (Inl e)
  let ?r = "res_map (\<lambda>(si, source). createHandlerDescriptors source v si) (zip [0..<length sources] sources)"
  show ?thesis
  proof (cases ?r)
    case err: (Inl e')
    then have "e = e'"
      using Inl by (simp add: createHandlerMapping_def buildDescriptorList_def)
    with Inl err show ?thesis
      by (simp split: route_error.splits)
  next
    case dss: (Inr dss)
    show ?thesis
    proof (cases "check_conflicts [] (concat dss)")
      case None
      then have l: "buildDescriptorList sources v = Inr (concat dss)"
        using dss by (simp add: buildDescriptorList_def)
      with build_index_total [OF descriptor_list_ok(1) [OF l], of "([], [])"] Inl show ?thesis
        by (auto simp: createHandlerMapping_def buildDescriptorIndex_def)
    next
      case (Some e')
      then have "e = e'"
        using Inl dss by (simp add: createHandlerMapping_def buildDescriptorList_def)
      moreover obtain i j where "i < length (concat dss)" "e' = RouteConflict (route_key (concat dss ! i))"
        "j < i" "route_key (concat dss ! j) = route_key (concat dss ! i)"
        using conflicts_some [OF Some] by auto
      ultimately show ?thesis
        using Inl dss by auto
    qed
  qed
qed

section \<open>Soundness, completeness and priority\<close>

definition version_ok :: "versioning \<Rightarrow> string option \<Rightarrow> descriptor \<Rightarrow> bool" where
  "version_ok v rv d \<longleftrightarrow> is_uri v \<or> matchesRouteVersion d rv \<or> de_version d = None"

definition request_methods :: "http_request \<Rightarrow> string list" where
  "request_methods request =
     (let meth = js_upper (hr_method request)
      in if meth = ''HEAD'' \<and> hr_headExplicitOrGet request then [''HEAD'', ''ALL'', ''GET''] else [meth, ''ALL''])"

text \<open>The descriptors that may serve a request, with the parameters they bind.\<close>

definition serves :: "versioning \<Rightarrow> http_request \<Rightarrow> descriptor \<Rightarrow> (string, string) js_map \<Rightarrow> bool" where
  "serves v request d ps \<longleftrightarrow> de_method d \<in> set (request_methods request)
     \<and> matchRoutePath (segs_of d) (path_segments (hr_path request)) = Some ps
     \<and> version_ok v (if is_uri v then None else resolveRequestVersion request v) d"

lemma in_matches:
  "(d, ps) \<in> set (matches ds meth lit incoming) \<longleftrightarrow>
     d \<in> set ds \<and> de_method d = meth \<and> all_literal (segs_of d) = lit \<and> matchRoutePath (segs_of d) incoming = Some ps"
  by (induction ds) (auto simp: matches_def List.map_filter_simps split: option.splits if_splits)

lemma find_SomeD: "find P xs = Some x \<Longrightarrow> x \<in> set xs \<and> P x"
  by (induction xs) (auto split: if_splits)

lemma pick_sound: "pick v rv cs = Some (d, ps) \<Longrightarrow> (d, ps) \<in> set cs \<and> version_ok v rv d"
  by (auto simp: pick_def version_ok_def or_else_def split: if_splits list.splits option.splits dest!: find_SomeD)

lemma or_else_None: "or_else a b = None \<longleftrightarrow> a = None \<and> b = None"
  by (auto simp: or_else_def split: option.splits)

lemma pick_None: "pick v rv cs = None \<longleftrightarrow> (\<forall>(d, ps) \<in> set cs. \<not> version_ok v rv d)"
proof (cases "is_uri v")
  case True
  then show ?thesis
    by (cases cs) (auto simp: pick_def version_ok_def)
next
  case False
  then show ?thesis
    by (auto simp: pick_def version_ok_def or_else_None find_None_iff)
qed

lemma or_else_Some: "or_else a b = Some x \<longleftrightarrow> a = Some x \<or> a = None \<and> b = Some x"
  by (auto simp: or_else_def split: option.splits)

lemma scan_method_sound:
  assumes "scan_method ds v meths rv incoming = Some (d, ps)"
  shows "d \<in> set ds \<and> de_method d \<in> set meths \<and> matchRoutePath (segs_of d) incoming = Some ps \<and> version_ok v rv d
    \<and> (\<not> all_literal (segs_of d) \<longrightarrow>
         (\<forall>d' \<in> set ds. \<forall>ps'. de_method d' \<in> set meths \<longrightarrow> matchRoutePath (segs_of d') incoming = Some ps' \<longrightarrow> version_ok v rv d' \<longrightarrow>
           \<not> all_literal (segs_of d')))"
  using assms unfolding scan_method_def or_else_Some
proof
  assume "pick v rv (concat (map (\<lambda>m. matches ds m True incoming) meths)) = Some (d, ps)"
  then show ?thesis
    using pick_sound by (fastforce simp: in_matches)
next
  assume "pick v rv (concat (map (\<lambda>m. matches ds m True incoming) meths)) = None
    \<and> pick v rv (concat (map (\<lambda>m. matches ds m False incoming) meths)) = Some (d, ps)"
  then show ?thesis
    using pick_sound [of v rv _ d ps] unfolding pick_None by (fastforce simp: in_matches)
qed

lemma scan_method_None:
  "scan_method ds v meths rv incoming = None \<longleftrightarrow>
     (\<forall>d \<in> set ds. \<forall>ps. de_method d \<in> set meths \<longrightarrow> matchRoutePath (segs_of d) incoming = Some ps \<longrightarrow> \<not> version_ok v rv d)"
  unfolding scan_method_def or_else_None pick_None by (fastforce simp: in_matches)

abbreviation head_fallback :: "http_request \<Rightarrow> bool" where
  "head_fallback request \<equiv> js_upper (hr_method request) = ''HEAD'' \<and> hr_headExplicitOrGet request"

lemma scan_match_plain:
  "\<not> head_fallback request \<Longrightarrow> scan_match ds v request =
     scan_method ds v (request_methods request) (if is_uri v then None else resolveRequestVersion request v) (path_segments (hr_path request))"
  unfolding scan_match_def request_methods_def Let_def by (simp only: if_False)

lemma scan_match_head:
  "head_fallback request \<Longrightarrow> scan_match ds v request =
     (let scan = (\<lambda>meth. scan_method ds v [meth] (if is_uri v then None else resolveRequestVersion request v) (path_segments (hr_path request)))
      in or_else (scan ''HEAD'') (or_else (scan ''ALL'') (scan ''GET'')))"
  unfolding scan_match_def Let_def by (simp only: if_True simp_thms)

lemma request_methods_head: "head_fallback request \<Longrightarrow> set (request_methods request) = {''HEAD'', ''ALL'', ''GET''}"
  by (auto simp: request_methods_def Let_def)

lemma scan_match_None: "scan_match ds v request = None \<longleftrightarrow> \<not> (\<exists>d \<in> set ds. \<exists>ps. serves v request d ps)"
proof (cases "head_fallback request")
  case True
  then show ?thesis
    unfolding serves_def request_methods_head [OF True] scan_match_head [OF True] Let_def or_else_None scan_method_None
    by auto
next
  case False
  then show ?thesis
    unfolding serves_def scan_match_plain [OF False] scan_method_None by auto
qed

lemma scan_match_sound:
  assumes "scan_match ds v request = Some (d, ps)"
  shows "d \<in> set ds \<and> serves v request d ps"
    and "\<not> head_fallback request \<Longrightarrow> \<not> all_literal (segs_of d) \<Longrightarrow> d' \<in> set ds \<Longrightarrow> serves v request d' ps' \<Longrightarrow> \<not> all_literal (segs_of d')"
proof -
  let ?rv = "if is_uri v then None else resolveRequestVersion request v" and ?in = "path_segments (hr_path request)"
  show "d \<in> set ds \<and> serves v request d ps"
  proof (cases "head_fallback request")
    case True
    then obtain meth where "meth \<in> {''HEAD'', ''ALL'', ''GET''}" "scan_method ds v [meth] ?rv ?in = Some (d, ps)"
      using assms unfolding scan_match_head [OF True] Let_def or_else_Some by blast
    with scan_method_sound [OF this(2)] show ?thesis
      unfolding serves_def request_methods_head [OF True] by simp
  next
    case False
    with scan_method_sound assms show ?thesis
      unfolding serves_def scan_match_plain [OF False] by blast
  qed
  show "\<not> all_literal (segs_of d')" if "\<not> head_fallback request" "\<not> all_literal (segs_of d)" "d' \<in> set ds" "serves v request d' ps'"
    using scan_method_sound [OF assms [unfolded scan_match_plain [OF that(1)]]] that(2-4) unfolding serves_def by blast
qed

text \<open>
  C17. Route selection is sound, complete and prefers literal routes.  A request is matched if and only if some
  registered descriptor serves it: its method is the request's or \<open>ALL\<close> (for \<open>HEAD\<close> with fallback also \<open>GET\<close>),
  its segments match, and its version is the requested one or it is unversioned.  The descriptor chosen is
  one of them, with exactly the parameters its segments bind; and, without the \<open>HEAD\<close> fallback, a route with
  parameters is chosen only if no literal route serves the request.
\<close>

theorem route_selection_correct:
  assumes "createHandlerMapping sources v = Inr m"
  shows "case mapping_match m request of
      Some (d, ps) \<Rightarrow> d \<in> set (ma_descriptors m) \<and> serves v request d ps
        \<and> (\<not> hr_headExplicitOrGet request \<and> \<not> all_literal (segs_of d) \<longrightarrow>
             (\<forall>d' \<in> set (ma_descriptors m). \<forall>ps'. serves v request d' ps' \<longrightarrow> \<not> all_literal (segs_of d')))
    | None \<Rightarrow> \<not> (\<exists>d \<in> set (ma_descriptors m). \<exists>ps. serves v request d ps)"
proof (cases "mapping_match m request")
  case None
  then have "\<not> (\<exists>d \<in> set (ma_descriptors m). \<exists>ps. serves v request d ps)"
    using scan_match_None mapping_scan [OF assms] by metis
  with None show ?thesis
    by simp
next
  case (Some r)
  obtain d ps where r: "r = (d, ps)"
    by (cases r)
  then have "scan_match (ma_descriptors m) v request = Some (d, ps)"
    using Some mapping_scan [OF assms] by simp
  from scan_match_sound [OF this] Some r show ?thesis
    by auto
qed

lemma matches_append: "matches (xs @ ys) meth lit incoming = matches xs meth lit incoming @ matches ys meth lit incoming"
  by (simp add: matches_def map_filter_append)

lemma concat_head: "concat xss = x # rest \<Longrightarrow> \<exists>xs \<in> set xss. \<exists>r. xs = x # r"
proof (induction xss)
  case (Cons xs xss)
  then show ?case
    by (cases xs) auto
qed simp

lemma scan_match_method: "scan_match ds v request = Some r \<Longrightarrow> \<exists>meths rv. scan_method ds v meths rv (path_segments (hr_path request)) = Some r"
  unfolding scan_match_def Let_def by (auto simp: or_else_Some split: if_splits)

lemma scan_uri_literal:
  assumes "is_uri v" and "scan_method ds v meths rv incoming = Some (d, ps)" and "all_literal (segs_of d)"
  shows "\<exists>rest. matches ds (de_method d) True incoming = (d, ps) # rest"
proof -
  have "(d, ps) \<notin> set (concat (map (\<lambda>m. matches ds m False incoming) meths))"
    using assms(3) by (auto simp: in_matches)
  then have "pick v rv (concat (map (\<lambda>m. matches ds m True incoming) meths)) = Some (d, ps)"
    using assms(2) pick_sound [of v rv _ d ps] unfolding scan_method_def or_else_Some by blast
  then obtain rest where "concat (map (\<lambda>m. matches ds m True incoming) meths) = (d, ps) # rest"
    using assms(1) by (auto simp: pick_def split: list.splits)
  from concat_head [OF this] obtain meth r where r: "matches ds meth True incoming = (d, ps) # r"
    by auto
  then have "(d, ps) \<in> set (matches ds meth True incoming)"
    by simp
  then have "de_method d = meth"
    by (simp add: in_matches)
  with r show ?thesis
    by auto
qed

text \<open>
  A literal route that an earlier one covers is never reached.  With URI versioning the version is part of the
  path, but the conflict check compares method, path and version; so a versioned route and an
  unversioned one may have the same effective path, are both accepted, and the one registered second is dead.
\<close>

theorem uri_overlap_shadows:
  assumes "createHandlerMapping sources v = Inr m" and "is_uri v"
    and "ma_descriptors m = xs @ d1 # ys @ d2 # zs"
    and "de_method d1 = de_method d2" and "de_path d1 = de_path d2" and "all_literal (segs_of d2)" and "d2 \<notin> set (xs @ d1 # ys)"
  shows "mapping_match m request \<noteq> Some (d2, ps)"
proof
  assume "mapping_match m request = Some (d2, ps)"
  let ?ds = "xs @ d1 # ys @ d2 # zs" and ?in = "path_segments (hr_path request)"
  have "scan_match ?ds v request = Some (d2, ps)"
    using \<open>mapping_match m request = Some (d2, ps)\<close> mapping_scan [OF assms(1)] assms(3) by metis
  then obtain meths rv where "scan_method ?ds v meths rv ?in = Some (d2, ps)"
    using scan_match_method by blast
  with scan_uri_literal [OF assms(2) _ assms(6)] obtain rest where hd: "matches ?ds (de_method d2) True ?in = (d2, ps) # rest"
    by blast
  then have "(d2, ps) \<in> set (matches ?ds (de_method d2) True ?in)"
    by simp
  moreover have "segs_of d1 = segs_of d2"
    using assms(5) by (simp add: segs_of_def)
  ultimately have "(d1, ps) \<in> set (matches (xs @ d1 # ys) (de_method d2) True ?in)"
    using assms(4) by (simp add: in_matches)
  moreover have "matches ?ds (de_method d2) True ?in = matches (xs @ d1 # ys) (de_method d2) True ?in @ matches (d2 # zs) (de_method d2) True ?in"
    using matches_append [of "xs @ d1 # ys" "d2 # zs"] by simp
  ultimately have "(d2, ps) \<in> set (matches (xs @ d1 # ys) (de_method d2) True ?in)"
    using hd by (cases "matches (xs @ d1 # ys) (de_method d2) True ?in") auto
  with assms(7) show False
    by (auto simp: in_matches)
qed

section \<open>A sample application\<close>

definition sample_route :: "string \<Rightarrow> string \<Rightarrow> string option \<Rightarrow> route_meta" where
  "sample_route meth path version =
     \<lparr>rm_method = meth, rm_path = path, rm_version = version, rm_guards = [], rm_interceptors = [], rm_produces = None\<rparr>"

definition sample_sources :: "handler_source list" where
  "sample_sources =
     [\<lparr>hs_controller = 1,
        hs_meta = Some \<lparr>cm_basePath = ''/users'', cm_version = None, cm_guards = [], cm_interceptors = []\<rparr>,
        hs_methods = [(''constructor'', None, None), (''show'', Some (sample_route ''GET'' ''/:id'' None), None),
          (''me'', Some (sample_route ''GET'' ''/me'' None), None)],
        hs_middleware = [], hs_module = None\<rparr>,
      \<lparr>hs_controller = 2,
        hs_meta = Some \<lparr>cm_basePath = ''/v1'', cm_version = None, cm_guards = [], cm_interceptors = []\<rparr>,
        hs_methods = [(''legacy'', Some (sample_route ''GET'' ''items'' None), None)],
        hs_middleware = [], hs_module = None\<rparr>,
      \<lparr>hs_controller = 3,
        hs_meta = Some \<lparr>cm_basePath = ''/items'', cm_version = Some ''1'', cm_guards = [], cm_interceptors = []\<rparr>,
        hs_methods = [(''list'', Some (sample_route ''GET'' ''/'' None), None)],
        hs_middleware = [], hs_module = None\<rparr>]"

definition sample_request :: "string \<Rightarrow> string \<Rightarrow> http_request" where
  "sample_request meth path = \<lparr>hr_method = meth, hr_path = path, hr_headers = [], hr_headExplicitOrGet = False\<rparr>"

definition sample_mapping :: handler_mapping where
  "sample_mapping = (case createHandlerMapping sample_sources UriVersioning of Inr m \<Rightarrow> m | Inl _ \<Rightarrow>
     \<lparr>ma_descriptors = [], ma_index = ([], []), ma_versioning = UriVersioning\<rparr>)"

lemma sample_compiles: "createHandlerMapping sample_sources UriVersioning = Inr sample_mapping"
proof -
  have "\<not> Sum_Type.isl (createHandlerMapping sample_sources UriVersioning)"
    by code_simp
  then show ?thesis
    by (cases "createHandlerMapping sample_sources UriVersioning") (auto simp: sample_mapping_def)
qed

theorem route_selection_correct_witness:
  "map_option (map_prod de_methodName id) (mapping_match sample_mapping (sample_request ''get'' ''/users//7'')) = Some (''show'', [(''id'', ''7'')])
   \<and> map_option (map_prod de_methodName id) (mapping_match sample_mapping (sample_request ''get'' ''/users/me'')) = Some (''me'', [])
   \<and> (\<exists>d ps. mapping_match sample_mapping (sample_request ''get'' ''/users/me'') = Some (d, ps)
        \<and> d \<in> set (ma_descriptors sample_mapping) \<and> serves UriVersioning (sample_request ''get'' ''/users/me'') d ps)"
proof -
  have r: "map_option (map_prod de_methodName id) (mapping_match sample_mapping (sample_request ''get'' ''/users//7'')) = Some (''show'', [(''id'', ''7'')])"
    "map_option (map_prod de_methodName id) (mapping_match sample_mapping (sample_request ''get'' ''/users/me'')) = Some (''me'', [])"
    by code_simp+
  then obtain d ps where d: "mapping_match sample_mapping (sample_request ''get'' ''/users/me'') = Some (d, ps)"
    by (cases "mapping_match sample_mapping (sample_request ''get'' ''/users/me'')") auto
  from route_selection_correct [OF sample_compiles, of "sample_request ''get'' ''/users/me''"] d r show ?thesis
    by auto
qed

theorem uri_overlap_shadows_witness:
  "map de_methodName (ma_descriptors sample_mapping) = [''show'', ''me'', ''legacy'', ''list'']
   \<and> map de_path (ma_descriptors sample_mapping) = [''/users/:id'', ''/users/me'', ''/v1/items'', ''/v1/items'']
   \<and> mapping_match sample_mapping (sample_request ''GET'' ''/v1/items'') \<noteq> Some (ma_descriptors sample_mapping ! 3, [])"
proof -
  let ?ds = "ma_descriptors sample_mapping"
  have r: "map de_methodName ?ds = [''show'', ''me'', ''legacy'', ''list'']"
    "map de_path ?ds = [''/users/:id'', ''/users/me'', ''/v1/items'', ''/v1/items'']" "map de_method ?ds = [''GET'', ''GET'', ''GET'', ''GET'']"
    "all_literal (segs_of (?ds ! 3))"
    by code_simp+
  have "length ?ds = 4"
    using arg_cong [OF r(1), of length] by simp
  then obtain a b c d where ds: "?ds = [a, b, c, d]"
    by (auto simp: numeral_eq_Suc length_Suc_conv)
  have ne: "d \<notin> set ([a, b] @ c # [])"
    using r(1) by (auto simp: ds)
  show ?thesis
    using uri_overlap_shadows [OF sample_compiles, of "[a, b]" c "[]" d "[]" "sample_request ''GET'' ''/v1/items''" "[]"] r ds ne
    by (simp add: is_uri_def)
qed

end
