(* ===== verification/Http_Date.thy ===== *)
theory Http_Date
  imports JS_String
begin

text \<open>
  Instants of the language's \<open>Date\<close> as the sources use them: the day number of a calendar date
  (\<open>setUTCFullYear\<close>), the calendar fields of an instant (\<open>getUTCFullYear\<close>, \<open>getUTCMonth\<close>,
  \<open>getUTCDate\<close>, \<open>getUTCDay\<close>) and \<open>toUTCString\<close>, and, from
  \<open>packages/http/src/dispatch/conditional-request-policy.ts\<close>, the parser of HTTP dates.  The theorem at
  the end says that the parser accepts a date of the preferred format exactly when it is the rendering
  of an instant.
\<close>

section \<open>The calendar\<close>

definition ms_per_day :: int where
  "ms_per_day = 86400000"

definition day_from_year :: "int \<Rightarrow> int" where
  "day_from_year y = 365 * (y - 1970) + (y - 1969) div 4 - (y - 1901) div 100 + (y - 1601) div 400"

definition is_leap :: "int \<Rightarrow> bool" where
  "is_leap y \<longleftrightarrow> y mod 4 = 0 \<and> (y mod 100 \<noteq> 0 \<or> y mod 400 = 0)"

definition month_lengths :: "int \<Rightarrow> int list" where
  "month_lengths y = [31, if is_leap y then 29 else 28, 31, 30, 31, 30, 31, 31, 30, 31, 30, 31]"

definition make_day :: "int \<Rightarrow> nat \<Rightarrow> int \<Rightarrow> int" where
  "make_day y m d = day_from_year y + sum_list (take m (month_lengths y)) + d - 1"

function year_search :: "int \<Rightarrow> int \<Rightarrow> int" where
  "year_search day y = (if day_from_year (y + 1) \<le> day then year_search day (y + 1) else y)"
  by auto

text \<open>The length of a year, and with it that the days of the years follow each other.\<close>

lemma div_step: "(n + 1) div k = n div k + (if (n + 1) mod k = 0 then 1 else 0)" if "1 < k" for n k :: int
proof -
  have split: "(n + 1) div k = n div k + (n mod k + 1) div k" "(n + 1) mod k = (n mod k + 1) mod k"
    using that by (simp_all add: div_add1_eq [of n 1 k] mod_add_left_eq)
  have "0 \<le> n mod k" "n mod k < k"
    using that by simp_all
  then consider "n mod k + 1 = k" | "0 \<le> n mod k + 1" "n mod k + 1 < k"
    by linarith
  then show ?thesis
    by cases (use that \<open>0 \<le> n mod k\<close> in \<open>simp_all add: split\<close>)
qed

lemma year_length: "day_from_year (y + 1) = day_from_year y + sum_list (month_lengths y)"
proof -
  define a b c where "a = (y - 1969) div 4" and "b = (y - 1901) div 100" and "c = (y - 1601) div 400"
  define p q r :: int where "p = (if y mod 4 = 0 then 1 else 0)" and "q = (if y mod 100 = 0 then 1 else 0)"
    and "r = (if y mod 400 = 0 then 1 else 0)"
  have mods: "(y - 1968) mod 4 = y mod 4" "(y - 1900) mod 100 = y mod 100" "(y - 1600) mod 400 = y mod 400"
    using mod_mult_self2 [of y 4 "- 492"] mod_mult_self2 [of y 100 "- 19"] mod_mult_self2 [of y 400 "- 4"] by simp_all
  have "y - 1969 + 1 = y - 1968" "y - 1901 + 1 = y - 1900" "y - 1601 + 1 = y - 1600"
    by simp_all
  then have steps: "(y - 1968) div 4 = a + p" "(y - 1900) div 100 = b + q" "(y - 1600) div 400 = c + r"
    using div_step [where n = "y - 1969" and k = 4] div_step [where n = "y - 1901" and k = 100] div_step [where n = "y - 1601" and k = 400]
    unfolding a_def b_def c_def p_def q_def r_def by (simp_all only: mods one_less_numeral_iff semiring_norm simp_thms)
  have "y + 1 - 1969 = y - 1968" "y + 1 - 1901 = y - 1900" "y + 1 - 1601 = y - 1600"
    by simp_all
  then have "day_from_year (y + 1) = day_from_year y + 365 + p - q + r"
    unfolding day_from_year_def by (simp only: steps a_def [symmetric] b_def [symmetric] c_def [symmetric]) simp
  moreover have "y mod 100 = 0 \<Longrightarrow> y mod 4 = 0" "y mod 400 = 0 \<Longrightarrow> y mod 100 = 0"
    using mod_mod_cancel [of 4 100 y] mod_mod_cancel [of 100 400 y] by simp_all
  ultimately show ?thesis
    by (cases "y mod 400 = 0"; cases "y mod 100 = 0"; cases "y mod 4 = 0") (simp_all add: month_lengths_def is_leap_def p_def q_def r_def)
qed

lemma month_lengths_pos: "x \<in> set (month_lengths y) \<Longrightarrow> 0 < x"
  by (auto simp: month_lengths_def split: if_splits)

lemma year_step: "day_from_year y < day_from_year (y + 1)"
  by (simp add: year_length) (simp add: month_lengths_def)

termination year_search
proof (relation "measure (\<lambda>(day, y). nat (day - day_from_year y))")
  fix day y
  assume "day_from_year (y + 1) \<le> day"
  then show "((day, y + 1), day, y) \<in> measure (\<lambda>(day, y). nat (day - day_from_year y))"
    using year_step [of y] by simp
qed simp

definition year_from_day :: "int \<Rightarrow> int" where
  "year_from_day day = year_search day (1970 + (if 0 \<le> day then day div 366 else day div 365))"

fun month_search :: "int list \<Rightarrow> int \<Rightarrow> nat \<times> int" where
  "month_search [] d = (0, d)"
| "month_search (l # ls) d = (if d < l then (0, d) else (let (m, r) = month_search ls (d - l) in (Suc m, r)))"

text \<open>The fields of a day: year, month from 0, day of the month from 1.\<close>

definition civil :: "int \<Rightarrow> int \<times> nat \<times> int" where
  "civil day =
     (let y = year_from_day day; (m, d) = month_search (month_lengths y) (day - day_from_year y) in (y, m, d + 1))"

definition week_day :: "int \<Rightarrow> nat" where
  "week_day day = nat ((day + 4) mod 7)"

lemma year_search_spec:
  "day_from_year y \<le> day \<Longrightarrow> day_from_year (year_search day y) \<le> day \<and> day < day_from_year (year_search day y + 1)"
proof (induction day y rule: year_search.induct)
  case (1 day y)
  then show ?case
    by (cases "day_from_year (y + 1) \<le> day") (simp_all add: year_search.simps [of day y])
qed

lemma year_bounds: "365 \<le> sum_list (month_lengths y) \<and> sum_list (month_lengths y) \<le> 366"
  by (simp add: month_lengths_def)

lemma years_after: "day_from_year (1970 + int k) \<le> 366 * int k"
proof (induction k)
  case (Suc k)
  then show ?case
    using year_length [of "1970 + int k"] year_bounds [of "1970 + int k"] by (simp add: algebra_simps)
qed (simp add: day_from_year_def)

lemma years_before: "day_from_year (1970 - int k) \<le> - (365 * int k)"
proof (induction k)
  case (Suc k)
  then show ?case
    using year_length [of "1970 - int (Suc k)"] year_bounds [of "1970 - int (Suc k)"] by (simp add: algebra_simps)
qed (simp add: day_from_year_def)

lemma year_start_low: "day_from_year (1970 + (if 0 \<le> day then day div 366 else day div 365)) \<le> day"
proof (cases "0 \<le> day")
  case True
  then show ?thesis
    using years_after [of "nat (day div 366)"] by (simp add: pos_imp_zdiv_nonneg_iff)
next
  case False
  then have "day div 365 < 0"
    by simp
  with False show ?thesis
    using years_before [of "nat (- (day div 365))"] by simp
qed

lemma year_from_day_spec: "day_from_year (year_from_day day) \<le> day \<and> day < day_from_year (year_from_day day + 1)"
  unfolding year_from_day_def by (rule year_search_spec) (rule year_start_low)

lemma month_search_spec:
  "0 \<le> d \<Longrightarrow> d < sum_list ls \<Longrightarrow> month_search ls d = (m, r) \<Longrightarrow> m < length ls \<and> 0 \<le> r \<and> r < ls ! m \<and> d = sum_list (take m ls) + r"
proof (induction ls arbitrary: d m)
  case (Cons l ls)
  show ?case
  proof (cases "d < l")
    case False
    obtain m' r' where rec: "month_search ls (d - l) = (m', r')"
      by fastforce
    with False Cons.prems have "m = Suc m'" "r = r'"
      by simp_all
    with rec False Cons.prems Cons.IH [of "d - l" m'] show ?thesis
      by simp
  qed (use Cons.prems in simp)
qed simp

lemma civil_spec:
  assumes "civil day = (y, m, d)"
  shows "y = year_from_day day" "m < 12" "1 \<le> d" "d \<le> 31" "make_day y m d = day"
proof -
  define off where "off = day - day_from_year (year_from_day day)"
  obtain r where r: "month_search (month_lengths y) off = (m, r)" "d = r + 1" and y: "y = year_from_day day"
    using assms by (auto simp: civil_def Let_def off_def split: prod.splits)
  have "0 \<le> off" "off < sum_list (month_lengths y)"
    using year_from_day_spec [of day] year_length [of y] by (simp_all add: off_def y)
  then have spec: "m < length (month_lengths y)" "0 \<le> r" "r < month_lengths y ! m" "off = sum_list (take m (month_lengths y)) + r"
    using month_search_spec [OF _ _ r(1)] by simp_all
  moreover have "month_lengths y ! m \<le> 31" if "m < length (month_lengths y)"
  proof -
    have "month_lengths y ! m \<in> set (month_lengths y)"
      using that by simp
    then show ?thesis
      by (auto simp: month_lengths_def split: if_splits)
  qed
  ultimately show "y = year_from_day day" "m < 12" "1 \<le> d" "d \<le> 31" "make_day y m d = day"
    using r(2) y by (auto simp: make_day_def off_def month_lengths_def)
qed

section \<open>Rendering\<close>

definition HTTP_MONTHS :: "string list" where
  "HTTP_MONTHS = [''Jan'', ''Feb'', ''Mar'', ''Apr'', ''May'', ''Jun'', ''Jul'', ''Aug'', ''Sep'', ''Oct'', ''Nov'', ''Dec'']"

definition HTTP_WEEKDAYS :: "string list" where
  "HTTP_WEEKDAYS = [''Sun'', ''Mon'', ''Tue'', ''Wed'', ''Thu'', ''Fri'', ''Sat'']"

definition HTTP_WEEKDAY_NAMES :: "string list" where
  "HTTP_WEEKDAY_NAMES = [''Sunday'', ''Monday'', ''Tuesday'', ''Wednesday'', ''Thursday'', ''Friday'', ''Saturday'']"

text \<open>\<open>padded n v\<close> is \<open>v\<close> in at least \<open>n\<close> decimal digits.\<close>

definition padded :: "nat \<Rightarrow> nat \<Rightarrow> string" where
  "padded n v = replicate (n - length (show_nat v)) (CHR ''0'') @ show_nat v"

text \<open>\<open>Date.prototype.toUTCString\<close>.\<close>

definition to_utc_string :: "int \<Rightarrow> string" where
  "to_utc_string t =
     (let day = t div ms_per_day; (y, m, d) = civil day; s = nat (t mod ms_per_day div 1000)
      in HTTP_WEEKDAYS ! week_day day @ '', '' @ padded 2 (nat d) @ '' '' @ HTTP_MONTHS ! m @ '' '' @
         (if y < 0 then ''-'' else []) @ padded 4 (nat \<bar>y\<bar>) @ '' '' @
         padded 2 (s div 3600) @ '':'' @ padded 2 (s div 60 mod 60) @ '':'' @ padded 2 (s mod 60) @ '' GMT'')"

section \<open>Parsing\<close>

text \<open>
  The regular expressions of the parser are sequences of literals, alternatives, fixed numbers of
  digits and, for \<open>asctime\<close>, a digit after a space or two digits.  A match yields the captures.
\<close>

datatype pattern_item = Lit string | OneOf "string list" | Digits nat | PaddedDay

fun match_items :: "pattern_item list \<Rightarrow> string \<Rightarrow> string list option" where
  "match_items [] s = (if s = [] then Some [] else None)"
| "match_items (Lit l # items) s = (if starts_with l s then match_items items (drop (length l) s) else None)"
| "match_items (OneOf ws # items) s =
     (case find (\<lambda>w. starts_with w s) ws of
        None \<Rightarrow> None
      | Some w \<Rightarrow> map_option (Cons w) (match_items items (drop (length w) s)))"
| "match_items (Digits n # items) s =
     (if n \<le> length s \<and> list_all is_digit (take n s) then map_option (Cons (take n s)) (match_items items (drop n s)) else None)"
| "match_items (PaddedDay # items) s =
     (if 2 \<le> length s \<and> (hd s = CHR '' '' \<or> is_digit (hd s)) \<and> is_digit (s ! 1)
      then map_option (Cons (take 2 s)) (match_items items (drop 2 s)) else None)"

definition imf_fixdate :: "pattern_item list" where
  "imf_fixdate = [OneOf HTTP_WEEKDAYS, Lit '', '', Digits 2, Lit '' '', OneOf HTTP_MONTHS, Lit '' '', Digits 4, Lit '' '',
     Digits 2, Lit '':'', Digits 2, Lit '':'', Digits 2, Lit '' GMT'']"

definition rfc850_date :: "pattern_item list" where
  "rfc850_date = [OneOf HTTP_WEEKDAY_NAMES, Lit '', '', Digits 2, Lit ''-'', OneOf HTTP_MONTHS, Lit ''-'', Digits 2, Lit '' '',
     Digits 2, Lit '':'', Digits 2, Lit '':'', Digits 2, Lit '' GMT'']"

definition asctime_date :: "pattern_item list" where
  "asctime_date = [OneOf HTTP_WEEKDAYS, Lit '' '', OneOf HTTP_MONTHS, Lit '' '', PaddedDay, Lit '' '',
     Digits 2, Lit '':'', Digits 2, Lit '':'', Digits 2, Lit '' '', Digits 4]"

fun index_of :: "'a \<Rightarrow> 'a list \<Rightarrow> nat option" where
  "index_of x [] = None"
| "index_of x (y # ys) = (if x = y then Some 0 else map_option Suc (index_of x ys))"

definition parseMonth :: "string \<Rightarrow> nat option" where
  "parseMonth s = index_of s HTTP_MONTHS"

definition parseDecimal :: "string \<Rightarrow> nat option" where
  "parseDecimal s = (if s \<noteq> [] \<and> list_all is_digit s then Some (read_nat s) else None)"

definition parseClock :: "string \<Rightarrow> string \<Rightarrow> string \<Rightarrow> (nat \<times> nat \<times> nat) option" where
  "parseClock hour minute second =
     (case (parseDecimal hour, parseDecimal minute, parseDecimal second) of
        (Some h, Some m, Some s) \<Rightarrow> if h > 23 \<or> m > 59 \<or> s > 59 then None else Some (h, m, s)
      | _ \<Rightarrow> None)"

text \<open>Instants further than \<open>max_time\<close> from the epoch are invalid dates.\<close>

definition max_time :: int where
  "max_time = 8640000000000000"

definition createHttpDateTimestamp ::
  "string \<Rightarrow> string \<Rightarrow> string \<Rightarrow> string \<Rightarrow> string \<Rightarrow> string \<Rightarrow> string \<Rightarrow> string list \<Rightarrow> int option" where
  "createHttpDateTimestamp weekday day month year hour minute second weekdayNames =
     (case (parseDecimal day, parseMonth month, parseDecimal year, parseClock hour minute second) of
        (Some d, Some mo, Some y, Some (h, mi, s)) \<Rightarrow>
          if d < 1 \<or> d > 31 \<or> weekday \<notin> set weekdayNames then None
          else (let date = make_day (int y) mo (int d);
                    time = date * ms_per_day + ((int h * 60 + int mi) * 60 + int s) * 1000
                in if \<bar>time\<bar> > max_time \<or> civil date \<noteq> (int y, mo, int d) \<or> weekdayNames ! week_day date \<noteq> weekday
                   then None else Some time)
      | _ \<Rightarrow> None)"

definition parseHttpDate :: "string option \<Rightarrow> int \<Rightarrow> int option" where
  "parseHttpDate header referenceYear =
     (case header of
        None \<Rightarrow> None
      | Some h \<Rightarrow>
          (case match_items imf_fixdate h of
             Some [wd, d, mo, y, hh, mm, ss] \<Rightarrow> createHttpDateTimestamp wd d mo y hh mm ss HTTP_WEEKDAYS
           | _ \<Rightarrow>
             (case match_items rfc850_date h of
                Some [wd, d, mo, yy, hh, mm, ss] \<Rightarrow>
                  (case parseDecimal yy of
                     None \<Rightarrow> None
                   | Some n \<Rightarrow>
                       (let full = referenceYear div 100 * 100 + int n;
                            year = (if full > referenceYear + 50 then full - 100 else full)
                        in createHttpDateTimestamp wd d mo (show_int year) hh mm ss HTTP_WEEKDAY_NAMES))
              | _ \<Rightarrow>
                (case match_items asctime_date h of
                   Some [wd, mo, d, hh, mm, ss, y] \<Rightarrow> createHttpDateTimestamp wd (js_trim d) mo y hh mm ss HTTP_WEEKDAYS
                 | _ \<Rightarrow> None))))"

section \<open>Padded numerals\<close>

lemma show_nat_snoc: "k < 10 \<Longrightarrow> show_nat (10 * v + k) = (if v = 0 then [] else show_nat v) @ [digit_char k]"
  by (cases "v = 0") (simp_all add: show_nat.simps [of "10 * v + k"] show_nat.simps [of k])

lemma digit_zero: "digit_char 0 = CHR ''0''"
  by code_simp

lemma padded_snoc: "k < 10 \<Longrightarrow> 0 < n \<Longrightarrow> padded (Suc n) (10 * v + k) = padded n v @ [digit_char k]"
proof (cases "v = 0")
  case True
  assume "k < 10" "0 < n"
  moreover have "replicate n (CHR ''0'') = replicate (n - 1) (CHR ''0'') @ [digit_char 0]" if "0 < n"
    using that by (cases n) (simp_all add: replicate_append_same digit_zero)
  ultimately show ?thesis
    using True by (simp add: padded_def show_nat_snoc [of k 0, simplified] show_nat.simps [of 0])
qed (simp add: padded_def show_nat_snoc)

lemma read_snoc: "read_nat (s @ [c]) = 10 * read_nat s + (of_char c - 48)"
  by (simp add: read_nat_def)

lemma digit_bounds: "is_digit c \<Longrightarrow> of_char c - 48 < (10 :: nat) \<and> digit_char (of_char c - 48) = c"
  by (auto simp: is_digit_def digit_char_def)

lemma padded_read: "list_all is_digit s \<Longrightarrow> s \<noteq> [] \<Longrightarrow> padded (length s) (read_nat s) = s"
proof (induction s rule: rev_induct)
  case (snoc c s)
  then have c: "of_char c - 48 < (10 :: nat)" "digit_char (of_char c - 48) = c"
    using digit_bounds by simp_all
  show ?case
  proof (cases "s = []")
    case True
    with c show ?thesis
      by (simp add: padded_def read_nat_def show_nat.simps [of "of_char c - 48"])
  next
    case False
    with c snoc show ?thesis
      using padded_snoc [of "of_char c - 48" "length s" "read_nat s"] by (simp add: read_snoc)
  qed
qed simp

lemma read_bound: "list_all is_digit s \<Longrightarrow> read_nat s < 10 ^ length s"
proof (induction s rule: rev_induct)
  case (snoc c s)
  then have "read_nat s < 10 ^ length s" "of_char c - 48 < (10 :: nat)"
    using digit_bounds by simp_all
  then show ?case
    by (simp add: read_snoc)
qed (simp add: read_nat_def)

lemma read_zeros: "read_nat (replicate k (CHR ''0'') @ s) = read_nat s"
  by (induction k) (simp_all add: read_nat_def)

lemma read_padded [simp]: "read_nat (padded n v) = v"
  by (simp add: padded_def read_zeros)

lemma padded_digits [simp]: "list_all is_digit (padded n v)"
  using show_nat_digits by (auto simp: padded_def list_all_iff is_digit_def set_replicate_conv_if)

lemma length_show_nat: "0 < n \<Longrightarrow> v < 10 ^ n \<Longrightarrow> length (show_nat v) \<le> n"
proof (induction n arbitrary: v)
  case (Suc n)
  show ?case
  proof (cases "v < 10")
    case False
    with Suc have "0 < n" "v div 10 < 10 ^ n"
      by (auto intro: gr0I)
    with Suc.IH [of "v div 10"] False show ?thesis
      by (simp add: show_nat.simps [of v])
  qed (simp add: show_nat.simps [of v])
qed simp

lemma length_padded [simp]: "0 < n \<Longrightarrow> v < 10 ^ n \<Longrightarrow> length (padded n v) = n"
  using length_show_nat [of n v] by (simp add: padded_def)

section \<open>The patterns\<close>

lemma find_prefix:
  "(\<And>w. w \<in> set ws \<Longrightarrow> length w = n) \<Longrightarrow>
   find (\<lambda>w. starts_with w s) ws = (if take n s \<in> set ws then Some (take n s) else None)"
  by (induction ws) (auto simp: starts_with_def)

lemma weekday_lengths: "w \<in> set HTTP_WEEKDAYS \<Longrightarrow> length w = 3"
  by (auto simp: HTTP_WEEKDAYS_def)

lemma month_name_lengths: "w \<in> set HTTP_MONTHS \<Longrightarrow> length w = 3"
  by (auto simp: HTTP_MONTHS_def)

lemma match_lit: "match_items (Lit l # items) s = Some caps \<longleftrightarrow> (\<exists>r. s = l @ r \<and> match_items items r = Some caps)"
proof -
  have "starts_with l s \<longleftrightarrow> (\<exists>r. s = l @ r)"
    unfolding starts_with_def by (metis append_eq_conv_conj append_take_drop_id)
  then show ?thesis
    by auto
qed

lemma match_one_of:
  assumes len: "\<And>w. w \<in> set ws \<Longrightarrow> length w = n"
  shows "match_items (OneOf ws # items) s = Some caps \<longleftrightarrow>
    (\<exists>w r cs. s = w @ r \<and> w \<in> set ws \<and> caps = w # cs \<and> match_items items r = Some cs)"
proof -
  have eq: "match_items (OneOf ws # items) s =
      (if take n s \<in> set ws then map_option (Cons (take n s)) (match_items items (drop n s)) else None)"
  proof (cases "take n s \<in> set ws")
    case True
    then show ?thesis
      using len [OF True] by (cases "n \<le> length s") (simp_all add: find_prefix [OF len])
  qed (simp add: find_prefix [OF len])
  have split: "(s = w @ r \<and> w \<in> set ws) \<longleftrightarrow> w = take n s \<and> r = drop n s \<and> take n s \<in> set ws" for w r
    using len [of w] len [of "take n s"] by (auto simp: append_eq_conv_conj)
  show ?thesis
    unfolding eq conj_assoc [symmetric] split by auto
qed

lemma match_digits:
  "match_items (Digits n # items) s = Some caps \<longleftrightarrow>
    (\<exists>w r cs. s = w @ r \<and> length w = n \<and> list_all is_digit w \<and> caps = w # cs \<and> match_items items r = Some cs)"
proof -
  have "s = w @ r \<and> length w = n \<longleftrightarrow> w = take n s \<and> r = drop n s \<and> n \<le> length s" for w r
    by (auto simp: append_eq_conv_conj)
  then show ?thesis
    by auto
qed

lemma match_weekday:
  "match_items (OneOf HTTP_WEEKDAYS # items) s = Some caps \<longleftrightarrow>
    (\<exists>w r cs. s = w @ r \<and> w \<in> set HTTP_WEEKDAYS \<and> caps = w # cs \<and> match_items items r = Some cs)"
  by (rule match_one_of) (rule weekday_lengths)

lemma match_month:
  "match_items (OneOf HTTP_MONTHS # items) s = Some caps \<longleftrightarrow>
    (\<exists>w r cs. s = w @ r \<and> w \<in> set HTTP_MONTHS \<and> caps = w # cs \<and> match_items items r = Some cs)"
  by (rule match_one_of) (rule month_name_lengths)

lemma match_end: "match_items [] s = Some caps \<longleftrightarrow> s = [] \<and> caps = []"
  by auto

lemmas match_simps = match_lit match_weekday match_month match_digits match_end

lemma match_imf:
  "match_items imf_fixdate h = Some caps \<longleftrightarrow>
   (\<exists>wd d mo y hh mm ss. caps = [wd, d, mo, y, hh, mm, ss] \<and>
      h = wd @ '', '' @ d @ '' '' @ mo @ '' '' @ y @ '' '' @ hh @ '':'' @ mm @ '':'' @ ss @ '' GMT'' \<and>
      wd \<in> set HTTP_WEEKDAYS \<and> mo \<in> set HTTP_MONTHS \<and> length d = 2 \<and> length y = 4 \<and> length hh = 2 \<and> length mm = 2 \<and> length ss = 2 \<and>
      list_all is_digit d \<and> list_all is_digit y \<and> list_all is_digit hh \<and> list_all is_digit mm \<and> list_all is_digit ss)"
  unfolding imf_fixdate_def match_simps by auto

section \<open>Exactness of the preferred format\<close>

lemma index_of_nth: "index_of x xs = Some i \<Longrightarrow> i < length xs \<and> xs ! i = x"
  by (induction xs arbitrary: i) (auto split: if_splits)

lemma index_of_distinct: "distinct xs \<Longrightarrow> i < length xs \<Longrightarrow> index_of (xs ! i) xs = Some i"
proof (induction xs arbitrary: i)
  case (Cons x xs)
  then show ?case
    by (cases i) (auto simp: nth_mem)
qed simp

lemma months_distinct: "distinct HTTP_MONTHS" "length HTTP_MONTHS = 12"
  by (simp_all add: HTTP_MONTHS_def)

lemma week_day_bound: "week_day day < length HTTP_WEEKDAYS"
  by (simp add: week_day_def HTTP_WEEKDAYS_def nat_less_iff)

lemma parse_decimal_padded [simp]: "parseDecimal (padded n v) = Some v"
  by (simp add: parseDecimal_def) (simp add: padded_def)

lemma parse_decimal_exact: "parseDecimal s = Some v \<Longrightarrow> s = padded (length s) v \<and> v < 10 ^ length s"
  using padded_read [of s] read_bound [of s] by (auto simp: parseDecimal_def split: if_splits)

lemma day_from_year_mono: "y \<le> y' \<Longrightarrow> day_from_year y \<le> day_from_year y'"
proof (induction y' rule: int_ge_induct)
  case (step z)
  then show ?case
    using year_step [of z] by linarith
qed simp

text \<open>An instant at full seconds is its day and the clock of that day.\<close>

lemma time_split:
  assumes "t = date * ms_per_day + ((int h * 60 + int m) * 60 + int s) * 1000" and "h \<le> 23" "m \<le> 59" "s \<le> 59"
  shows "t div ms_per_day = date" "nat (t mod ms_per_day div 1000) = (h * 60 + m) * 60 + s" "1000 dvd t"
proof -
  define c where "c = (h * 60 + m) * 60 + s"
  have t: "t = date * ms_per_day + int c * 1000" and "c < 86400"
    using assms by (simp_all add: c_def)
  then have "int c * 1000 < ms_per_day"
    by (simp add: ms_per_day_def)
  with t show "t div ms_per_day = date" "nat (t mod ms_per_day div 1000) = (h * 60 + m) * 60 + s"
    unfolding c_def [symmetric] by (simp_all add: ms_per_day_def)
  show "1000 dvd t"
    unfolding t by (simp add: ms_per_day_def)
qed

lemma clock_fields:
  assumes "h \<le> 23" "m \<le> 59" "s \<le> (59 :: nat)"
  shows "((h * 60 + m) * 60 + s) div 3600 = h" "((h * 60 + m) * 60 + s) div 60 mod 60 = m" "((h * 60 + m) * 60 + s) mod 60 = s"
proof -
  have "((h * 60 + m) * 60 + s) div 60 = h * 60 + m"
    using assms by simp
  then show "((h * 60 + m) * 60 + s) div 3600 = h" "((h * 60 + m) * 60 + s) div 60 mod 60 = m"
    using assms div_mult2_eq [of "(h * 60 + m) * 60 + s" 60 60] by simp_all
  have "(k * 60 + s) mod 60 = s" for k
    using assms by simp
  then show "((h * 60 + m) * 60 + s) mod 60 = s" .
qed

lemma parse_clock_Some:
  "parseClock hh mm ss = Some (h, m, s) \<longleftrightarrow>
   parseDecimal hh = Some h \<and> parseDecimal mm = Some m \<and> parseDecimal ss = Some s \<and> h \<le> 23 \<and> m \<le> 59 \<and> s \<le> 59"
  by (auto simp: parseClock_def split: option.splits if_splits)

lemma create_timestamp_Some:
  "createHttpDateTimestamp wd d mo y hh mm ss names = Some t \<longleftrightarrow>
   (\<exists>dn mn yn h mi s. parseDecimal d = Some dn \<and> parseMonth mo = Some mn \<and> parseDecimal y = Some yn \<and>
      parseClock hh mm ss = Some (h, mi, s) \<and> 1 \<le> dn \<and> dn \<le> 31 \<and> wd \<in> set names \<and> \<bar>t\<bar> \<le> max_time \<and>
      civil (make_day (int yn) mn (int dn)) = (int yn, mn, int dn) \<and> names ! week_day (make_day (int yn) mn (int dn)) = wd \<and>
      t = make_day (int yn) mn (int dn) * ms_per_day + ((int h * 60 + int mi) * 60 + int s) * 1000)"
  unfolding createHttpDateTimestamp_def Let_def by (auto split: option.splits prod.splits if_splits)

lemma create_timestamp_exact:
  assumes create: "createHttpDateTimestamp wd d mo y hh mm ss HTTP_WEEKDAYS = Some t"
    and len: "length d = 2" "length y = 4" "length hh = 2" "length mm = 2" "length ss = 2"
  shows "wd @ '', '' @ d @ '' '' @ mo @ '' '' @ y @ '' '' @ hh @ '':'' @ mm @ '':'' @ ss @ '' GMT'' = to_utc_string t"
    and "1000 dvd t" and "0 \<le> year_from_day (t div ms_per_day) \<and> year_from_day (t div ms_per_day) \<le> 9999"
proof -
  obtain dn mn yn h mi s where parts: "parseDecimal d = Some dn" "parseMonth mo = Some mn" "parseDecimal y = Some yn"
      "parseDecimal hh = Some h" "parseDecimal mm = Some mi" "parseDecimal ss = Some s"
    and clock: "h \<le> 23" "mi \<le> 59" "s \<le> 59"
    and date: "civil (make_day (int yn) mn (int dn)) = (int yn, mn, int dn)" "HTTP_WEEKDAYS ! week_day (make_day (int yn) mn (int dn)) = wd"
    and t: "t = make_day (int yn) mn (int dn) * ms_per_day + ((int h * 60 + int mi) * 60 + int s) * 1000"
    using create unfolding create_timestamp_Some parse_clock_Some by blast
  have texts: "d = padded 2 dn" "y = padded 4 yn" "hh = padded 2 h" "mm = padded 2 mi" "ss = padded 2 s" "yn < 10000"
    using parts(1, 3, 4, 5, 6) [THEN parse_decimal_exact] len by simp_all
  have "mo = HTTP_MONTHS ! mn"
    using parts(2) index_of_nth unfolding parseMonth_def by metis
  with texts date(2) show "wd @ '', '' @ d @ '' '' @ mo @ '' '' @ y @ '' '' @ hh @ '':'' @ mm @ '':'' @ ss @ '' GMT'' = to_utc_string t"
    unfolding to_utc_string_def Let_def time_split [OF t clock] clock_fields [OF clock] date(1) by simp
  show "1000 dvd t"
    by (rule time_split(3) [OF t clock])
  show "0 \<le> year_from_day (t div ms_per_day) \<and> year_from_day (t div ms_per_day) \<le> 9999"
    using civil_spec(1) [OF date(1)] texts(6) unfolding time_split(1) [OF t clock] by simp
qed

lemma clock_split:
  assumes "1000 dvd t" "sec = nat (t mod ms_per_day div 1000)"
  shows "sec div 3600 \<le> 23" "sec div 60 mod 60 \<le> 59" "sec mod 60 \<le> 59"
    "t = t div ms_per_day * ms_per_day + ((int (sec div 3600) * 60 + int (sec div 60 mod 60)) * 60 + int (sec mod 60)) * 1000"
proof -
  obtain k where k: "t mod ms_per_day = 1000 * k"
  proof -
    have "1000 dvd t mod ms_per_day"
      using assms(1) by (intro dvd_mod) (simp_all add: ms_per_day_def)
    then show ?thesis
      using that by (auto elim!: dvdE)
  qed
  have bounds: "0 \<le> t mod ms_per_day" "t mod ms_per_day < ms_per_day"
    by (simp_all add: ms_per_day_def)
  then have sec: "int sec = k" "sec < 86400"
    using assms(2) k by (simp_all add: ms_per_day_def nat_less_iff)
  then show "sec div 3600 \<le> 23" "sec div 60 mod 60 \<le> 59" "sec mod 60 \<le> 59"
    by simp_all
  have "(sec div 3600 * 60 + sec div 60 mod 60) * 60 + sec mod 60 = sec"
    using div_mult2_eq [of sec 60 60] div_mult_mod_eq [of "sec div 60" 60] div_mult_mod_eq [of sec 60] by simp
  then have "(int (sec div 3600) * 60 + int (sec div 60 mod 60)) * 60 + int (sec mod 60) = k"
    unfolding sec(1) [symmetric] by (metis of_nat_add of_nat_mult of_nat_numeral)
  then show "t = t div ms_per_day * ms_per_day + ((int (sec div 3600) * 60 + int (sec div 60 mod 60)) * 60 + int (sec mod 60)) * 1000"
    using k div_mult_mod_eq [of t ms_per_day] by simp
qed

lemma year_range_time:
  assumes "0 \<le> year_from_day (t div ms_per_day)" "year_from_day (t div ms_per_day) \<le> 9999"
  shows "\<bar>t\<bar> \<le> max_time"
proof -
  have "day_from_year 0 \<le> t div ms_per_day" "t div ms_per_day < day_from_year 10000"
    using year_from_day_spec [of "t div ms_per_day"] assms day_from_year_mono [of 0 "year_from_day (t div ms_per_day)"]
      day_from_year_mono [of "year_from_day (t div ms_per_day) + 1" 10000] by linarith+
  then have "- 800000 \<le> t div ms_per_day" "t div ms_per_day \<le> 3000000"
    by (simp_all add: day_from_year_def)
  moreover have "t = t div ms_per_day * ms_per_day + t mod ms_per_day" "0 \<le> t mod ms_per_day" "t mod ms_per_day < ms_per_day"
    by (simp_all add: ms_per_day_def)
  ultimately show ?thesis
    unfolding max_time_def ms_per_day_def by linarith
qed

lemma render_accepted:
  assumes full: "1000 dvd t" and year: "0 \<le> year_from_day (t div ms_per_day)" "year_from_day (t div ms_per_day) \<le> 9999"
  shows "match_items imf_fixdate (to_utc_string t) \<noteq> None" "parseHttpDate (Some (to_utc_string t)) referenceYear = Some t"
proof -
  define date sec where "date = t div ms_per_day" and "sec = nat (t mod ms_per_day div 1000)"
  obtain y m d where civil: "civil date = (y, m, d)"
    by (metis prod_cases3)
  note c = civil_spec [OF civil] and clock = clock_split [OF full sec_def]
  have y: "0 \<le> y" "nat y < 10 ^ 4" and d: "nat d < 10 ^ 2" "1 \<le> nat d" "nat d \<le> 31"
    using c(1, 3, 4) year by (auto simp: date_def)
  let ?caps = "[HTTP_WEEKDAYS ! week_day date, padded 2 (nat d), HTTP_MONTHS ! m, padded 4 (nat y),
    padded 2 (sec div 3600), padded 2 (sec div 60 mod 60), padded 2 (sec mod 60)]"
  have names: "HTTP_WEEKDAYS ! week_day date \<in> set HTTP_WEEKDAYS" "HTTP_MONTHS ! m \<in> set HTTP_MONTHS" "parseMonth (HTTP_MONTHS ! m) = Some m"
    using week_day_bound c(2) months_distinct by (auto simp: parseMonth_def intro!: nth_mem index_of_distinct)
  have small: "sec div 3600 < 10 ^ 2" "sec div 60 mod 60 < 10 ^ 2" "sec mod 60 < 10 ^ 2"
    using clock by simp_all
  have "to_utc_string t = HTTP_WEEKDAYS ! week_day date @ '', '' @ padded 2 (nat d) @ '' '' @ HTTP_MONTHS ! m @ '' '' @ padded 4 (nat y) @ '' '' @
      padded 2 (sec div 3600) @ '':'' @ padded 2 (sec div 60 mod 60) @ '':'' @ padded 2 (sec mod 60) @ '' GMT''"
    using y unfolding to_utc_string_def Let_def date_def [symmetric] sec_def [symmetric] civil by simp
  then have match: "match_items imf_fixdate (to_utc_string t) = Some ?caps"
    using names y d small length_padded unfolding match_imf by simp
  then show "match_items imf_fixdate (to_utc_string t) \<noteq> None"
    by simp
  have "createHttpDateTimestamp (HTTP_WEEKDAYS ! week_day date) (padded 2 (nat d)) (HTTP_MONTHS ! m) (padded 4 (nat y))
    (padded 2 (sec div 3600)) (padded 2 (sec div 60 mod 60)) (padded 2 (sec mod 60)) HTTP_WEEKDAYS = Some t"
    unfolding create_timestamp_Some parse_clock_Some parse_decimal_padded names(3)
    using clock names d y c civil year_range_time [OF year] by (auto simp: date_def)
  with match show "parseHttpDate (Some (to_utc_string t)) referenceYear = Some t"
    by (simp add: parseHttpDate_def)
qed

text \<open>
  HTTP dates are parsed exactly: a header in the preferred format (\<open>Sun, 06 Nov 1994 08:49:37
  GMT\<close>) is accepted, with the instant \<open>t\<close>, precisely when it is the rendering of \<open>t\<close> and
  \<open>t\<close> is a full second of a year of at most four digits.  So no day that does not exist, no wrong
  weekday and no clock past midnight is accepted, and what the server prints it reads back.
\<close>

theorem http_date_exact:
  "(match_items imf_fixdate header \<noteq> None \<and> parseHttpDate (Some header) referenceYear = Some t) \<longleftrightarrow>
   (header = to_utc_string t \<and> 1000 dvd t \<and> 0 \<le> year_from_day (t div ms_per_day) \<and> year_from_day (t div ms_per_day) \<le> 9999)"
proof
  assume acc: "match_items imf_fixdate header \<noteq> None \<and> parseHttpDate (Some header) referenceYear = Some t"
  then obtain caps where caps: "match_items imf_fixdate header = Some caps"
    by blast
  then obtain wd d mo y hh mm ss where parts: "caps = [wd, d, mo, y, hh, mm, ss]"
      "header = wd @ '', '' @ d @ '' '' @ mo @ '' '' @ y @ '' '' @ hh @ '':'' @ mm @ '':'' @ ss @ '' GMT''"
    and len: "length d = 2" "length y = 4" "length hh = 2" "length mm = 2" "length ss = 2"
    unfolding match_imf by blast
  have "createHttpDateTimestamp wd d mo y hh mm ss HTTP_WEEKDAYS = Some t"
    using acc caps parts(1) by (simp add: parseHttpDate_def)
  from create_timestamp_exact [OF this len] show "header = to_utc_string t \<and> 1000 dvd t \<and> 0 \<le> year_from_day (t div ms_per_day) \<and>
      year_from_day (t div ms_per_day) \<le> 9999"
    unfolding parts(2) by blast
qed (use render_accepted in blast)

end
