(* ===== verification/Web_Response.thy ===== *)
theory Web_Response
  imports Http_Headers "HOL-Library.Word"
begin

text \<open>
  The mutable response of the Web adapter (\<open>packages/runtime/src/web.ts\<close>,
  \<open>MutableWebFrameworkResponse\<close>) that the response policies write to: case-insensitive header writes
  with the append rule for \<open>Set-Cookie\<close>, the status, buffered bodies and the stream, and the response
  finally handed to the platform.  The locale \<open>header_facade\<close> states what the policies rely on; its
  interpretation \<open>web\<close> shows that the adapter keeps it.
\<close>

type_synonym byte = "8 word"

record web_response =
  wr_committed :: bool
  wr_headers :: response_headers
  wr_statusCode :: "nat option"
  wr_body :: "byte list option"
  wr_stream :: "byte list list"
  wr_streamActive :: bool
  wr_streamClosed :: bool
  wr_finalized :: bool

definition new_response :: web_response where
  "new_response = \<lparr>wr_committed = False, wr_headers = [], wr_statusCode = None, wr_body = None, wr_stream = [],
     wr_streamActive = False, wr_streamClosed = False, wr_finalized = False\<rparr>"

definition findHeaderName :: "response_headers \<Rightarrow> string \<Rightarrow> string option" where
  "findHeaderName headers name = find (\<lambda>key. js_lower key = js_lower name) (js_keys headers)"

definition hasHeader :: "response_headers \<Rightarrow> string \<Rightarrow> bool" where
  "hasHeader headers name \<longleftrightarrow> findHeaderName headers name \<noteq> None"

definition mergeSetCookieHeader :: "string list option \<Rightarrow> string list \<Rightarrow> string list" where
  "mergeSetCookieHeader current incoming = (case current of None \<Rightarrow> incoming | Some values \<Rightarrow> values @ incoming)"

definition put_header :: "response_headers \<Rightarrow> string \<Rightarrow> string list \<Rightarrow> response_headers" where
  "put_header headers name v =
     (let existing = (case findHeaderName headers name of Some k \<Rightarrow> k | None \<Rightarrow> name)
      in if js_lower name = ''set-cookie'' then js_set headers existing (mergeSetCookieHeader (js_get headers existing) v)
         else js_set headers existing v)"

definition setHeader :: "string \<Rightarrow> string \<Rightarrow> web_response \<Rightarrow> web_response" where
  "setHeader name v r = r\<lparr>wr_headers := put_header (wr_headers r) name [v]\<rparr>"

definition setStatus :: "nat \<Rightarrow> web_response \<Rightarrow> web_response" where
  "setStatus code r = r\<lparr>wr_statusCode := Some code\<rparr>"

text \<open>\<open>send\<close> of \<open>undefined\<close> or of bytes; text and JSON bodies are the concern of other writers.\<close>

definition send :: "byte list option \<Rightarrow> web_response \<Rightarrow> web_response" where
  "send body r =
     (if wr_finalized r then r\<lparr>wr_committed := True\<rparr>
      else (case body of
              None \<Rightarrow> r\<lparr>wr_body := Some [], wr_committed := True\<rparr>
            | Some bytes \<Rightarrow>
                (let r1 = (if hasHeader (wr_headers r) ''content-type'' then r
                           else setHeader ''Content-Type'' ''application/octet-stream'' r)
                 in r1\<lparr>wr_body := Some bytes, wr_committed := True\<rparr>)))"

definition redirect :: "nat \<Rightarrow> string \<Rightarrow> web_response \<Rightarrow> web_response" where
  "redirect status location r = send None (setHeader ''Location'' location (setStatus status r))"

text \<open>The stream: the first operation activates it, which finalizes the response; writes after the close are dropped.\<close>

definition stream_activate :: "web_response \<Rightarrow> web_response" where
  "stream_activate r = r\<lparr>wr_streamActive := True, wr_finalized := True, wr_committed := True\<rparr>"

definition stream_write :: "byte list \<Rightarrow> web_response \<Rightarrow> bool \<times> web_response" where
  "stream_write chunk r =
     (let r1 = stream_activate r
      in if wr_streamClosed r1 then (False, r1) else (True, r1\<lparr>wr_stream := wr_stream r1 @ [chunk]\<rparr>))"

definition stream_close :: "web_response \<Rightarrow> web_response" where
  "stream_close r = (stream_activate r)\<lparr>wr_streamClosed := True\<rparr>"

definition isResponseBodyForbidden :: "nat \<Rightarrow> bool" where
  "isResponseBodyForbidden status \<longleftrightarrow> status = 204 \<or> status = 205 \<or> status = 304"

text \<open>What the platform sends: status, headers, body.\<close>

definition toResponse :: "web_response \<Rightarrow> nat \<times> response_headers \<times> byte list" where
  "toResponse r =
     (let status = (case wr_statusCode r of None \<Rightarrow> 200 | Some s \<Rightarrow> s)
      in (status, wr_headers r,
          if wr_streamActive r then concat (wr_stream r)
          else if isResponseBodyForbidden status then []
          else (case wr_body r of None \<Rightarrow> [] | Some b \<Rightarrow> b)))"

section \<open>The contract of header writes\<close>

definition get_header :: "response_headers \<Rightarrow> string \<Rightarrow> string list option" where
  "get_header headers name = map_option snd (find (\<lambda>(key, v). js_lower key = js_lower name) headers)"

locale header_facade =
  fixes put :: "'h \<Rightarrow> string \<Rightarrow> string list \<Rightarrow> 'h"
    and look :: "'h \<Rightarrow> string \<Rightarrow> string list option"
  assumes look_same: "js_lower name = js_lower name' \<Longrightarrow> js_lower name \<noteq> ''set-cookie'' \<Longrightarrow> look (put h name v) name' = Some v"
    and look_cookie: "js_lower name = ''set-cookie'' \<Longrightarrow> js_lower name' = ''set-cookie'' \<Longrightarrow>
      look (put h name v) name' = Some ((case look h name' of None \<Rightarrow> [] | Some vs \<Rightarrow> vs) @ v)"
    and look_other: "js_lower name \<noteq> js_lower name' \<Longrightarrow> look (put h name v) name' = look h name'"
begin

lemma look_put:
  "look (put h name v) name' =
     (if js_lower name \<noteq> js_lower name' then look h name'
      else if js_lower name = ''set-cookie'' then Some ((case look h name' of None \<Rightarrow> [] | Some vs \<Rightarrow> vs) @ v)
      else Some v)"
  using look_same look_cookie look_other by simp

text \<open>Independent writes commute for every reader, and rewriting a header overrides it.\<close>

lemma look_commute:
  "js_lower a \<noteq> js_lower b \<Longrightarrow> look (put (put h a v) b w) name = look (put (put h b w) a v) name"
  by (auto simp: look_put)

lemma look_override: "js_lower a \<noteq> ''set-cookie'' \<Longrightarrow> look (put (put h a v) a w) name = look (put h a w) name"
  by (simp add: look_put)

end

lemma find_map_key:
  "find (\<lambda>(key, v). P key) (map (\<lambda>(k', v'). if k' = k then (k, f v') else (k', v')) m) =
     map_option (\<lambda>(k', v'). if k' = k then (k, f v') else (k', v')) (find (\<lambda>(key, v). P key) m)"
  by (induction m) (simp_all add: case_prod_beta')

lemma find_keys: "find P (js_keys m) = map_option fst (find (\<lambda>(key, v). P key) m)"
  by (induction m) (auto simp: js_keys_def)

lemma find_first_key:
  assumes "find (\<lambda>(key, v). P key) m = Some (k, w)"
  shows "P k" "js_has m k" "js_get m k = Some w"
  using assms by (induction m) (auto simp: js_has_def js_get_def split: if_splits)

lemma js_set_has: "js_has m k \<Longrightarrow> js_set m k v = map (\<lambda>(k', v'). if k' = k then (k, (\<lambda>_. v) v') else (k', v')) m"
  by (simp add: js_set_def)

text \<open>A write under an existing name, and under a new one.\<close>

lemma put_existing:
  assumes "find (\<lambda>(key, v). js_lower key = js_lower name) h = Some (k, w)"
  shows "put_header h name v = js_set h k (if js_lower name = ''set-cookie'' then w @ v else v)"
    and "get_header (js_set h k v) name' = (if js_lower name = js_lower name' then Some v else get_header h name')"
proof -
  have "findHeaderName h name = Some k"
    using assms by (simp add: findHeaderName_def find_keys)
  then show "put_header h name v = js_set h k (if js_lower name = ''set-cookie'' then w @ v else v)"
    using find_first_key(3) [OF assms] by (simp add: put_header_def Let_def mergeSetCookieHeader_def)
  have k: "js_lower k = js_lower name" "js_has h k"
    using find_first_key(1, 2) [OF assms] by simp_all
  show "get_header (js_set h k v) name' = (if js_lower name = js_lower name' then Some v else get_header h name')"
  proof (cases "js_lower name = js_lower name'")
    case True
    then show ?thesis
      using assms k by (simp add: get_header_def js_set_has find_map_key)
  next
    case False
    then have "fst e \<noteq> k" if "find (\<lambda>(key, v). js_lower key = js_lower name') h = Some e" for e
      using that k find_first_key(1) [of "\<lambda>key. js_lower key = js_lower name'" h "fst e" "snd e"] by auto
    then show ?thesis
      using False k by (cases "find (\<lambda>(key, v). js_lower key = js_lower name') h")
        (auto simp: get_header_def js_set_has find_map_key)
  qed
qed

lemma put_new:
  assumes "find (\<lambda>(key, v). js_lower key = js_lower name) h = None"
  shows "put_header h name v = h @ [(name, v)]"
    and "get_header (h @ [(name, v)]) name' = (if js_lower name = js_lower name' then Some v else get_header h name')"
proof -
  have "name \<notin> fst ` set h"
    using assms by (auto simp: find_None_iff)
  moreover from this have "js_get h name = None"
    by (simp add: js_get_def map_of_eq_None_iff)
  ultimately show "put_header h name v = h @ [(name, v)]"
    using assms by (simp add: put_header_def Let_def findHeaderName_def find_keys mergeSetCookieHeader_def js_set_def js_has_def)
  show "get_header (h @ [(name, v)]) name' = (if js_lower name = js_lower name' then Some v else get_header h name')"
    using assms by (auto simp: get_header_def find_append split: option.splits)
qed

lemma get_put_header:
  "get_header (put_header h name v) name' =
     (if js_lower name \<noteq> js_lower name' then get_header h name'
      else Some (if js_lower name = ''set-cookie'' then (case get_header h name' of None \<Rightarrow> [] | Some vs \<Rightarrow> vs) @ v else v))"
proof (cases "find (\<lambda>(key, v). js_lower key = js_lower name) h")
  case None
  then have "js_lower name = js_lower name' \<Longrightarrow> get_header h name' = None"
    by (simp add: get_header_def)
  with None show ?thesis
    by (simp add: put_new)
next
  case (Some e)
  then have e: "find (\<lambda>(key, v). js_lower key = js_lower name) h = Some (fst e, snd e)"
    by simp
  then have "js_lower name = js_lower name' \<Longrightarrow> get_header h name' = Some (snd e)"
    by (simp add: get_header_def)
  with e show ?thesis
    by (simp add: put_existing [OF e])
qed

interpretation web: header_facade put_header get_header
  by unfold_locales (simp_all add: get_put_header)

lemma has_header_iff: "hasHeader h name \<longleftrightarrow> get_header h name \<noteq> None"
  by (simp add: hasHeader_def findHeaderName_def find_keys get_header_def)

section \<open>The \<open>Vary\<close> merge\<close>

text \<open>Lookups in the headers after the \<open>Vary\<close> merge.\<close>

lemma get_header_filter:
  assumes "\<And>k. js_lower k = js_lower name \<Longrightarrow> P k"
  shows "get_header h name = get_header (filter (\<lambda>(k, v). P k) h) name"
  using assms by (induction h) (auto simp: get_header_def)

lemma get_after_vary:
  assumes "js_lower name \<noteq> ''vary''"
  shows "get_header (appendVaryHeader added h) name = get_header h name"
proof -
  have "get_header (put_vary v h) name = get_header h name" for v
    using get_header_filter [of name "\<lambda>n. \<not> is_vary n" h] get_header_filter [of name "\<lambda>n. \<not> is_vary n" "put_vary v h"]
      assms others_after_put [of v h] by (simp add: is_vary_def)
  then show ?thesis
    by (simp add: append_vary_put Let_def)
qed

definition varies_on :: "string \<Rightarrow> response_headers \<Rightarrow> bool" where
  "varies_on field headers =
     (case get_header headers ''vary'' of
        Some [v] \<Rightarrow> js_lower field \<in> js_lower ` set (parseHeaderTokens [v]) \<or> ''*'' \<in> set (parseHeaderTokens [v])
      | _ \<Rightarrow> False)"

lemma varies_after_append:
  assumes "js_ok h" "parseHeaderTokens [field] = [field]"
  shows "varies_on field (appendVaryHeader [field] h)"
proof -
  define merged where "merged = vary_tokens h @ parseHeaderTokens [field]"
  have "merged \<noteq> []" "field \<in> set merged"
    using assms(2) by (simp_all add: merged_def)
  then obtain s where s: "appendVaryHeader [field] h = put_vary [s] h"
      "parseHeaderTokens [s] = (if ''*'' \<in> set merged then [''*''] else dedupe_tokens [] merged)"
    using append_vary_cases [OF assms(1) merged_def] by blast
  have "js_lower ''vary'' = ''vary''"
    by code_simp
  then have "get_header (put_vary [s] h) ''vary'' = Some [s]"
    using get_header_filter [of "''vary''" is_vary "put_vary [s] h"] vary_after_put [OF assms(1), of "[s]"] is_vary_name [of h]
    by (simp add: is_vary_def get_header_def)
  moreover have "js_lower field \<in> js_lower ` set (dedupe_tokens [] merged)"
    using \<open>field \<in> set merged\<close> dedupe_spec [of "[]" merged] by auto
  ultimately show ?thesis
    using s by (auto simp: varies_on_def)
qed

lemma varies_cong: "get_header h ''vary'' = get_header h' ''vary'' \<Longrightarrow> varies_on field h = varies_on field h'"
  by (simp add: varies_on_def)

end
