(* ===== verification/Conditional_Request.thy ===== *)
theory Conditional_Request
  imports Http_Date Web_Response
begin

text \<open>
  \<open>packages/http/src/dispatch/conditional-request-policy.ts\<close>: entity tags, the parser of
  \<open>If-Match\<close> and \<open>If-None-Match\<close>, the precedence of the four conditional fields, \<open>If-Range\<close>, and the
  responses \<open>304\<close> and \<open>412\<close>.  The year that expands two-digit dates is an argument.
\<close>

section \<open>Entity tags\<close>

datatype entity_tag_strength = StrongTag | WeakTag

record entity_tag =
  opaqueValue :: string
  tag_strength :: entity_tag_strength

datatype parsed_tags = InvalidTags | AnyTag | TagList "entity_tag list"

definition formatEntityTag :: "entity_tag \<Rightarrow> string" where
  "formatEntityTag tag = (if tag_strength tag = WeakTag then ''W/'' else []) @ CHR 0x22 # opaqueValue tag @ [CHR 0x22]"

definition isOptionalWhitespace :: "char \<Rightarrow> bool" where
  "isOptionalWhitespace c \<longleftrightarrow> c = CHR '' '' \<or> c = CHR 0x09"

definition isEntityTagCharacter :: "char \<Rightarrow> bool" where
  "isEntityTagCharacter c \<longleftrightarrow>
     (let code = of_char c :: nat in code = 0x21 \<or> 0x23 \<le> code \<and> code \<le> 0x7E \<or> 0x80 \<le> code \<and> code \<le> 0xFF)"

definition isValidEntityTag :: "entity_tag \<Rightarrow> bool" where
  "isValidEntityTag tag \<longleftrightarrow> list_all isEntityTagCharacter (opaqueValue tag)"

definition skip_ows :: "string \<Rightarrow> string" where
  "skip_ows s = dropWhile isOptionalWhitespace s"

text \<open>The characters up to the closing quote, and what follows it.\<close>

fun read_opaque :: "string \<Rightarrow> (string \<times> string) option" where
  "read_opaque [] = None"
| "read_opaque (c # s) =
     (if c = CHR 0x22 then Some ([], s)
      else if \<not> isEntityTagCharacter c then None
      else map_option (\<lambda>(opaque, rest). (c # opaque, rest)) (read_opaque s))"

lemma read_opaque_length: "read_opaque s = Some (opaque, rest) \<Longrightarrow> length rest < length s"
  by (induction s arbitrary: opaque) (auto split: if_splits)

text \<open>One tag at the front of the text, and what follows it.\<close>

definition read_tag :: "string \<Rightarrow> (entity_tag \<times> string) option" where
  "read_tag s =
     (let weak = starts_with ''W/'' s
      in case (if weak then drop 2 s else s) of
           [] \<Rightarrow> None
         | c # s2 \<Rightarrow>
             if c \<noteq> CHR 0x22 then None
             else map_option (\<lambda>(opaque, rest). (\<lparr>opaqueValue = opaque, tag_strength = if weak then WeakTag else StrongTag\<rparr>, rest))
                    (read_opaque s2))"

lemma read_tag_length: "read_tag s = Some (tag, rest) \<Longrightarrow> length rest < length s"
proof -
  assume "read_tag s = Some (tag, rest)"
  then obtain s2 opaque where "(if starts_with ''W/'' s then drop 2 s else s) = CHR 0x22 # s2" "read_opaque s2 = Some (opaque, rest)"
    by (auto simp: read_tag_def Let_def split: list.splits if_splits)
  moreover from this(1) [THEN arg_cong, of length] have "length s2 < length s"
    by (simp split: if_splits)
  ultimately show ?thesis
    using read_opaque_length [of s2 opaque rest] by linarith
qed

function parse_tags :: "string \<Rightarrow> entity_tag list \<Rightarrow> parsed_tags" where
  "parse_tags s tags =
     (case read_tag s of
        None \<Rightarrow> InvalidTags
      | Some (tag, r) \<Rightarrow>
          (case skip_ows r of
             [] \<Rightarrow> TagList (tags @ [tag])
           | c # r2 \<Rightarrow>
               if c \<noteq> CHR '','' then InvalidTags
               else if skip_ows r2 = [] then InvalidTags
               else parse_tags (skip_ows r2) (tags @ [tag])))"
  by auto
termination
proof (relation "measure (\<lambda>(s, tags). length s)")
  fix s :: string and tags :: "entity_tag list" and p tag r c r2
  assume "read_tag s = Some p" "(tag, r) = p" "skip_ows r = c # r2"
  then have "length r < length s" "length r2 < length r"
    using read_tag_length [of s tag r] length_dropWhile_le [of isOptionalWhitespace r] by (auto simp: skip_ows_def)
  then show "((skip_ows r2, tags @ [tag]), s, tags) \<in> measure (\<lambda>(s, tags). length s)"
    using length_dropWhile_le [of isOptionalWhitespace r2] by (simp add: skip_ows_def)
qed simp

declare parse_tags.simps [simp del]

definition parseEntityTagList :: "string \<Rightarrow> parsed_tags" where
  "parseEntityTagList s =
     (case skip_ows s of
        [] \<Rightarrow> InvalidTags
      | c # r \<Rightarrow>
          if c = CHR ''*'' then (if skip_ows r = [] then AnyTag else InvalidTags)
          else parse_tags (c # r) [])"

definition matchesEntityTag :: "parsed_tags \<Rightarrow> entity_tag option \<Rightarrow> entity_tag_strength \<Rightarrow> bool \<Rightarrow> bool" where
  "matchesEntityTag parsed current comparison resourceExists =
     (case parsed of
        AnyTag \<Rightarrow> resourceExists
      | InvalidTags \<Rightarrow> False
      | TagList tags \<Rightarrow>
          (case current of
             None \<Rightarrow> False
           | Some tag \<Rightarrow>
               isValidEntityTag tag \<and>
               list_ex (\<lambda>requested. opaqueValue requested = opaqueValue tag \<and>
                 (comparison = WeakTag \<or> tag_strength requested = StrongTag \<and> tag_strength tag = StrongTag)) tags))"

section \<open>Validators and conditional fields\<close>

text \<open>A date is a time in milliseconds, or invalid.\<close>

record response_validators =
  rv_etag :: "entity_tag option"
  rv_lastModified :: "int option option"

definition normalizeLastModified :: "int option option \<Rightarrow> int option" where
  "normalizeLastModified lastModified =
     (case lastModified of Some (Some t) \<Rightarrow> Some (t div 1000 * 1000) | _ \<Rightarrow> None)"

definition isSafeMethod :: "string \<Rightarrow> bool" where
  "isSafeMethod m \<longleftrightarrow> js_upper m = ''GET'' \<or> js_upper m = ''HEAD''"

definition current_etag :: "response_validators option \<Rightarrow> entity_tag option" where
  "current_etag validators = Option.bind validators rv_etag"

definition current_modified :: "response_validators option \<Rightarrow> int option" where
  "current_modified validators = normalizeLastModified (Option.bind validators rv_lastModified)"

definition header_date :: "int \<Rightarrow> http_request \<Rightarrow> string \<Rightarrow> int option" where
  "header_date year request name = parseHttpDate (readFirstNonEmptyRequestHeaderValue request name) year"

definition matchesIfRange :: "int \<Rightarrow> http_request \<Rightarrow> response_validators option \<Rightarrow> bool" where
  "matchesIfRange year request validators =
     (case readFirstNonEmptyRequestHeaderValue request ''if-range'' of
        None \<Rightarrow> True
      | Some ifRange \<Rightarrow>
          (case parseEntityTagList ifRange of
             TagList [tag] \<Rightarrow>
               tag_strength tag = StrongTag \<and>
               (case current_etag validators of
                  None \<Rightarrow> False
                | Some current \<Rightarrow> tag_strength current = StrongTag \<and> opaqueValue tag = opaqueValue current)
           | _ \<Rightarrow>
               (case (parseHttpDate (Some ifRange) year, current_modified validators) of
                  (Some date, Some modified) \<Rightarrow> modified \<le> date
                | _ \<Rightarrow> False)))"

datatype outcome = NotModified | PreconditionFailed | Proceed

text \<open>The selected representation: absent, or there with optional validators.\<close>

datatype resolution = Absent | Present "response_validators option"

definition resolution_exists :: "resolution \<Rightarrow> bool" where
  "resolution_exists r = (case r of Absent \<Rightarrow> False | Present _ \<Rightarrow> True)"

definition resolution_validators :: "resolution \<Rightarrow> response_validators option" where
  "resolution_validators r = (case r of Absent \<Rightarrow> None | Present v \<Rightarrow> v)"

definition header_tags :: "http_request \<Rightarrow> string \<Rightarrow> parsed_tags" where
  "header_tags request name =
     parseEntityTagList (case readFirstNonEmptyRequestHeaderValue request name of None \<Rightarrow> [] | Some v \<Rightarrow> v)"

definition resolveConditionalRequestRepresentation ::
  "int \<Rightarrow> http_request \<Rightarrow> resolution \<Rightarrow> outcome \<times> response_validators option" where
  "resolveConditionalRequestRepresentation year request resolution =
     (let validators = resolution_validators resolution;
          present = resolution_exists resolution;
          ifMatch = header_tags request ''if-match'';
          failed = (if ifMatch \<noteq> InvalidTags
                    then \<not> matchesEntityTag ifMatch (current_etag validators) StrongTag present
                    else (case (header_date year request ''if-unmodified-since'', current_modified validators) of
                            (Some since, Some modified) \<Rightarrow> modified > since
                          | _ \<Rightarrow> False))
      in if failed then (PreconditionFailed, validators)
         else (let ifNoneMatch = header_tags request ''if-none-match''
               in if ifNoneMatch \<noteq> InvalidTags
                  then (if matchesEntityTag ifNoneMatch (current_etag validators) WeakTag present
                        then (if isSafeMethod (hr_method request) then NotModified else PreconditionFailed, validators)
                        else (Proceed, validators))
                  else (case (header_date year request ''if-modified-since'', current_modified validators) of
                          (Some since, Some modified) \<Rightarrow>
                            if isSafeMethod (hr_method request) \<and> modified \<le> since then (NotModified, validators)
                            else (Proceed, validators)
                        | _ \<Rightarrow> (Proceed, validators))))"

text \<open>The application's resolver is an argument: it maps the matched request to its representation.\<close>

definition resolveConditionalRequest :: "(http_request \<Rightarrow> resolution) \<Rightarrow> int \<Rightarrow> http_request \<Rightarrow> outcome \<times> response_validators option" where
  "resolveConditionalRequest resolver year request = resolveConditionalRequestRepresentation year request (resolver request)"

section \<open>Writing the outcome\<close>

definition applyResponseValidators :: "response_validators option \<Rightarrow> web_response \<Rightarrow> web_response" where
  "applyResponseValidators validators r =
     (let r1 = (case current_etag validators of
                  Some tag \<Rightarrow> if isValidEntityTag tag then setHeader ''ETag'' (formatEntityTag tag) r else r
                | None \<Rightarrow> r)
      in case current_modified validators of
           Some t \<Rightarrow> setHeader ''Last-Modified'' (to_utc_string t) r1
         | None \<Rightarrow> r1)"

definition writeConditionalResponse :: "outcome \<Rightarrow> response_validators option \<Rightarrow> web_response \<Rightarrow> web_response" where
  "writeConditionalResponse outcome validators r =
     send None (setStatus (if outcome = NotModified then 304 else 412) (applyResponseValidators validators r))"

section \<open>Entity tags survive printing\<close>

lemma quote_no_tag_char: "isEntityTagCharacter c \<Longrightarrow> c \<noteq> CHR 0x22"
  by (auto simp: isEntityTagCharacter_def)

lemma read_opaque_valid: "list_all isEntityTagCharacter s \<Longrightarrow> read_opaque (s @ CHR 0x22 # rest) = Some (s, rest)"
  by (induction s) (auto dest: quote_no_tag_char)

lemma read_tag_format: "isValidEntityTag tag \<Longrightarrow> read_tag (formatEntityTag tag @ rest) = Some (tag, rest)"
  by (cases tag; cases "tag_strength tag")
    (auto simp: read_tag_def formatEntityTag_def isValidEntityTag_def starts_with_def Let_def read_opaque_valid)

lemma format_not_Nil: "formatEntityTag tag \<noteq> []"
  by (simp add: formatEntityTag_def)

lemma format_first: "formatEntityTag tag = c # s \<Longrightarrow> \<not> isOptionalWhitespace c \<and> c \<noteq> CHR ''*'' \<and> \<not> is_space c"
  by (auto simp: formatEntityTag_def isOptionalWhitespace_def is_space_def split: if_splits)

lemma skip_format [simp]: "skip_ows (formatEntityTag tag @ s) = formatEntityTag tag @ s"
  using format_first [of tag] by (cases "formatEntityTag tag") (simp_all add: format_not_Nil skip_ows_def)

text \<open>Lists of tags as clients send them, separated by a comma and optional white space.\<close>

fun print_tags :: "string \<Rightarrow> entity_tag list \<Rightarrow> string" where
  "print_tags sep [] = []"
| "print_tags sep [tag] = formatEntityTag tag"
| "print_tags sep (tag # tags) = formatEntityTag tag @ sep @ print_tags sep tags"

definition tag_separator :: "string \<Rightarrow> bool" where
  "tag_separator sep \<longleftrightarrow> (\<exists>a b. sep = a @ CHR '','' # b \<and> list_all isOptionalWhitespace a \<and> list_all isOptionalWhitespace b)"

lemma skip_ows_prefix: "list_all isOptionalWhitespace a \<Longrightarrow> skip_ows (a @ s) = skip_ows s"
  by (induction a) (simp_all add: skip_ows_def)

lemma print_tags_first: "tags \<noteq> [] \<Longrightarrow> \<exists>tag rest. print_tags sep tags = formatEntityTag tag @ rest"
  by (cases "(sep, tags)" rule: print_tags.cases) auto

lemma parse_print_tags:
  "tags \<noteq> [] \<Longrightarrow> list_all isValidEntityTag tags \<Longrightarrow> tag_separator sep \<Longrightarrow> parse_tags (print_tags sep tags) acc = TagList (acc @ tags)"
proof (induction sep tags arbitrary: acc rule: print_tags.induct)
  case (2 sep tag)
  then show ?case
    using read_tag_format [of tag "[]"] by (simp add: parse_tags.simps [of "formatEntityTag tag"] skip_ows_def)
next
  case (3 sep tag t tags)
  obtain a b where sep: "sep = a @ CHR '','' # b" "list_all isOptionalWhitespace a" "list_all isOptionalWhitespace b"
    using 3 by (auto simp: tag_separator_def)
  let ?rest = "print_tags sep (t # tags)"
  obtain u v where rest: "?rest = formatEntityTag u @ v"
    using print_tags_first [of "t # tags" sep] by auto
  have "skip_ows (sep @ ?rest) = CHR '','' # b @ ?rest"
    using sep by (simp add: skip_ows_prefix) (simp add: skip_ows_def isOptionalWhitespace_def)
  moreover have "skip_ows (b @ ?rest) = ?rest" "?rest \<noteq> []"
    unfolding rest using sep by (simp_all add: skip_ows_prefix format_not_Nil)
  moreover have "parse_tags ?rest (acc @ [tag]) = TagList (acc @ tag # t # tags)"
    using 3 by simp
  ultimately show ?case
    using 3 read_tag_format [of tag "sep @ ?rest"] by (simp add: parse_tags.simps [of "formatEntityTag tag @ sep @ ?rest"])
qed simp

lemma parse_tag_list_print:
  assumes "tags \<noteq> []" "list_all isValidEntityTag tags" "tag_separator sep"
  shows "parseEntityTagList (print_tags sep tags) = TagList tags"
proof -
  obtain u v where uv: "print_tags sep tags = formatEntityTag u @ v"
    using print_tags_first [OF assms(1)] by blast
  obtain c s where cs: "formatEntityTag u = c # s"
    using format_not_Nil [of u] by (cases "formatEntityTag u") auto
  have "parseEntityTagList (print_tags sep tags) = parse_tags (print_tags sep tags) []"
    using format_first [OF cs] unfolding parseEntityTagList_def uv cs by (simp add: skip_ows_def)
  with parse_print_tags [OF assms] show ?thesis
    by simp
qed

text \<open>What the parser accepts is valid.\<close>

lemma read_opaque_chars: "read_opaque s = Some (opaque, rest) \<Longrightarrow> list_all isEntityTagCharacter opaque"
  by (induction s arbitrary: opaque) (auto split: if_splits)

lemma read_tag_valid: "read_tag s = Some (tag, rest) \<Longrightarrow> isValidEntityTag tag"
  using read_opaque_chars by (auto simp: read_tag_def Let_def isValidEntityTag_def split: list.splits if_splits)

lemma parse_tags_valid: "parse_tags s acc = TagList tags \<Longrightarrow> list_all isValidEntityTag acc \<Longrightarrow> tags \<noteq> [] \<and> list_all isValidEntityTag tags"
proof (induction s acc rule: parse_tags.induct)
  case (1 s acc)
  from 1(2) [unfolded parse_tags.simps [of s acc]] obtain tag r where tag: "read_tag s = Some (tag, r)"
    by (auto split: option.splits)
  show ?case
  proof (cases "skip_ows r")
    case Nil
    then show ?thesis
      using 1(2) [unfolded parse_tags.simps [of s acc]] 1(3) tag read_tag_valid [OF tag] by auto
  next
    case (Cons c r2)
    then have "c = CHR '',''" "skip_ows r2 \<noteq> []" "parse_tags (skip_ows r2) (acc @ [tag]) = TagList tags"
      using 1(2) [unfolded parse_tags.simps [of s acc]] tag by (simp_all split: if_splits)
    then show ?thesis
      using 1(1) [OF tag refl Cons] 1(3) read_tag_valid [OF tag] by simp
  qed
qed

lemma parse_tag_list_valid: "parseEntityTagList s = TagList tags \<Longrightarrow> tags \<noteq> [] \<and> list_all isValidEntityTag tags"
  by (auto simp: parseEntityTagList_def split: list.splits if_splits dest!: parse_tags_valid)

text \<open>
  Entity-tag lists are read as clients print them: any non-empty list of valid tags, weak or
  strong, separated by commas with optional white space, is parsed back to exactly these tags; and
  whatever text is accepted as a list holds at least one tag and only valid ones, so that printing
  and reading it again gives the same list.
\<close>

theorem entity_tag_list_round_trip:
  "(list_all isValidEntityTag tags \<and> tags \<noteq> [] \<and> tag_separator sep \<longrightarrow> parseEntityTagList (print_tags sep tags) = TagList tags) \<and>
   (parseEntityTagList s = TagList parsed \<longrightarrow> parsed \<noteq> [] \<and> list_all isValidEntityTag parsed \<and> parseEntityTagList (print_tags '','' parsed) = TagList parsed)"
proof -
  have "tag_separator '',''"
    unfolding tag_separator_def by (rule exI [of _ "[]"], rule exI [of _ "[]"]) simp
  then show ?thesis
    using parse_tag_list_print parse_tag_list_valid by blast
qed

theorem entity_tag_list_round_trip_witness:
  "parseEntityTagList (print_tags '', '' [\<lparr>opaqueValue = ''a'', tag_strength = WeakTag\<rparr>, \<lparr>opaqueValue = [], tag_strength = StrongTag\<rparr>]) =
     TagList [\<lparr>opaqueValue = ''a'', tag_strength = WeakTag\<rparr>, \<lparr>opaqueValue = [], tag_strength = StrongTag\<rparr>]"
proof -
  have "tag_separator '', ''"
    unfolding tag_separator_def
    by (rule exI [of _ "[]"], rule exI [of _ "'' ''"]) (simp add: isOptionalWhitespace_def)
  moreover have "list_all isValidEntityTag [\<lparr>opaqueValue = ''a'', tag_strength = WeakTag\<rparr>, \<lparr>opaqueValue = [], tag_strength = StrongTag\<rparr>]"
    by (simp add: isValidEntityTag_def isEntityTagCharacter_def)
  ultimately show ?thesis
    using entity_tag_list_round_trip [of "[\<lparr>opaqueValue = ''a'', tag_strength = WeakTag\<rparr>, \<lparr>opaqueValue = [], tag_strength = StrongTag\<rparr>]" "'', ''"]
    by blast
qed

section \<open>Fields of a request\<close>

lemma js_trim_id: "s \<noteq> [] \<Longrightarrow> \<not> is_space (hd s) \<Longrightarrow> \<not> is_space (last s) \<Longrightarrow> js_trim s = s"
proof -
  assume s: "s \<noteq> []" "\<not> is_space (hd s)" "\<not> is_space (last s)"
  then have "dropWhile is_space s = s" "dropWhile is_space (rev s) = rev s"
    by (simp_all add: dropWhile_eq_self_iff hd_rev)
  then show ?thesis
    by (simp add: js_trim_def)
qed

lemma read_first_header:
  assumes "hr_headers request = (name, [Some text]) # others" "js_lower name = field" "field \<noteq> []" "js_trim field = field" "js_lower field = field"
    and "js_trim text = text" "text \<noteq> []"
  shows "readFirstNonEmptyRequestHeaderValue request field = Some text"
  using assms by (simp add: readFirstNonEmptyRequestHeaderValue_def normalizeHeaderName_def readJoinedNonEmptyHeaderValue_def
      present_values_def Let_def List.map_filter_simps)

lemma read_absent_header:
  assumes "list_all (\<lambda>(name, v). js_lower name \<noteq> js_lower (js_trim field)) (hr_headers request)"
  shows "readFirstNonEmptyRequestHeaderValue request field = None"
proof -
  have "List.map_filter (\<lambda>(h, v). if js_lower h = n then readJoinedNonEmptyHeaderValue v else None) hs = []"
    if "list_all (\<lambda>(name, v). js_lower name \<noteq> n) hs" for hs n
    using that by (induction hs) (auto simp: List.map_filter_simps)
  then show ?thesis
    using assms by (simp add: readFirstNonEmptyRequestHeaderValue_def normalizeHeaderName_def Let_def)
qed

section \<open>Revalidation and conditional updates\<close>

text \<open>The \<open>ETag\<close> and \<open>Last-Modified\<close> of a response written with the given validators.\<close>

definition emitted :: "response_validators \<Rightarrow> string \<Rightarrow> string list option" where
  "emitted v name = get_header (wr_headers (applyResponseValidators (Some v) new_response)) name"

lemma emitted_etag:
  "rv_etag v = Some tag \<Longrightarrow> isValidEntityTag tag \<Longrightarrow> emitted v ''ETag'' = Some [formatEntityTag tag]"
proof -
  have names: "js_lower ''Last-Modified'' \<noteq> js_lower ''ETag''" "js_lower ''ETag'' \<noteq> ''set-cookie''"
    by code_simp+
  assume "rv_etag v = Some tag" "isValidEntityTag tag"
  with names show ?thesis
    by (cases "current_modified (Some v)")
      (simp_all add: emitted_def applyResponseValidators_def current_etag_def Let_def setHeader_def web.look_put)
qed

lemma emitted_last_modified:
  "rv_lastModified v = Some (Some t) \<Longrightarrow> emitted v ''Last-Modified'' = Some [to_utc_string (t div 1000 * 1000)]"
proof -
  have names: "js_lower ''Last-Modified'' \<noteq> ''set-cookie''"
    by code_simp
  assume "rv_lastModified v = Some (Some t)"
  with names show ?thesis
    by (simp add: emitted_def applyResponseValidators_def current_modified_def normalizeLastModified_def Let_def setHeader_def web.look_put)
qed

lemma format_tag_trim: "js_trim (formatEntityTag tag) = formatEntityTag tag"
  by (rule js_trim_id) (auto simp: formatEntityTag_def is_space_def)

lemma read_format_tag: "isValidEntityTag tag \<Longrightarrow> parseEntityTagList (formatEntityTag tag) = TagList [tag]"
proof -
  assume "isValidEntityTag tag"
  moreover have "tag_separator '',''"
    unfolding tag_separator_def by (rule exI [of _ "[]"], rule exI [of _ "[]"]) simp
  ultimately show ?thesis
    using parse_tag_list_print [of "[tag]" "'',''"] by simp
qed

lemma utc_trim: "js_trim (to_utc_string t) = to_utc_string t" "to_utc_string t \<noteq> []"
proof -
  define s where "s = to_utc_string t"
  define day where "day = HTTP_WEEKDAYS ! week_day (t div ms_per_day)"
  have "day \<in> set HTTP_WEEKDAYS"
    using week_day_bound unfolding day_def by (rule nth_mem)
  then have day: "day \<noteq> []" "\<not> is_space (hd day)"
    by (auto simp: HTTP_WEEKDAYS_def is_space_def)
  then have "s \<noteq> []" "hd s = hd day" "last s = CHR ''T''"
    unfolding s_def to_utc_string_def Let_def day_def [symmetric] by (cases "civil (t div ms_per_day)"; simp)+
  with day show "js_trim (to_utc_string t) = to_utc_string t" "to_utc_string t \<noteq> []"
    unfolding s_def [symmetric] by (auto intro!: js_trim_id simp: is_space_def)
qed

text \<open>Requests that carry one conditional field and no stronger one.\<close>

definition lacks_fields :: "string list \<Rightarrow> (string \<times> header_value) list \<Rightarrow> bool" where
  "lacks_fields names headers \<longleftrightarrow> list_all (\<lambda>(name, v). js_lower name \<notin> set names) headers"

lemma lacks_read:
  assumes "lacks_fields names (hr_headers request)" "field \<in> set names" "js_lower (js_trim field) = field"
  shows "readFirstNonEmptyRequestHeaderValue request field = None"
  using assms by (intro read_absent_header) (auto simp: lacks_fields_def list_all_iff)

lemma lacks_tags: "lacks_fields names (hr_headers request) \<Longrightarrow> field \<in> set names \<Longrightarrow> js_lower (js_trim field) = field \<Longrightarrow>
  header_tags request field = InvalidTags"
  by (simp add: header_tags_def lacks_read parseEntityTagList_def skip_ows_def)

lemma lacks_date: "lacks_fields names (hr_headers request) \<Longrightarrow> field \<in> set names \<Longrightarrow> js_lower (js_trim field) = field \<Longrightarrow>
  header_date year request field = None"
  by (simp add: header_date_def lacks_read parseHttpDate_def)

lemma field_names:
  "js_lower ''If-None-Match'' = ''if-none-match''" "js_lower ''If-Modified-Since'' = ''if-modified-since''" "js_lower ''If-Match'' = ''if-match''"
  "js_lower (js_trim ''if-match'') = ''if-match''" "js_lower (js_trim ''if-unmodified-since'') = ''if-unmodified-since''"
  "js_lower (js_trim ''if-none-match'') = ''if-none-match''" "js_lower (js_trim ''if-modified-since'') = ''if-modified-since''"
  by code_simp+

lemma sent_tags:
  assumes "hr_headers request = (name, [Some (formatEntityTag tag)]) # others" "js_lower name = field"
    and "field \<in> {''if-match'', ''if-none-match''}" "isValidEntityTag tag"
  shows "header_tags request field = TagList [tag]"
proof -
  have "js_trim field = field" "js_lower field = field" "field \<noteq> []"
    using assms(3) by (auto; code_simp)+
  then have "readFirstNonEmptyRequestHeaderValue request field = Some (formatEntityTag tag)"
    by (intro read_first_header [OF assms(1, 2)]) (simp_all add: format_not_Nil format_tag_trim)
  then show ?thesis
    by (simp add: header_tags_def read_format_tag assms(4))
qed

lemma sent_date:
  assumes "hr_headers request = (''If-Modified-Since'', [Some (to_utc_string t)]) # others" "1000 dvd t"
    "0 \<le> year_from_day (t div ms_per_day)" "year_from_day (t div ms_per_day) \<le> 9999"
  shows "header_date year request ''if-modified-since'' = Some t"
proof -
  have "js_trim ''if-modified-since'' = ''if-modified-since''" "js_lower ''if-modified-since'' = ''if-modified-since''"
    by code_simp+
  then have "readFirstNonEmptyRequestHeaderValue request ''if-modified-since'' = Some (to_utc_string t)"
    by (intro read_first_header [OF assms(1) field_names(2)]) (simp_all add: utc_trim)
  then show ?thesis
    using render_accepted(2) [OF assms(2-4)] by (simp add: header_date_def)
qed

lemma apply_headers_only: "applyResponseValidators v r = r\<lparr>wr_headers := wr_headers (applyResponseValidators v r)\<rparr>"
  by (auto simp: applyResponseValidators_def Let_def setHeader_def split: option.splits)

lemma not_modified_response:
  "toResponse (writeConditionalResponse NotModified (Some v) new_response) =
     (304, wr_headers (applyResponseValidators (Some v) new_response), [])"
  "get_header (wr_headers (applyResponseValidators (Some v) new_response)) name = emitted v name"
proof -
  obtain h where "applyResponseValidators (Some v) new_response = new_response\<lparr>wr_headers := h\<rparr>"
    using apply_headers_only by blast
  then show "toResponse (writeConditionalResponse NotModified (Some v) new_response) =
     (304, wr_headers (applyResponseValidators (Some v) new_response), [])"
    by (simp add: writeConditionalResponse_def setStatus_def send_def new_response_def toResponse_def isResponseBodyForbidden_def)
qed (simp add: emitted_def)

text \<open>
  C18. Revalidation works end to end.  Let a client repeat a safe request with a validator the server
  printed for the validators \<open>old\<close>, and no stronger condition.  With the printed \<open>ETag\<close> in
  \<open>If-None-Match\<close>, it gets \<open>304\<close> exactly if the current representation has a valid tag of the same
  opaque value, and is dispatched otherwise.  With the printed \<open>Last-Modified\<close> in
  \<open>If-Modified-Since\<close>, it gets \<open>304\<close> exactly if the current representation was not modified in
  a later second.  The \<open>304\<close> response has no body and repeats the current tag.
\<close>

theorem conditional_get_revalidates:
  assumes safe: "isSafeMethod (hr_method request)"
    and lacks: "lacks_fields [''if-match'', ''if-unmodified-since''] (hr_headers request)"
    and old: "rv_etag old = Some old_tag" "isValidEntityTag old_tag" "rv_lastModified old = Some (Some t)"
      "0 \<le> year_from_day (t div ms_per_day)" "year_from_day (t div ms_per_day) \<le> 9999"
    and new: "rv_etag new = Some new_tag" "rv_lastModified new = Some (Some t')"
    and printed: "emitted old ''ETag'' = Some [etag]" "emitted old ''Last-Modified'' = Some [date]"
  shows "(hr_headers request = (''If-None-Match'', [Some etag]) # others \<longrightarrow>
      resolveConditionalRequestRepresentation year request (Present (Some new)) =
        (if isValidEntityTag new_tag \<and> opaqueValue old_tag = opaqueValue new_tag then NotModified else Proceed, Some new)) \<and>
    (hr_headers request = (''If-Modified-Since'', [Some date]) # others \<and> lacks_fields [''if-none-match''] (hr_headers request) \<longrightarrow>
      resolveConditionalRequestRepresentation year request (Present (Some new)) =
        (if t' div 1000 \<le> t div 1000 then NotModified else Proceed, Some new)) \<and>
    (\<exists>h. toResponse (writeConditionalResponse NotModified (Some old) new_response) = (304, h, []) \<and> get_header h ''ETag'' = Some [etag])"
proof (intro conjI impI)
  have etag: "etag = formatEntityTag old_tag" and date: "date = to_utc_string (t div 1000 * 1000)"
    using printed emitted_etag [OF old(1, 2)] emitted_last_modified [OF old(3)] by simp_all
  have weak: "header_tags request ''if-match'' = InvalidTags" "header_date year request ''if-unmodified-since'' = None"
    using lacks field_names by (auto intro: lacks_tags lacks_date)
  note simps = resolveConditionalRequestRepresentation_def Let_def weak resolution_validators_def resolution_exists_def safe new
    matchesEntityTag_def current_etag_def current_modified_def normalizeLastModified_def
  {
    assume "hr_headers request = (''If-None-Match'', [Some etag]) # others"
    then have "header_tags request ''if-none-match'' = TagList [old_tag]"
      using old(2) field_names unfolding etag by (intro sent_tags) auto
    then show "resolveConditionalRequestRepresentation year request (Present (Some new)) =
        (if isValidEntityTag new_tag \<and> opaqueValue old_tag = opaqueValue new_tag then NotModified else Proceed, Some new)"
      by (simp add: simps)
  next
    assume ims: "hr_headers request = (''If-Modified-Since'', [Some date]) # others \<and> lacks_fields [''if-none-match''] (hr_headers request)"
    have "t div 1000 * 1000 div ms_per_day = t div ms_per_day"
      by (simp add: ms_per_day_def zdiv_zmult2_eq [of 86400 t 1000, simplified] zdiv_zmult2_eq [of 86400 "t div 1000 * 1000" 1000, simplified])
    then have "header_date year request ''if-modified-since'' = Some (t div 1000 * 1000)"
      using ims old(4, 5) unfolding date by (intro sent_date) auto
    moreover have "header_tags request ''if-none-match'' = InvalidTags"
      using ims field_names by (auto intro: lacks_tags)
    ultimately show "resolveConditionalRequestRepresentation year request (Present (Some new)) =
        (if t' div 1000 \<le> t div 1000 then NotModified else Proceed, Some new)"
      by (simp add: simps)
  }
  show "\<exists>h. toResponse (writeConditionalResponse NotModified (Some old) new_response) = (304, h, []) \<and> get_header h ''ETag'' = Some [etag]"
    using printed(1) by (simp add: not_modified_response)
qed

text \<open>Concrete validators for the witnesses.\<close>

definition sample_tag :: entity_tag where
  "sample_tag = \<lparr>opaqueValue = ''v1'', tag_strength = StrongTag\<rparr>"

definition sample_validators :: response_validators where
  "sample_validators = \<lparr>rv_etag = Some sample_tag, rv_lastModified = Some (Some 1445412480123)\<rparr>"

definition sample_request :: "string \<Rightarrow> string \<Rightarrow> string \<Rightarrow> http_request" where
  "sample_request m name v = \<lparr>hr_method = m, hr_path = ''/a'', hr_headers = [(name, [Some v])], hr_headExplicitOrGet = False\<rparr>"

lemma sample_facts:
  "isValidEntityTag sample_tag" "rv_etag sample_validators = Some sample_tag"
  "rv_lastModified sample_validators = Some (Some 1445412480123)"
  "0 \<le> year_from_day (1445412480123 div ms_per_day)" "year_from_day (1445412480123 div ms_per_day) \<le> 9999"
  by code_simp+

theorem conditional_get_revalidates_witness:
  "resolveConditionalRequestRepresentation 2025 (sample_request ''get'' ''If-None-Match'' (formatEntityTag sample_tag))
     (Present (Some sample_validators)) = (NotModified, Some sample_validators)"
proof -
  let ?r = "sample_request ''get'' ''If-None-Match'' (formatEntityTag sample_tag)"
  have r: "isSafeMethod (hr_method ?r)" "lacks_fields [''if-match'', ''if-unmodified-since''] (hr_headers ?r)"
    by code_simp+
  show ?thesis
    using conditional_get_revalidates [OF r sample_facts(2, 1, 3, 4, 5) sample_facts(2, 3) emitted_etag [OF sample_facts(2, 1)]
        emitted_last_modified [OF sample_facts(3)], of "[]" 2025] sample_facts(1)
    by (simp add: sample_request_def)
qed

text \<open>
  C19. Conditional updates cannot overwrite a change.  An unsafe request whose \<open>If-Match\<close> carries a
  tag the server printed earlier is dispatched exactly if the current representation exists, its tag
  is valid and strong and equals the strong tag that was sent; in every other case (changed, deleted,
  weak, without validators) it is answered \<open>412\<close>.  With \<open>If-None-Match: *\<close> it is dispatched exactly if
  no representation exists.
\<close>

theorem conditional_update_guarded:
  assumes unsafe: "\<not> isSafeMethod (hr_method request)"
    and old: "rv_etag old = Some old_tag" "isValidEntityTag old_tag" and printed: "emitted old ''ETag'' = Some [etag]"
  shows "(hr_headers request = (''If-Match'', [Some etag]) # others \<and> lacks_fields [''if-none-match''] (hr_headers request) \<longrightarrow>
      fst (resolveConditionalRequestRepresentation year request current) =
        (case current_etag (resolution_validators current) of
           Some tag \<Rightarrow> if isValidEntityTag tag \<and> opaqueValue old_tag = opaqueValue tag \<and> tag_strength old_tag = StrongTag \<and> tag_strength tag = StrongTag
                       then Proceed else PreconditionFailed
         | None \<Rightarrow> PreconditionFailed)) \<and>
    (hr_headers request = (''If-None-Match'', [Some ''*'']) # others \<and> lacks_fields [''if-match'', ''if-unmodified-since''] (hr_headers request) \<longrightarrow>
      fst (resolveConditionalRequestRepresentation year request current) = (if current = Absent then Proceed else PreconditionFailed))"
proof (intro conjI impI)
  have etag: "etag = formatEntityTag old_tag"
    using printed emitted_etag [OF old] by simp
  assume im: "hr_headers request = (''If-Match'', [Some etag]) # others \<and> lacks_fields [''if-none-match''] (hr_headers request)"
  then have "header_tags request ''if-match'' = TagList [old_tag]"
    using old(2) field_names unfolding etag by (intro sent_tags) auto
  moreover have "header_tags request ''if-none-match'' = InvalidTags"
    using im field_names by (auto intro: lacks_tags)
  ultimately show "fst (resolveConditionalRequestRepresentation year request current) =
        (case current_etag (resolution_validators current) of
           Some tag \<Rightarrow> if isValidEntityTag tag \<and> opaqueValue old_tag = opaqueValue tag \<and> tag_strength old_tag = StrongTag \<and> tag_strength tag = StrongTag
                       then Proceed else PreconditionFailed
         | None \<Rightarrow> PreconditionFailed)"
    using unsafe by (auto simp: resolveConditionalRequestRepresentation_def Let_def matchesEntityTag_def split: option.splits)
next
  assume inm: "hr_headers request = (''If-None-Match'', [Some ''*'']) # others \<and> lacks_fields [''if-match'', ''if-unmodified-since''] (hr_headers request)"
  have "readFirstNonEmptyRequestHeaderValue request ''if-none-match'' = Some ''*''"
    by (rule read_first_header [OF conjunct1 [OF inm] field_names(1)]) code_simp+
  moreover have "parseEntityTagList ''*'' = AnyTag"
    by code_simp
  ultimately have "header_tags request ''if-none-match'' = AnyTag"
    by (simp add: header_tags_def)
  moreover have "header_tags request ''if-match'' = InvalidTags" "header_date year request ''if-unmodified-since'' = None"
    using inm field_names by (auto intro: lacks_tags lacks_date)
  ultimately show "fst (resolveConditionalRequestRepresentation year request current) = (if current = Absent then Proceed else PreconditionFailed)"
    using unsafe by (cases current)
      (simp_all add: resolveConditionalRequestRepresentation_def Let_def matchesEntityTag_def resolution_exists_def)
qed

theorem conditional_update_guarded_witness:
  "fst (resolveConditionalRequestRepresentation 2025 (sample_request ''PUT'' ''If-Match'' (formatEntityTag sample_tag)) Absent) = PreconditionFailed"
proof -
  let ?r = "sample_request ''PUT'' ''If-Match'' (formatEntityTag sample_tag)"
  have r: "\<not> isSafeMethod (hr_method ?r)" "lacks_fields [''if-none-match''] (hr_headers ?r)"
    by code_simp+
  show ?thesis
    using conditional_update_guarded [OF r(1) sample_facts(2, 1) emitted_etag [OF sample_facts(2, 1)], of "[]" 2025 Absent] r(2)
    by (simp add: sample_request_def resolution_validators_def current_etag_def)
qed

end
