(* ===== verification/Byte_Range.thy ===== *)
theory Byte_Range
  imports Conditional_Request JS_Number "HOL-Library.Sublist"
begin

text \<open>
  \<open>packages/http/src/byte-range-response.ts\<close>: single byte ranges of a byte or streamed representation.
  A stream is the list of what its awaited steps bring: a chunk, the news that the client is gone, or
  a transport failure; the end of the list is the end of the stream.
\<close>

section \<open>The range\<close>

datatype resolved_range = Full | Partial int int | Unsatisfiable

text \<open>The expression \<open>^bytes=(\d*)-(\d*)$\<close> on the trimmed header: the two digit strings.\<close>

definition parseByteRangeHeader :: "string option \<Rightarrow> (string \<times> string) option" where
  "parseByteRangeHeader header =
     (case header of
        None \<Rightarrow> None
      | Some h \<Rightarrow>
          (let t = js_trim h
           in if h = [] \<or> \<not> starts_with ''bytes='' t then None
              else (let spec = drop 6 t; first = takeWhile is_digit spec; rest = dropWhile is_digit spec
                    in case rest of
                         [] \<Rightarrow> None
                       | c # end \<Rightarrow> if c = CHR ''-'' \<and> list_all is_digit end \<and> length first + length end > 0 then Some (first, end) else None)))"

definition is_safe_integer :: "nat \<Rightarrow> bool" where
  "is_safe_integer n \<longleftrightarrow> int n \<le> max_safe_integer"

definition resolveByteRange :: "string option \<Rightarrow> int \<Rightarrow> bool \<Rightarrow> resolved_range" where
  "resolveByteRange header bytes ifRangeMatches =
     (case parseByteRangeHeader header of
        None \<Rightarrow> Full
      | Some (startText, endText) \<Rightarrow>
          if \<not> ifRangeMatches then Full
          else if startText = [] then
            (let suffixLength = read_nat endText
             in if \<not> is_safe_integer suffixLength \<or> suffixLength \<le> 0 \<or> bytes = 0 then Unsatisfiable
                else Partial (max (bytes - int suffixLength) 0) (bytes - 1))
          else (let start = read_nat startText
                in if \<not> is_safe_integer start \<or> int start \<ge> bytes then Unsatisfiable
                   else if endText = [] then Partial (int start) (bytes - 1)
                   else (let requestedEnd = read_nat endText
                         in if \<not> is_safe_integer requestedEnd \<or> requestedEnd < start then Unsatisfiable
                            else Partial (int start) (min (int requestedEnd) (bytes - 1)))))"

definition isByteRangeRequestMethod :: "string \<Rightarrow> bool" where
  "isByteRangeRequestMethod m \<longleftrightarrow> js_upper m = ''GET'' \<or> js_upper m = ''HEAD''"

definition shouldApplyByteRange :: "int \<Rightarrow> http_request \<Rightarrow> response_validators option \<Rightarrow> bool" where
  "shouldApplyByteRange year request validators \<longleftrightarrow>
     isByteRangeRequestMethod (hr_method request) \<and>
     parseByteRangeHeader (readFirstNonEmptyRequestHeaderValue request ''range'') \<noteq> None \<and>
     matchesIfRange year request validators"

section \<open>The representation\<close>

datatype stream_event = Chunk "byte list" | Stopped | Failed

datatype byte_source =
    ArrayBuffer "byte list"
  | Uint8Array "byte list"
  | ReadableStream "stream_event list"
  | StreamFactory "stream_event list option"

record range_entry =
  re_contentType :: string
  re_size :: int
  re_source :: byte_source

definition toBytes :: "byte_source \<Rightarrow> byte list option" where
  "toBytes source = (case source of Uint8Array bs \<Rightarrow> Some bs | ArrayBuffer bs \<Rightarrow> Some bs | _ \<Rightarrow> None)"

text \<open>A factory may return something that is not a stream.\<close>

definition openByteRangeStream :: "byte_source \<Rightarrow> stream_event list option" where
  "openByteRangeStream source = (case source of ReadableStream es \<Rightarrow> Some es | StreamFactory es \<Rightarrow> es | _ \<Rightarrow> None)"

datatype range_error = SizeRequired | NoStream | AdapterCannotStream | TransportFailure

definition createByteRangeResponse :: "byte_source \<Rightarrow> string option \<Rightarrow> js_number option \<Rightarrow> range_error + range_entry" where
  "createByteRangeResponse source contentType stated =
     (case (case toBytes source of Some bs \<Rightarrow> Some (int (length bs)) | None \<Rightarrow> Option.bind stated as_integer) of
        None \<Rightarrow> Inl SizeRequired
      | Some n \<Rightarrow>
          if n < 0 \<or> n > max_safe_integer then Inl SizeRequired
          else Inr \<lparr>re_contentType = (case contentType of None \<Rightarrow> ''application/octet-stream'' | Some t \<Rightarrow> t),
                     re_size = n, re_source = source\<rparr>)"

section \<open>Writing\<close>

text \<open>
  The loop over the chunks: what precedes the range is skipped, what follows it is not read, and the
  client's going away or a transport failure ends it.
\<close>

fun write_chunks :: "int \<Rightarrow> int \<Rightarrow> stream_event list \<Rightarrow> web_response \<Rightarrow> web_response \<times> bool" where
  "write_chunks skip remaining [] r = (r, False)"
| "write_chunks skip remaining (e # es) r =
     (if remaining \<le> 0 \<or> wr_streamClosed r then (r, False)
      else (case e of
              Stopped \<Rightarrow> (r, False)
            | Failed \<Rightarrow> (r, True)
            | Chunk v \<Rightarrow>
                if skip \<ge> int (length v) then write_chunks (skip - int (length v)) remaining es r
                else (let chunkEnd = min (int (length v)) (skip + remaining);
                          chunk = take (nat (chunkEnd - skip)) (drop (nat skip) v)
                      in write_chunks 0 (remaining - int (length chunk)) es
                           (if chunk = [] then r else snd (stream_write chunk r)))))"

definition writeReadableStream :: "stream_event list \<Rightarrow> int \<Rightarrow> int \<Rightarrow> web_response \<Rightarrow> range_error option \<times> web_response" where
  "writeReadableStream es start end r =
     (let (r1, failed) = write_chunks start (end - start + 1) es r
      in (if failed then Some TransportFailure else None,
          if wr_streamClosed r1 \<or> failed then r1 else stream_close r1))"

definition range_headers :: "bool \<Rightarrow> string \<Rightarrow> web_response \<Rightarrow> web_response" where
  "range_headers acceptsByteRange contentType r =
     (let r1 = (if acceptsByteRange then setHeader ''Accept-Ranges'' ''bytes'' r else r)
      in if hasHeader (wr_headers r1) ''content-type'' then r1 else setHeader ''Content-Type'' contentType r1)"

text \<open>
  \<open>metadata\<close> is the dispatcher's \<open>applySuccessResponseMetadata\<close>; the Web adapter always has a stream.
\<close>

definition writeByteRangeResponse ::
  "int \<Rightarrow> (web_response \<Rightarrow> web_response) \<Rightarrow> range_entry \<Rightarrow> http_request \<Rightarrow> response_validators option \<Rightarrow> web_response \<Rightarrow>
   range_error option \<times> web_response" where
  "writeByteRangeResponse year metadata entry request validators r =
     (if wr_committed r then (None, r)
      else
        (let accepts = isByteRangeRequestMethod (hr_method request);
             range = resolveByteRange (if accepts then readFirstNonEmptyRequestHeaderValue request ''range'' else None)
                       (re_size entry) (accepts \<and> matchesIfRange year request validators);
             isHead = (js_upper (hr_method request) = ''HEAD'');
             bytes = toBytes (re_source entry)
         in if range = Unsatisfiable then
              (None, send None
                 (setHeader ''Content-Range'' (''bytes */'' @ show_int (re_size entry))
                   (setHeader ''Content-Length'' ''0''
                     (setStatus 416 (range_headers accepts (re_contentType entry) (metadata r))))))
            else if \<not> isHead \<and> bytes = None \<and> openByteRangeStream (re_source entry) = None then (Some NoStream, r)
            else
              (let r1 = range_headers accepts (re_contentType entry) (metadata r);
                   r2 = (case range of
                           Partial start end \<Rightarrow>
                             setHeader ''Content-Range'' (''bytes '' @ show_int start @ ''-'' @ show_int end @ ''/'' @ show_int (re_size entry))
                               (setHeader ''Content-Length'' (show_int (end - start + 1)) (setStatus 206 r1))
                         | _ \<Rightarrow> setHeader ''Content-Length'' (show_int (re_size entry)) r1)
               in if isHead then (None, send None r2)
                  else (case bytes of
                          Some bs \<Rightarrow>
                            (None, send (Some (case range of Partial start end \<Rightarrow> take (nat (end + 1 - start)) (drop (nat start) bs) | _ \<Rightarrow> bs)) r2)
                        | None \<Rightarrow>
                            (case openByteRangeStream (re_source entry) of
                               None \<Rightarrow> (Some NoStream, r2)
                             | Some es \<Rightarrow>
                                 (case range of
                                    Partial start end \<Rightarrow> writeReadableStream es start end (r2\<lparr>wr_committed := True\<rparr>)
                                  | _ \<Rightarrow> writeReadableStream es 0 (re_size entry - 1) (r2\<lparr>wr_committed := True\<rparr>)))))))"

section \<open>The range is the one that was asked for\<close>

text \<open>The positions a pair of digit strings asks for (RFC 9110, 14.1.2).\<close>

definition asked :: "string \<Rightarrow> string \<Rightarrow> int \<Rightarrow> int \<Rightarrow> bool" where
  "asked fst_pos lst_pos bytes i \<longleftrightarrow>
     0 \<le> i \<and> i < bytes \<and>
     (if fst_pos = [] then bytes - int (read_nat lst_pos) \<le> i
      else int (read_nat fst_pos) \<le> i \<and> (lst_pos = [] \<or> i \<le> int (read_nat lst_pos)))"

lemma resolve_partial_bounds: "0 \<le> n \<Longrightarrow> resolveByteRange h n b = Partial s e \<Longrightarrow> 0 \<le> s \<and> s \<le> e \<and> e < n"
  by (auto simp: resolveByteRange_def Let_def max_def split: option.splits prod.splits if_splits)

lemma resolve_full: "0 \<le> n \<Longrightarrow> resolveByteRange h n b = Full \<longleftrightarrow> \<not> b \<or> parseByteRangeHeader h = None"
  by (auto simp: resolveByteRange_def Let_def split: option.splits prod.splits if_splits)

lemma resolve_safe:
  assumes "parseByteRangeHeader h = Some (fst_pos, lst_pos)" "is_safe_integer (read_nat fst_pos)" "is_safe_integer (read_nat lst_pos)"
  shows "{i. asked fst_pos lst_pos n i} = (case resolveByteRange h n True of Partial s e \<Rightarrow> {s..e} | _ \<Rightarrow> {})"
  using assms by (auto simp: resolveByteRange_def asked_def Let_def max_def min_def)

text \<open>
  C21. Ranges are resolved to what was asked for.  A range that is applied lies inside the
  representation and is not empty.  When the header parses, \<open>If-Range\<close> holds and the numbers are safe
  integers, the positions selected are exactly those the header asks for, so that the answer is
  \<open>Unsatisfiable\<close> exactly if it asks for none; without a header of that form, or when
  \<open>If-Range\<close> does not hold, the whole representation is selected.
\<close>

theorem byte_range_exact:
  assumes "0 \<le> n" "parseByteRangeHeader h = Some (fst_pos, lst_pos)" "is_safe_integer (read_nat fst_pos)" "is_safe_integer (read_nat lst_pos)"
  shows "{i. asked fst_pos lst_pos n i} = (case resolveByteRange h n True of Partial s e \<Rightarrow> {s..e} | _ \<Rightarrow> {}) \<and>
    (case resolveByteRange h n True of Partial s e \<Rightarrow> 0 \<le> s \<and> s \<le> e \<and> e < n | Unsatisfiable \<Rightarrow> True | Full \<Rightarrow> False) \<and>
    resolveByteRange h n False = Full"
proof (intro conjI)
  show "{i. asked fst_pos lst_pos n i} = (case resolveByteRange h n True of Partial s e \<Rightarrow> {s..e} | _ \<Rightarrow> {})"
    by (rule resolve_safe [OF assms(2-4)])
  show "case resolveByteRange h n True of Partial s e \<Rightarrow> 0 \<le> s \<and> s \<le> e \<and> e < n | Unsatisfiable \<Rightarrow> True | Full \<Rightarrow> False"
    using resolve_partial_bounds [OF assms(1), of h True] resolve_full [OF assms(1), of h True] assms(2)
    by (cases "resolveByteRange h n True") simp_all
  show "resolveByteRange h n False = Full"
    using resolve_full [OF assms(1), of h False] by simp
qed

theorem byte_range_exact_witness:
  "resolveByteRange (Some ''bytes=-4'') 10 True = Partial 6 9 \<and> {i. asked [] ''4'' 10 i} = {6..9}"
proof
  show r: "resolveByteRange (Some ''bytes=-4'') 10 True = Partial 6 9"
    by code_simp
  have "parseByteRangeHeader (Some ''bytes=-4'') = Some ([], ''4'')" "is_safe_integer (read_nat [])" "is_safe_integer (read_nat ''4'')"
    by code_simp+
  from byte_range_exact [OF _ this, of 10] r show "{i. asked [] ''4'' 10 i} = {6..9}"
    by simp
qed

text \<open>
  A last position beyond the safe integers is refused although it asks for the rest of the
  representation: the answer is \<open>Unsatisfiable\<close> whatever the size, while positions are asked for.
\<close>

theorem unsafe_last_position_refused:
  assumes "parseByteRangeHeader h = Some (fst_pos, lst_pos)" "fst_pos \<noteq> []" "lst_pos \<noteq> []"
    and "int (read_nat fst_pos) < n" "n \<le> max_safe_integer" "\<not> is_safe_integer (read_nat lst_pos)"
  shows "resolveByteRange h n True = Unsatisfiable \<and> {i. asked fst_pos lst_pos n i} = {int (read_nat fst_pos)..n - 1}"
  using assms by (auto simp: resolveByteRange_def asked_def is_safe_integer_def Let_def)

theorem unsafe_last_position_refused_witness:
  "resolveByteRange (Some ''bytes=0-9007199254740992'') 10 True = Unsatisfiable \<and> {i. asked ''0'' ''9007199254740992'' 10 i} = {0..9}"
proof -
  have facts: "parseByteRangeHeader (Some ''bytes=0-9007199254740992'') = Some (''0'', ''9007199254740992'')" "int (read_nat ''0'') < 10"
    "10 \<le> max_safe_integer" "\<not> is_safe_integer (read_nat ''9007199254740992'')"
    by (code_simp, simp_all add: is_safe_integer_def read_nat_def max_safe_integer_def)
  have "int (read_nat ''0'') = 0" "(10 :: int) - 1 = 9"
    by code_simp+
  then show ?thesis
    using unsafe_last_position_refused [OF facts(1) _ _ facts(2-4)] by (simp only: list.distinct not_False_eq_True simp_thms)
qed

section \<open>Streams\<close>

text \<open>The bytes a stream delivers before it ends or is stopped, and whether a failure stops it.\<close>

fun delivered :: "stream_event list \<Rightarrow> byte list" where
  "delivered (Chunk v # es) = v @ delivered es"
| "delivered _ = []"

lemma write_chunks_state:
  "wr_streamClosed r \<Longrightarrow> write_chunks skip remaining es r = (r, False)"
  by (cases es) simp_all

lemma stream_write_open:
  "\<not> wr_streamClosed r \<Longrightarrow>
   snd (stream_write c r) = r\<lparr>wr_stream := wr_stream r @ [c], wr_streamActive := True, wr_finalized := True, wr_committed := True\<rparr>"
  by (simp add: stream_write_def stream_activate_def Let_def)

lemma write_chunks_bytes:
  "0 \<le> skip \<Longrightarrow> \<not> wr_streamClosed r \<Longrightarrow> write_chunks skip remaining es r = (r', failed) \<Longrightarrow>
   concat (wr_stream r') = concat (wr_stream r) @ take (nat remaining) (drop (nat skip) (delivered es)) \<and>
   \<not> wr_streamClosed r' \<and> wr_headers r' = wr_headers r \<and> wr_statusCode r' = wr_statusCode r \<and> (failed \<longrightarrow> Failed \<in> set es)"
proof (induction skip remaining es r rule: write_chunks.induct)
  case (2 skip remaining e es r)
  show ?case
  proof (cases "remaining \<le> 0")
    case False
    note step = 2(5) [unfolded write_chunks.simps]
    show ?thesis
    proof (cases e)
      case (Chunk v)
      show ?thesis
      proof (cases "int (length v) \<le> skip")
        case True
        then have "nat skip = length v + nat (skip - int (length v))"
          by simp
        with True False Chunk 2(1) [OF _ Chunk True] 2(3, 4) step show ?thesis
          by (simp add: drop_append)
      next
        case False': False
        define chunk where "chunk = take (nat (min (int (length v)) (skip + remaining) - skip)) (drop (nat skip) v)"
        have chunk: "chunk = take (nat remaining) (drop (nat skip) v)"
          using 2(3) False False' unfolding chunk_def by (cases "int (length v) \<le> skip + remaining") (simp_all add: nat_diff_distrib)
        have rest: "nat (remaining - int (length chunk)) = nat remaining - (length v - nat skip)"
        proof -
          have len: "length chunk = min (length v - nat skip) (nat remaining)"
            by (simp add: chunk)
          show ?thesis
            by (cases "length v - nat skip \<le> nat remaining") (use False in \<open>simp_all add: len nat_diff_distrib\<close>)
        qed
        define r1 where "r1 = (if chunk = [] then r else snd (stream_write chunk r))"
        have r1: "\<not> wr_streamClosed r1" "concat (wr_stream r1) = concat (wr_stream r) @ chunk" "wr_headers r1 = wr_headers r"
            "wr_statusCode r1 = wr_statusCode r"
          using 2(4) by (auto simp: r1_def stream_write_open)
        have "write_chunks 0 (remaining - int (length chunk)) es r1 = (r', failed)"
          using step False False' 2(4) Chunk unfolding r1_def chunk_def by (simp add: Let_def)
        with 2(2) [OF _ Chunk _ refl chunk_def] False False' 2(4) r1 r1_def rest chunk show ?thesis
          using 2(3) Chunk by (simp add: drop_append)
      qed
    qed (use step False 2(4) in auto)
  qed (use 2(4, 5) in simp)
qed simp

section \<open>The whole response\<close>

text \<open>A response that only has headers and a status yet.\<close>

abbreviation headers_only :: "response_headers \<Rightarrow> nat option \<Rightarrow> web_response" where
  "headers_only h st \<equiv> new_response\<lparr>wr_headers := h, wr_statusCode := st\<rparr>"

definition body_allowed :: "nat option \<Rightarrow> bool" where
  "body_allowed st \<longleftrightarrow> (case st of None \<Rightarrow> True | Some s \<Rightarrow> \<not> isResponseBodyForbidden s)"

definition status_of :: "nat option \<Rightarrow> nat" where
  "status_of st = (case st of None \<Rightarrow> 200 | Some s \<Rightarrow> s)"

lemma respond_nothing: "toResponse (send None (headers_only h st)) = (status_of st, h, [])"
  by (simp add: send_def new_response_def toResponse_def status_of_def Let_def)

lemma respond_bytes:
  assumes "hasHeader h ''content-type''" "body_allowed st"
  shows "toResponse (send (Some b) (headers_only h st)) = (status_of st, h, b)"
  using assms by (auto simp: send_def new_response_def toResponse_def status_of_def body_allowed_def isResponseBodyForbidden_def
      split: option.splits)

lemma respond_stream:
  assumes "0 \<le> s" "Failed \<notin> set es"
  shows "(let (err, r) = writeReadableStream es s e (headers_only h st\<lparr>wr_committed := True\<rparr>)
     in err = None \<and> toResponse r = (status_of st, h, take (nat (e - s + 1)) (drop (nat s) (delivered es))))"
proof -
  let ?r = "headers_only h st\<lparr>wr_committed := True\<rparr>"
  obtain r1 failed where w: "write_chunks s (e - s + 1) es ?r = (r1, failed)"
    by fastforce
  have "\<not> wr_streamClosed ?r"
    by (simp add: new_response_def)
  note facts = write_chunks_bytes [OF assms(1) this w]
  have "\<not> failed"
    using facts assms(2) by blast
  moreover have "wr_stream ?r = []" "wr_headers ?r = h" "wr_statusCode ?r = st"
    by (simp_all add: new_response_def)
  ultimately show ?thesis
    using facts unfolding writeReadableStream_def w Let_def
    by (simp add: stream_close_def stream_activate_def toResponse_def status_of_def)
qed

lemma header_fields:
  "js_lower ''Accept-Ranges'' = ''accept-ranges''" "js_lower ''Content-Type'' = ''content-type''" "js_lower ''Content-Length'' = ''content-length''"
  "js_lower ''Content-Range'' = ''content-range''" "js_lower ''content-type'' = ''content-type''" "js_lower ''content-length'' = ''content-length''"
  "js_lower ''content-range'' = ''content-range''" "js_lower ''accept-ranges'' = ''accept-ranges''"
  by code_simp+

lemma range_headers_form:
  "\<exists>h'. range_headers accepts ct (headers_only h st) = headers_only h' st \<and> hasHeader h' ''content-type'' \<and>
     get_header h' ''content-type'' = (case get_header h ''content-type'' of None \<Rightarrow> Some [ct] | v \<Rightarrow> v) \<and>
     get_header h' ''accept-ranges'' = (if accepts then Some [''bytes''] else get_header h ''accept-ranges'') \<and>
     (\<forall>name. js_lower name \<notin> {''content-type'', ''accept-ranges''} \<longrightarrow> get_header h' name = get_header h name)"
proof -
  define h1 where "h1 = (if accepts then put_header h ''Accept-Ranges'' [''bytes''] else h)"
  define h2 where "h2 = (if hasHeader h1 ''content-type'' then h1 else put_header h1 ''Content-Type'' [ct])"
  have "range_headers accepts ct (headers_only h st) = headers_only h2 st"
    by (simp add: range_headers_def setHeader_def Let_def h2_def h1_def)
  moreover have "get_header h1 ''content-type'' = get_header h ''content-type''"
    "get_header h1 ''accept-ranges'' = (if accepts then Some [''bytes''] else get_header h ''accept-ranges'')"
    by (simp_all add: h1_def web.look_put header_fields)
  ultimately show ?thesis
    by (intro exI [of _ h2]) (auto simp: h1_def h2_def has_header_iff web.look_put header_fields split: option.splits)
qed

text \<open>The entry stands for the content: its size is right, and its bytes or its stream yield it.\<close>

definition represents :: "range_entry \<Rightarrow> byte list \<Rightarrow> bool" where
  "represents entry content \<longleftrightarrow>
     re_size entry = int (length content) \<and>
     (case toBytes (re_source entry) of
        Some bs \<Rightarrow> bs = content
      | None \<Rightarrow> (case openByteRangeStream (re_source entry) of
                    None \<Rightarrow> False
                  | Some es \<Rightarrow> delivered es = content \<and> Failed \<notin> set es))"

definition selected_range :: "int \<Rightarrow> http_request \<Rightarrow> response_validators option \<Rightarrow> int \<Rightarrow> resolved_range" where
  "selected_range year request validators n =
     (let accepts = isByteRangeRequestMethod (hr_method request)
      in resolveByteRange (if accepts then readFirstNonEmptyRequestHeaderValue request ''range'' else None) n
           (accepts \<and> matchesIfRange year request validators))"

text \<open>What the response has to be.\<close>

definition response_spec :: "resolved_range \<Rightarrow> byte list \<Rightarrow> bool \<Rightarrow> nat option \<Rightarrow> nat \<times> response_headers \<times> byte list \<Rightarrow> bool" where
  "response_spec selected content head_only st answer =
     (let (status, headers, body) = answer; n = int (length content)
      in case selected of
           Full \<Rightarrow> status = status_of st \<and> get_header headers ''content-length'' = Some [show_int n] \<and>
                   body = (if head_only then [] else content)
         | Partial s e \<Rightarrow> status = 206 \<and> get_header headers ''content-length'' = Some [show_int (e - s + 1)] \<and>
                   get_header headers ''content-range'' = Some [''bytes '' @ show_int s @ ''-'' @ show_int e @ ''/'' @ show_int n] \<and>
                   body = (if head_only then [] else take (nat (e - s + 1)) (drop (nat s) content)) \<and>
                   (head_only \<or> int (length body) = e - s + 1)
         | Unsatisfiable \<Rightarrow> status = 416 \<and> get_header headers ''content-length'' = Some [''0''] \<and>
                   get_header headers ''content-range'' = Some [''bytes */'' @ show_int n] \<and> body = [])"

lemma represents_size: "represents entry content \<Longrightarrow> re_size entry = int (length content)"
  by (simp add: represents_def)

lemma partial_length:
  "0 \<le> s \<Longrightarrow> s \<le> e \<Longrightarrow> e < int (length content) \<Longrightarrow> int (length (take (nat (e - s + 1)) (drop (nat s) content))) = e - s + 1"
proof -
  assume "0 \<le> s" "s \<le> e" "e < int (length content)"
  then have "nat (e - s + 1) \<le> length content - nat s"
    by linarith
  with \<open>s \<le> e\<close> show ?thesis
    by simp
qed

text \<open>The headers written after those of the representation do not disturb each other.\<close>

lemma range_fields:
  "get_header (put_header (put_header h ''Content-Length'' [a]) ''Content-Range'' [b]) ''content-length'' = Some [a]"
  "get_header (put_header (put_header h ''Content-Length'' [a]) ''Content-Range'' [b]) ''content-range'' = Some [b]"
  "get_header (put_header h ''Content-Length'' [a]) ''content-length'' = Some [a]"
  "hasHeader (put_header (put_header h ''Content-Length'' [a]) ''Content-Range'' [b]) ''content-type'' = hasHeader h ''content-type''"
  "hasHeader (put_header h ''Content-Length'' [a]) ''content-type'' = hasHeader h ''content-type''"
  by (simp_all add: has_header_iff web.look_put header_fields)

lemma set_status_headers: "setStatus c (headers_only h st) = headers_only h (Some c)"
  "setHeader name v (headers_only h st) = headers_only (put_header h name [v]) st"
  by (simp_all add: setStatus_def setHeader_def)

text \<open>The body of a response that is not \<open>HEAD\<close>: \<open>pick\<close> chooses from a byte body.\<close>

definition send_body :: "(byte list \<Rightarrow> byte list) \<Rightarrow> int \<Rightarrow> int \<Rightarrow> range_entry \<Rightarrow> web_response \<Rightarrow> range_error option \<times> web_response" where
  "send_body pick s e entry r =
     (case toBytes (re_source entry) of
        Some bs \<Rightarrow> (None, send (Some (pick bs)) r)
      | None \<Rightarrow>
          (case openByteRangeStream (re_source entry) of
             None \<Rightarrow> (Some NoStream, r)
           | Some es \<Rightarrow> writeReadableStream es s e (r\<lparr>wr_committed := True\<rparr>)))"

lemma body_sent:
  assumes "represents entry content" "hasHeader h ''content-type''" "body_allowed st" "0 \<le> s"
    and "pick content = take (nat (e - s + 1)) (drop (nat s) content)"
  obtains r where "send_body pick s e entry (headers_only h st) = (None, r)" "toResponse r = (status_of st, h, pick content)"
proof (cases "toBytes (re_source entry)")
  case None
  with assms(1) obtain es where es: "openByteRangeStream (re_source entry) = Some es" "delivered es = content" "Failed \<notin> set es"
    by (auto simp: represents_def split: option.splits)
  obtain err r where w: "writeReadableStream es s e (headers_only h st\<lparr>wr_committed := True\<rparr>) = (err, r)"
    by fastforce
  with respond_stream [OF assms(4) es(3), where e = e and h = h and st = st] have "err = None" "toResponse r = (status_of st, h, pick content)"
    using assms(5) es(2) by simp_all
  with that [of r] w None es show ?thesis
    by (simp add: send_body_def)
next
  case (Some bs)
  with that [of "send (Some (pick bs)) (headers_only h st)"] assms show ?thesis
    by (simp add: represents_def respond_bytes send_body_def)
qed

text \<open>The response before the body, and the two ways it ends.\<close>

lemma write_ranged:
  assumes rep: "represents entry content" and fresh: "\<not> wr_committed r0" and metadata: "metadata r0 = headers_only h st"
    and h1: "range_headers (isByteRangeRequestMethod (hr_method request)) (re_contentType entry) (headers_only h st) = headers_only h1 st"
    and selected: "selected = selected_range year request validators (int (length content))"
  shows "writeByteRangeResponse year metadata entry request validators r0 =
    (let n = int (length content); head_only = (js_upper (hr_method request) = ''HEAD'');
         ranged = (\<lambda>s e. put_header (put_header h1 ''Content-Length'' [show_int (e - s + 1)]) ''Content-Range''
           [''bytes '' @ show_int s @ ''-'' @ show_int e @ ''/'' @ show_int n]);
         all = put_header h1 ''Content-Length'' [show_int n]
     in case selected of
          Unsatisfiable \<Rightarrow> (None, send None (headers_only (put_header (put_header h1 ''Content-Length'' [''0'']) ''Content-Range'' [''bytes */'' @ show_int n]) (Some 416)))
        | Partial s e \<Rightarrow>
            if head_only then (None, send None (headers_only (ranged s e) (Some 206)))
            else send_body (\<lambda>bs. take (nat (e - s + 1)) (drop (nat s) bs)) s e entry (headers_only (ranged s e) (Some 206))
        | Full \<Rightarrow>
            if head_only then (None, send None (headers_only all st))
            else send_body (\<lambda>bs. bs) 0 (n - 1) entry (headers_only all st))"
proof -
  have source: "\<not> (toBytes (re_source entry) = None \<and> openByteRangeStream (re_source entry) = None)"
    using rep by (auto simp: represents_def split: option.splits)
  have selected': "resolveByteRange (if isByteRangeRequestMethod (hr_method request) then readFirstNonEmptyRequestHeaderValue request ''range'' else None)
      (int (length content)) (isByteRangeRequestMethod (hr_method request) \<and> matchesIfRange year request validators) = selected"
    by (simp add: selected selected_range_def Let_def)
  have swap: "e + 1 - s = e - s + 1" for e s :: int
    by simp
  show ?thesis
    unfolding writeByteRangeResponse_def swap Let_def represents_size [OF rep] selected' metadata h1 send_body_def
    using fresh source by (cases selected) (auto simp: set_status_headers split: option.splits)
qed

text \<open>The answer, on any response nothing was written to; the headers of other concerns are kept.\<close>

definition keeps_headers :: "response_headers \<Rightarrow> response_headers \<Rightarrow> bool" where
  "keeps_headers h h' \<longleftrightarrow>
     (\<forall>name. js_lower name \<notin> {''content-type'', ''accept-ranges'', ''content-length'', ''content-range''} \<longrightarrow>
       get_header h' name = get_header h name)"

lemma keeps_range_fields:
  "keeps_headers h h1 \<Longrightarrow> keeps_headers h (put_header (put_header h1 ''Content-Length'' [a]) ''Content-Range'' [b])"
  "keeps_headers h h1 \<Longrightarrow> keeps_headers h (put_header h1 ''Content-Length'' [a])"
  by (simp_all add: keeps_headers_def web.look_put header_fields)

lemma byte_range_written:
  assumes rep: "represents entry content" and fresh: "\<not> wr_committed r0" and metadata: "metadata r0 = headers_only h st"
    and body: "body_allowed st"
  shows "\<exists>r. writeByteRangeResponse year metadata entry request validators r0 = (None, r) \<and>
      response_spec (selected_range year request validators (int (length content))) content
        (js_upper (hr_method request) = ''HEAD'') st (toResponse r) \<and>
      keeps_headers h (fst (snd (toResponse r)))"
proof -
  define selected where "selected = selected_range year request validators (int (length content))"
  define head_only where "head_only \<longleftrightarrow> js_upper (hr_method request) = ''HEAD''"
  obtain h1 where h1: "range_headers (isByteRangeRequestMethod (hr_method request)) (re_contentType entry) (headers_only h st) = headers_only h1 st"
    "hasHeader h1 ''content-type''" "keeps_headers h h1"
    using range_headers_form [where accepts = "isByteRangeRequestMethod (hr_method request)" and ct = "re_contentType entry" and h = h and st = st]
    unfolding keeps_headers_def by blast
  note form = write_ranged [where metadata = metadata and h = h and st = st and ?h1.0 = h1, OF rep fresh metadata h1(1) selected_def, unfolded Let_def, folded head_only_def]
  have allowed: "body_allowed (Some 206)"
    by (simp add: body_allowed_def isResponseBodyForbidden_def)
  have "\<exists>r. writeByteRangeResponse year metadata entry request validators r0 = (None, r) \<and>
      response_spec selected content head_only st (toResponse r) \<and> keeps_headers h (fst (snd (toResponse r)))"
  proof (cases selected)
    case Unsatisfiable
    then show ?thesis
      unfolding form by (simp add: respond_nothing response_spec_def range_fields status_of_def keeps_range_fields h1(3))
  next
    case Full
    obtain r where "send_body (\<lambda>bs. bs) 0 (int (length content) - 1) entry (headers_only (put_header h1 ''Content-Length'' [show_int (int (length content))]) st) = (None, r)"
        "toResponse r = (status_of st, put_header h1 ''Content-Length'' [show_int (int (length content))], content)"
      by (rule body_sent [where content = content and pick = "\<lambda>bs. bs" and s = 0 and e = "int (length content) - 1" and st = st
          and h = "put_header h1 ''Content-Length'' [show_int (int (length content))]", OF rep])
        (use h1(2) body in \<open>auto simp: range_fields\<close>)
    with Full show ?thesis
      unfolding form by (cases head_only) (simp_all add: respond_nothing response_spec_def range_fields keeps_range_fields h1(3))
  next
    case (Partial s e)
    define hs where "hs = put_header (put_header h1 ''Content-Length'' [show_int (e - s + 1)]) ''Content-Range''
           [''bytes '' @ show_int s @ ''-'' @ show_int e @ ''/'' @ show_int (int (length content))]"
    have bounds: "0 \<le> s" "s \<le> e" "e < int (length content)"
      using resolve_partial_bounds [of "int (length content)"] Partial unfolding selected_def selected_range_def Let_def by auto
    obtain r where "send_body (\<lambda>bs. take (nat (e - s + 1)) (drop (nat s) bs)) s e entry (headers_only hs (Some 206)) = (None, r)"
        "toResponse r = (206, hs, take (nat (e - s + 1)) (drop (nat s) content))"
      by (rule body_sent [where content = content and pick = "\<lambda>bs. take (nat (e - s + 1)) (drop (nat s) bs)" and s = s and e = e and st = "Some 206" and h = hs, OF rep])
        (use h1(2) bounds allowed in \<open>auto simp: range_fields hs_def status_of_def algebra_simps\<close>)
    then show ?thesis
      using Partial partial_length [OF bounds]
      unfolding form by (cases head_only) (simp_all add: respond_nothing response_spec_def range_fields hs_def [symmetric] status_of_def, simp_all add: hs_def range_fields keeps_range_fields h1(3))
  qed
  then show ?thesis
    unfolding selected_def head_only_def by auto
qed

text \<open>
  C20. A byte response is what its headers say.  On a fresh response to which the dispatcher applies
  its metadata (any headers \<open>h\<close>, any status \<open>st\<close> that allows a body), and for an entry
  standing for \<open>content\<close> as bytes or as a stream, writing succeeds and the answer is: for an applied
  range \<open>206\<close> with exactly the bytes of the range, their number as \<open>Content-Length\<close> and the matching
  \<open>Content-Range\<close>; for a range asking for nothing \<open>416\<close> with the size; otherwise all of the content
  with its length.  A \<open>HEAD\<close> request gets the same status and headers and no byte.
\<close>

theorem byte_range_response_correct:
  assumes rep: "represents entry content" and metadata: "metadata new_response = headers_only h st" and body: "body_allowed st"
  shows "(let (err, r) = writeByteRangeResponse year metadata entry request validators new_response
     in err = None \<and>
        response_spec (selected_range year request validators (int (length content))) content
          (js_upper (hr_method request) = ''HEAD'') st (toResponse r))"
  using byte_range_written [where metadata = metadata and ?r0.0 = new_response and h = h and st = st and year = year and request = request and validators = validators, OF rep _ metadata body]
  by (auto simp: new_response_def)

definition sample_entry :: range_entry where
  "sample_entry = \<lparr>re_contentType = ''text/plain'', re_size = 3, re_source = ReadableStream [Chunk [1, 2], Chunk [3]]\<rparr>"

theorem byte_range_response_correct_witness:
  "(let (err, r) = writeByteRangeResponse 2025 id sample_entry (sample_request ''GET'' ''range'' ''bytes=1-'') None new_response
    in err = None \<and> response_spec (Partial 1 2) [1, 2, 3] False None (toResponse r))"
proof -
  let ?q = "sample_request ''GET'' ''range'' ''bytes=1-''"
  have rep: "represents sample_entry [1, 2, 3]"
    by (simp add: represents_def sample_entry_def toBytes_def openByteRangeStream_def)
  have fresh: "id new_response = headers_only [] None" "body_allowed None"
    by (simp_all add: new_response_def body_allowed_def)
  have "selected_range 2025 ?q None 3 = Partial 1 2" "js_upper (hr_method ?q) \<noteq> ''HEAD''"
    by code_simp+
  then show ?thesis
    using byte_range_response_correct [where metadata = id and h = "[]" and st = None, OF rep fresh, of 2025 ?q None] by simp
qed

text \<open>All bytes a stream would have delivered had it not been interrupted.\<close>

definition all_bytes :: "stream_event list \<Rightarrow> byte list" where
  "all_bytes es = concat (map (\<lambda>e. case e of Chunk v \<Rightarrow> v | _ \<Rightarrow> []) es)"

lemma delivered_prefix: "prefix (delivered es) (all_bytes es)"
proof (induction es)
  case (Cons e es)
  then show ?case
    by (cases e) (simp_all add: all_bytes_def)
qed simp

lemma prefix_slice: "prefix xs ys \<Longrightarrow> prefix (take n (drop k xs)) (take n (drop k ys))"
  by (auto simp: prefix_def)

text \<open>
  An interrupted stream never sends a wrong byte.  Whatever the order of chunks, client
  disconnects and transport failures, the bytes written for the range from \<open>s\<close> to \<open>e\<close> are a prefix
  of that range of the stream, at most \<open>e - s + 1\<close> of them, and all of it if there is no
  interruption; an error is raised only for a transport failure; the response stream is closed unless
  the transport failed.
\<close>

theorem interrupted_stream_prefix:
  assumes "0 \<le> s" "s \<le> e + 1" "\<not> wr_streamClosed r" "wr_stream r = []"
    and "writeReadableStream es s e r = (err, r')"
  shows "prefix (concat (wr_stream r')) (take (nat (e - s + 1)) (drop (nat s) (all_bytes es))) \<and>
    int (length (concat (wr_stream r'))) \<le> e - s + 1 \<and>
    (if Stopped \<in> set es \<or> Failed \<in> set es then err \<in> {None, Some TransportFailure}
     else err = None \<and> concat (wr_stream r') = take (nat (e - s + 1)) (drop (nat s) (all_bytes es))) \<and>
    (wr_streamClosed r' \<longleftrightarrow> err = None)"
proof -
  obtain r1 failed where w: "write_chunks s (e - s + 1) es r = (r1, failed)"
    by fastforce
  note facts = write_chunks_bytes [OF assms(1, 3) w]
  have r': "err = (if failed then Some TransportFailure else None)" "r' = (if failed then r1 else stream_close r1)"
    using assms(5) facts by (auto simp: writeReadableStream_def w)
  have sent: "concat (wr_stream r') = take (nat (e - s + 1)) (drop (nat s) (delivered es))"
    using facts assms(4) by (simp add: r' stream_close_def stream_activate_def)
  have complete: "delivered es = all_bytes es" if "Stopped \<notin> set es" "Failed \<notin> set es"
    using that by (induction es rule: delivered.induct) (simp_all add: all_bytes_def)
  have "wr_streamClosed r' \<longleftrightarrow> err = None"
    using facts by (simp add: r' stream_close_def)
  moreover have "int (length (concat (wr_stream r'))) \<le> e - s + 1"
    using assms(2) unfolding sent by simp
  ultimately show ?thesis
    using facts complete prefix_slice [OF delivered_prefix] unfolding sent by (auto simp: r')
qed

theorem interrupted_stream_prefix_witness:
  "prefix (concat (wr_stream (snd (writeReadableStream [Chunk [1], Failed, Chunk [2]] 0 1 new_response)))) [1, 2]"
  using interrupted_stream_prefix [of 0 1 new_response "[Chunk [1], Failed, Chunk [2]]"
      "fst (writeReadableStream [Chunk [1], Failed, Chunk [2]] 0 1 new_response)"
      "snd (writeReadableStream [Chunk [1], Failed, Chunk [2]] 0 1 new_response)"]
  by (simp add: new_response_def all_bytes_def)

end
