(* ===== verification/Content_Negotiation.thy ===== *)
theory Content_Negotiation
  imports Http_Headers
begin

text \<open>
  \<open>packages/http/src/dispatch/dispatch-content-negotiation.ts\<close>: the \<open>Accept\<close> parser, media range
  matching and the choice of a response formatter.  Qualities have at most three decimals and are kept
  in thousandths; the numbers of the program compare in the same way.  A formatter is an object with an
  identity; its \<open>format\<close> function plays no part in the choice.
\<close>

section \<open>Media types and ranges\<close>

record accept_token =
  at_mediaRange :: string
  at_order :: nat
  at_quality :: nat
  at_specificity :: nat

record formatter =
  rf_id :: nat
  rf_mediaType :: string

record negotiation =
  cn_defaultFormatter :: formatter
  cn_formatters :: "formatter list"
  cn_normalizedMediaTypes :: "string list"

definition normalizeMediaType :: "string \<Rightarrow> string" where
  "normalizeMediaType s = js_lower (js_trim (hd (split_on (CHR '';'') s)))"

definition readAcceptHeader :: "http_request \<Rightarrow> string option" where
  "readAcceptHeader request = readJoinedNonEmptyRequestHeaderValues request ''accept''"

text \<open>The expression \<open>^(?:0(?:\.\d{0,3})?|1(?:\.0{0,3})?)$\<close>, and the value in thousandths.\<close>

definition parseQuality :: "string \<Rightarrow> nat option" where
  "parseQuality s =
     (case s of
        [] \<Rightarrow> None
      | c # rest \<Rightarrow>
          (let decimals = (case rest of [] \<Rightarrow> Some [] | d # ds \<Rightarrow> if d = CHR ''.'' \<and> length ds \<le> 3 then Some ds else None)
           in case decimals of
                None \<Rightarrow> None
              | Some ds \<Rightarrow>
                  if c = CHR ''0'' \<and> list_all is_digit ds then Some (read_nat ds * 10 ^ (3 - length ds))
                  else if c = CHR ''1'' \<and> list_all (\<lambda>d. d = CHR ''0'') ds then Some 1000
                  else None))"

definition isValidMediaRange :: "string \<Rightarrow> bool" where
  "isValidMediaRange mediaRange \<longleftrightarrow>
     (case split_on (CHR ''/'') mediaRange of
        [ty, sub] \<Rightarrow>
          if ty = [] \<or> sub = [] then False
          else if ty = ''*'' then sub = ''*''
          else if CHR ''*'' \<in> set ty then False
          else if sub = ''*'' then True
          else if starts_with ''*+'' sub then length sub > 2 \<and> CHR ''*'' \<notin> set (drop 2 sub)
          else CHR ''*'' \<notin> set sub
      | _ \<Rightarrow> False)"

definition getMediaRangeSpecificity :: "string \<Rightarrow> nat" where
  "getMediaRangeSpecificity mediaRange =
     (if mediaRange = ''*/*'' then 0
      else if ends_with ''/*'' mediaRange then 1
      else if includes_str ''/*+'' mediaRange then 2 else 3)"

text \<open>The parameters of one range: the quality, or \<open>None\<close> when it is malformed or given twice.\<close>

fun read_quality :: "string list \<Rightarrow> nat \<Rightarrow> bool \<Rightarrow> nat option" where
  "read_quality [] quality qualityDefined = Some quality"
| "read_quality (part # parts) quality qualityDefined =
     (case split_on (CHR ''='') (js_trim part) of
        [] \<Rightarrow> read_quality parts quality qualityDefined
      | name # rawValues \<Rightarrow>
          if js_lower name = ''q'' then
            (case rawValues of
               [raw] \<Rightarrow>
                 if qualityDefined then None
                 else (case parseQuality (js_trim raw) of None \<Rightarrow> None | Some q \<Rightarrow> read_quality parts q True)
             | _ \<Rightarrow> None)
          else read_quality parts quality qualityDefined)"

definition parse_accept_token :: "nat \<Rightarrow> string \<Rightarrow> accept_token option" where
  "parse_accept_token order tok =
     (let parts = split_on (CHR '';'') (js_trim tok);
          mediaRange = normalizeMediaType (hd parts)
      in if \<not> isValidMediaRange mediaRange then None
         else map_option (\<lambda>q. \<lparr>at_mediaRange = mediaRange, at_order = order, at_quality = q,
                               at_specificity = getMediaRangeSpecificity mediaRange\<rparr>)
                (read_quality (tl parts) 1000 False))"

definition parseAcceptHeader :: "string \<Rightarrow> accept_token list" where
  "parseAcceptHeader acceptHeader =
     List.map_filter (\<lambda>(order, tok). parse_accept_token order tok) (enumerate 0 (split_on (CHR '','') acceptHeader))"

definition matchesMediaRange :: "string \<Rightarrow> string \<Rightarrow> bool" where
  "matchesMediaRange mediaRange mediaType \<longleftrightarrow>
     mediaRange = ''*/*'' \<or>
     (case (split_on (CHR ''/'') mediaRange, split_on (CHR ''/'') mediaType) of
        (rangeType # rangeSubtype # _, ty # sub # _) \<Rightarrow>
          if rangeType = [] \<or> rangeSubtype = [] \<or> ty = [] \<or> sub = [] then False
          else if rangeType \<noteq> ''*'' \<and> rangeType \<noteq> ty then False
          else if rangeSubtype = ''*'' then True
          else if starts_with ''*+'' rangeSubtype then ends_with (drop 1 rangeSubtype) sub
          else rangeSubtype = sub
      | _ \<Rightarrow> False)"

text \<open>One step of the loop over the accepted ranges, and the loop.\<close>

definition better_token :: "string \<Rightarrow> accept_token \<Rightarrow> accept_token option \<Rightarrow> accept_token option" where
  "better_token mediaType tok selected =
     (if \<not> matchesMediaRange (at_mediaRange tok) mediaType then selected
      else (case selected of
              None \<Rightarrow> Some tok
            | Some s \<Rightarrow>
                if at_specificity tok > at_specificity s \<or> at_specificity tok = at_specificity s \<and> at_order tok < at_order s
                then Some tok else selected))"

definition selectMostSpecificAcceptToken :: "string \<Rightarrow> accept_token list \<Rightarrow> accept_token option" where
  "selectMostSpecificAcceptToken mediaType tokens = fold (better_token mediaType) tokens None"

section \<open>Formatters\<close>

fun distinct_formatters :: "string list \<Rightarrow> formatter list \<Rightarrow> formatter list" where
  "distinct_formatters seen [] = []"
| "distinct_formatters seen (f # fs) =
     (let mediaType = normalizeMediaType (rf_mediaType f)
      in if mediaType = [] \<or> mediaType \<in> set seen then distinct_formatters seen fs
         else f # distinct_formatters (mediaType # seen) fs)"

definition resolveContentNegotiation :: "formatter list \<Rightarrow> string option \<Rightarrow> negotiation option" where
  "resolveContentNegotiation offered defaultMediaType =
     (case distinct_formatters [] offered of
        [] \<Rightarrow> None
      | f # fs \<Rightarrow>
          (let wanted = normalizeMediaType (case defaultMediaType of None \<Rightarrow> [] | Some m \<Rightarrow> m);
               chosen = (if wanted = [] then f
                         else (case find (\<lambda>g. normalizeMediaType (rf_mediaType g) = wanted) (f # fs) of None \<Rightarrow> f | Some g \<Rightarrow> g))
           in Some \<lparr>cn_defaultFormatter = chosen, cn_formatters = f # fs,
                    cn_normalizedMediaTypes = map (\<lambda>g. normalizeMediaType (rf_mediaType g)) (f # fs)\<rparr>))"

text \<open>The formatters a route may use, with their normalized media types.\<close>

definition resolveAllowedFormatters :: "string list option \<Rightarrow> negotiation \<Rightarrow> (formatter \<times> string) list" where
  "resolveAllowedFormatters produces n =
     (let all = zip (cn_formatters n) (cn_normalizedMediaTypes n)
      in case produces of
           None \<Rightarrow> all
         | Some types \<Rightarrow>
             if types = [] then all else filter (\<lambda>(f, mt). mt \<in> normalizeMediaType ` set types) all)"

definition resolveDefaultFormatter :: "(formatter \<times> string) list \<Rightarrow> negotiation \<Rightarrow> formatter" where
  "resolveDefaultFormatter allowed n =
     (case find (\<lambda>(f, mt). mt = normalizeMediaType (rf_mediaType (cn_defaultFormatter n))) allowed of
        Some (f, _) \<Rightarrow> f
      | None \<Rightarrow> (case allowed of (f, _) # _ \<Rightarrow> f | [] \<Rightarrow> cn_defaultFormatter n))"

text \<open>One step of the loop over the formatters: the state is the selection and its token.\<close>

definition consider_formatter ::
  "accept_token list \<Rightarrow> formatter \<Rightarrow> formatter \<times> string \<Rightarrow> (formatter \<times> accept_token) option \<Rightarrow> (formatter \<times> accept_token) option" where
  "consider_formatter tokens defaultFormatter entry selected =
     (case selectMostSpecificAcceptToken (snd entry) tokens of
        None \<Rightarrow> selected
      | Some tok \<Rightarrow>
          if at_quality tok = 0 then selected
          else (case selected of
                  None \<Rightarrow> Some (fst entry, tok)
                | Some (f, s) \<Rightarrow>
                    if at_quality tok < at_quality s \<or> at_quality tok = at_quality s \<and> at_specificity tok < at_specificity s
                    then selected
                    else if at_quality tok > at_quality s \<or> at_specificity tok > at_specificity s \<or> fst entry = defaultFormatter
                    then Some (fst entry, tok) else selected))"

datatype negotiation_error = NotAcceptable

definition selectResponseFormatter :: "string list option \<Rightarrow> http_request \<Rightarrow> negotiation \<Rightarrow> negotiation_error + formatter" where
  "selectResponseFormatter produces request n =
     (let allowed = resolveAllowedFormatters produces n
      in if allowed = [] then Inl NotAcceptable
         else (let defaultFormatter = resolveDefaultFormatter allowed n
               in case readAcceptHeader request of
                    None \<Rightarrow> Inr defaultFormatter
                  | Some acceptHeader \<Rightarrow>
                      (let tokens = parseAcceptHeader acceptHeader
                       in if tokens = [] then Inl NotAcceptable
                          else (case fold (consider_formatter tokens defaultFormatter) allowed None of
                                  Some (f, _) \<Rightarrow> Inr f
                                | None \<Rightarrow> Inl NotAcceptable))))"

section \<open>Which range applies, and which formatter wins\<close>

lemma parse_token_facts: "parse_accept_token n s = Some tok \<Longrightarrow> at_order tok = n \<and> at_specificity tok \<le> 3"
  by (auto simp: parse_accept_token_def Let_def getMediaRangeSpecificity_def split: if_splits)

lemma accept_tokens_ordered: "sorted_wrt (\<lambda>a b. at_order a < at_order b) (parseAcceptHeader h)"
proof -
  have "sorted_wrt (\<lambda>a b. at_order a < at_order b) (List.map_filter (\<lambda>(n, s). parse_accept_token n s) (enumerate k xs)) \<and>
      list_all (\<lambda>tok. k \<le> at_order tok) (List.map_filter (\<lambda>(n, s). parse_accept_token n s) (enumerate k xs))" for k xs
  proof (induction xs arbitrary: k)
    case (Cons x xs)
    show ?case
    proof (cases "parse_accept_token k x")
      case None
      with Cons [of "Suc k"] show ?thesis
        by (auto simp: List.map_filter_simps list_all_iff)
    next
      case (Some tok)
      then have "at_order tok = k"
        using parse_token_facts by blast
      with Some Cons [of "Suc k"] show ?thesis
        by (auto simp: List.map_filter_simps list_all_iff)
    qed
  qed (simp add: List.map_filter_simps)
  then show ?thesis
    by (simp add: parseAcceptHeader_def)
qed

lemma accept_token_specificity: "tok \<in> set (parseAcceptHeader h) \<Longrightarrow> at_specificity tok \<le> 3"
  using parse_token_facts by (auto simp: parseAcceptHeader_def List.map_filter_def)

text \<open>The token that applies is the earliest of the most specific matching ones.\<close>

definition applies :: "string \<Rightarrow> accept_token list \<Rightarrow> accept_token \<Rightarrow> bool" where
  "applies mediaType tokens tok \<longleftrightarrow>
     tok \<in> set tokens \<and> matchesMediaRange (at_mediaRange tok) mediaType \<and>
     list_all (\<lambda>other. matchesMediaRange (at_mediaRange other) mediaType \<longrightarrow>
       at_specificity other < at_specificity tok \<or> at_specificity other = at_specificity tok \<and> at_order tok \<le> at_order other) tokens"

lemma most_specific_Some: "selectMostSpecificAcceptToken mediaType tokens = Some tok \<Longrightarrow> applies mediaType tokens tok"
proof (induction tokens arbitrary: tok rule: rev_induct)
  case (snoc x xs)
  let ?sel = "selectMostSpecificAcceptToken mediaType"
  have step: "?sel (xs @ [x]) = better_token mediaType x (?sel xs)"
    by (simp add: selectMostSpecificAcceptToken_def)
  show ?case
  proof (cases "?sel xs")
    case None
    then have "list_all (\<lambda>other. \<not> matchesMediaRange (at_mediaRange other) mediaType) xs"
    proof (induction xs rule: rev_induct)
      case (snoc y ys)
      then show ?case
        by (auto simp: selectMostSpecificAcceptToken_def better_token_def split: option.splits if_splits)
    qed simp
    with None snoc.prems step show ?thesis
      by (auto simp: better_token_def applies_def list_all_iff split: if_splits)
  next
    case (Some s)
    with snoc step show ?thesis
      by (auto simp: better_token_def applies_def list_all_iff split: if_splits; fastforce)
  qed
qed (simp add: selectMostSpecificAcceptToken_def)

lemma most_specific_None:
  "selectMostSpecificAcceptToken mediaType tokens = None \<longleftrightarrow> list_all (\<lambda>tok. \<not> matchesMediaRange (at_mediaRange tok) mediaType) tokens"
  by (induction tokens rule: rev_induct)
    (auto simp: selectMostSpecificAcceptToken_def better_token_def split: option.splits if_splits)

text \<open>
  How a formatter ranks: by the quality of the range that applies to it, then by the specificity of
  that range, then the default before the others.  Rank 0 is not acceptable.
\<close>

definition rank :: "accept_token list \<Rightarrow> formatter \<Rightarrow> formatter \<times> string \<Rightarrow> nat" where
  "rank tokens defaultFormatter entry =
     (case selectMostSpecificAcceptToken (snd entry) tokens of
        None \<Rightarrow> 0
      | Some tok \<Rightarrow> if at_quality tok = 0 then 0
                    else 10 * at_quality tok + 2 * at_specificity tok + (if fst entry = defaultFormatter then 1 else 0))"

text \<open>The first element of highest rank, if that is positive.\<close>

definition first_max :: "('a \<Rightarrow> nat) \<Rightarrow> 'a list \<Rightarrow> 'a option" where
  "first_max g xs = find (\<lambda>x. g x > 0 \<and> list_all (\<lambda>y. g y \<le> g x) xs) xs"

lemma first_max_Some: "first_max g xs = Some m \<Longrightarrow> m \<in> set xs \<and> g m > 0 \<and> list_all (\<lambda>y. g y \<le> g m) xs"
  by (auto simp: first_max_def find_Some_iff)

lemma first_max_None: "first_max g xs = None \<longleftrightarrow> list_all (\<lambda>x. g x = 0) xs"
proof
  assume none: "first_max g xs = None"
  show "list_all (\<lambda>x. g x = 0) xs"
  proof (cases "xs = []")
    case False
    define top where "top = Max (g ` set xs)"
    have "top \<in> g ` set xs"
      using False by (simp add: top_def)
    then obtain m where m: "m \<in> set xs" "g m = top"
      by auto
    have le: "list_all (\<lambda>y. g y \<le> top) xs"
      by (simp add: top_def list_all_iff)
    have "\<not> (g m > 0 \<and> list_all (\<lambda>y. g y \<le> g m) xs)"
      using none m(1) by (auto simp: first_max_def find_None_iff)
    with le m(2) show ?thesis
      by (auto simp: list_all_iff)
  qed simp
qed (auto simp: first_max_def find_None_iff list_all_iff)

lemma first_max_snoc:
  "first_max g (xs @ [e]) = (case first_max g xs of
     None \<Rightarrow> if g e > 0 then Some e else None
   | Some m \<Rightarrow> if g e > g m then Some e else Some m)"
proof (cases "first_max g xs")
  case None
  then have "list_all (\<lambda>x. g x = 0) xs"
    by (simp add: first_max_None)
  then have "find (\<lambda>x. g x > 0 \<and> list_all (\<lambda>y. g y \<le> g x) (xs @ [e])) xs = None"
    by (auto simp: find_None_iff list_all_iff)
  with None \<open>list_all (\<lambda>x. g x = 0) xs\<close> show ?thesis
    by (auto simp: first_max_def find_append list_all_iff)
next
  case (Some m)
  note m = first_max_Some [OF Some]
  show ?thesis
  proof (cases "g e > g m")
    case True
    then have "find (\<lambda>x. g x > 0 \<and> list_all (\<lambda>y. g y \<le> g x) (xs @ [e])) xs = None"
      using m by (fastforce simp: find_None_iff list_all_iff)
    with True m Some show ?thesis
      by (auto simp: first_max_def find_append list_all_iff)
  next
    case False
    then have "find (\<lambda>x. g x > 0 \<and> list_all (\<lambda>y. g y \<le> g x) (xs @ [e])) xs = first_max g xs"
      using m unfolding first_max_def by (intro find_cong) (auto simp: list_all_iff)
    with False Some show ?thesis
      by (simp add: first_max_def [of g "xs @ [e]"] find_append)
  qed
qed

lemma rank_token:
  "selectMostSpecificAcceptToken (snd entry) tokens = Some tok \<Longrightarrow> at_quality tok > 0 \<Longrightarrow>
   rank tokens d entry = 10 * at_quality tok + 2 * at_specificity tok + (if fst entry = d then 1 else 0)"
  by (simp add: rank_def)

lemma rank_zero:
  "rank tokens d entry = 0 \<longleftrightarrow> (case selectMostSpecificAcceptToken (snd entry) tokens of None \<Rightarrow> True | Some tok \<Rightarrow> at_quality tok = 0)"
  by (simp add: rank_def split: option.splits)

text \<open>The loop keeps the first entry of highest rank, with the range that applies to it.\<close>

definition selection_ok :: "accept_token list \<Rightarrow> formatter \<Rightarrow> (formatter \<times> string) list \<Rightarrow> (formatter \<times> accept_token) option \<Rightarrow> bool" where
  "selection_ok tokens d entries sel \<longleftrightarrow>
     (case first_max (rank tokens d) entries of
        None \<Rightarrow> sel = None
      | Some (f, mt) \<Rightarrow> (\<exists>tok. sel = Some (f, tok) \<and> selectMostSpecificAcceptToken mt tokens = Some tok \<and> at_quality tok > 0))"

lemma consider_keeps:
  assumes spec: "list_all (\<lambda>tok. at_specificity tok \<le> 3) tokens" and dist: "distinct (map fst entries)"
  shows "selection_ok tokens d entries (fold (consider_formatter tokens d) entries None)"
  using dist
proof (induction entries rule: rev_induct)
  case (snoc e es)
  obtain g mt where e: "e = (g, mt)"
    by (cases e)
  define sel where "sel = fold (consider_formatter tokens d) es None"
  have IH: "selection_ok tokens d es sel"
    using snoc by (simp add: sel_def)
  have step: "fold (consider_formatter tokens d) (es @ [e]) None = consider_formatter tokens d e sel"
    by (simp add: sel_def)
  have bound: "at_specificity tok \<le> 3" if "selectMostSpecificAcceptToken m tokens = Some tok" for m tok
    using most_specific_Some [OF that] spec by (auto simp: applies_def list_all_iff)
  show ?case
  proof (cases "rank tokens d e = 0")
    case True
    then have "consider_formatter tokens d e sel = sel"
      by (auto simp: consider_formatter_def rank_zero split: option.splits)
    moreover have "first_max (rank tokens d) (es @ [e]) = first_max (rank tokens d) es"
      using True first_max_Some [of "rank tokens d" es] by (auto simp: first_max_snoc split: option.splits)
    ultimately show ?thesis
      using IH unfolding step by (simp add: selection_ok_def)
  next
    case False
    then obtain tok where tok: "selectMostSpecificAcceptToken mt tokens = Some tok" "at_quality tok > 0"
      by (auto simp: rank_zero e split: option.splits)
    note r = rank_token [of e tokens tok d, unfolded e snd_conv fst_conv, OF tok]
    show ?thesis
    proof (cases "first_max (rank tokens d) es")
      case None
      with IH tok False show ?thesis
        unfolding step by (simp add: selection_ok_def first_max_snoc consider_formatter_def e)
    next
      case (Some m)
      obtain f mf where m: "m = (f, mf)"
        by (cases m)
      then obtain s where s: "sel = Some (f, s)" "selectMostSpecificAcceptToken mf tokens = Some s" "at_quality s > 0"
        using IH Some by (auto simp: selection_ok_def)
      have "f \<noteq> g"
        using first_max_Some [OF Some] snoc.prems by (force simp: m e)
      have rm: "rank tokens d m = 10 * at_quality s + 2 * at_specificity s + (if f = d then 1 else 0)"
        using rank_token [of m tokens s d] s by (simp add: m)
      have "(at_quality tok < at_quality s \<or> at_quality tok = at_quality s \<and> at_specificity tok < at_specificity s \<or>
          \<not> (at_quality tok > at_quality s \<or> at_specificity tok > at_specificity s \<or> g = d)) \<longleftrightarrow> \<not> rank tokens d e > rank tokens d m"
        using bound [OF tok(1)] bound [OF s(2)] \<open>f \<noteq> g\<close> unfolding r rm e by auto
      then show ?thesis
        using Some tok s unfolding step
        by (auto simp: selection_ok_def first_max_snoc consider_formatter_def e m)
    qed
  qed
qed (simp add: selection_ok_def first_max_def)

section \<open>The choice is the best acceptable formatter\<close>

lemma distinct_formatter_types:
  "distinct (map (\<lambda>f. normalizeMediaType (rf_mediaType f)) (distinct_formatters seen fs)) \<and>
   (\<lambda>f. normalizeMediaType (rf_mediaType f)) ` set (distinct_formatters seen fs) \<inter> set seen = {}"
proof (induction fs arbitrary: seen)
  case (Cons f fs)
  from Cons.IH [of seen] Cons.IH [of "normalizeMediaType (rf_mediaType f) # seen"] show ?case
    by (auto simp: Let_def)
qed simp

lemma negotiation_formatters:
  assumes "resolveContentNegotiation offered dm = Some n"
  shows "distinct (cn_formatters n)" "cn_normalizedMediaTypes n = map (\<lambda>g. normalizeMediaType (rf_mediaType g)) (cn_formatters n)"
    "cn_formatters n = distinct_formatters [] offered"
proof -
  obtain f fs where fs: "distinct_formatters [] offered = f # fs"
    using assms by (cases "distinct_formatters [] offered") (simp_all add: resolveContentNegotiation_def)
  then show n: "cn_formatters n = distinct_formatters [] offered"
    "cn_normalizedMediaTypes n = map (\<lambda>g. normalizeMediaType (rf_mediaType g)) (cn_formatters n)"
    using assms by (auto simp: resolveContentNegotiation_def Let_def)
  show "distinct (cn_formatters n)"
    unfolding n(1) using distinct_formatter_types [of "[]" offered] by (simp add: distinct_map)
qed

lemma allowed_distinct: "resolveContentNegotiation offered dm = Some n \<Longrightarrow> distinct (map fst (resolveAllowedFormatters produces n))"
proof -
  assume n: "resolveContentNegotiation offered dm = Some n"
  have "distinct (map fst (zip (cn_formatters n) (cn_normalizedMediaTypes n)))"
    using negotiation_formatters(1, 2) [OF n] by simp
  then show ?thesis
    by (auto simp: resolveAllowedFormatters_def Let_def distinct_map_filter split: option.splits)
qed

text \<open>
  C22. Content negotiation makes the best acceptable choice.  Let the route allow the formatters
  \<open>allowed\<close>, in their order.  Without an \<open>Accept\<close> header the default formatter is chosen.  With one,
  each formatter ranks by the quality of the most specific range that matches its media type (the
  earliest on a tie), then by the specificity of that range, and the default formatter wins a tie:
  the formatter chosen is the first of highest rank; the request is answered \<open>406\<close> exactly when no
  formatter is allowed or every allowed one is unmatched or has quality zero.
\<close>

theorem negotiation_optimal:
  fixes produces :: "string list option"
  assumes "resolveContentNegotiation offered defaultMediaType = Some n"
  defines "allowed \<equiv> resolveAllowedFormatters produces n"
  shows "selectResponseFormatter produces request n =
    (if allowed = [] then Inl NotAcceptable
     else (case readAcceptHeader request of
             None \<Rightarrow> Inr (resolveDefaultFormatter allowed n)
           | Some h \<Rightarrow>
               (case first_max (rank (parseAcceptHeader h) (resolveDefaultFormatter allowed n)) allowed of
                  None \<Rightarrow> Inl NotAcceptable
                | Some (f, mt) \<Rightarrow> Inr f))) \<and>
    (case selectMostSpecificAcceptToken mediaType tokens of
       None \<Rightarrow> list_all (\<lambda>tok. \<not> matchesMediaRange (at_mediaRange tok) mediaType) tokens
     | Some tok \<Rightarrow> applies mediaType tokens tok)"
proof
  show "case selectMostSpecificAcceptToken mediaType tokens of
       None \<Rightarrow> list_all (\<lambda>tok. \<not> matchesMediaRange (at_mediaRange tok) mediaType) tokens
     | Some tok \<Rightarrow> applies mediaType tokens tok"
    using most_specific_None most_specific_Some by (auto split: option.splits)
next
  have select: "(case fold (consider_formatter tokens d) allowed None of Some (f, _) \<Rightarrow> Inr f | None \<Rightarrow> Inl NotAcceptable) =
      (case first_max (rank tokens d) allowed of None \<Rightarrow> Inl NotAcceptable | Some (f, mt) \<Rightarrow> Inr f)"
    if "tokens = parseAcceptHeader h" for tokens d h
    using consider_keeps [of tokens allowed d] allowed_distinct [OF assms(1)] accept_token_specificity that
    by (auto simp: allowed_def selection_ok_def list_all_iff split: option.splits)
  have empty: "first_max (rank [] d) allowed = None" for d
    by (simp add: first_max_None rank_def selectMostSpecificAcceptToken_def list_all_iff)
  show "selectResponseFormatter produces request n =
    (if allowed = [] then Inl NotAcceptable
     else (case readAcceptHeader request of
             None \<Rightarrow> Inr (resolveDefaultFormatter allowed n)
           | Some h \<Rightarrow>
               (case first_max (rank (parseAcceptHeader h) (resolveDefaultFormatter allowed n)) allowed of
                  None \<Rightarrow> Inl NotAcceptable
                | Some (f, mt) \<Rightarrow> Inr f)))"
    unfolding selectResponseFormatter_def Let_def allowed_def [symmetric]
    using select empty by (auto split: option.splits)
qed

definition json_formatter :: formatter where
  "json_formatter = \<lparr>rf_id = 1, rf_mediaType = ''application/json''\<rparr>"

definition xml_formatter :: formatter where
  "xml_formatter = \<lparr>rf_id = 2, rf_mediaType = ''Application/XML; charset=utf-8''\<rparr>"

definition sample_negotiation :: negotiation where
  "sample_negotiation = the (resolveContentNegotiation [json_formatter, xml_formatter] None)"

definition accept_request :: "string \<Rightarrow> http_request" where
  "accept_request v = \<lparr>hr_method = ''GET'', hr_path = ''/'', hr_headers = [(''Accept'', [Some v])], hr_headExplicitOrGet = False\<rparr>"

theorem negotiation_optimal_witness:
  "selectResponseFormatter None (accept_request ''*/*;q=0.1, application/*;q=0.5, application/xml;q=0.50'') sample_negotiation = Inr xml_formatter"
proof -
  let ?h = "''*/*;q=0.1, application/*;q=0.5, application/xml;q=0.50''"
  have n: "resolveContentNegotiation [json_formatter, xml_formatter] None = Some sample_negotiation"
    by code_simp
  have "resolveAllowedFormatters None sample_negotiation \<noteq> []" "readAcceptHeader (accept_request ?h) = Some ?h"
    "first_max (rank (parseAcceptHeader ?h) (resolveDefaultFormatter (resolveAllowedFormatters None sample_negotiation) sample_negotiation))
       (resolveAllowedFormatters None sample_negotiation) = Some (xml_formatter, ''application/xml'')"
    by code_simp+
  then show ?thesis
    using negotiation_optimal [OF n, of None "accept_request ?h"] by simp
qed

end
