(* ===== verification/Static_Assets.thy ===== *)
theory Static_Assets
  imports Byte_Range Content_Negotiation
begin

text \<open>
  \<open>packages/http/src/static-assets.ts\<close>: the mapping of a request path to an asset path, the choice of
  encodings, and the middleware, which composes the conditional requests, the byte ranges and the
  \<open>Vary\<close> merge.  The asset source is an argument.  Texts of this theory are given by their UTF-8 bytes:
  percent-decoding an ASCII path yields bytes, and the characters the checks look for are ASCII.
\<close>

section \<open>Percent decoding\<close>

definition hex_value :: "char \<Rightarrow> nat option" where
  "hex_value c =
     (let n = of_char c :: nat
      in if 48 \<le> n \<and> n \<le> 57 then Some (n - 48)
         else if 65 \<le> n \<and> n \<le> 70 then Some (n - 55)
         else if 97 \<le> n \<and> n \<le> 102 then Some (n - 87) else None)"

fun read_escape :: "string \<Rightarrow> (nat \<times> string) option" where
  "read_escape (c # h # l # rest) =
     (if c = CHR ''%'' then
        (case (hex_value h, hex_value l) of (Some x, Some y) \<Rightarrow> Some (16 * x + y, rest) | _ \<Rightarrow> None)
      else None)"
| "read_escape _ = None"

fun read_continuation :: "nat \<Rightarrow> string \<Rightarrow> (nat list \<times> string) option" where
  "read_continuation 0 s = Some ([], s)"
| "read_continuation (Suc n) s =
     (case read_escape s of
        None \<Rightarrow> None
      | Some (b, rest) \<Rightarrow>
          if 128 \<le> b \<and> b < 192 then map_option (\<lambda>(bs, r). (b # bs, r)) (read_continuation n rest) else None)"

definition sequence_length :: "nat \<Rightarrow> nat" where
  "sequence_length b = (if b < 128 then 1 else if 194 \<le> b \<and> b < 224 then 2 else if 224 \<le> b \<and> b < 240 then 3
     else if 240 \<le> b \<and> b \<le> 244 then 4 else 0)"

text \<open>No overlong form, no surrogate, nothing above the last code point.\<close>

definition valid_sequence :: "nat \<Rightarrow> nat list \<Rightarrow> bool" where
  "valid_sequence b bs \<longleftrightarrow>
     (case bs of
        [] \<Rightarrow> True
      | b2 # _ \<Rightarrow> (b = 224 \<longrightarrow> 160 \<le> b2) \<and> (b = 237 \<longrightarrow> b2 < 160) \<and> (b = 240 \<longrightarrow> 144 \<le> b2) \<and> (b = 244 \<longrightarrow> b2 < 144))"

lemma read_escape_length: "read_escape s = Some (b, rest) \<Longrightarrow> length rest < length s"
  by (induction s rule: read_escape.induct) (auto split: if_splits option.splits)

lemma read_continuation_length: "read_continuation n s = Some (bs, rest) \<Longrightarrow> length rest \<le> length s"
  by (induction n arbitrary: s bs) (auto split: option.splits if_splits dest!: read_escape_length, fastforce)

text \<open>\<open>decodeURIComponent\<close>: \<open>None\<close> is the \<open>URIError\<close> it throws.\<close>

function decodeURIComponent :: "string \<Rightarrow> string option" where
  "decodeURIComponent s =
     (case s of
        [] \<Rightarrow> Some []
      | c # cs \<Rightarrow>
          if c \<noteq> CHR ''%'' then map_option (Cons c) (decodeURIComponent cs)
          else (case read_escape s of
                  None \<Rightarrow> None
                | Some (b, rest) \<Rightarrow>
                    if sequence_length b = 0 then None
                    else (case read_continuation (sequence_length b - 1) rest of
                            None \<Rightarrow> None
                          | Some (bs, rest2) \<Rightarrow>
                              if valid_sequence b bs then map_option (append (map char_of (b # bs))) (decodeURIComponent rest2)
                              else None)))"
  by auto
termination
proof (relation "measure length")
  fix s :: string and c cs p b rest q bs rest2
  assume "s = c # cs" "read_escape s = Some p" "(b, rest) = p" "read_continuation (sequence_length b - 1) rest = Some q" "(bs, rest2) = q"
  then have "length rest < length s" "length rest2 \<le> length rest"
    using read_escape_length read_continuation_length by (metis, metis)
  then show "(rest2, s) \<in> measure length"
    by simp
qed simp_all

declare decodeURIComponent.simps [simp del]

section \<open>Options\<close>

datatype dotfiles_policy = AllowDotfiles | DenyDotfiles | IgnoreDotfiles

datatype index_option = NoIndex | OneIndex string | IndexNames "string list"

datatype cache_control_option = DefaultCacheControl | NoCacheControl | CacheControl string

datatype content_encoding = Br | Gzip | Identity

record static_asset =
  sa_contentType :: string
  sa_contentEncoding :: "content_encoding option"
  sa_source :: byte_source
  sa_size :: int
  sa_validators :: "response_validators option"
  sa_variesByEncoding :: bool

datatype asset_resolution = AssetNotAcceptable | Asset static_asset

type_synonym asset_source = "string \<Rightarrow> content_encoding list \<Rightarrow> asset_resolution option"

record static_options =
  so_prefix :: "string option"
  so_dotfiles :: "dotfiles_policy option"
  so_index :: index_option
  so_cacheControl :: cache_control_option

record static_configuration =
  sc_cacheControl :: "string option"
  sc_dotfiles :: dotfiles_policy
  sc_index :: "string list"
  sc_prefix :: string

datatype static_error = BadCacheControl | BadPrefix | BadIndex

definition normalizePrefix :: "string option \<Rightarrow> static_error + string" where
  "normalizePrefix mount =
     (let v = (case mount of None \<Rightarrow> ''/'' | Some p \<Rightarrow> p)
      in if \<not> starts_with ''/'' v then Inl BadPrefix
         else (let normalized = rev (dropWhile (\<lambda>c. c = CHR ''/'') (rev v)) in Inr (if normalized = [] then ''/'' else normalized)))"

definition plain_filename :: "string \<Rightarrow> bool" where
  "plain_filename v \<longleftrightarrow> v \<noteq> [] \<and> CHR ''/'' \<notin> set v \<and> CHR 0x5C \<notin> set v \<and> v \<noteq> ''.'' \<and> v \<noteq> ''..''"

definition normalizeIndex :: "index_option \<Rightarrow> static_error + string list" where
  "normalizeIndex index =
     (case index of
        NoIndex \<Rightarrow> Inr []
      | OneIndex v \<Rightarrow> if plain_filename v then Inr [v] else Inl BadIndex
      | IndexNames vs \<Rightarrow> if vs \<noteq> [] \<and> list_all plain_filename vs then Inr vs else Inl BadIndex)"

definition resolveStaticAssetsConfiguration :: "static_options \<Rightarrow> static_error + static_configuration" where
  "resolveStaticAssetsConfiguration options =
     (case (case so_cacheControl options of
              CacheControl v \<Rightarrow> if js_trim v = [] then Inl BadCacheControl else Inr (Some v)
            | NoCacheControl \<Rightarrow> Inr None
            | DefaultCacheControl \<Rightarrow> Inr (Some ''public, max-age=0'')) of
        Inl e \<Rightarrow> Inl e
      | Inr cacheControl \<Rightarrow>
          (case normalizeIndex (so_index options) of
             Inl e \<Rightarrow> Inl e
           | Inr index \<Rightarrow>
               (case normalizePrefix (so_prefix options) of
                  Inl e \<Rightarrow> Inl e
                | Inr mount \<Rightarrow>
                    Inr \<lparr>sc_cacheControl = cacheControl,
                         sc_dotfiles = (case so_dotfiles options of None \<Rightarrow> IgnoreDotfiles | Some d \<Rightarrow> d),
                         sc_index = index, sc_prefix = mount\<rparr>)))"

section \<open>Paths\<close>

datatype asset_path = Denied | NoAsset | AssetPath bool string

definition matchesStaticPrefix :: "string \<Rightarrow> string \<Rightarrow> bool" where
  "matchesStaticPrefix requestPath mount \<longleftrightarrow>
     (if mount = ''/'' then starts_with ''/'' requestPath
      else requestPath = mount \<or> starts_with (mount @ ''/'') requestPath)"

datatype segments_result = SegmentsDenied | SegmentsRejected | Segments "string list"

fun decode_segments :: "dotfiles_policy \<Rightarrow> string list \<Rightarrow> string list \<Rightarrow> segments_result" where
  "decode_segments dotfiles [] acc = Segments acc"
| "decode_segments dotfiles (e # es) acc =
     (case decodeURIComponent e of
        None \<Rightarrow> SegmentsRejected
      | Some seg \<Rightarrow>
          if seg = [] \<or> seg = ''.'' \<or> seg = ''..'' \<or> CHR ''/'' \<in> set seg \<or> CHR 0x5C \<in> set seg \<or> CHR 0x00 \<in> set seg
          then SegmentsRejected
          else if starts_with ''.'' seg \<and> dotfiles \<noteq> AllowDotfiles
          then (if dotfiles = DenyDotfiles then SegmentsDenied else SegmentsRejected)
          else decode_segments dotfiles es (acc @ [seg]))"

definition resolveStaticAssetPath :: "string \<Rightarrow> string \<Rightarrow> dotfiles_policy \<Rightarrow> asset_path" where
  "resolveStaticAssetPath requestPath mount dotfiles =
     (if \<not> matchesStaticPrefix requestPath mount then NoAsset
      else (let encodedPath = (if mount = ''/'' then requestPath else drop (length mount) requestPath)
            in case decode_segments dotfiles (filter (\<lambda>s. s \<noteq> []) (split_on (CHR ''/'') encodedPath)) [] of
                 SegmentsDenied \<Rightarrow> Denied
               | SegmentsRejected \<Rightarrow> NoAsset
               | Segments segs \<Rightarrow> AssetPath (ends_with ''/'' encodedPath) (join_with ''/'' segs)))"

section \<open>Encodings\<close>

definition encoding_name :: "content_encoding \<Rightarrow> string" where
  "encoding_name e = (case e of Br \<Rightarrow> ''br'' | Gzip \<Rightarrow> ''gzip'' | Identity \<Rightarrow> ''identity'')"

definition encodingPriority :: "content_encoding \<Rightarrow> nat" where
  "encodingPriority e = (case e of Br \<Rightarrow> 0 | Gzip \<Rightarrow> 1 | Identity \<Rightarrow> 2)"

definition parseAcceptEncodingQuality :: "string option \<Rightarrow> nat option" where
  "parseAcceptEncodingQuality v = (case v of None \<Rightarrow> Some 1000 | Some s \<Rightarrow> parseQuality s)"

text \<open>One candidate of the header: its name and quality, when it has both.\<close>

definition read_candidate :: "string \<Rightarrow> (string \<times> nat) option" where
  "read_candidate candidate =
     (let parts = split_on (CHR '';'') (js_lower (js_trim candidate));
          quality = find (\<lambda>p. starts_with ''q='' (js_trim p)) (tl parts)
      in if hd parts = [] then None
         else map_option (Pair (hd parts)) (parseAcceptEncodingQuality (map_option (\<lambda>p. drop 2 (js_trim p)) quality)))"

definition read_qualities :: "string \<Rightarrow> (string, nat) js_map" where
  "read_qualities v =
     fold (\<lambda>c m. case read_candidate c of None \<Rightarrow> m | Some (name, q) \<Rightarrow> js_set m name q) (split_on (CHR '','') v) []"

definition resolveAcceptEncodingQuality :: "content_encoding \<Rightarrow> (string, nat) js_map \<Rightarrow> nat" where
  "resolveAcceptEncodingQuality e qualities =
     (case js_get qualities (encoding_name e) of
        Some q \<Rightarrow> q
      | None \<Rightarrow>
          (case js_get qualities ''*'' of
             None \<Rightarrow> if e = Identity then 1000 else 0
           | Some w \<Rightarrow> if e = Identity then (if w = 0 then 0 else 1000) else w))"

definition parseAcceptedEncodings :: "http_request \<Rightarrow> content_encoding list" where
  "parseAcceptedEncodings request =
     (case readFirstNonEmptyRequestHeaderValue request ''accept-encoding'' of
        None \<Rightarrow> [Identity]
      | Some v \<Rightarrow>
          (let q = (\<lambda>e. resolveAcceptEncodingQuality e (read_qualities v))
           in sort_key (\<lambda>e. (1000 - q e) * 3 + encodingPriority e) (filter (\<lambda>e. q e > 0) [Br, Gzip, Identity])))"

definition isStaticAssetEncodingAccepted :: "static_asset \<Rightarrow> content_encoding list \<Rightarrow> bool" where
  "isStaticAssetEncodingAccepted asset accepted \<longleftrightarrow>
     (case sa_contentEncoding asset of None \<Rightarrow> Identity | Some e \<Rightarrow> e) \<in> set accepted"

section \<open>Resolution\<close>

datatype resolved_asset = ResolvedDenied | ResolvedNothing | Resolved asset_resolution

fun resolve_index :: "asset_source \<Rightarrow> dotfiles_policy \<Rightarrow> string \<Rightarrow> content_encoding list \<Rightarrow> string list \<Rightarrow> resolved_asset" where
  "resolve_index source dotfiles path accepted [] = ResolvedNothing"
| "resolve_index source dotfiles path accepted (name # names) =
     (if starts_with ''.'' name \<and> dotfiles \<noteq> AllowDotfiles then
        (if dotfiles = DenyDotfiles then ResolvedDenied else resolve_index source dotfiles path accepted names)
      else (case source (if path = [] then name else path @ ''/'' @ name) accepted of
              Some a \<Rightarrow> Resolved a
            | None \<Rightarrow> resolve_index source dotfiles path accepted names))"

definition resolveStaticAsset ::
  "asset_source \<Rightarrow> static_configuration \<Rightarrow> bool \<Rightarrow> string \<Rightarrow> content_encoding list \<Rightarrow> resolved_asset" where
  "resolveStaticAsset source config directory path accepted =
     (if directory then resolve_index source (sc_dotfiles config) path accepted (sc_index config)
      else if path = [] then ResolvedNothing
      else (case source path accepted of None \<Rightarrow> ResolvedNothing | Some a \<Rightarrow> Resolved a))"

section \<open>The middleware\<close>

text \<open>
  What one call does: the response, whether \<open>next\<close> was called, the asset that was disposed, and an
  error.  \<open>isStaticAssetMethod\<close> accepts the same methods as \<open>isSafeMethod\<close>.
\<close>

record static_result =
  sr_response :: web_response
  sr_next :: bool
  sr_disposed :: "static_asset option"
  sr_error :: "range_error option"

definition pass_on :: "web_response \<Rightarrow> static_result" where
  "pass_on r = \<lparr>sr_response = r, sr_next = True, sr_disposed = None, sr_error = None\<rparr>"

definition answered :: "static_asset option \<Rightarrow> web_response \<Rightarrow> static_result" where
  "answered disposed r = \<lparr>sr_response = r, sr_next = False, sr_disposed = disposed, sr_error = None\<rparr>"

definition isStaticAssetMethod :: "string \<Rightarrow> bool" where
  "isStaticAssetMethod m \<longleftrightarrow> js_upper m = ''GET'' \<or> js_upper m = ''HEAD''"

definition vary_on :: "string \<Rightarrow> web_response \<Rightarrow> web_response" where
  "vary_on field r = r\<lparr>wr_headers := appendVaryHeader [field] (wr_headers r)\<rparr>"

definition write_not_acceptable :: "web_response \<Rightarrow> web_response" where
  "write_not_acceptable r = send None (setStatus 406 (setHeader ''Content-Length'' ''0'' (vary_on ''Accept-Encoding'' r)))"

definition asset_headers :: "static_configuration \<Rightarrow> static_asset \<Rightarrow> web_response \<Rightarrow> web_response" where
  "asset_headers config asset r =
     (let r1 = (case sc_cacheControl config of None \<Rightarrow> r | Some v \<Rightarrow> setHeader ''Cache-Control'' v r);
          r2 = (case sa_contentEncoding asset of None \<Rightarrow> r1 | Some e \<Rightarrow> setHeader ''Content-Encoding'' (encoding_name e) r1)
      in if sa_contentEncoding asset \<noteq> None \<or> sa_variesByEncoding asset then vary_on ''Accept-Encoding'' r2 else r2)"

definition serve_asset :: "int \<Rightarrow> static_configuration \<Rightarrow> http_request \<Rightarrow> static_asset \<Rightarrow> web_response \<Rightarrow> range_error option \<times> web_response" where
  "serve_asset year config request asset r =
     (let r1 = asset_headers config asset r
      in case resolveConditionalRequestRepresentation year request (Present (sa_validators asset)) of
           (outcome, validators) \<Rightarrow>
             if outcome \<noteq> Proceed then (None, writeConditionalResponse outcome validators r1)
             else writeByteRangeResponse year (applyResponseValidators validators)
                    \<lparr>re_contentType = sa_contentType asset, re_size = sa_size asset, re_source = sa_source asset\<rparr>
                    request validators (setStatus 200 r1))"

definition static_assets_handle :: "int \<Rightarrow> asset_source \<Rightarrow> static_configuration \<Rightarrow> http_request \<Rightarrow> web_response \<Rightarrow> static_result" where
  "static_assets_handle year source config request r =
     (let assetPath = resolveStaticAssetPath (hr_path request) (sc_prefix config) (sc_dotfiles config);
          accepted = parseAcceptedEncodings request
      in if \<not> isStaticAssetMethod (hr_method request) then pass_on r
         else (case assetPath of
                 Denied \<Rightarrow> answered None (send None (setStatus 403 r))
               | NoAsset \<Rightarrow> pass_on r
               | AssetPath directory path \<Rightarrow>
                   (case resolveStaticAsset source config directory path accepted of
                      ResolvedDenied \<Rightarrow> answered None (send None (setStatus 403 r))
                    | ResolvedNothing \<Rightarrow> pass_on r
                    | Resolved AssetNotAcceptable \<Rightarrow> answered None (write_not_acceptable r)
                    | Resolved (Asset asset) \<Rightarrow>
                        if \<not> isStaticAssetEncodingAccepted asset accepted then answered (Some asset) (write_not_acceptable r)
                        else (let (err, r1) = serve_asset year config request asset r
                              in \<lparr>sr_response = r1, sr_next = False, sr_disposed = Some asset, sr_error = err\<rparr>))))"

definition createStaticAssetsMiddleware ::
  "int \<Rightarrow> asset_source \<Rightarrow> static_options \<Rightarrow> static_error + (http_request \<Rightarrow> web_response \<Rightarrow> static_result)" where
  "createStaticAssetsMiddleware year source options =
     (case resolveStaticAssetsConfiguration options of
        Inl e \<Rightarrow> Inl e
      | Inr config \<Rightarrow> Inr (static_assets_handle year source config))"

section \<open>Paths stay inside the tree\<close>

definition safe_segment :: "dotfiles_policy \<Rightarrow> string \<Rightarrow> bool" where
  "safe_segment dotfiles seg \<longleftrightarrow>
     seg \<noteq> [] \<and> seg \<noteq> ''.'' \<and> seg \<noteq> ''..'' \<and> CHR ''/'' \<notin> set seg \<and> CHR 0x5C \<notin> set seg \<and>
     (starts_with ''.'' seg \<longrightarrow> dotfiles = AllowDotfiles)"

text \<open>A relative path that cannot leave the directory it is resolved in.\<close>

definition safe_path :: "dotfiles_policy \<Rightarrow> string \<Rightarrow> bool" where
  "safe_path dotfiles path \<longleftrightarrow> list_all (safe_segment dotfiles) (split_on (CHR ''/'') path)"

lemma decode_segments_safe:
  "decode_segments dotfiles es acc = Segments segs \<Longrightarrow> list_all (safe_segment dotfiles) acc \<Longrightarrow>
   list_all (safe_segment dotfiles) segs \<and> length segs = length acc + length es"
  by (induction es arbitrary: acc) (auto simp: safe_segment_def split: option.splits if_splits)

lemma join_safe:
  assumes "segs \<noteq> []" "list_all (safe_segment dotfiles) segs"
  shows "safe_path dotfiles (join_with ''/'' segs)" "join_with ''/'' segs \<noteq> []"
proof -
  have "split_on (CHR ''/'') (join_with ''/'' segs) = segs"
    using assms by (intro split_join) (auto simp: list_all_iff safe_segment_def)
  moreover from this have "join_with ''/'' segs \<noteq> []"
    using assms by (cases segs) (auto simp: safe_segment_def)
  ultimately show "safe_path dotfiles (join_with ''/'' segs)" "join_with ''/'' segs \<noteq> []"
    using assms by (simp_all add: safe_path_def)
qed

lemma asset_path_safe:
  assumes "resolveStaticAssetPath requestPath mount dotfiles = AssetPath directory path"
  shows "path = [] \<or> safe_path dotfiles path"
proof -
  obtain segs es where "decode_segments dotfiles es [] = Segments segs" "path = join_with ''/'' segs"
    using assms by (auto simp: resolveStaticAssetPath_def Let_def split: if_splits segments_result.splits)
  then show ?thesis
    using join_safe [of segs dotfiles] decode_segments_safe [of dotfiles es "[]" segs] by (cases segs) auto
qed

lemma index_path_safe:
  assumes "path = [] \<or> safe_path dotfiles path" "plain_filename name" "\<not> (starts_with ''.'' name \<and> dotfiles \<noteq> AllowDotfiles)"
  shows "safe_path dotfiles (if path = [] then name else path @ ''/'' @ name)"
proof -
  have name: "safe_segment dotfiles name" "split_on (CHR ''/'') name = [name]"
    using assms(2, 3) by (auto simp: safe_segment_def plain_filename_def split_on_free)
  have "split_on (CHR ''/'') (p @ CHR ''/'' # s) = split_on (CHR ''/'') p @ split_on (CHR ''/'') s" for p s
    by (induction p) (auto split: list.splits)
  with name assms(1) show ?thesis
    by (auto simp: safe_path_def)
qed

lemma index_source_cong:
  assumes agree: "\<And>p encodings. safe_path dotfiles p \<Longrightarrow> source p encodings = source' p encodings"
    and "path = [] \<or> safe_path dotfiles path" "list_all plain_filename names"
  shows "resolve_index source dotfiles path accepted names = resolve_index source' dotfiles path accepted names"
  using assms(3)
proof (induction names)
  case (Cons name names)
  then show ?case
    using agree [OF index_path_safe [OF assms(2), of name], of accepted] by (auto split: option.splits)
qed simp

text \<open>
  C23. No request reaches outside the asset tree.  For every configuration the middleware accepts,
  what it does depends on the asset source only through relative paths whose segments are not empty,
  not \<open>.\<close> or \<open>..\<close>, contain neither separator and, unless dotfiles are allowed, do not begin with a
  dot: two sources that agree on those paths give the same outcome for every request, whatever percent
  encoding its path uses.
\<close>

theorem static_paths_confined:
  assumes config: "resolveStaticAssetsConfiguration options = Inr config"
    and agree: "\<And>p encodings. safe_path (sc_dotfiles config) p \<Longrightarrow> source p encodings = source' p encodings"
  shows "static_assets_handle year source config request r = static_assets_handle year source' config request r"
proof -
  have names: "list_all plain_filename (sc_index config)"
    using config by (auto simp: resolveStaticAssetsConfiguration_def normalizeIndex_def split: sum.splits index_option.splits if_splits)
  have "resolveStaticAsset source config directory path accepted = resolveStaticAsset source' config directory path accepted"
    if "resolveStaticAssetPath (hr_path request) (sc_prefix config) (sc_dotfiles config) = AssetPath directory path"
    for directory path accepted
    using asset_path_safe [OF that] agree index_source_cong [of "sc_dotfiles config" source source' path, OF agree _ names]
    by (auto simp: resolveStaticAsset_def)
  then show ?thesis
    by (auto simp: static_assets_handle_def Let_def split: asset_path.splits)
qed

definition sample_static_options :: static_options where
  "sample_static_options = \<lparr>so_prefix = Some ''/assets/'', so_dotfiles = None, so_index = OneIndex ''index.html'', so_cacheControl = DefaultCacheControl\<rparr>"

definition sample_static_configuration :: static_configuration where
  "sample_static_configuration = \<lparr>sc_cacheControl = Some ''public, max-age=0'', sc_dotfiles = IgnoreDotfiles,
     sc_index = [''index.html''], sc_prefix = ''/assets''\<rparr>"

definition secret_source :: asset_source where
  "secret_source p encodings = (if p = ''../secret'' then Some AssetNotAcceptable else None)"

theorem static_paths_confined_witness:
  "static_assets_handle 2025 secret_source sample_static_configuration
     \<lparr>hr_method = ''GET'', hr_path = ''/assets/%2e%2E%2fsecret'', hr_headers = [], hr_headExplicitOrGet = False\<rparr> new_response =
   static_assets_handle 2025 (\<lambda>p encodings. None) sample_static_configuration
     \<lparr>hr_method = ''GET'', hr_path = ''/assets/%2e%2E%2fsecret'', hr_headers = [], hr_headExplicitOrGet = False\<rparr> new_response"
proof (rule static_paths_confined [of sample_static_options])
  show "resolveStaticAssetsConfiguration sample_static_options = Inr sample_static_configuration"
    by code_simp
  fix p :: string and encodings :: "content_encoding list"
  assume p: "safe_path (sc_dotfiles sample_static_configuration) p"
  have "\<not> safe_path (sc_dotfiles sample_static_configuration) ''../secret''"
    by code_simp
  with p have "p \<noteq> ''../secret''"
    by blast
  then show "secret_source p encodings = None"
    by (simp add: secret_source_def)
qed

section \<open>What is served\<close>

text \<open>The fields of an asset, and that what is written after them keeps them.\<close>

definition asset_fields :: "static_configuration \<Rightarrow> static_asset \<Rightarrow> response_headers \<Rightarrow> bool" where
  "asset_fields config asset headers \<longleftrightarrow>
     (case sc_cacheControl config of None \<Rightarrow> True | Some v \<Rightarrow> get_header headers ''cache-control'' = Some [v]) \<and>
     (case sa_contentEncoding asset of None \<Rightarrow> True | Some e \<Rightarrow> get_header headers ''content-encoding'' = Some [encoding_name e]) \<and>
     (sa_contentEncoding asset \<noteq> None \<or> sa_variesByEncoding asset \<longrightarrow> varies_on ''Accept-Encoding'' headers)"

lemma asset_field_names:
  "js_lower ''Cache-Control'' = ''cache-control''" "js_lower ''Content-Encoding'' = ''content-encoding''"
  "js_lower ''cache-control'' = ''cache-control''" "js_lower ''content-encoding'' = ''content-encoding''" "js_lower ''vary'' = ''vary''"
  "js_lower ''ETag'' = ''etag''" "js_lower ''Last-Modified'' = ''last-modified''"
  "js_lower ''Content-Length'' = ''content-length''" "js_lower ''content-length'' = ''content-length''"
  by code_simp+

lemma accept_encoding_token: "parseHeaderTokens [''Accept-Encoding''] = [''Accept-Encoding'']"
  by code_simp

lemma asset_fields_kept:
  assumes "asset_fields config asset h"
    and "\<And>name. js_lower name \<in> {''cache-control'', ''content-encoding'', ''vary''} \<Longrightarrow> get_header h' name = get_header h name"
  shows "asset_fields config asset h'"
proof -
  have "get_header h' ''cache-control'' = get_header h ''cache-control''" "get_header h' ''content-encoding'' = get_header h ''content-encoding''"
    "get_header h' ''vary'' = get_header h ''vary''"
    by (simp_all add: assms(2) asset_field_names)
  then show ?thesis
    using assms(1) varies_cong [of h' h "''Accept-Encoding''"] unfolding asset_fields_def by presburger
qed

lemma asset_fields_written: "keeps_headers h h' \<Longrightarrow> asset_fields config asset h \<Longrightarrow> asset_fields config asset h'"
  by (erule asset_fields_kept) (auto simp: keeps_headers_def)

lemma js_ok_put_header: "js_ok h \<Longrightarrow> js_ok (put_header h name v)"
  by (simp add: put_header_def jsm.ok_put Let_def)

lemma asset_headers_form:
  assumes "js_ok h"
  obtains h' where "asset_headers config asset (headers_only h st) = headers_only h' st" "asset_fields config asset h'"
proof
  define h1 where "h1 = (case sc_cacheControl config of None \<Rightarrow> h | Some v \<Rightarrow> put_header h ''Cache-Control'' [v])"
  define h2 where "h2 = (case sa_contentEncoding asset of None \<Rightarrow> h1 | Some e \<Rightarrow> put_header h1 ''Content-Encoding'' [encoding_name e])"
  define h3 where "h3 = (if sa_contentEncoding asset \<noteq> None \<or> sa_variesByEncoding asset then appendVaryHeader [''Accept-Encoding''] h2 else h2)"
  have "js_ok h2"
    using assms by (simp add: h1_def h2_def js_ok_put_header split: option.split)
  then show "asset_fields config asset h3"
    using varies_after_append [OF _ accept_encoding_token]
    by (auto simp: asset_fields_def h3_def get_after_vary asset_field_names h1_def h2_def web.look_put split: option.splits)
  show "asset_headers config asset (headers_only h st) = headers_only h3 st"
    by (auto simp: asset_headers_def vary_on_def setHeader_def Let_def h3_def h2_def h1_def split: option.splits)
qed

lemma validators_form:
  obtains h' where "applyResponseValidators v (headers_only h st) = headers_only h' st"
    "\<And>name. js_lower name \<notin> {''etag'', ''last-modified''} \<Longrightarrow> get_header h' name = get_header h name"
proof
  let ?h = "wr_headers (applyResponseValidators v (headers_only h st))"
  show "applyResponseValidators v (headers_only h st) = headers_only ?h st"
    by (subst apply_headers_only) simp
  show "get_header ?h name = get_header h name" if "js_lower name \<notin> {''etag'', ''last-modified''}" for name
    using that by (auto simp: applyResponseValidators_def setHeader_def Let_def web.look_put asset_field_names split: option.splits)
qed

text \<open>What the client gets once the asset is chosen.\<close>

definition asset_answer :: "int \<Rightarrow> static_configuration \<Rightarrow> http_request \<Rightarrow> static_asset \<Rightarrow> byte list \<Rightarrow> nat \<times> response_headers \<times> byte list \<Rightarrow> bool" where
  "asset_answer year config request asset content answer =
     (let (status, headers, body) = answer
      in asset_fields config asset headers \<and>
         (case resolveConditionalRequestRepresentation year request (Present (sa_validators asset)) of
            (NotModified, v) \<Rightarrow> status = 304 \<and> body = []
          | (PreconditionFailed, v) \<Rightarrow> status = 412 \<and> body = []
          | (Proceed, v) \<Rightarrow>
              response_spec (selected_range year request v (int (length content))) content
                (js_upper (hr_method request) = ''HEAD'') (Some 200) answer))"

abbreviation asset_entry :: "static_asset \<Rightarrow> range_entry" where
  "asset_entry asset \<equiv> \<lparr>re_contentType = sa_contentType asset, re_size = sa_size asset, re_source = sa_source asset\<rparr>"

lemma serve_asset_answers:
  assumes ok: "js_ok h" and rep: "represents (asset_entry asset) content"
  shows "\<exists>r. serve_asset year config request asset (headers_only h st) = (None, r) \<and> asset_answer year config request asset content (toResponse r)"
proof -
  obtain h1 where h1: "asset_headers config asset (headers_only h st) = headers_only h1 st" "asset_fields config asset h1"
    by (rule asset_headers_form [OF ok])
  obtain outcome v where c: "resolveConditionalRequestRepresentation year request (Present (sa_validators asset)) = (outcome, v)"
    by fastforce
  have kept: "asset_fields config asset h2" if "\<And>name. js_lower name \<notin> {''etag'', ''last-modified''} \<Longrightarrow> get_header h2 name = get_header h1 name" for h2
    using h1(2) by (rule asset_fields_kept) (use that in auto)
  show ?thesis
  proof (cases "outcome = Proceed")
    case True
    obtain h2 where h2: "applyResponseValidators v (headers_only h1 (Some 200)) = headers_only h2 (Some 200)" "asset_fields config asset h2"
      using validators_form [where v = v and h = h1 and st = "Some 200"] kept by metis
    have "\<not> wr_committed (headers_only h1 (Some 200))" "body_allowed (Some 200)"
      by (simp_all add: new_response_def body_allowed_def isResponseBodyForbidden_def)
    then show ?thesis
      using byte_range_written [where metadata = "applyResponseValidators v" and ?r0.0 = "headers_only h1 (Some 200)" and h = h2 and st = "Some 200"
          and year = year and request = request and validators = v, OF rep _ h2(1)] asset_fields_written [OF _ h2(2)] True
      by (auto simp: serve_asset_def c h1(1) asset_answer_def set_status_headers)
  next
    case False
    obtain h2 where h2: "applyResponseValidators v (headers_only h1 st) = headers_only h2 st" "asset_fields config asset h2"
      using validators_form [where v = v and h = h1 and st = st] kept by metis
    then show ?thesis
      using False by (cases outcome) (auto simp: serve_asset_def c h1(1) asset_answer_def writeConditionalResponse_def set_status_headers respond_nothing status_of_def)
  qed
qed

lemma not_acceptable_form:
  assumes "js_ok h"
  shows "\<exists>h'. toResponse (write_not_acceptable (headers_only h st)) = (406, h', []) \<and> varies_on ''Accept-Encoding'' h' \<and>
    get_header h' ''content-length'' = Some [''0'']"
proof -
  define h1 where "h1 = put_header (appendVaryHeader [''Accept-Encoding''] h) ''Content-Length'' [''0'']"
  have "get_header h1 ''vary'' = get_header (appendVaryHeader [''Accept-Encoding''] h) ''vary''"
    by (simp add: h1_def web.look_put asset_field_names)
  then have "varies_on ''Accept-Encoding'' h1"
    using varies_after_append [OF assms accept_encoding_token] varies_cong by metis
  moreover have "get_header h1 ''content-length'' = Some [''0'']"
    by (simp add: h1_def web.look_put asset_field_names)
  moreover have "write_not_acceptable (headers_only h st) = send None (headers_only h1 (Some 406))"
    by (simp add: write_not_acceptable_def h1_def setStatus_def setHeader_def vary_on_def)
  ultimately show ?thesis
    by (simp add: respond_nothing status_of_def)
qed

text \<open>
  C24. An asset is served as HTTP prescribes.  When a \<open>GET\<close> or \<open>HEAD\<close> request maps to a path the source
  finds an asset for, on a response with any earlier headers of distinct names: no later handler runs,
  there is no error, and the asset is disposed exactly once.  If its encoding is not acceptable the
  answer is an empty \<open>406\<close> that varies on \<open>Accept-Encoding\<close>.  Otherwise the answer names the encoding and
  the cache policy, varies on \<open>Accept-Encoding\<close> whenever the choice depended on it, and is \<open>304\<close> or \<open>412\<close>
  without a body when the conditional fields say so, and else the selected range of the content with its
  true length, without a body for \<open>HEAD\<close>.
\<close>

theorem static_asset_served:
  assumes request: "isStaticAssetMethod (hr_method request)"
    and path: "resolveStaticAssetPath (hr_path request) (sc_prefix config) (sc_dotfiles config) = AssetPath directory path"
    and found: "resolveStaticAsset source config directory path (parseAcceptedEncodings request) = Resolved (Asset asset)"
    and rep: "represents (asset_entry asset) content"
    and ok: "js_ok h"
  shows "let result = static_assets_handle year source config request (headers_only h st);
      answer = toResponse (sr_response result); (status, headers, body) = answer
    in \<not> sr_next result \<and> sr_error result = None \<and> sr_disposed result = Some asset \<and>
       (if isStaticAssetEncodingAccepted asset (parseAcceptedEncodings request)
        then asset_answer year config request asset content answer
        else status = 406 \<and> body = [] \<and> varies_on ''Accept-Encoding'' headers \<and> get_header headers ''content-length'' = Some [''0''])"
proof -
  have handled: "static_assets_handle year source config request r =
      (if \<not> isStaticAssetEncodingAccepted asset (parseAcceptedEncodings request) then answered (Some asset) (write_not_acceptable r)
       else (let (err, r1) = serve_asset year config request asset r
             in \<lparr>sr_response = r1, sr_next = False, sr_disposed = Some asset, sr_error = err\<rparr>))" for r
    using request by (simp add: static_assets_handle_def path found Let_def)
  show ?thesis
    using serve_asset_answers [OF ok rep, of year config request st] not_acceptable_form [OF ok, of st]
    by (auto simp: handled answered_def Let_def)
qed

definition gzip_asset :: static_asset where
  "gzip_asset = \<lparr>sa_contentType = ''text/css'', sa_contentEncoding = Some Gzip, sa_source = Uint8Array [7, 8, 9], sa_size = 3,
     sa_validators = None, sa_variesByEncoding = True\<rparr>"

definition css_request :: http_request where
  "css_request = \<lparr>hr_method = ''GET'', hr_path = ''/assets/a%2Ecss'', hr_headers = [(''accept-encoding'', [Some ''gzip;q=0.8, br;q=0''])],
     hr_headExplicitOrGet = False\<rparr>"

theorem static_asset_served_witness:
  "(let result = static_assets_handle 2025 (\<lambda>p encodings. if p = ''a.css'' then Some (Asset gzip_asset) else None)
       sample_static_configuration css_request (headers_only [(''Vary'', [''Origin''])] None)
    in \<not> sr_next result \<and> sr_disposed result = Some gzip_asset \<and>
       asset_answer 2025 sample_static_configuration css_request gzip_asset [7, 8, 9] (toResponse (sr_response result)))"
proof -
  let ?source = "\<lambda>p encodings. if p = ''a.css'' then Some (Asset gzip_asset) else None"
  have request: "isStaticAssetMethod (hr_method css_request)"
    "resolveStaticAssetPath (hr_path css_request) (sc_prefix sample_static_configuration) (sc_dotfiles sample_static_configuration) = AssetPath False ''a.css''"
    "resolveStaticAsset ?source sample_static_configuration False ''a.css'' (parseAcceptedEncodings css_request) = Resolved (Asset gzip_asset)"
    "isStaticAssetEncodingAccepted gzip_asset (parseAcceptedEncodings css_request)"
    by code_simp+
  have rep: "represents (asset_entry gzip_asset) [7, 8, 9]" and ok: "js_ok [(''Vary'', [''Origin''])]"
    by (simp_all add: represents_def gzip_asset_def toBytes_def)
  show ?thesis
    using static_asset_served [OF request(1, 2, 3) rep ok, of 2025 None] request(4) by (auto simp: Let_def)
qed

end
