(* ===== verification/Base64_Url.thy ===== *)
theory Base64_Url
  imports JS_String
begin

text \<open>
  Base64 of the runtime's buffers, a buffer being the string of its bytes: \<open>toString('base64')\<close> with its
  padding, and \<open>Buffer.from(s, 'base64')\<close>, which reads both alphabets, skips every other character and
  ignores an incomplete last byte.  The lemma \<open>unbase64_url\<close> inverts the unpadded URL form the token
  code builds, and \<open>base64_url_chars\<close> says which characters that form has.
\<close>

definition base64_char :: "nat \<Rightarrow> char" where
  "base64_char n =
     (if n < 26 then char_of (65 + n) else if n < 52 then char_of (71 + n) else if n < 62 then char_of (n - 4)
      else if n = 62 then CHR ''+'' else CHR ''/'')"

fun base64 :: "string \<Rightarrow> string" where
  "base64 (a # b # c # rest) =
     (let x = of_char a; y = of_char b; z = of_char c
      in base64_char (x div 4) # base64_char (x mod 4 * 16 + y div 16) # base64_char (y mod 16 * 4 + z div 64)
           # base64_char (z mod 64) # base64 rest)"
| "base64 [a, b] =
     (let x = of_char a; y = of_char b
      in [base64_char (x div 4), base64_char (x mod 4 * 16 + y div 16), base64_char (y mod 16 * 4), CHR ''=''])"
| "base64 [a] = (let x = of_char a in [base64_char (x div 4), base64_char (x mod 4 * 16), CHR ''='', CHR ''=''])"
| "base64 [] = []"

definition base64_value :: "char \<Rightarrow> nat option" where
  "base64_value c =
     (let n = of_char c
      in if 65 \<le> n \<and> n \<le> 90 then Some (n - 65) else if 97 \<le> n \<and> n \<le> 122 then Some (n - 71)
         else if 48 \<le> n \<and> n \<le> 57 then Some (n + 4) else if c \<in> {CHR ''+'', CHR ''-''} then Some 62
         else if c \<in> {CHR ''/'', CHR ''_''} then Some 63 else None)"

fun join_sextets :: "nat list \<Rightarrow> string" where
  "join_sextets (p # q # r # s # rest) =
     char_of (p * 4 + q div 16) # char_of (q mod 16 * 16 + r div 4) # char_of (r mod 4 * 64 + s) # join_sextets rest"
| "join_sextets [p, q, r] = [char_of (p * 4 + q div 16), char_of (q mod 16 * 16 + r div 4)]"
| "join_sextets [p, q] = [char_of (p * 4 + q div 16)]"
| "join_sextets _ = []"

primrec sextets :: "string \<Rightarrow> nat list" where
  "sextets [] = []"
| "sextets (c # cs) = (case base64_value c of None \<Rightarrow> sextets cs | Some n \<Rightarrow> n # sextets cs)"

definition unbase64 :: "string \<Rightarrow> string" where
  "unbase64 s = join_sextets (sextets s)"

definition replace_char :: "char \<Rightarrow> char \<Rightarrow> string \<Rightarrow> string" where
  "replace_char a b s = map (\<lambda>c. if c = a then b else c) s"

lemma base64_value_char: "n < 64 \<Longrightarrow> base64_value (base64_char n) = Some n"
  by (auto simp: base64_char_def base64_value_def Let_def of_char_of)

lemma base64_value_equals [simp]: "base64_value (CHR ''='') = None"
  by code_simp

lemma of_char_less [simp]: "(of_char c :: nat) < 256"
  by simp

text \<open>What decoding sees of the URL form: the characters swapped for the URL alphabet keep their values.\<close>

definition url_form :: "string \<Rightarrow> string" where
  "url_form s = replace_char (CHR ''/'') (CHR ''_'') (replace_char (CHR ''+'') (CHR ''-'') (filter (\<lambda>c. c \<noteq> CHR ''='') s))"

lemma url_form_value:
  "c \<noteq> CHR ''='' \<Longrightarrow> base64_value (let d = if c = CHR ''+'' then CHR ''-'' else c in if d = CHR ''/'' then CHR ''_'' else d) = base64_value c"
  by (simp add: base64_value_def)

lemma sextets_url_form: "sextets (url_form s) = sextets s"
proof (induction s)
  case (Cons c s)
  then show ?case
    using url_form_value [of c] by (auto simp: url_form_def replace_char_def Let_def split: if_splits option.splits)
qed (simp add: url_form_def replace_char_def)

lemma sextet_bounds:
  "(x::nat) < 256 \<Longrightarrow> x div 4 < 64" "(y::nat) < 256 \<Longrightarrow> x mod 4 * 16 + y div 16 < 64"
  "(z::nat) < 256 \<Longrightarrow> y mod 16 * 4 + z div 64 < 64" "z mod 64 < 64" "x mod 4 * 16 < 64" "y mod 16 * 4 < 64"
  by linarith+

lemma sextet_bytes:
  fixes x y z :: nat
  assumes "y < 256" "z < 256"
  shows "x div 4 * 4 + (x mod 4 * 16 + y div 16) div 16 = x"
    "(x mod 4 * 16 + y div 16) mod 16 * 16 + (y mod 16 * 4 + z div 64) div 4 = y"
    "(y mod 16 * 4 + z div 64) mod 4 * 64 + z mod 64 = z"
proof -
  have low: "(a * m + b) div m = a" "(a * m + b) mod m = b" if "b < m" for a b m :: nat
    using that by simp_all
  have "y div 16 < 16" "z div 64 < 4"
    using assms by linarith+
  then show "x div 4 * 4 + (x mod 4 * 16 + y div 16) div 16 = x"
    "(x mod 4 * 16 + y div 16) mod 16 * 16 + (y mod 16 * 4 + z div 64) div 4 = y"
    "(y mod 16 * 4 + z div 64) mod 4 * 64 + z mod 64 = z"
    by (simp_all only: low div_mult_mod_eq)
qed

lemma unbase64_base64: "unbase64 (base64 s) = s"
proof -
  have "join_sextets (sextets (base64 s)) = s"
  proof (induction s rule: base64.induct)
    case (1 a b c rest)
    then show ?case
      using sextet_bytes(1, 2) [of "of_char b" "of_char c" "of_char a"] sextet_bytes(3) [of "of_char b" "of_char c"]
      by (simp add: base64_value_char sextet_bounds Let_def)
  next
    case (2 a b)
    show ?case
      using sextet_bytes(1, 2) [of "of_char b" 0 "of_char a"]
      by (simp add: base64_value_char sextet_bounds Let_def)
  next
    case (3 a)
    show ?case
      using sextet_bytes(1) [of 0 0 "of_char a"] by (simp add: base64_value_char sextet_bounds Let_def)
  qed (simp)
  then show ?thesis
    by (simp add: unbase64_def)
qed

lemma unbase64_url: "unbase64 (url_form (base64 s)) = s"
  using unbase64_base64 by (simp add: unbase64_def sextets_url_form)

text \<open>The characters of the URL form.\<close>

lemma base64_char_dot: "n < 64 \<Longrightarrow> base64_char n \<noteq> CHR ''.''"
  using base64_value_char [of n] by (auto simp: base64_value_def)

lemma base64_dot: "CHR ''.'' \<notin> set (base64 s)"
  by (induction s rule: base64.induct) (auto simp: Let_def sextet_bounds dest!: sym [of "CHR ''.''"] simp: base64_char_dot)

lemma base64_url_dot: "CHR ''.'' \<notin> set (url_form (base64 s))"
  using base64_dot [of s] by (auto simp: url_form_def replace_char_def split: if_splits)

end
