(* ===== verification/Jwt.thy ===== *)
theory Jwt
  imports Base64_Url JS_Number
begin

text \<open>
  \<open>packages/jwt/src/signing/verifier.ts\<close>, \<open>signer.ts\<close>, \<open>algorithm-policy.ts\<close>,
  \<open>key-entries.ts\<close> and the claim policy of \<open>refresh/\<close>: signing and verification of compact tokens.
  The runtime's \<open>JSON\<close> and \<open>crypto\<close>, the key provider of the application and the remote key set are
  arguments.  Texts are the strings of their UTF-8 bytes.  The clock is read once per call.
\<close>

section \<open>The runtime\<close>

datatype json = JNull | JBool bool | JNum js_number | JStr string | JArr "json list" | JObj "(string, json) js_map"

type_synonym claims = "(string, json) js_map"

datatype key = KeyText string | KeyObject nat

record jwt_runtime =
  rt_parse :: "string \<Rightarrow> json option"
  rt_stringify :: "claims \<Rightarrow> string"
  rt_hmac :: "string \<Rightarrow> string \<Rightarrow> string \<Rightarrow> string"
  rt_sign :: "string \<Rightarrow> bool \<Rightarrow> key \<Rightarrow> string \<Rightarrow> string"
  rt_verify :: "string \<Rightarrow> bool \<Rightarrow> key \<Rightarrow> string \<Rightarrow> string \<Rightarrow> bool"

datatype jwt_error =
    JwtInvalidTokenError string
  | JwtExpiredTokenError string
  | JwtConfigurationError string

definition truthy_text :: "string option \<Rightarrow> string option" where
  "truthy_text v = (case v of Some [] \<Rightarrow> None | _ \<Rightarrow> v)"

definition orelse :: "'a option \<Rightarrow> 'a option \<Rightarrow> 'a option" where
  "orelse a b = (case a of None \<Rightarrow> b | Some x \<Rightarrow> Some x)"

definition quoted :: "string \<Rightarrow> string" where
  "quoted s = CHR 0x22 # s @ [CHR 0x22]"

section \<open>Algorithms\<close>

definition SUPPORTED_HMAC_HASH :: "(string \<times> string) list" where
  "SUPPORTED_HMAC_HASH = [(''HS256'', ''sha256''), (''HS384'', ''sha384''), (''HS512'', ''sha512'')]"

definition SUPPORTED_ASYMMETRIC_HASH :: "(string \<times> string) list" where
  "SUPPORTED_ASYMMETRIC_HASH =
     [(''RS256'', ''sha256''), (''RS384'', ''sha384''), (''RS512'', ''sha512''),
      (''ES256'', ''sha256''), (''ES384'', ''sha384''), (''ES512'', ''sha512'')]"

definition hasOwnAlgorithmMapping :: "(string \<times> string) list \<Rightarrow> string \<Rightarrow> bool" where
  "hasOwnAlgorithmMapping mappings alg \<longleftrightarrow> alg \<in> set (map fst mappings)"

definition isSupportedAlgorithm :: "string \<Rightarrow> bool" where
  "isSupportedAlgorithm alg \<longleftrightarrow>
     hasOwnAlgorithmMapping SUPPORTED_HMAC_HASH alg \<or> hasOwnAlgorithmMapping SUPPORTED_ASYMMETRIC_HASH alg"

definition assertJwtAlgorithms :: "string list \<Rightarrow> string \<Rightarrow> jwt_error option" where
  "assertJwtAlgorithms algorithms ctx =
     (if algorithms = [] then Some (JwtConfigurationError (ctx @ '' requires at least one allowed JWT algorithm.''))
      else (case find (\<lambda>a. \<not> isSupportedAlgorithm a) algorithms of
              Some a \<Rightarrow> Some (JwtConfigurationError (ctx @ '' received unsupported JWT algorithm '' @ quoted a @ ''.''))
            | None \<Rightarrow> None))"

definition isAllowedAlgorithm :: "json option \<Rightarrow> string list \<Rightarrow> bool" where
  "isAllowedAlgorithm alg allowed \<longleftrightarrow> (case alg of Some (JStr a) \<Rightarrow> isSupportedAlgorithm a \<and> a \<in> set allowed | _ \<Rightarrow> False)"

section \<open>Options and keys\<close>

record jwt_key_entry =
  ke_kid :: string
  ke_secret :: "string option"
  ke_privateKey :: "key option"
  ke_publicKey :: "key option"

datatype audience = OneAudience string | Audiences "string list"

text \<open>What a store of the application implements besides the required operations.\<close>

datatype store_choice = MemoryStore | ApplicationStore bool bool bool

record refresh_policy =
  rp_algorithms :: "string list option"
  rp_secret :: string
  rp_expiresInSeconds :: js_number
  rp_verifyMaxAgeSeconds :: "js_number option"
  rp_rotation :: bool
  rp_store :: store_choice

record jwt_options =
  jo_algorithms :: "string list"
  jo_accessTokenTtlSeconds :: "js_number option"
  jo_audience :: "audience option"
  jo_clockSkewSeconds :: "js_number option"
  jo_issuer :: "string option"
  jo_keys :: "jwt_key_entry list"
  jo_maxAge :: "js_number option"
  jo_requireExp :: "bool option"
  jo_secretOrKeyProvider :: "(claims \<Rightarrow> key option) option"
  jo_secret :: "string option"
  jo_privateKey :: "key option"
  jo_publicKey :: "key option"
  jo_refreshToken :: "refresh_policy option"

record verify_policy =
  vp_algorithms :: "string list option"
  vp_audience :: "audience option"
  vp_clockSkewSeconds :: "js_number option"
  vp_issuer :: "string option"
  vp_maxAge :: "js_number option"
  vp_requireExp :: "bool option"

fun assert_kids :: "string list \<Rightarrow> jwt_key_entry list \<Rightarrow> jwt_error option" where
  "assert_kids keyIds [] = None"
| "assert_kids keyIds (e # es) =
     (if ke_kid e = [] \<or> ke_kid e \<in> set keyIds
      then Some (JwtConfigurationError ''JWT key entries require non-empty unique kid values.'')
      else assert_kids (ke_kid e # keyIds) es)"

definition assertJwtKeyEntries :: "jwt_key_entry list \<Rightarrow> jwt_error option" where
  "assertJwtKeyEntries keys = assert_kids [] keys"

record key_state =
  ks_defaultHmacSecret :: "string option"
  ks_defaultPublicKey :: "key option"
  ks_hmacKeyCount :: nat
  ks_keyByKid :: "(string, jwt_key_entry) js_map"
  ks_publicKeyCount :: nat

definition empty_key_state :: key_state where
  "empty_key_state = \<lparr>ks_defaultHmacSecret = None, ks_defaultPublicKey = None, ks_hmacKeyCount = 0, ks_keyByKid = [], ks_publicKeyCount = 0\<rparr>"

definition add_key :: "jwt_key_entry \<Rightarrow> key_state \<Rightarrow> key_state" where
  "add_key e st =
     (let st1 = st\<lparr>ks_keyByKid := js_set (ks_keyByKid st) (ke_kid e) e\<rparr>;
          st2 = (case truthy_text (ke_secret e) of
                   None \<Rightarrow> st1
                 | Some s \<Rightarrow> st1\<lparr>ks_hmacKeyCount := ks_hmacKeyCount st1 + 1,
                               ks_defaultHmacSecret := (if ks_hmacKeyCount st1 + 1 = 1 then Some s else None)\<rparr>)
      in case ke_publicKey e of
           None \<Rightarrow> st2
         | Some k \<Rightarrow> st2\<lparr>ks_publicKeyCount := ks_publicKeyCount st2 + 1,
                       ks_defaultPublicKey := (if ks_publicKeyCount st2 + 1 = 1 then Some k else None)\<rparr>)"

definition createKeyResolutionState :: "jwt_key_entry list \<Rightarrow> key_state" where
  "createKeyResolutionState keys = fold add_key keys empty_key_state"

text \<open>\<open>typeof kid === 'string' && kid.length > 0\<close> on a field of the parsed header.\<close>

definition text_kid :: "json option \<Rightarrow> string option" where
  "text_kid kid = (case kid of Some (JStr s) \<Rightarrow> truthy_text (Some s) | _ \<Rightarrow> None)"

definition resolveHmacSecret :: "jwt_options \<Rightarrow> key_state \<Rightarrow> json option \<Rightarrow> jwt_error + string option" where
  "resolveHmacSecret options st kid =
     (case text_kid kid of
        Some k \<Rightarrow>
          (case js_get (ks_keyByKid st) k of
             None \<Rightarrow> Inl (JwtInvalidTokenError ''JWT key id (kid) is not recognized.'')
           | Some e \<Rightarrow>
               (case truthy_text (ke_secret e) of
                  None \<Rightarrow> Inl (JwtConfigurationError (''JWT key '' @ quoted k @ '' does not provide an HMAC secret.''))
                | Some s \<Rightarrow> Inr (Some s)))
      | None \<Rightarrow>
          if ks_hmacKeyCount st > 1 then Inl (JwtInvalidTokenError ''JWT is missing key id (kid) for multi-key HMAC verification.'')
          else Inr (orelse (ks_defaultHmacSecret st) (jo_secret options)))"

definition resolveStaticPublicKey :: "jwt_options \<Rightarrow> key_state \<Rightarrow> json option \<Rightarrow> jwt_error + key option" where
  "resolveStaticPublicKey options st kid =
     (let unselected =
            (if ks_publicKeyCount st > 1
             then Inl (JwtInvalidTokenError ''JWT is missing key id (kid) for multi-key public key verification.'')
             else Inr (orelse (ks_defaultPublicKey st) (jo_publicKey options)))
      in case text_kid kid of
           None \<Rightarrow> unselected
         | Some k \<Rightarrow>
             if ks_keyByKid st = [] then unselected
             else (case js_get (ks_keyByKid st) k of
                     None \<Rightarrow> Inl (JwtInvalidTokenError ''JWT key id (kid) is not recognized.'')
                   | Some e \<Rightarrow>
                       (case ke_publicKey e of
                          None \<Rightarrow> Inl (JwtConfigurationError (''JWT key '' @ quoted k @ '' does not provide a public key.''))
                        | Some pk \<Rightarrow> Inr (Some pk))))"

section \<open>Encoding\<close>

definition encodeBase64Url :: "string \<Rightarrow> string" where
  "encodeBase64Url v = url_form (base64 v)"

definition decodeBase64Url :: "string \<Rightarrow> string" where
  "decodeBase64Url v =
     (let normalized = replace_char (CHR ''_'') (CHR ''/'') (replace_char (CHR ''-'') (CHR ''+'') v);
          padding = (if length normalized mod 4 = 0 then [] else replicate (4 - length normalized mod 4) (CHR ''=''))
      in unbase64 (normalized @ padding))"

definition invalid_jwt :: jwt_error where
  "invalid_jwt = JwtInvalidTokenError ''Invalid JWT.''"

definition parseJwtPart :: "jwt_runtime \<Rightarrow> string \<Rightarrow> jwt_error + claims" where
  "parseJwtPart rt v =
     (case rt_parse rt (decodeBase64Url v) of
        None \<Rightarrow> Inl invalid_jwt
      | Some (JObj fs) \<Rightarrow> Inr fs
      | Some _ \<Rightarrow> Inl (JwtInvalidTokenError ''JWT header and payload must be JSON objects.''))"

definition parseTokenSegments :: "string \<Rightarrow> jwt_error + string \<times> string \<times> string" where
  "parseTokenSegments tok = (case split_on (CHR ''.'') tok of [h, p, s] \<Rightarrow> Inr (h, p, s) | _ \<Rightarrow> Inl invalid_jwt)"

section \<open>Signatures\<close>

definition verifyHmacSignature :: "jwt_runtime \<Rightarrow> string \<Rightarrow> string \<Rightarrow> string \<Rightarrow> string \<Rightarrow> jwt_error option" where
  "verifyHmacSignature rt algorithm secret signingInput signatureSegment =
     (case map_of SUPPORTED_HMAC_HASH algorithm of
        None \<Rightarrow> Some invalid_jwt
      | Some h \<Rightarrow>
          (let expected = encodeBase64Url (rt_hmac rt h secret signingInput)
           in if unbase64 expected = unbase64 signatureSegment then None else Some invalid_jwt))"

definition is_ec :: "string \<Rightarrow> bool" where
  "is_ec algorithm = starts_with ''ES'' algorithm"

definition verifyAsymmetricSignature :: "jwt_runtime \<Rightarrow> string \<Rightarrow> key \<Rightarrow> string \<Rightarrow> string \<Rightarrow> jwt_error option" where
  "verifyAsymmetricSignature rt algorithm publicKey signingInput signatureSegment =
     (case map_of SUPPORTED_ASYMMETRIC_HASH algorithm of
        None \<Rightarrow> Some invalid_jwt
      | Some h \<Rightarrow>
          if rt_verify rt h (is_ec algorithm) publicKey signingInput (unbase64 signatureSegment) then None else Some invalid_jwt)"

definition resolveProviderKey :: "jwt_options \<Rightarrow> claims \<Rightarrow> key option" where
  "resolveProviderKey options header = (case jo_secretOrKeyProvider options of None \<Rightarrow> None | Some f \<Rightarrow> f header)"

text \<open>The secret of an HMAC token: the provider's, or the configured one.\<close>

definition selected_secret :: "claims \<Rightarrow> jwt_options \<Rightarrow> key_state \<Rightarrow> jwt_error + string option" where
  "selected_secret header options st =
     (case resolveProviderKey options header of
        Some (KeyObject k) \<Rightarrow> Inl (JwtConfigurationError ''secretOrKeyProvider must return a string for HMAC algorithms.'')
      | Some (KeyText s) \<Rightarrow> Inr (Some s)
      | None \<Rightarrow> resolveHmacSecret options st (js_get header ''kid''))"

definition verifyHmacTokenSignature ::
  "jwt_runtime \<Rightarrow> claims \<Rightarrow> string \<Rightarrow> string \<Rightarrow> string \<Rightarrow> jwt_options \<Rightarrow> key_state \<Rightarrow> jwt_error option" where
  "verifyHmacTokenSignature rt header alg signingInput signatureSegment options st =
     (case selected_secret header options st of
        Inl e \<Rightarrow> Some e
      | Inr secret \<Rightarrow>
          (case truthy_text secret of
             None \<Rightarrow> Some (JwtConfigurationError ''JWT secret is not configured.'')
           | Some s \<Rightarrow> verifyHmacSignature rt alg s signingInput signatureSegment))"

text \<open>The remote key set answers a key or an error for a key id.\<close>

type_synonym jwks_client = "string \<Rightarrow> jwt_error + key"

definition resolveJwksPublicKey :: "json option \<Rightarrow> jwks_client \<Rightarrow> jwt_error + key" where
  "resolveJwksPublicKey kid client =
     (case text_kid kid of
        None \<Rightarrow> Inl (JwtInvalidTokenError ''JWT is missing key id (kid) for JWKS resolution.'')
      | Some k \<Rightarrow> client k)"

definition selected_public_key :: "claims \<Rightarrow> jwt_options \<Rightarrow> key_state \<Rightarrow> jwks_client option \<Rightarrow> jwt_error + key option" where
  "selected_public_key header options st jwks =
     (case resolveProviderKey options header of
        Some k \<Rightarrow> Inr (Some k)
      | None \<Rightarrow>
          (case jwks of
             Some client \<Rightarrow> map_sum id Some (resolveJwksPublicKey (js_get header ''kid'') client)
           | None \<Rightarrow> resolveStaticPublicKey options st (js_get header ''kid'')))"

text \<open>A key that is missing or an empty text counts as not configured.\<close>

definition truthy_key :: "key option \<Rightarrow> key option" where
  "truthy_key k = (if k = Some (KeyText []) then None else k)"

definition verifyAsymmetricTokenSignature ::
  "jwt_runtime \<Rightarrow> claims \<Rightarrow> string \<Rightarrow> string \<Rightarrow> string \<Rightarrow> jwt_options \<Rightarrow> key_state \<Rightarrow> jwks_client option \<Rightarrow> jwt_error option" where
  "verifyAsymmetricTokenSignature rt header alg signingInput signatureSegment options st jwks =
     (case selected_public_key header options st jwks of
        Inl e \<Rightarrow> Some e
      | Inr publicKey \<Rightarrow>
          (case truthy_key publicKey of
             None \<Rightarrow> Some (JwtConfigurationError ''JWT public key is not configured.'')
           | Some k \<Rightarrow> verifyAsymmetricSignature rt alg k signingInput signatureSegment))"

definition verifyTokenSignature ::
  "jwt_runtime \<Rightarrow> claims \<Rightarrow> string \<Rightarrow> string \<Rightarrow> string \<Rightarrow> jwt_options \<Rightarrow> key_state \<Rightarrow> jwks_client option \<Rightarrow> jwt_error option" where
  "verifyTokenSignature rt header alg signingInput signatureSegment options st jwks =
     (if hasOwnAlgorithmMapping SUPPORTED_HMAC_HASH alg
      then verifyHmacTokenSignature rt header alg signingInput signatureSegment options st
      else verifyAsymmetricTokenSignature rt header alg signingInput signatureSegment options st jwks)"

section \<open>Claims\<close>

definition isFiniteNumericDate :: "json option \<Rightarrow> bool" where
  "isFiniteNumericDate v = (case v of Some (JNum n) \<Rightarrow> is_finite n | _ \<Rightarrow> False)"

definition assertFiniteNumericDateClaim :: "claims \<Rightarrow> string \<Rightarrow> jwt_error option" where
  "assertFiniteNumericDateClaim payload claim =
     (if js_get payload claim \<noteq> None \<and> \<not> isFiniteNumericDate (js_get payload claim)
      then Some (JwtInvalidTokenError (''JWT '' @ claim @ '' claim must be a finite numeric date.'')) else None)"

definition resolveClockSkewSeconds :: "js_number option \<Rightarrow> jwt_error + rat" where
  "resolveClockSkewSeconds v =
     (case (case v of None \<Rightarrow> Fin 0 | Some n \<Rightarrow> n) of
        Fin x \<Rightarrow> if x < 0 then Inl (JwtConfigurationError ''JWT clockSkewSeconds must be a non-negative finite number.'') else Inr x
      | _ \<Rightarrow> Inl (JwtConfigurationError ''JWT clockSkewSeconds must be a non-negative finite number.''))"

text \<open>A numeric claim; it is only read where the claim is a finite number.\<close>

definition date_claim :: "claims \<Rightarrow> string \<Rightarrow> rat option" where
  "date_claim payload claim = (case js_get payload claim of Some (JNum (Fin x)) \<Rightarrow> Some x | _ \<Rightarrow> None)"

definition is_number :: "json option \<Rightarrow> bool" where
  "is_number v = (case v of Some (JNum n) \<Rightarrow> True | _ \<Rightarrow> False)"

definition validateMaxAgeClaims :: "claims \<Rightarrow> js_number option \<Rightarrow> rat \<Rightarrow> int \<Rightarrow> jwt_error option" where
  "validateMaxAgeClaims payload maxAge clockSkew now =
     (case maxAge of
        None \<Rightarrow> None
      | Some (Fin limit) \<Rightarrow>
          if limit < 0 then Some (JwtConfigurationError ''JWT maxAge must be a non-negative finite number.'')
          else (case date_claim payload ''iat'' of
                  None \<Rightarrow> Some (JwtInvalidTokenError ''JWT iat claim must be a finite numeric date when maxAge is configured.'')
                | Some iat \<Rightarrow>
                    if iat - clockSkew > of_int now then Some (JwtInvalidTokenError ''JWT iat claim cannot be in the future.'')
                    else if of_int now - iat > limit + clockSkew then Some (JwtExpiredTokenError ''JWT exceeds maxAge.'')
                    else None)
      | Some _ \<Rightarrow> Some (JwtConfigurationError ''JWT maxAge must be a non-negative finite number.''))"

definition truthy_json :: "json \<Rightarrow> bool" where
  "truthy_json v = (case v of JNull \<Rightarrow> False | JBool b \<Rightarrow> b | JNum n \<Rightarrow> n \<noteq> Fin 0 \<and> n \<noteq> NaN | JStr s \<Rightarrow> s \<noteq> [] | _ \<Rightarrow> True)"

definition expected_audience :: "audience option \<Rightarrow> string list option" where
  "expected_audience a =
     (case a of None \<Rightarrow> None | Some (OneAudience s) \<Rightarrow> (if s = [] then None else Some [s]) | Some (Audiences ss) \<Rightarrow> Some ss)"

definition actual_audience :: "json option \<Rightarrow> json list" where
  "actual_audience aud = (case aud of None \<Rightarrow> [] | Some (JArr vs) \<Rightarrow> vs | Some v \<Rightarrow> if truthy_json v then [v] else [])"

definition validateIssuerAndAudience :: "claims \<Rightarrow> jwt_options \<Rightarrow> jwt_error option" where
  "validateIssuerAndAudience payload options =
     (if truthy_text (jo_issuer options) \<noteq> None \<and> js_get payload ''iss'' \<noteq> map_option JStr (jo_issuer options)
      then Some (JwtInvalidTokenError ''JWT issuer does not match.'')
      else (case expected_audience (jo_audience options) of
              None \<Rightarrow> None
            | Some expected \<Rightarrow>
                if list_ex (\<lambda>a. JStr a \<in> set (actual_audience (js_get payload ''aud''))) expected then None
                else Some (JwtInvalidTokenError ''JWT audience does not match.'')))"

definition after_expiry :: "claims \<Rightarrow> jwt_options \<Rightarrow> rat \<Rightarrow> int \<Rightarrow> jwt_error option" where
  "after_expiry payload options clockSkew now =
     (case date_claim payload ''nbf'' of
        Some nbf \<Rightarrow> if nbf - clockSkew > of_int now then Some (JwtInvalidTokenError ''JWT is not active yet.'')
                    else validateIssuerAndAudience payload options
      | None \<Rightarrow> validateIssuerAndAudience payload options)"

definition validateTokenClaims :: "claims \<Rightarrow> jwt_options \<Rightarrow> int \<Rightarrow> jwt_error option" where
  "validateTokenClaims payload options now =
     (case resolveClockSkewSeconds (jo_clockSkewSeconds options) of
        Inl e \<Rightarrow> Some e
      | Inr clockSkew \<Rightarrow>
          if jo_requireExp options \<noteq> Some False \<and> \<not> is_number (js_get payload ''exp'')
          then Some (JwtInvalidTokenError ''JWT is missing a required expiration claim.'')
          else orelse (assertFiniteNumericDateClaim payload ''exp'')
              (orelse (assertFiniteNumericDateClaim payload ''nbf'')
              (orelse (validateMaxAgeClaims payload (jo_maxAge options) clockSkew now)
              (case date_claim payload ''exp'' of
                 Some expiry \<Rightarrow> if expiry + clockSkew \<le> of_int now then Some (JwtExpiredTokenError ''JWT has expired.'')
                             else after_expiry payload options clockSkew now
               | None \<Rightarrow> after_expiry payload options clockSkew now))))"

text \<open>The principal of a token.\<close>

record jwt_principal =
  pr_subject :: string
  pr_issuer :: "json option"
  pr_audience :: "json option"
  pr_roles :: "string list option"
  pr_scopes :: "string list option"
  pr_claims :: claims

fun json_texts :: "json list \<Rightarrow> string list" where
  "json_texts (JStr s # vs) = s # json_texts vs"
| "json_texts (_ # vs) = json_texts vs"
| "json_texts [] = []"

definition normalizePrincipal :: "claims \<Rightarrow> jwt_error + jwt_principal" where
  "normalizePrincipal c =
     (case js_get c ''sub'' of
        Some (JStr (x # xs)) \<Rightarrow>
          Inr \<lparr>pr_subject = x # xs, pr_issuer = js_get c ''iss'', pr_audience = js_get c ''aud'',
               pr_roles = (case js_get c ''roles'' of Some (JArr vs) \<Rightarrow> Some (json_texts vs) | _ \<Rightarrow> None),
               pr_scopes = (case js_get c ''scopes'' of
                              Some (JArr vs) \<Rightarrow> Some (filter (\<lambda>s. s \<noteq> []) (json_texts vs))
                            | _ \<Rightarrow> (case js_get c ''scope'' of
                                     Some (JStr s) \<Rightarrow> Some (filter (\<lambda>s. s \<noteq> []) (split_on (CHR '' '') s))
                                   | _ \<Rightarrow> None)),
               pr_claims = c\<rparr>
      | _ \<Rightarrow> Inl (JwtInvalidTokenError ''JWT is missing a valid subject claim.''))"

section \<open>The refresh policy\<close>

definition store_rotates :: "store_choice \<Rightarrow> bool" where
  "store_rotates st = (case st of MemoryStore \<Rightarrow> True | ApplicationStore r c f \<Rightarrow> r)"

definition store_consumes :: "store_choice \<Rightarrow> bool" where
  "store_consumes st = (case st of MemoryStore \<Rightarrow> False | ApplicationStore r c f \<Rightarrow> c)"

definition store_revokes_families :: "store_choice \<Rightarrow> bool" where
  "store_revokes_families st = (case st of MemoryStore \<Rightarrow> True | ApplicationStore r c f \<Rightarrow> f)"

definition positive_number :: "js_number \<Rightarrow> bool" where
  "positive_number v = (case v of Fin x \<Rightarrow> 0 < x | _ \<Rightarrow> False)"

definition non_negative_number :: "js_number \<Rightarrow> bool" where
  "non_negative_number v = (case v of Fin x \<Rightarrow> 0 \<le> x | _ \<Rightarrow> False)"

definition refresh_algorithms_error :: "string list option \<Rightarrow> jwt_error option" where
  "refresh_algorithms_error algorithms =
     (case algorithms of
        None \<Rightarrow> None
      | Some [] \<Rightarrow> Some (JwtConfigurationError ''JWT refresh token algorithms must contain at least one HMAC algorithm.'')
      | Some as \<Rightarrow>
          (case find (\<lambda>a. \<not> hasOwnAlgorithmMapping SUPPORTED_HMAC_HASH a) as of
             None \<Rightarrow> None
           | Some a \<Rightarrow> Some (JwtConfigurationError (''JWT refresh token received unsupported algorithm '' @ quoted a @
                              ''; only HS256, HS384, and HS512 are allowed.''))))"

definition normalizeRefreshTokenOptions :: "refresh_policy option \<Rightarrow> jwt_error + refresh_policy" where
  "normalizeRefreshTokenOptions options =
     (case options of
        None \<Rightarrow> Inl (JwtConfigurationError ''JWT refresh token options are not configured.'')
      | Some p \<Rightarrow>
          (case refresh_algorithms_error (rp_algorithms p) of
             Some e \<Rightarrow> Inl e
           | None \<Rightarrow>
               if rp_secret p = [] then Inl (JwtConfigurationError ''JWT refresh token secret must be a non-empty string.'')
               else if \<not> positive_number (rp_expiresInSeconds p)
               then Inl (JwtConfigurationError ''JWT refresh token expiresInSeconds must be a positive finite number.'')
               else if rp_verifyMaxAgeSeconds p \<noteq> None \<and> \<not> non_negative_number (the (rp_verifyMaxAgeSeconds p))
               then Inl (JwtConfigurationError ''JWT refresh token verifyMaxAgeSeconds must be a non-negative finite number.'')
               else if rp_rotation p \<and> \<not> store_rotates (rp_store p) \<and> \<not> store_consumes (rp_store p)
               then Inl (JwtConfigurationError ''Refresh token rotation requires an atomic store.rotate() or store.consume() implementation.'')
               else Inr p))"

section \<open>The verifier\<close>

record verifier =
  vf_options :: jwt_options
  vf_jwksClient :: "jwks_client option"
  vf_keyResolutionState :: key_state
  vf_refreshVerificationOptions :: "jwt_options option"
  vf_refreshKeyResolutionState :: key_state

definition verifyToken ::
  "jwt_runtime \<Rightarrow> int \<Rightarrow> string \<Rightarrow> jwt_options \<Rightarrow> key_state \<Rightarrow> jwks_client option \<Rightarrow> jwt_error + jwt_principal" where
  "verifyToken rt now tok options st jwks =
     (case parseTokenSegments tok of
        Inl e \<Rightarrow> Inl e
      | Inr (headerSegment, payloadSegment, signatureSegment) \<Rightarrow>
          (case parseJwtPart rt headerSegment of
             Inl e \<Rightarrow> Inl e
           | Inr header \<Rightarrow>
               if \<not> isAllowedAlgorithm (js_get header ''alg'') (jo_algorithms options)
               then Inl (JwtInvalidTokenError ''JWT algorithm is not allowed.'')
               else (case js_get header ''alg'' of
                       Some (JStr alg) \<Rightarrow>
                         (case verifyTokenSignature rt header alg (headerSegment @ ''.'' @ payloadSegment) signatureSegment options st jwks of
                            Some e \<Rightarrow> Inl e
                          | None \<Rightarrow>
                              (case parseJwtPart rt payloadSegment of
                                 Inl e \<Rightarrow> Inl e
                               | Inr payload \<Rightarrow>
                                   (case validateTokenClaims payload options now of
                                      Some e \<Rightarrow> Inl e
                                    | None \<Rightarrow> normalizePrincipal payload)))
                     | _ \<Rightarrow> Inl (JwtInvalidTokenError ''JWT algorithm is not allowed.''))))"

definition createRefreshVerificationOptions :: "jwt_options \<Rightarrow> refresh_policy \<Rightarrow> jwt_error + jwt_options" where
  "createRefreshVerificationOptions options policy =
     (let algorithms = filter (hasOwnAlgorithmMapping SUPPORTED_HMAC_HASH)
            (case rp_algorithms policy of Some as \<Rightarrow> as | None \<Rightarrow> jo_algorithms options)
      in if algorithms = []
         then Inl (JwtConfigurationError
           ''JWT refresh token verifier requires at least one HMAC algorithm (HS256/HS384/HS512) in the allowed algorithms list.'')
         else Inr \<lparr>jo_algorithms = algorithms, jo_accessTokenTtlSeconds = None, jo_audience = jo_audience options,
           jo_clockSkewSeconds = jo_clockSkewSeconds options, jo_issuer = jo_issuer options, jo_keys = [],
           jo_maxAge = rp_verifyMaxAgeSeconds policy, jo_requireExp = Some True, jo_secretOrKeyProvider = None,
           jo_secret = Some (rp_secret policy), jo_privateKey = None, jo_publicKey = None, jo_refreshToken = None\<rparr>)"

definition newVerifier :: "jwt_options \<Rightarrow> jwks_client option \<Rightarrow> jwt_error + verifier" where
  "newVerifier options jwks =
     (case orelse (assertJwtAlgorithms (jo_algorithms options) ''JWT verifier'') (assertJwtKeyEntries (jo_keys options)) of
        Some e \<Rightarrow> Inl e
      | None \<Rightarrow>
          (let made = (\<lambda>refresh. \<lparr>vf_options = options, vf_jwksClient = jwks,
                 vf_keyResolutionState = createKeyResolutionState (jo_keys options),
                 vf_refreshVerificationOptions = refresh,
                 vf_refreshKeyResolutionState = createKeyResolutionState (case refresh of None \<Rightarrow> [] | Some r \<Rightarrow> jo_keys r)\<rparr>)
           in case jo_refreshToken options of
                None \<Rightarrow> Inr (made None)
              | Some policy \<Rightarrow>
                  (case normalizeRefreshTokenOptions (Some policy) of
                     Inl e \<Rightarrow> Inl e
                   | Inr p \<Rightarrow> map_sum id (\<lambda>r. made (Some r)) (createRefreshVerificationOptions options p))))"

definition policy_options :: "jwt_options \<Rightarrow> verify_policy \<Rightarrow> jwt_options" where
  "policy_options options p =
     options\<lparr>jo_algorithms := (case vp_algorithms p of Some as \<Rightarrow> as | None \<Rightarrow> jo_algorithms options),
       jo_audience := orelse (vp_audience p) (jo_audience options),
       jo_clockSkewSeconds := orelse (vp_clockSkewSeconds p) (jo_clockSkewSeconds options),
       jo_issuer := orelse (vp_issuer p) (jo_issuer options),
       jo_maxAge := orelse (vp_maxAge p) (jo_maxAge options),
       jo_requireExp := orelse (vp_requireExp p) (jo_requireExp options)\<rparr>"

definition verifyAccessToken :: "jwt_runtime \<Rightarrow> int \<Rightarrow> verifier \<Rightarrow> string \<Rightarrow> verify_policy \<Rightarrow> jwt_error + jwt_principal" where
  "verifyAccessToken rt now v tok policy =
     (let options = policy_options (vf_options v) policy
      in case assertJwtAlgorithms (jo_algorithms options) ''JWT verifier'' of
           Some e \<Rightarrow> Inl e
         | None \<Rightarrow> verifyToken rt now tok options (vf_keyResolutionState v) (vf_jwksClient v))"

definition verifyRefreshToken :: "jwt_runtime \<Rightarrow> int \<Rightarrow> verifier \<Rightarrow> string \<Rightarrow> jwt_error + jwt_principal" where
  "verifyRefreshToken rt now v tok =
     (case vf_refreshVerificationOptions v of
        None \<Rightarrow> Inl (JwtConfigurationError ''JWT refresh token options are not configured.'')
      | Some options \<Rightarrow> verifyToken rt now tok options (vf_refreshKeyResolutionState v) None)"

section \<open>The signer\<close>

record signer =
  sg_options :: jwt_options
  sg_refreshAlgorithms :: "string list"

definition assertSigningAlgorithms :: "string list \<Rightarrow> jwt_error option" where
  "assertSigningAlgorithms algorithms =
     (if algorithms = [] then Some (JwtConfigurationError ''JWT signer requires at least one allowed JWT algorithm.'')
      else (case find (\<lambda>a. \<not> isSupportedAlgorithm a) algorithms of
              Some a \<Rightarrow> Some (JwtConfigurationError (''JWT signer received unsupported JWT algorithm '' @ quoted a @ ''.''))
            | None \<Rightarrow> None))"

definition newSigner :: "jwt_options \<Rightarrow> jwt_error + signer" where
  "newSigner options =
     (case orelse (assertSigningAlgorithms (jo_algorithms options)) (assertJwtKeyEntries (jo_keys options)) of
        Some e \<Rightarrow> Inl e
      | None \<Rightarrow>
          (let made = (\<lambda>configured. \<lparr>sg_options = options,
                 sg_refreshAlgorithms = filter (hasOwnAlgorithmMapping SUPPORTED_HMAC_HASH)
                   (case configured of Some as \<Rightarrow> as | None \<Rightarrow> jo_algorithms options)\<rparr>)
           in case jo_refreshToken options of
                None \<Rightarrow> Inr (made None)
              | Some policy \<Rightarrow> map_sum id (\<lambda>p. made (rp_algorithms p)) (normalizeRefreshTokenOptions (Some policy))))"

definition resolveSigningKeyEntry :: "jwt_options \<Rightarrow> string \<Rightarrow> jwt_key_entry option" where
  "resolveSigningKeyEntry options algorithm =
     (if hasOwnAlgorithmMapping SUPPORTED_HMAC_HASH algorithm
      then find (\<lambda>e. truthy_text (ke_secret e) \<noteq> None) (jo_keys options)
      else find (\<lambda>e. ke_privateKey e \<noteq> None) (jo_keys options))"

definition resolveAccessTokenTtlSeconds :: "jwt_options \<Rightarrow> jwt_error + rat" where
  "resolveAccessTokenTtlSeconds options =
     (case (case jo_accessTokenTtlSeconds options of None \<Rightarrow> Fin 3600 | Some n \<Rightarrow> n) of
        Fin x \<Rightarrow> if x \<le> 0 then Inl (JwtConfigurationError ''JWT accessTokenTtlSeconds must be a positive finite number.'') else Inr x
      | _ \<Rightarrow> Inl (JwtConfigurationError ''JWT accessTokenTtlSeconds must be a positive finite number.''))"

text \<open>
  The claims a token carries: a claim that is absent or null takes the default, and a default that is
  undefined leaves no property in the text.
\<close>

definition default_claim :: "string \<Rightarrow> json option \<Rightarrow> claims \<Rightarrow> claims" where
  "default_claim name d c =
     (case js_get c name of
        None \<Rightarrow> (case d of None \<Rightarrow> c | Some v \<Rightarrow> js_set c name v)
      | Some JNull \<Rightarrow> (case d of None \<Rightarrow> js_delete c name | Some v \<Rightarrow> js_set c name v)
      | Some v \<Rightarrow> c)"

definition audience_json :: "audience \<Rightarrow> json" where
  "audience_json a = (case a of OneAudience s \<Rightarrow> JStr s | Audiences ss \<Rightarrow> JArr (map JStr ss))"

definition token_payload :: "jwt_options \<Rightarrow> int \<Rightarrow> rat \<Rightarrow> claims \<Rightarrow> claims" where
  "token_payload options now ttl c =
     default_claim ''iss'' (map_option JStr (jo_issuer options))
       (default_claim ''iat'' (Some (JNum (Fin (of_int now))))
         (default_claim ''exp'' (Some (JNum (Fin (of_int now + ttl))))
           (default_claim ''aud'' (map_option audience_json (jo_audience options)) c)))"

definition token_header :: "string \<Rightarrow> jwt_key_entry option \<Rightarrow> claims" where
  "token_header algorithm activeKey =
     [(''alg'', JStr algorithm), (''typ'', JStr ''JWT'')] @ (case activeKey of None \<Rightarrow> [] | Some e \<Rightarrow> [(''kid'', JStr (ke_kid e))])"

definition sign_input :: "jwt_runtime \<Rightarrow> jwt_options \<Rightarrow> string \<Rightarrow> string \<Rightarrow> jwt_error + string" where
  "sign_input rt options algorithm signingInput =
     (let activeKey = resolveSigningKeyEntry options algorithm
      in case map_of SUPPORTED_ASYMMETRIC_HASH algorithm of
           Some h \<Rightarrow>
             (case truthy_key (orelse (Option.bind activeKey ke_privateKey) (jo_privateKey options)) of
                None \<Rightarrow> Inl (JwtConfigurationError ''JWT private key is not configured.'')
              | Some privateKey \<Rightarrow> Inr (encodeBase64Url (rt_sign rt h (is_ec algorithm) privateKey signingInput)))
         | None \<Rightarrow>
             (case truthy_text (orelse (Option.bind activeKey ke_secret) (jo_secret options)) of
                None \<Rightarrow> Inl (JwtConfigurationError ''JWT secret is not configured.'')
              | Some secret \<Rightarrow>
                  (case map_of SUPPORTED_HMAC_HASH algorithm of
                     None \<Rightarrow> Inl (JwtConfigurationError (''No hash mapping for HMAC algorithm '' @ quoted algorithm @ ''.''))
                   | Some h \<Rightarrow> Inr (encodeBase64Url (rt_hmac rt h secret signingInput)))))"

definition signToken :: "jwt_runtime \<Rightarrow> int \<Rightarrow> claims \<Rightarrow> jwt_options \<Rightarrow> bool \<Rightarrow> jwt_error + string" where
  "signToken rt now c options hmacOnly =
     (case find (\<lambda>a. if hmacOnly then hasOwnAlgorithmMapping SUPPORTED_HMAC_HASH a else isSupportedAlgorithm a) (jo_algorithms options) of
        None \<Rightarrow> Inl (JwtConfigurationError
          (if hmacOnly
           then ''JWT refresh token signer requires at least one HMAC algorithm (HS256/HS384/HS512) in the allowed algorithms list.''
           else ''JWT signer requires at least one supported algorithm (HS256/HS384/HS512/RS256/RS384/RS512/ES256/ES384/ES512) in the allowed algorithms list.''))
      | Some algorithm \<Rightarrow>
          (case resolveAccessTokenTtlSeconds options of
             Inl e \<Rightarrow> Inl e
           | Inr ttl \<Rightarrow>
               (let headerSegment = encodeBase64Url (rt_stringify rt (token_header algorithm (resolveSigningKeyEntry options algorithm)));
                    payloadSegment = encodeBase64Url (rt_stringify rt (token_payload options now ttl c));
                    signingInput = headerSegment @ ''.'' @ payloadSegment
                in map_sum id (\<lambda>signatureSegment. signingInput @ ''.'' @ signatureSegment) (sign_input rt options algorithm signingInput))))"

definition signAccessToken :: "jwt_runtime \<Rightarrow> int \<Rightarrow> signer \<Rightarrow> claims \<Rightarrow> jwt_error + string" where
  "signAccessToken rt now s c = signToken rt now c (sg_options s) False"

definition resolveRefreshSigningOptions :: "signer \<Rightarrow> jwt_error + jwt_options" where
  "resolveRefreshSigningOptions s =
     map_sum id (\<lambda>p. \<lparr>jo_algorithms = sg_refreshAlgorithms s, jo_accessTokenTtlSeconds = Some (rp_expiresInSeconds p),
       jo_audience = jo_audience (sg_options s), jo_clockSkewSeconds = None, jo_issuer = jo_issuer (sg_options s), jo_keys = [],
       jo_maxAge = None, jo_requireExp = None, jo_secretOrKeyProvider = None, jo_secret = Some (rp_secret p),
       jo_privateKey = None, jo_publicKey = None, jo_refreshToken = None\<rparr>)
       (normalizeRefreshTokenOptions (jo_refreshToken (sg_options s)))"

definition signRefreshToken :: "jwt_runtime \<Rightarrow> int \<Rightarrow> signer \<Rightarrow> claims \<Rightarrow> jwt_error + string" where
  "signRefreshToken rt now s c =
     (case resolveRefreshSigningOptions s of Inl e \<Rightarrow> Inl e | Inr options \<Rightarrow> signToken rt now c options True)"

end
