(* ===== verification/Refresh_Token.thy ===== *)
theory Refresh_Token
  imports Jwt
begin

text \<open>
  \<open>packages/jwt/src/refresh/refresh-token.ts\<close> and \<open>refresh-token-claims.ts\<close>: the store, in memory or of
  the application, and the service.  The operations of the service await the store, so a call is the next
  store operation it waits for (\<open>call\<close>) and \<open>call_step\<close> runs that operation and what follows it up to the
  next await.  A world holds the store and the pending calls; \<open>world_step\<close> starts a call or advances one,
  in any order.  Instants are milliseconds; lifetimes for which the platform has no date are left out.
\<close>

section \<open>Stores\<close>

record refresh_record =
  rr_id :: string
  rr_subject :: string
  rr_family :: string
  rr_expiresAt :: int
  rr_used :: bool
  rr_createdAt :: int

record consume_input =
  ci_tokenId :: string
  ci_subject :: string
  ci_family :: string

datatype consume_result = Consumed | AlreadyUsed | Expired | NotFound | Mismatch | InvalidRecord

text \<open>The contract a store implements; the operations it may lack are optional.\<close>

record 's token_store =
  ts_save :: "refresh_record \<Rightarrow> 's \<Rightarrow> 's"
  ts_find :: "string \<Rightarrow> 's \<Rightarrow> refresh_record option"
  ts_revoke :: "string \<Rightarrow> 's \<Rightarrow> 's"
  ts_revokeBySubject :: "string \<Rightarrow> 's \<Rightarrow> 's"
  ts_revokeByFamily :: "(string \<Rightarrow> 's \<Rightarrow> 's) option"
  ts_consume :: "(consume_input \<Rightarrow> int \<Rightarrow> 's \<Rightarrow> 's \<times> consume_result) option"
  ts_rotate :: "(consume_input \<Rightarrow> refresh_record \<Rightarrow> int \<Rightarrow> 's \<Rightarrow> 's \<times> consume_result) option"

type_synonym memory_records = "(string, refresh_record) js_map"

definition memory_save :: "refresh_record \<Rightarrow> memory_records \<Rightarrow> memory_records" where
  "memory_save tok records = js_set records (rr_id tok) tok"

definition memory_find :: "string \<Rightarrow> memory_records \<Rightarrow> refresh_record option" where
  "memory_find tokenId records = js_get records tokenId"

definition memory_revoke :: "string \<Rightarrow> memory_records \<Rightarrow> memory_records" where
  "memory_revoke tokenId records = js_delete records tokenId"

text \<open>The two loops delete from the map they iterate over; each key that was there is visited once.\<close>

definition revoke_where :: "(refresh_record \<Rightarrow> bool) \<Rightarrow> memory_records \<Rightarrow> memory_records" where
  "revoke_where P records =
     fold (\<lambda>i m. case js_get m i of Some r \<Rightarrow> if P r then js_delete m i else m | None \<Rightarrow> m) (js_keys records) records"

definition memory_revokeBySubject :: "string \<Rightarrow> memory_records \<Rightarrow> memory_records" where
  "memory_revokeBySubject subject records = revoke_where (\<lambda>r. rr_subject r = subject) records"

definition memory_revokeByFamily :: "string \<Rightarrow> memory_records \<Rightarrow> memory_records" where
  "memory_revokeByFamily family records = revoke_where (\<lambda>r. rr_family r = family) records"

definition memory_rotate :: "consume_input \<Rightarrow> refresh_record \<Rightarrow> int \<Rightarrow> memory_records \<Rightarrow> memory_records \<times> consume_result" where
  "memory_rotate inp replacement now records =
     (case js_get records (ci_tokenId inp) of
        None \<Rightarrow> (records, NotFound)
      | Some current \<Rightarrow>
          if rr_subject current \<noteq> ci_subject inp \<or> rr_family current \<noteq> ci_family inp then (records, Mismatch)
          else if rr_expiresAt current \<le> now then (records, Expired)
          else if rr_used current then (records, AlreadyUsed)
          else (js_set (js_set records (rr_id current) (current\<lparr>rr_used := True\<rparr>)) (rr_id replacement) replacement, Consumed))"

definition MemoryRefreshTokenStore :: "memory_records token_store" where
  "MemoryRefreshTokenStore =
     \<lparr>ts_save = memory_save, ts_find = memory_find, ts_revoke = memory_revoke, ts_revokeBySubject = memory_revokeBySubject,
      ts_revokeByFamily = Some memory_revokeByFamily, ts_consume = None, ts_rotate = Some memory_rotate\<rparr>"

section \<open>The service\<close>

record refresh_service =
  sv_runtime :: jwt_runtime
  sv_options :: refresh_policy
  sv_signer :: signer
  sv_verifier :: verifier

record refresh_claims =
  rc_sub :: string
  rc_family :: string
  rc_jti :: string

definition nonempty_claim :: "claims \<Rightarrow> string \<Rightarrow> string option" where
  "nonempty_claim c name = (case js_get c name of Some (JStr s) \<Rightarrow> if s = [] then None else Some s | _ \<Rightarrow> None)"

definition verifyRefreshTokenClaims :: "refresh_service \<Rightarrow> int \<Rightarrow> string \<Rightarrow> jwt_error + refresh_claims" where
  "verifyRefreshTokenClaims sv seconds tok =
     (case verifyRefreshToken (sv_runtime sv) seconds (sv_verifier sv) tok of
        Inl e \<Rightarrow> Inl e
      | Inr p \<Rightarrow>
          (let c = pr_claims p
           in if js_get c ''type'' \<noteq> Some (JStr ''refresh'') then Inl (JwtInvalidTokenError ''JWT is not a refresh token.'')
              else (case nonempty_claim c ''jti'' of
                      None \<Rightarrow> Inl (JwtInvalidTokenError ''Refresh token is missing jti.'')
                    | Some jti \<Rightarrow>
                        (case nonempty_claim c ''family'' of
                           None \<Rightarrow> Inl (JwtInvalidTokenError ''Refresh token is missing family.'')
                         | Some family \<Rightarrow>
                             (case nonempty_claim c ''sub'' of
                                None \<Rightarrow> Inl (JwtInvalidTokenError ''Refresh token is missing sub.'')
                              | Some sub \<Rightarrow> Inr \<lparr>rc_sub = sub, rc_family = family, rc_jti = jti\<rparr>)))))"

definition lifetime :: "refresh_policy \<Rightarrow> rat" where
  "lifetime p = (case rp_expiresInSeconds p of Fin x \<Rightarrow> x | _ \<Rightarrow> 0)"

definition createRefreshTokenWithFamily ::
  "refresh_service \<Rightarrow> int \<Rightarrow> string \<Rightarrow> string \<Rightarrow> string \<Rightarrow> jwt_error + refresh_record \<times> string" where
  "createRefreshTokenWithFamily sv millis tokenId subject family =
     (let now = millis div 1000;
          expiresAt = \<lfloor>(of_int now + lifetime (sv_options sv)) * 1000\<rfloor>;
          record = \<lparr>rr_id = tokenId, rr_subject = subject, rr_family = family, rr_expiresAt = expiresAt, rr_used = False,
                    rr_createdAt = now * 1000\<rparr>;
          c = [(''exp'', JNum (Fin (of_int (expiresAt div 1000)))), (''family'', JStr family), (''iat'', JNum (Fin (of_int now))),
               (''jti'', JStr tokenId), (''sub'', JStr subject), (''type'', JStr ''refresh'')]
      in map_sum id (Pair record) (signRefreshToken (sv_runtime sv) now (sv_signer sv) c))"

datatype result = Issued string | Rotated string string | RevokedTokens | Failed jwt_error

datatype call =
    Save refresh_record result
  | Rotate consume_input refresh_record result
  | Consume consume_input refresh_record result
  | Find refresh_claims string
  | RevokeFamily string string
  | Revoke string
  | RevokeSubject string
  | Finished result

definition issueRefreshToken :: "refresh_service \<Rightarrow> int \<Rightarrow> string \<Rightarrow> string \<Rightarrow> string \<Rightarrow> call" where
  "issueRefreshToken sv millis family tokenId subject =
     (case createRefreshTokenWithFamily sv millis tokenId subject family of
        Inl e \<Rightarrow> Finished (Failed e)
      | Inr (record, tok) \<Rightarrow> Save record (Issued tok))"

definition needs_atomic_store :: jwt_error where
  "needs_atomic_store = JwtConfigurationError ''Refresh token rotation requires an atomic store.rotate() or store.consume() implementation.''"

definition rotateRefreshToken :: "refresh_service \<Rightarrow> 's token_store \<Rightarrow> int \<Rightarrow> string \<Rightarrow> string \<Rightarrow> call" where
  "rotateRefreshToken sv store millis tokenId currentToken =
     (case verifyRefreshTokenClaims sv (millis div 1000) currentToken of
        Inl e \<Rightarrow> Finished (Failed e)
      | Inr c \<Rightarrow>
          if \<not> rp_rotation (sv_options sv) then Find c currentToken
          else if ts_rotate store = None \<and> ts_consume store = None then Finished (Failed needs_atomic_store)
          else (case createRefreshTokenWithFamily sv millis tokenId (rc_sub c) (rc_family c) of
                  Inl e \<Rightarrow> Finished (Failed e)
                | Inr (record, tok) \<Rightarrow>
                    (case signAccessToken (sv_runtime sv) (millis div 1000) (sv_signer sv) [(''sub'', JStr (rc_sub c))] of
                       Inl e \<Rightarrow> Finished (Failed e)
                     | Inr accessToken \<Rightarrow>
                         (let inp = \<lparr>ci_tokenId = rc_jti c, ci_subject = rc_sub c, ci_family = rc_family c\<rparr>
                          in if ts_rotate store \<noteq> None then Rotate inp record (Rotated accessToken tok)
                             else Consume inp record (Rotated accessToken tok)))))"

definition revokePresentedRefreshToken :: "refresh_service \<Rightarrow> int \<Rightarrow> string \<Rightarrow> call" where
  "revokePresentedRefreshToken sv millis tok =
     (case verifyRefreshTokenClaims sv (millis div 1000) tok of Inl e \<Rightarrow> Finished (Failed e) | Inr c \<Rightarrow> Revoke (rc_jti c))"

definition reuse_detected :: jwt_error where
  "reuse_detected = JwtInvalidTokenError ''Refresh token reuse detected.''"

text \<open>What a rotation does with the answer of the store.\<close>

definition after_consume :: "call \<Rightarrow> consume_input \<Rightarrow> consume_result \<Rightarrow> call" where
  "after_consume success inp answer =
     (case answer of
        Consumed \<Rightarrow> success
      | AlreadyUsed \<Rightarrow> RevokeFamily (ci_subject inp) (ci_family inp)
      | Expired \<Rightarrow> Finished (Failed (JwtExpiredTokenError ''Refresh token has expired.''))
      | NotFound \<Rightarrow> Finished (Failed (JwtInvalidTokenError ''Refresh token record was not found.''))
      | InvalidRecord \<Rightarrow> Finished (Failed (JwtInvalidTokenError ''Refresh token record was not found.''))
      | Mismatch \<Rightarrow> Finished (Failed (JwtInvalidTokenError ''Refresh token record does not match token claims.'')))"

definition after_find :: "refresh_service \<Rightarrow> int \<Rightarrow> refresh_claims \<Rightarrow> string \<Rightarrow> refresh_record option \<Rightarrow> call" where
  "after_find sv millis c currentToken found =
     (case found of
        None \<Rightarrow> Finished (Failed (JwtInvalidTokenError ''Refresh token record was not found.''))
      | Some r \<Rightarrow>
          if rr_subject r \<noteq> rc_sub c \<or> rr_family r \<noteq> rc_family c
          then Finished (Failed (JwtInvalidTokenError ''Refresh token record does not match token claims.''))
          else if rr_expiresAt r \<le> millis then Finished (Failed (JwtExpiredTokenError ''Refresh token has expired.''))
          else if rr_used r then RevokeFamily (rr_subject r) (rr_family r)
          else (case signAccessToken (sv_runtime sv) (millis div 1000) (sv_signer sv) [(''sub'', JStr (rr_subject r))] of
                  Inl e \<Rightarrow> Finished (Failed e)
                | Inr accessToken \<Rightarrow> Finished (Rotated accessToken currentToken)))"

definition revokeCompromisedFamily :: "'s token_store \<Rightarrow> string \<Rightarrow> string \<Rightarrow> 's \<Rightarrow> 's" where
  "revokeCompromisedFamily store subject family =
     (case ts_revokeByFamily store of Some f \<Rightarrow> f family | None \<Rightarrow> ts_revokeBySubject store subject)"

definition call_step :: "refresh_service \<Rightarrow> 's token_store \<Rightarrow> int \<Rightarrow> call \<Rightarrow> 's \<Rightarrow> 's \<times> call" where
  "call_step sv store millis c s =
     (case c of
        Save record res \<Rightarrow> (ts_save store record s, Finished res)
      | Rotate inp record res \<Rightarrow>
          (case ts_rotate store of
             None \<Rightarrow> (s, Finished (Failed needs_atomic_store))
           | Some f \<Rightarrow> (let (s', answer) = f inp record millis s in (s', after_consume (Finished res) inp answer)))
      | Consume inp record res \<Rightarrow>
          (case ts_consume store of
             None \<Rightarrow> (s, Finished (Failed needs_atomic_store))
           | Some f \<Rightarrow> (let (s', answer) = f inp millis s in (s', after_consume (Save record res) inp answer)))
      | Find cl tok \<Rightarrow> (s, after_find sv millis cl tok (ts_find store (rc_jti cl) s))
      | RevokeFamily subject family \<Rightarrow> (revokeCompromisedFamily store subject family s, Finished (Failed reuse_detected))
      | Revoke tokenId \<Rightarrow> (ts_revoke store tokenId s, Finished RevokedTokens)
      | RevokeSubject subject \<Rightarrow> (ts_revokeBySubject store subject s, Finished RevokedTokens)
      | Finished res \<Rightarrow> (s, Finished res))"

section \<open>Calls in any order\<close>

datatype action =
    IssueToken string
  | PresentToken string
  | RevokeToken string
  | RevokePresented string
  | RevokeAllForSubject string
  | Advance nat

text \<open>
  \<open>w_uuids\<close> counts the identifiers drawn; \<open>w_log\<close> and \<open>w_dead\<close> record the tokens consumed by a successful
  rotation, with their family, and the families whose reuse was answered.
\<close>

record 's world =
  w_store :: 's
  w_calls :: "call list"
  w_uuids :: nat
  w_log :: "(string \<times> string) list"
  w_dead :: "string list"

definition add_call :: "call \<Rightarrow> 's world \<Rightarrow> 's world" where
  "add_call c w = w\<lparr>w_calls := w_calls w @ [c]\<rparr>"

text \<open>What a step adds to the two records.\<close>

definition consumed_in :: "call \<Rightarrow> call \<Rightarrow> (string \<times> string) list" where
  "consumed_in c c' =
     (case c of
        Rotate inp record res \<Rightarrow> (case c' of Finished (Rotated a t) \<Rightarrow> [(ci_tokenId inp, ci_family inp)] | _ \<Rightarrow> [])
      | Consume inp record res \<Rightarrow> (case c' of Save r res' \<Rightarrow> [(ci_tokenId inp, ci_family inp)] | _ \<Rightarrow> [])
      | _ \<Rightarrow> [])"

definition killed_in :: "call \<Rightarrow> string list" where
  "killed_in c = (case c of RevokeFamily subject family \<Rightarrow> [family] | _ \<Rightarrow> [])"

definition world_step :: "refresh_service \<Rightarrow> 's token_store \<Rightarrow> (nat \<Rightarrow> string) \<Rightarrow> int \<times> action \<Rightarrow> 's world \<Rightarrow> 's world" where
  "world_step sv store uuid act w =
     (let (millis, a) = act; n = w_uuids w
      in case a of
           IssueToken subject \<Rightarrow> (add_call (issueRefreshToken sv millis (uuid n) (uuid (n + 1)) subject) w)\<lparr>w_uuids := n + 2\<rparr>
         | PresentToken tok \<Rightarrow> (add_call (rotateRefreshToken sv store millis (uuid n) tok) w)\<lparr>w_uuids := n + 1\<rparr>
         | RevokeToken tokenId \<Rightarrow> add_call (Revoke tokenId) w
         | RevokePresented tok \<Rightarrow> add_call (revokePresentedRefreshToken sv millis tok) w
         | RevokeAllForSubject subject \<Rightarrow> add_call (RevokeSubject subject) w
         | Advance i \<Rightarrow>
             if i < length (w_calls w)
             then (let c = w_calls w ! i; (s', c') = call_step sv store millis c (w_store w)
                   in w\<lparr>w_store := s', w_calls := (w_calls w)[i := c'], w_log := w_log w @ consumed_in c c',
                        w_dead := w_dead w @ killed_in c\<rparr>)
             else w)"

definition run_world :: "refresh_service \<Rightarrow> 's token_store \<Rightarrow> (nat \<Rightarrow> string) \<Rightarrow> (int \<times> action) list \<Rightarrow> 's world \<Rightarrow> 's world" where
  "run_world sv store uuid acts w = fold (world_step sv store uuid) acts w"

definition new_world :: "'s \<Rightarrow> 's world" where
  "new_world s = \<lparr>w_store = s, w_calls = [], w_uuids = 0, w_log = [], w_dead = []\<rparr>"

end
