(* ===== verification/Refresh_Correctness.thy ===== *)
theory Refresh_Correctness
  imports Refresh_Token
begin

text \<open>
  Rotation is single use and reuse ends a family, however the calls of the service interleave.  The locale
  \<open>rotating_store\<close> is the contract a store with an atomic \<open>rotate\<close> keeps; the proof uses nothing else, and
  the in-memory store is an interpretation.  A store that only consumes does not give the second property.
\<close>

section \<open>The contract\<close>

definition keep_unless :: "(refresh_record \<Rightarrow> bool) \<Rightarrow> refresh_record option \<Rightarrow> refresh_record option" where
  "keep_unless P v = (case v of None \<Rightarrow> None | Some r \<Rightarrow> if P r then None else Some r)"

locale rotating_store =
  fixes store :: "'s token_store"
    and rotate :: "consume_input \<Rightarrow> refresh_record \<Rightarrow> int \<Rightarrow> 's \<Rightarrow> 's \<times> consume_result"
    and revoke_family :: "string \<Rightarrow> 's \<Rightarrow> 's"
  assumes ops: "ts_rotate store = Some rotate" "ts_revokeByFamily store = Some revoke_family"
    and find_save: "ts_find store i (ts_save store r s) = (if i = rr_id r then Some r else ts_find store i s)"
    and find_revoke: "ts_find store i (ts_revoke store j s) = (if i = j then None else ts_find store i s)"
    and find_subject: "ts_find store i (ts_revokeBySubject store x s) = keep_unless (\<lambda>r. rr_subject r = x) (ts_find store i s)"
    and find_family: "ts_find store i (revoke_family x s) = keep_unless (\<lambda>r. rr_family r = x) (ts_find store i s)"
    and find_rotate: "rotate inp r now s = (s', answer) \<Longrightarrow>
      (if answer = Consumed
       then \<exists>cur. ts_find store (ci_tokenId inp) s = Some cur \<and> rr_family cur = ci_family inp \<and> \<not> rr_used cur \<and>
         (\<forall>i. ts_find store i s' = (if i = rr_id r then Some r else if i = rr_id cur then Some (cur\<lparr>rr_used := True\<rparr>) else ts_find store i s))
       else (\<forall>i. ts_find store i s' = ts_find store i s) \<and>
         (answer = AlreadyUsed \<longrightarrow> (\<exists>cur. ts_find store (ci_tokenId inp) s = Some cur \<and> rr_family cur = ci_family inp)))"

section \<open>The invariant\<close>

text \<open>What pending calls will put into the store: the identifiers, and the families of new logins.\<close>

definition new_ids :: "call \<Rightarrow> string list" where
  "new_ids c = (case c of Save r res \<Rightarrow> [rr_id r] | Rotate inp r res \<Rightarrow> [rr_id r] | _ \<Rightarrow> [])"

definition new_families :: "call \<Rightarrow> string list" where
  "new_families c = (case c of Save r res \<Rightarrow> [rr_family r] | _ \<Rightarrow> [])"

definition pending :: "(call \<Rightarrow> string list) \<Rightarrow> call list \<Rightarrow> string list" where
  "pending f calls = concat (map f calls)"

definition drawn :: "(nat \<Rightarrow> string) \<Rightarrow> 's world \<Rightarrow> string set" where
  "drawn uuid w = uuid ` {..<w_uuids w}"

definition families :: "(string \<Rightarrow> 's \<Rightarrow> refresh_record option) \<Rightarrow> 's \<Rightarrow> string set" where
  "families look s = {rr_family r | i r. look i s = Some r}"

definition call_ok :: "call \<Rightarrow> bool" where
  "call_ok c = (case c of Consume inp r res \<Rightarrow> False | Rotate inp r res \<Rightarrow> rr_family r = ci_family inp \<and> \<not> rr_used r | Save r res \<Rightarrow> \<not> rr_used r | _ \<Rightarrow> True)"

definition dying :: "'s world \<Rightarrow> string set" where
  "dying w = {f. \<exists>x. RevokeFamily x f \<in> set (w_calls w)} \<union> set (w_dead w)"

definition world_inv :: "(string \<Rightarrow> 's \<Rightarrow> refresh_record option) \<Rightarrow> (nat \<Rightarrow> string) \<Rightarrow> 's world \<Rightarrow> bool" where
  "world_inv look uuid w \<longleftrightarrow>
     (\<forall>c \<in> set (w_calls w). call_ok c) \<and>
     (\<forall>i r. look i (w_store w) = Some r \<longrightarrow> rr_id r = i \<and> i \<in> drawn uuid w) \<and>
     (\<forall>i \<in> set (map fst (w_log w)). i \<in> drawn uuid w \<and> (\<forall>r. look i (w_store w) = Some r \<longrightarrow> rr_used r)) \<and>
     distinct (map fst (w_log w)) \<and>
     distinct (pending new_ids (w_calls w)) \<and>
     (\<forall>i \<in> set (pending new_ids (w_calls w)). i \<in> drawn uuid w \<and> look i (w_store w) = None \<and> i \<notin> set (map fst (w_log w))) \<and>
     distinct (pending new_families (w_calls w)) \<and>
     set (pending new_families (w_calls w)) \<subseteq> drawn uuid w - families look (w_store w) - dying w \<and>
     families look (w_store w) \<union> dying w \<subseteq> drawn uuid w \<and>
     families look (w_store w) \<inter> set (w_dead w) = {}"

lemma pending_simps [simp]: "pending f [] = []" "pending f (c # cs) = f c @ pending f cs" "pending f (cs @ ds) = pending f cs @ pending f ds"
  by (simp_all add: pending_def)

lemma pending_update:
  assumes "i < length cs" "f c = []" "distinct (pending f cs)"
  shows "distinct (pending f (cs[i := c]))" "set (pending f (cs[i := c])) = set (pending f cs) - set (f (cs ! i))"
proof -
  have "cs = take i cs @ cs ! i # drop (Suc i) cs" "cs[i := c] = take i cs @ c # drop (Suc i) cs"
    using assms(1) by (simp_all add: id_take_nth_drop upd_conv_take_nth_drop)
  then have "pending f cs = pending f (take i cs) @ f (cs ! i) @ pending f (drop (Suc i) cs)"
    "pending f (cs[i := c]) = pending f (take i cs) @ pending f (drop (Suc i) cs)"
    using assms(2) by (metis pending_simps(2, 3) append_Nil)+
  then show "distinct (pending f (cs[i := c]))" "set (pending f (cs[i := c])) = set (pending f cs) - set (f (cs ! i))"
    using assms(3) by auto
qed

lemma inv_D:
  assumes "world_inv look uuid w"
  shows "c \<in> set (w_calls w) \<Longrightarrow> call_ok c"
    and "look i (w_store w) = Some r \<Longrightarrow> rr_id r = i \<and> i \<in> drawn uuid w"
    and "i \<in> set (map fst (w_log w)) \<Longrightarrow> i \<in> drawn uuid w"
    and "i \<in> set (map fst (w_log w)) \<Longrightarrow> look i (w_store w) = Some r \<Longrightarrow> rr_used r"
    and "distinct (map fst (w_log w))"
    and "i \<in> set (pending new_ids (w_calls w)) \<Longrightarrow> i \<in> drawn uuid w \<and> look i (w_store w) = None \<and> i \<notin> set (map fst (w_log w))"
    and "set (pending new_families (w_calls w)) \<subseteq> drawn uuid w - families look (w_store w) - dying w"
    and "families look (w_store w) \<union> dying w \<subseteq> drawn uuid w"
    and "families look (w_store w) \<inter> set (w_dead w) = {}"
  using assms unfolding world_inv_def by blast+

text \<open>A call is added whose new names are drawn after all others.\<close>

lemma inv_add:
  assumes inv: "world_inv look uuid w" and uuid: "inj uuid" and m: "w_uuids w \<le> m"
    and c: "call_ok c" "distinct (new_ids c)" "set (new_ids c) \<subseteq> uuid ` {w_uuids w..<m}"
      "distinct (new_families c)" "set (new_families c) \<subseteq> uuid ` {w_uuids w..<m}" "\<And>x f. c \<noteq> RevokeFamily x f"
  shows "world_inv look uuid ((add_call c w)\<lparr>w_uuids := m\<rparr>)"
proof -
  let ?w = "(add_call c w)\<lparr>w_uuids := m\<rparr>"
  have fresh: "uuid ` {w_uuids w..<m} \<inter> drawn uuid w = {}"
    using uuid by (auto simp: drawn_def inj_eq)
  have grow: "drawn uuid w \<subseteq> drawn uuid ?w" "uuid ` {w_uuids w..<m} \<subseteq> drawn uuid ?w"
    using m by (auto simp: drawn_def)
  have same: "w_store ?w = w_store w" "w_log ?w = w_log w" "w_dead ?w = w_dead w" "w_calls ?w = w_calls w @ [c]" "dying ?w = dying w"
    using c(6) by (auto simp: add_call_def dying_def)
  have new: "look i (w_store w) = None" "i \<notin> set (map fst (w_log w))" "i \<notin> set (pending new_ids (w_calls w))" if "i \<in> set (new_ids c)" for i
  proof -
    have "i \<notin> drawn uuid w"
      using that c(3) fresh by auto
    with inv show "look i (w_store w) = None" "i \<notin> set (map fst (w_log w))" "i \<notin> set (pending new_ids (w_calls w))"
      by (auto simp: world_inv_def)
  qed
  have newf: "f \<notin> drawn uuid w" if "f \<in> set (new_families c)" for f
    using that c(5) fresh by auto
  show ?thesis
    unfolding world_inv_def same
  proof (intro conjI)
    show "distinct (pending new_ids (w_calls w @ [c]))" "distinct (pending new_families (w_calls w @ [c]))"
      using inv c(2, 4) new(3) newf by (auto simp: world_inv_def)
    show "\<forall>i \<in> set (pending new_ids (w_calls w @ [c])). i \<in> drawn uuid ?w \<and> look i (w_store w) = None \<and> i \<notin> set (map fst (w_log w))"
      using inv c(3) new grow by (auto simp: world_inv_def)
    show "set (pending new_families (w_calls w @ [c])) \<subseteq> drawn uuid ?w - families look (w_store w) - dying w"
      using inv c(5) newf grow by (auto simp: world_inv_def)
  qed (use inv c(1) grow in \<open>auto simp: world_inv_def\<close>)
qed

text \<open>A call is advanced: its store operation keeps the identity of records and may store its new one.\<close>

lemma inv_advance:
  assumes inv: "world_inv look uuid w" and k: "k < length (w_calls w)"
    and c': "call_ok c'" "new_ids c' = []" "new_families c' = []" "\<And>x f. c' = RevokeFamily x f \<Longrightarrow> f \<in> families look (w_store w)"
    and kept: "\<And>i r. look i s' = Some r \<Longrightarrow>
      (\<exists>r0. look i (w_store w) = Some r0 \<and> rr_id r = rr_id r0 \<and> rr_family r = rr_family r0 \<and> (rr_used r0 \<longrightarrow> rr_used r)) \<or>
      i \<in> set (new_ids (w_calls w ! k)) \<and> rr_id r = i \<and>
      (rr_family r \<in> families look (w_store w) \<or> rr_family r \<in> set (new_families (w_calls w ! k)))"
    and l: "l = [] \<or> (\<exists>i f r0. l = [(i, f)] \<and> look i (w_store w) = Some r0 \<and> \<not> rr_used r0 \<and> (\<forall>r. look i s' = Some r \<longrightarrow> rr_used r))"
    and d: "set d \<subseteq> dying w" "families look s' \<inter> set d = {}"
  shows "world_inv look uuid (w\<lparr>w_store := s', w_calls := (w_calls w)[k := c'], w_log := w_log w @ l, w_dead := w_dead w @ d\<rparr>)"
    (is "world_inv look uuid ?w")
proof -
  let ?c = "w_calls w ! k"
  have drawn: "drawn uuid ?w = drawn uuid w"
    by (simp add: drawn_def)
  have c: "?c \<in> set (w_calls w)"
    using k by simp
  then have own: "set (new_ids ?c) \<subseteq> set (pending new_ids (w_calls w))" "set (new_families ?c) \<subseteq> set (pending new_families (w_calls w))"
    by (auto simp: pending_def)
  have fams: "families look s' \<subseteq> families look (w_store w) \<union> set (new_families ?c)"
    using kept by (fastforce simp: families_def)
  have dy: "dying ?w \<subseteq> dying w \<union> families look (w_store w)"
    using c'(4) d(1) set_update_subset_insert [of "w_calls w" k c'] by (auto simp: dying_def)
  note ids = pending_update [where f = new_ids, OF k c'(2)] and fs = pending_update [where f = new_families, OF k c'(3)]
  have D: "distinct (pending new_ids (w_calls w))" "distinct (pending new_families (w_calls w))"
    using inv by (auto simp: world_inv_def)
  have log: "i \<in> set (map fst (w_log w @ l)) \<Longrightarrow> i \<in> drawn uuid w \<and> (\<forall>r. look i s' = Some r \<longrightarrow> rr_used r)" for i
  proof -
    assume i: "i \<in> set (map fst (w_log w @ l))"
    show "i \<in> drawn uuid w \<and> (\<forall>r. look i s' = Some r \<longrightarrow> rr_used r)"
    proof (cases "i \<in> set (map fst (w_log w))")
      case True
      then have old: "i \<in> drawn uuid w" "\<forall>r. look i (w_store w) = Some r \<longrightarrow> rr_used r" "i \<notin> set (new_ids ?c)"
        using inv_D(3, 4, 6) [OF inv] own(1) by blast+
      then show ?thesis
        using kept by blast
    next
      case False
      then show ?thesis
        using i l inv unfolding world_inv_def by auto
    qed
  qed
  show ?thesis
    unfolding world_inv_def
  proof (intro conjI)
    show "\<forall>c \<in> set (w_calls ?w). call_ok c"
      using inv c'(1) set_update_subset_insert [of "w_calls w" k c'] by (auto simp: world_inv_def)
    show "\<forall>i r. look i (w_store ?w) = Some r \<longrightarrow> rr_id r = i \<and> i \<in> drawn uuid ?w"
    proof (intro allI impI)
      fix i r
      assume "look i (w_store ?w) = Some r"
      then have "look i s' = Some r"
        by simp
      from kept [OF this] show "rr_id r = i \<and> i \<in> drawn uuid ?w"
        using inv_D(2) [OF inv] inv_D(6) [OF inv] own(1) unfolding drawn by (metis subsetD)
    qed
    show "\<forall>i \<in> set (map fst (w_log ?w)). i \<in> drawn uuid ?w \<and> (\<forall>r. look i (w_store ?w) = Some r \<longrightarrow> rr_used r)"
      using log unfolding drawn by simp
    show "distinct (map fst (w_log ?w))"
      using l inv_D(4, 5) [OF inv] by fastforce
    show "distinct (pending new_ids (w_calls ?w))" "distinct (pending new_families (w_calls ?w))"
      using ids(1) fs(1) D by simp_all
    show "\<forall>i \<in> set (pending new_ids (w_calls ?w)). i \<in> drawn uuid ?w \<and> look i (w_store ?w) = None \<and> i \<notin> set (map fst (w_log ?w))"
    proof
      fix i
      assume "i \<in> set (pending new_ids (w_calls ?w))"
      then have i: "i \<in> set (pending new_ids (w_calls w))" "i \<notin> set (new_ids ?c)"
        using ids(2) [OF D(1)] by simp_all
      then have old: "i \<in> drawn uuid w" "look i (w_store w) = None" "i \<notin> set (map fst (w_log w))"
        using inv_D(6) [OF inv] by blast+
      then have "look i s' = None"
        using kept i(2) by (metis option.distinct(1) option.exhaust)
      with old l show "i \<in> drawn uuid ?w \<and> look i (w_store ?w) = None \<and> i \<notin> set (map fst (w_log ?w))"
        unfolding drawn by auto
    qed
    show "set (pending new_families (w_calls ?w)) \<subseteq> drawn uuid ?w - families look (w_store ?w) - dying ?w"
      using fs(2) [OF D(2)] inv fams dy unfolding world_inv_def drawn by auto
    have "families look s' \<subseteq> drawn uuid w" "dying ?w \<subseteq> drawn uuid w"
      using fams dy own(2) inv_D(7, 8) [OF inv] by blast+
    then show "families look (w_store ?w) \<union> dying ?w \<subseteq> drawn uuid ?w"
      unfolding drawn by simp
    have "set (w_dead w) \<subseteq> dying w"
      by (simp add: dying_def)
    then have "families look s' \<inter> set (w_dead w) = {}"
      using fams own(2) inv_D(7, 9) [OF inv] by blast
    then show "families look (w_store ?w) \<inter> set (w_dead ?w) = {}"
      using d(2) by auto
  qed
qed

section \<open>Every step keeps it\<close>

lemma add_call_same [simp]: "(add_call c w)\<lparr>w_uuids := w_uuids w\<rparr> = add_call c w"
  by (simp add: add_call_def)

lemma created_record:
  "createRefreshTokenWithFamily sv millis tokenId subject family = Inr (r, tok) \<Longrightarrow> rr_id r = tokenId \<and> rr_family r = family \<and> \<not> rr_used r"
  by (auto simp: createRefreshTokenWithFamily_def Let_def map_sum_def split: sum.splits)

lemma issued_call:
  "(\<exists>e. issueRefreshToken sv millis family tokenId subject = Finished (Failed e)) \<or>
   (\<exists>r res. issueRefreshToken sv millis family tokenId subject = Save r res \<and> rr_id r = tokenId \<and> rr_family r = family \<and> \<not> rr_used r)"
  by (auto simp: issueRefreshToken_def split: sum.splits dest: created_record)

lemma rotation_call:
  assumes "ts_rotate store \<noteq> None"
  shows "(\<exists>e. rotateRefreshToken sv store millis tokenId tok = Finished (Failed e)) \<or>
    (\<exists>c. rotateRefreshToken sv store millis tokenId tok = Find c tok) \<or>
    (\<exists>inp r res. rotateRefreshToken sv store millis tokenId tok = Rotate inp r res \<and> rr_id r = tokenId \<and> rr_family r = ci_family inp \<and> \<not> rr_used r)"
  using assms by (auto simp: rotateRefreshToken_def Let_def split: sum.splits dest: created_record)

lemma revocation_call:
  "(\<exists>e. revokePresentedRefreshToken sv millis tok = Finished (Failed e)) \<or> (\<exists>i. revokePresentedRefreshToken sv millis tok = Revoke i)"
  by (simp add: revokePresentedRefreshToken_def split: sum.split)

context rotating_store
begin

abbreviation inv :: "(nat \<Rightarrow> string) \<Rightarrow> 's world \<Rightarrow> bool" where
  "inv \<equiv> world_inv (ts_find store)"

lemma same_store:
  assumes "\<And>i. ts_find store i s' = ts_find store i s" "ts_find store i s' = Some r"
  shows "\<exists>r0. ts_find store i s = Some r0 \<and> rr_id r = rr_id r0 \<and> rr_family r = rr_family r0 \<and> (rr_used r0 \<longrightarrow> rr_used r)"
  using assms by auto

text \<open>A step that stores nothing new and consumes nothing.\<close>

lemma inv_quiet:
  assumes w: "inv uuid w" and k: "k < length (w_calls w)"
    and c': "call_ok c'" "new_ids c' = []" "new_families c' = []" "\<And>x f. c' = RevokeFamily x f \<Longrightarrow> f \<in> families (ts_find store) (w_store w)"
    and sub: "\<And>i r. ts_find store i s' = Some r \<Longrightarrow> ts_find store i (w_store w) = Some r"
    and d: "set d \<subseteq> dying w" "families (ts_find store) s' \<inter> set d = {}"
  shows "inv uuid (w\<lparr>w_store := s', w_calls := (w_calls w)[k := c'], w_log := w_log w @ [], w_dead := w_dead w @ d\<rparr>)"
  by (rule inv_advance [OF w k c' _ _ d]) (auto dest: sub)

lemma inv_finish:
  assumes "inv uuid w" "k < length (w_calls w)"
    and "\<And>i r. ts_find store i s' = Some r \<Longrightarrow> ts_find store i (w_store w) = Some r"
    and "set d \<subseteq> dying w" "families (ts_find store) s' \<inter> set d = {}"
  shows "inv uuid (w\<lparr>w_store := s', w_calls := (w_calls w)[k := Finished x], w_log := w_log w @ [], w_dead := w_dead w @ d\<rparr>)"
  by (rule inv_quiet [OF assms(1, 2) _ _ _ _ assms(3-5)]) (simp_all add: call_ok_def new_ids_def new_families_def)

lemma find_same_families: "(\<And>i. ts_find store i s' = ts_find store i s) \<Longrightarrow> families (ts_find store) s' = families (ts_find store) s"
  by (simp add: families_def)

lemma kept_keep_unless: "keep_unless P v = Some r \<longleftrightarrow> v = Some r \<and> \<not> P r"
  by (auto simp: keep_unless_def split: option.splits)

lemma inv_rotate:
  assumes w: "inv uuid w" and k: "k < length (w_calls w)" and c: "w_calls w ! k = Rotate inp r res"
    and step: "call_step sv store millis (Rotate inp r res) (w_store w) = (s', c')"
  shows "inv uuid (w\<lparr>w_store := s', w_calls := (w_calls w)[k := c'], w_log := w_log w @ consumed_in (Rotate inp r res) c', w_dead := w_dead w @ []\<rparr>)"
proof -
  obtain answer where r: "rotate inp r millis (w_store w) = (s', answer)" "c' = after_consume (Finished res) inp answer"
    using step by (auto simp: call_step_def ops split: prod.splits)
  have "Rotate inp r res \<in> set (w_calls w)"
    using k c nth_mem by metis
  then have rec: "rr_family r = ci_family inp" "ts_find store (rr_id r) (w_store w) = None"
    using inv_D(1) [OF w] inv_D(6) [OF w, of "rr_id r"] by (force simp: call_ok_def pending_def new_ids_def)+
  show ?thesis
  proof (cases "answer = Consumed")
    case True
    then obtain cur where cur: "ts_find store (ci_tokenId inp) (w_store w) = Some cur" "rr_family cur = ci_family inp" "\<not> rr_used cur"
        "\<And>i. ts_find store i s' = (if i = rr_id r then Some r else if i = rr_id cur then Some (cur\<lparr>rr_used := True\<rparr>) else ts_find store i (w_store w))"
      using find_rotate [OF r(1)] by auto
    have id: "rr_id cur = ci_tokenId inp"
      using inv_D(2) [OF w cur(1)] by simp
    have other: "rr_id r \<noteq> ci_tokenId inp"
      using cur(1) rec(2) by auto
    have fam: "rr_family r \<in> families (ts_find store) (w_store w)"
      using cur(1, 2) rec(1) by (force simp: families_def)
    have c'_eq: "c' = Finished res"
      using r(2) True by (simp add: after_consume_def)
    have l: "consumed_in (Rotate inp r res) c' = [] \<or> consumed_in (Rotate inp r res) c' = [(ci_tokenId inp, ci_family inp)]"
      by (auto simp: consumed_in_def c'_eq split: result.splits)
    have used: "\<forall>r'. ts_find store (ci_tokenId inp) s' = Some r' \<longrightarrow> rr_used r'"
      using cur(4) other id by auto
    show ?thesis
    proof (rule inv_advance [OF w k])
      show "call_ok c'" "new_ids c' = []" "new_families c' = []" "\<And>x f. c' = RevokeFamily x f \<Longrightarrow> f \<in> families (ts_find store) (w_store w)"
        by (simp_all add: c'_eq call_ok_def new_ids_def new_families_def)
      show "consumed_in (Rotate inp r res) c' = [] \<or> (\<exists>i f r0. consumed_in (Rotate inp r res) c' = [(i, f)] \<and>
          ts_find store i (w_store w) = Some r0 \<and> \<not> rr_used r0 \<and> (\<forall>r. ts_find store i s' = Some r \<longrightarrow> rr_used r))"
        using l used cur(1, 3) by blast
    qed (use cur id fam in \<open>auto simp: c new_ids_def split: if_splits\<close>)
  next
    case False
    then have same: "\<And>i. ts_find store i s' = ts_find store i (w_store w)"
      and reuse: "answer = AlreadyUsed \<Longrightarrow> ci_family inp \<in> families (ts_find store) (w_store w)"
      using find_rotate [OF r(1)] by (auto simp: families_def) (metis)+
    have c': "(\<exists>e. c' = Finished (Failed e)) \<or> answer = AlreadyUsed \<and> c' = RevokeFamily (ci_subject inp) (ci_family inp)"
      using False r(2) by (cases answer) (auto simp: after_consume_def)
    then have "consumed_in (Rotate inp r res) c' = []"
      by (auto simp: consumed_in_def)
    then show ?thesis
      using inv_quiet [OF w k, where c' = c' and s' = s' and d = "[]"] c' reuse same
      by (auto simp: call_ok_def new_ids_def new_families_def)
  qed
qed

end

context rotating_store
begin

lemma inv_save:
  assumes w: "inv uuid w" and k: "k < length (w_calls w)" and c: "w_calls w ! k = Save r res"
  shows "inv uuid (w\<lparr>w_store := ts_save store r (w_store w), w_calls := (w_calls w)[k := Finished res], w_log := w_log w @ [], w_dead := w_dead w @ []\<rparr>)"
proof (rule inv_advance [OF w k])
  fix i r'
  assume "ts_find store i (ts_save store r (w_store w)) = Some r'"
  then show "(\<exists>r0. ts_find store i (w_store w) = Some r0 \<and> rr_id r' = rr_id r0 \<and> rr_family r' = rr_family r0 \<and> (rr_used r0 \<longrightarrow> rr_used r')) \<or>
      i \<in> set (new_ids (w_calls w ! k)) \<and> rr_id r' = i \<and>
      (rr_family r' \<in> families (ts_find store) (w_store w) \<or> rr_family r' \<in> set (new_families (w_calls w ! k)))"
    by (auto simp: find_save c new_ids_def new_families_def split: if_splits)
qed (simp_all add: call_ok_def new_ids_def new_families_def)

lemma after_find_cases:
  "(\<exists>x. after_find sv millis c tok v = Finished x) \<or> (\<exists>r. v = Some r \<and> after_find sv millis c tok v = RevokeFamily (rr_subject r) (rr_family r))"
  by (auto simp: after_find_def split: option.split sum.split)

lemma inv_call_step:
  assumes w: "inv uuid w" and k: "k < length (w_calls w)"
    and step: "call_step sv store millis (w_calls w ! k) (w_store w) = (s', c')"
  shows "inv uuid (w\<lparr>w_store := s', w_calls := (w_calls w)[k := c'], w_log := w_log w @ consumed_in (w_calls w ! k) c',
    w_dead := w_dead w @ killed_in (w_calls w ! k)\<rparr>)"
proof -
  have mem: "w_calls w ! k \<in> set (w_calls w)"
    using k by simp
  have nothing: "families (ts_find store) s' \<inter> set [] = {}" "set [] \<subseteq> dying w"
    by simp_all
  note quiet = inv_quiet [OF w k, where c' = c' and s' = s']
  show ?thesis
  proof (cases "w_calls w ! k")
    case (Save r res)
    then show ?thesis
      using inv_save [OF w k Save] step by (simp add: call_step_def consumed_in_def killed_in_def)
  next
    case (Rotate inp r res)
    then show ?thesis
      using inv_rotate [OF w k Rotate] step by (simp add: killed_in_def)
  next
    case (Consume inp r res)
    then show ?thesis
      using inv_D(1) [OF w mem] by (simp add: call_ok_def)
  next
    case (Find cl tok)
    then have "s' = w_store w" "c' = after_find sv millis cl tok (ts_find store (rc_jti cl) (w_store w))"
      using step by (auto simp: call_step_def)
    then consider (fin) x where "c' = Finished x" | (reuse) r where "ts_find store (rc_jti cl) (w_store w) = Some r" "c' = RevokeFamily (rr_subject r) (rr_family r)"
      using after_find_cases [of sv millis cl tok "ts_find store (rc_jti cl) (w_store w)"] by metis
    then have c': "call_ok c'" "new_ids c' = []" "new_families c' = []" "\<And>x f. c' = RevokeFamily x f \<Longrightarrow> f \<in> families (ts_find store) (w_store w)"
      by (cases; auto simp: call_ok_def new_ids_def new_families_def families_def)+
    show ?thesis
      using quiet [where d = "[]", OF c'] nothing \<open>s' = w_store w\<close> Find by (simp add: consumed_in_def killed_in_def)
  next
    case (RevokeFamily x f)
    then have "s' = revoke_family f (w_store w)" "c' = Finished (Failed reuse_detected)"
      using step by (simp_all add: call_step_def revokeCompromisedFamily_def ops)
    moreover have "set [f] \<subseteq> dying w" "families (ts_find store) (revoke_family f (w_store w)) \<inter> set [f] = {}"
      using mem RevokeFamily by (auto simp: dying_def families_def find_family kept_keep_unless)
    moreover have "ts_find store i (revoke_family f (w_store w)) = Some r \<Longrightarrow> ts_find store i (w_store w) = Some r" for i r
      by (simp add: find_family kept_keep_unless)
    ultimately show ?thesis
      using inv_finish [OF w k, of "revoke_family f (w_store w)" "[f]"] RevokeFamily by (simp add: consumed_in_def killed_in_def)
  next
    case (Revoke i)
    have "ts_find store j (ts_revoke store i (w_store w)) = Some r \<Longrightarrow> ts_find store j (w_store w) = Some r" for j r
      by (simp add: find_revoke split: if_splits)
    then show ?thesis
      using inv_finish [OF w k, of "ts_revoke store i (w_store w)" "[]"] step Revoke
      by (auto simp: call_step_def consumed_in_def killed_in_def)
  next
    case (RevokeSubject x)
    have "ts_find store j (ts_revokeBySubject store x (w_store w)) = Some r \<Longrightarrow> ts_find store j (w_store w) = Some r" for j r
      by (simp add: find_subject kept_keep_unless)
    then show ?thesis
      using inv_finish [OF w k, of "ts_revokeBySubject store x (w_store w)" "[]"] step RevokeSubject
      by (auto simp: call_step_def consumed_in_def killed_in_def)
  next
    case (Finished res)
    then have "s' = w_store w" "c' = Finished res"
      using step by (simp_all add: call_step_def)
    then show ?thesis
      using inv_finish [OF w k, of "w_store w" "[]" res] Finished by (simp add: consumed_in_def killed_in_def)
  qed
qed

lemma inv_world_step:
  assumes w: "inv uuid w" and uuid: "inj uuid"
  shows "inv uuid (world_step sv store uuid (millis, a) w)"
proof (cases a)
  case (IssueToken subject)
  have "uuid (w_uuids w) \<in> uuid ` {w_uuids w..<w_uuids w + 2}" "uuid (w_uuids w + 1) \<in> uuid ` {w_uuids w..<w_uuids w + 2}"
    by auto
  then show ?thesis
    using inv_add [OF w uuid, of "w_uuids w + 2" "issueRefreshToken sv millis (uuid (w_uuids w)) (uuid (w_uuids w + 1)) subject"]
      issued_call [of sv millis "uuid (w_uuids w)" "uuid (w_uuids w + 1)" subject] IssueToken
    by (auto simp: world_step_def Let_def call_ok_def new_ids_def new_families_def)
next
  case (PresentToken tok)
  have "uuid (w_uuids w) \<in> uuid ` {w_uuids w..<w_uuids w + 1}"
    by auto
  then show ?thesis
    using inv_add [OF w uuid, of "w_uuids w + 1" "rotateRefreshToken sv store millis (uuid (w_uuids w)) tok"]
      rotation_call [of store sv millis "uuid (w_uuids w)" tok] PresentToken ops
    by (auto simp: world_step_def Let_def call_ok_def new_ids_def new_families_def)
next
  case (Advance i)
  then show ?thesis
    using w inv_call_step [OF w, of i sv millis] by (auto simp: world_step_def Let_def split: prod.splits)
next
  case (RevokePresented tok)
  then show ?thesis
    using inv_add [OF w uuid, of "w_uuids w" "revokePresentedRefreshToken sv millis tok"] revocation_call [of sv millis tok]
    by (auto simp: world_step_def Let_def call_ok_def new_ids_def new_families_def)
next
  case (RevokeToken i)
  then show ?thesis
    using inv_add [OF w uuid, of "w_uuids w" "Revoke i"] by (auto simp: world_step_def Let_def call_ok_def new_ids_def new_families_def)
next
  case (RevokeAllForSubject x)
  then show ?thesis
    using inv_add [OF w uuid, of "w_uuids w" "RevokeSubject x"] by (auto simp: world_step_def Let_def call_ok_def new_ids_def new_families_def)
qed

lemma inv_run:
  assumes "inj uuid" "inv uuid w"
  shows "inv uuid (run_world sv store uuid acts w)"
  using assms(2) inv_world_step [OF _ assms(1)] unfolding run_world_def by (induction acts arbitrary: w) auto

lemma inv_fresh_world: "(\<And>i. ts_find store i s = None) \<Longrightarrow> inv uuid (new_world s)"
  by (simp add: world_inv_def new_world_def families_def dying_def)

text \<open>What a step consumes has a family that is alive.\<close>

lemma step_log:
  assumes w: "inv uuid w"
  shows "\<exists>l d. w_log (world_step sv store uuid (millis, a) w) = w_log w @ l \<and> w_dead (world_step sv store uuid (millis, a) w) = w_dead w @ d \<and>
    snd ` set l \<subseteq> families (ts_find store) (w_store w)"
proof (cases "\<exists>k inp r res. a = Advance k \<and> k < length (w_calls w) \<and> w_calls w ! k = Rotate inp r res")
  case True
  then obtain k inp r res where k: "a = Advance k" "k < length (w_calls w)" "w_calls w ! k = Rotate inp r res"
    by blast
  obtain s' answer where r: "rotate inp r millis (w_store w) = (s', answer)"
    by fastforce
  have "snd ` set (consumed_in (Rotate inp r res) (after_consume (Finished res) inp answer)) \<subseteq> families (ts_find store) (w_store w)"
  proof (cases "answer = Consumed")
    case True
    then obtain cur where "ts_find store (ci_tokenId inp) (w_store w) = Some cur" "rr_family cur = ci_family inp"
      using find_rotate [OF r] by auto
    then show ?thesis
      by (force simp: consumed_in_def families_def split: call.splits result.splits)
  next
    case False
    then show ?thesis
      by (cases answer) (auto simp: consumed_in_def after_consume_def)
  qed
  then show ?thesis
    using k r by (simp add: world_step_def call_step_def ops Let_def)
next
  case False
  show ?thesis
  proof (cases a)
    case (Advance k)
    have "consumed_in (w_calls w ! k) c' = []" if "k < length (w_calls w)" for c'
    proof -
      have "call_ok (w_calls w ! k)"
        using inv_D(1) [OF w] that nth_mem by blast
      then show ?thesis
        using False Advance that by (cases "w_calls w ! k") (auto simp: consumed_in_def call_ok_def)
    qed
    then show ?thesis
      using Advance by (simp add: world_step_def Let_def split: prod.split)
  qed (simp_all add: world_step_def add_call_def Let_def)
qed

lemma dead_family:
  assumes uuid: "inj uuid" and w: "inv uuid w" and f: "f \<in> set (w_dead w)"
  shows "\<exists>new. w_log (run_world sv store uuid acts w) = w_log w @ new \<and> f \<notin> snd ` set new \<and>
    f \<notin> families (ts_find store) (w_store (run_world sv store uuid acts w))"
  using w f
proof (induction acts arbitrary: w)
  case Nil
  then show ?case
    using inv_D(9) [OF Nil.prems(1)] by (auto simp: run_world_def)
next
  case (Cons act acts)
  obtain millis a where act: "act = (millis, a)"
    by fastforce
  obtain l d where ld: "w_log (world_step sv store uuid act w) = w_log w @ l" "w_dead (world_step sv store uuid act w) = w_dead w @ d"
      "snd ` set l \<subseteq> families (ts_find store) (w_store w)"
    using step_log [OF Cons.prems(1)] unfolding act by blast
  have "f \<notin> snd ` set l"
    using ld(3) inv_D(9) [OF Cons.prems(1)] Cons.prems(2) by blast
  moreover obtain new where "w_log (run_world sv store uuid acts (world_step sv store uuid act w)) = (w_log w @ l) @ new" "f \<notin> snd ` set new"
      "f \<notin> families (ts_find store) (w_store (run_world sv store uuid acts (world_step sv store uuid act w)))"
    using Cons.IH [of "world_step sv store uuid act w"] inv_world_step [OF Cons.prems(1) uuid] Cons.prems(2) ld(1, 2)
    unfolding act by auto
  ultimately show ?case
    by (intro exI [of _ "l @ new"]) (auto simp: run_world_def)
qed

end

section \<open>The in-memory store\<close>

lemma revoke_where_get: "js_get (revoke_where P records) i = keep_unless P (js_get records i)"
proof -
  define f where "f = (\<lambda>i (m :: memory_records). case js_get m i of Some r \<Rightarrow> if P r then js_delete m i else m | None \<Rightarrow> m)"
  have one: "js_get (f k m) i = (if i = k then keep_unless P (js_get m i) else js_get m i)" for k m
    by (simp add: f_def keep_unless_def js_get_delete split: option.split)
  have "js_get (fold f ks m) i = (if i \<in> set ks then keep_unless P (js_get m i) else js_get m i)" for ks m
    by (induction ks arbitrary: m) (auto simp: one keep_unless_def split: option.splits)
  then have "js_get (revoke_where P records) i = (if i \<in> set (js_keys records) then keep_unless P (js_get records i) else js_get records i)"
    by (simp add: revoke_where_def f_def)
  then show ?thesis
    using js_keys_get [of i records] by (auto simp: keep_unless_def)
qed

interpretation memory_tokens: rotating_store MemoryRefreshTokenStore memory_rotate memory_revokeByFamily
proof
  fix inp r now s s' answer
  assume "memory_rotate inp r now s = (s', answer)"
  then show "if answer = Consumed
    then \<exists>cur. ts_find MemoryRefreshTokenStore (ci_tokenId inp) s = Some cur \<and> rr_family cur = ci_family inp \<and> \<not> rr_used cur \<and>
      (\<forall>i. ts_find MemoryRefreshTokenStore i s' =
        (if i = rr_id r then Some r else if i = rr_id cur then Some (cur\<lparr>rr_used := True\<rparr>) else ts_find MemoryRefreshTokenStore i s))
    else (\<forall>i. ts_find MemoryRefreshTokenStore i s' = ts_find MemoryRefreshTokenStore i s) \<and>
      (answer = AlreadyUsed \<longrightarrow> (\<exists>cur. ts_find MemoryRefreshTokenStore (ci_tokenId inp) s = Some cur \<and> rr_family cur = ci_family inp))"
    by (auto simp: memory_rotate_def MemoryRefreshTokenStore_def memory_find_def js_get_set split: option.splits if_splits)
qed (simp_all add: MemoryRefreshTokenStore_def memory_find_def memory_save_def memory_revoke_def memory_revokeBySubject_def
    memory_revokeByFamily_def revoke_where_get js_get_set js_get_delete)

text \<open>A world of the service over the in-memory store after any sequence of starts and steps.\<close>

definition memory_world :: "refresh_service \<Rightarrow> (nat \<Rightarrow> string) \<Rightarrow> (int \<times> action) list \<Rightarrow> memory_records world" where
  "memory_world sv uuid acts = run_world sv MemoryRefreshTokenStore uuid acts (new_world [])"

lemma memory_inv: "inj uuid \<Longrightarrow> memory_tokens.inv uuid (memory_world sv uuid acts)"
  unfolding memory_world_def
  by (intro memory_tokens.inv_run memory_tokens.inv_fresh_world) (simp_all add: MemoryRefreshTokenStore_def memory_find_def)

text \<open>
  C27. A refresh token is rotated at most once.  However logins, rotations, revocations and their steps
  interleave, whatever tokens are presented at whatever times, with identifiers that are never drawn
  twice, no token identifier is consumed by two successful rotations, and a consumed token that is still
  stored is marked as used.
\<close>

theorem refresh_token_single_use:
  assumes "inj uuid"
  shows "let w = memory_world sv uuid acts
    in distinct (map fst (w_log w)) \<and>
       list_all (\<lambda>(tokenId, family). case memory_find tokenId (w_store w) of None \<Rightarrow> True | Some r \<Rightarrow> rr_used r) (w_log w)"
proof -
  note inv = memory_inv [OF assms, of sv acts]
  have "case memory_find i (w_store (memory_world sv uuid acts)) of None \<Rightarrow> True | Some r \<Rightarrow> rr_used r"
    if "(i, f) \<in> set (w_log (memory_world sv uuid acts))" for i f
    using inv_D(4) [OF inv, of i] that by (force simp: MemoryRefreshTokenStore_def split: option.split)
  then show ?thesis
    using inv_D(5) [OF inv] by (auto simp: Let_def list_all_iff)
qed


section \<open>Samples\<close>

text \<open>A runtime for the samples: it prints what tells refresh tokens apart and reads it back.\<close>

definition claim_text :: "claims \<Rightarrow> string \<Rightarrow> string" where
  "claim_text c name = (case js_get c name of Some (JStr s) \<Rightarrow> s | _ \<Rightarrow> [])"

definition refresh_print :: "claims \<Rightarrow> string" where
  "refresh_print c =
     (if js_get c ''alg'' \<noteq> None then ''H''
      else join_with ''|'' [claim_text c ''jti'', claim_text c ''family'', claim_text c ''sub''])"

definition refresh_parse :: "string \<Rightarrow> json option" where
  "refresh_parse s =
     (case split_on (CHR ''|'') s of
        [jti, family, sub] \<Rightarrow>
          Some (JObj [(''exp'', JNum (Fin 100)), (''family'', JStr family), (''jti'', JStr jti), (''sub'', JStr sub), (''type'', JStr ''refresh'')])
      | _ \<Rightarrow> Some (JObj [(''alg'', JStr ''HS256'')]))"

definition refresh_runtime :: jwt_runtime where
  "refresh_runtime = \<lparr>rt_parse = refresh_parse, rt_stringify = refresh_print, rt_hmac = (\<lambda>h secret i. secret @ i),
     rt_sign = (\<lambda>h ec k i. []), rt_verify = (\<lambda>h ec k i s. False)\<rparr>"

definition refresh_policy_sample :: refresh_policy where
  "refresh_policy_sample = \<lparr>rp_algorithms = None, rp_secret = ''r'', rp_expiresInSeconds = Fin 100, rp_verifyMaxAgeSeconds = None,
     rp_rotation = True, rp_store = MemoryStore\<rparr>"

definition refresh_options :: jwt_options where
  "refresh_options = \<lparr>jo_algorithms = [''HS256''], jo_accessTokenTtlSeconds = None, jo_audience = None, jo_clockSkewSeconds = None,
     jo_issuer = None, jo_keys = [], jo_maxAge = None, jo_requireExp = None, jo_secretOrKeyProvider = None, jo_secret = Some ''k'',
     jo_privateKey = None, jo_publicKey = None, jo_refreshToken = Some refresh_policy_sample\<rparr>"

definition sample_service :: refresh_service where
  "sample_service = \<lparr>sv_runtime = refresh_runtime, sv_options = refresh_policy_sample,
     sv_signer = (case newSigner refresh_options of Inr s \<Rightarrow> s), sv_verifier = (case newVerifier refresh_options None of Inr v \<Rightarrow> v)\<rparr>"

definition sample_uuid :: "nat \<Rightarrow> string" where
  "sample_uuid n = replicate (Suc n) (CHR ''u'')"

lemma sample_uuid_inj: "inj sample_uuid"
  by (rule injI) (auto simp: sample_uuid_def dest: arg_cong [where f = length])

definition refresh_text :: "string \<Rightarrow> string \<Rightarrow> string" where
  "refresh_text jti family =
     (let i = encodeBase64Url ''H'' @ ''.'' @ encodeBase64Url (join_with ''|'' [jti, family, ''a''])
      in i @ ''.'' @ encodeBase64Url (''r'' @ i))"

text \<open>A login, its rotation, and the same token again.\<close>

definition login_and_rotate :: "(int \<times> action) list" where
  "login_and_rotate = [(0, IssueToken ''a''), (0, Advance 0), (1, PresentToken (refresh_text ''uu'' ''u'')), (1, Advance 1)]"

definition reuse :: "(int \<times> action) list" where
  "reuse = [(2, PresentToken (refresh_text ''uu'' ''u'')), (2, Advance 2), (2, Advance 2)]"

lemma sample_refresh_run:
  "let w = memory_world sample_service sample_uuid login_and_rotate;
       w' = run_world sample_service MemoryRefreshTokenStore sample_uuid reuse w
   in w_log w = [(''uu'', ''u'')] \<and> w_dead w' = [''u'']"
  by code_simp

lemma sample_log: "w_log (memory_world sample_service sample_uuid login_and_rotate) = [(''uu'', ''u'')]"
  and sample_dead: "w_dead (memory_world sample_service sample_uuid (login_and_rotate @ reuse)) = [''u'']"
  using sample_refresh_run by (simp_all add: Let_def memory_world_def run_world_def)

theorem refresh_token_single_use_witness:
  "distinct (map fst (w_log (memory_world sample_service sample_uuid login_and_rotate))) \<and>
   w_log (memory_world sample_service sample_uuid login_and_rotate) = [(''uu'', ''u'')]"
  using refresh_token_single_use [OF sample_uuid_inj, of sample_service login_and_rotate] sample_log by (simp add: Let_def)


section \<open>Stores that only consume\<close>

text \<open>An atomic \<open>consume\<close>: a rotation without the replacement, which the service saves afterwards.\<close>

definition consume_in_memory :: "consume_input \<Rightarrow> int \<Rightarrow> memory_records \<Rightarrow> memory_records \<times> consume_result" where
  "consume_in_memory inp now records =
     (case js_get records (ci_tokenId inp) of
        None \<Rightarrow> (records, NotFound)
      | Some current \<Rightarrow>
          if rr_subject current \<noteq> ci_subject inp \<or> rr_family current \<noteq> ci_family inp then (records, Mismatch)
          else if rr_expiresAt current \<le> now then (records, Expired)
          else if rr_used current then (records, AlreadyUsed)
          else (js_set records (rr_id current) (current\<lparr>rr_used := True\<rparr>), Consumed))"

definition consume_only_store :: "memory_records token_store" where
  "consume_only_store = MemoryRefreshTokenStore\<lparr>ts_rotate := None, ts_consume := Some consume_in_memory\<rparr>"

text \<open>Two presentations of one token, the second of which is answered before the first has saved its successor.\<close>

definition raced_reuse :: "(int \<times> action) list" where
  "raced_reuse = [(0, IssueToken ''a''), (0, Advance 0), (1, PresentToken (refresh_text ''uu'' ''u'')), (1, Advance 1),
     (2, PresentToken (refresh_text ''uu'' ''u'')), (2, Advance 2), (2, Advance 2)]"

definition survivor_rotates :: "(int \<times> action) list" where
  "survivor_rotates = [(3, Advance 1), (4, PresentToken (refresh_text ''uuu'' ''u'')), (4, Advance 3)]"

text \<open>
  With a store that only consumes, reuse does not end the family.  The service saves the successor of
  a consumed token in a second operation; when the reuse of the consumed token is detected and its family
  revoked between the two, the successor is stored afterwards and rotates: a family is alive after its
  reuse was answered.
\<close>

theorem consume_only_family_survives:
  "\<exists>acts acts'. ''u'' \<in> set (w_dead (run_world sample_service consume_only_store sample_uuid acts (new_world []))) \<and>
    (\<exists>i. w_log (run_world sample_service consume_only_store sample_uuid (acts @ acts') (new_world [])) =
      w_log (run_world sample_service consume_only_store sample_uuid acts (new_world [])) @ [(i, ''u'')])"
proof -
  let ?run = "run_world sample_service consume_only_store sample_uuid"
  have "let w = ?run raced_reuse (new_world []); w' = ?run survivor_rotates w
      in w_dead w = [''u''] \<and> w_log w = [(''uu'', ''u'')] \<and> w_log w' = [(''uu'', ''u''), (''uuu'', ''u'')]"
    by code_simp
  moreover have "?run (raced_reuse @ survivor_rotates) w = ?run survivor_rotates (?run raced_reuse w)" for w
    by (simp add: run_world_def)
  ultimately show ?thesis
    by (intro exI [of _ raced_reuse] exI [of _ survivor_rotates] conjI exI [of _ "''uuu''"]) (simp_all add: Let_def)
qed

end
