(* ===== verification/Jwt_Correctness.thy ===== *)
theory Jwt_Correctness
  imports Jwt
begin

text \<open>
  What the token code promises: which keys can accept a token, when its claims are in force
  (\<open>claims_in_force\<close>), that no other token is accepted, and that signed tokens are.
\<close>

section \<open>The key tables\<close>

definition hmac_secrets :: "jwt_key_entry list \<Rightarrow> string list" where
  "hmac_secrets keys = List.map_filter (\<lambda>e. truthy_text (ke_secret e)) keys"

definition public_keys :: "jwt_key_entry list \<Rightarrow> key list" where
  "public_keys keys = List.map_filter ke_publicKey keys"

lemma map_filter_snoc: "List.map_filter f (xs @ [x]) = List.map_filter f xs @ (case f x of None \<Rightarrow> [] | Some y \<Rightarrow> [y])"
  by (simp add: map_filter_def split: option.split)

lemma key_state_tables:
  "ks_hmacKeyCount (createKeyResolutionState keys) = length (hmac_secrets keys) \<and>
   ks_defaultHmacSecret (createKeyResolutionState keys) = (case hmac_secrets keys of [s] \<Rightarrow> Some s | _ \<Rightarrow> None) \<and>
   ks_publicKeyCount (createKeyResolutionState keys) = length (public_keys keys) \<and>
   ks_defaultPublicKey (createKeyResolutionState keys) = (case public_keys keys of [k] \<Rightarrow> Some k | _ \<Rightarrow> None)"
proof (induction keys rule: rev_induct)
  case Nil
  show ?case
    by (simp add: createKeyResolutionState_def empty_key_state_def hmac_secrets_def public_keys_def)
next
  case (snoc e keys)
  then show ?case
    by (auto simp: createKeyResolutionState_def add_key_def hmac_secrets_def public_keys_def map_filter_snoc Let_def
        split: option.splits list.splits)
qed

lemma keys_by_kid:
  "ks_keyByKid (createKeyResolutionState keys) = fold (\<lambda>e m. js_set m (ke_kid e) e) keys []"
proof -
  have "ks_keyByKid (fold add_key keys st) = fold (\<lambda>e m. js_set m (ke_kid e) e) keys (ks_keyByKid st)" for st
    by (induction keys arbitrary: st) (simp_all add: add_key_def Let_def split: option.split)
  then show ?thesis
    by (simp add: createKeyResolutionState_def empty_key_state_def)
qed

lemma assert_kids_distinct: "assert_kids seen keys = None \<longleftrightarrow> distinct (map ke_kid keys) \<and> set (map ke_kid keys) \<inter> set seen = {} \<and> [] \<notin> set (map ke_kid keys)"
  by (induction keys arbitrary: seen) auto

lemma key_by_kid:
  assumes "js_get (ks_keyByKid (createKeyResolutionState keys)) k = Some e"
  shows "e \<in> set keys" "ke_kid e = k"
proof -
  have "e \<in> set keys \<and> ke_kid e = k"
    using assms unfolding keys_by_kid by (induction keys rule: rev_induct) (auto simp: js_get_set split: if_splits)
  then show "e \<in> set keys" "ke_kid e = k"
    by simp_all
qed

lemma kid_of_key:
  "distinct (map ke_kid keys) \<Longrightarrow> e \<in> set keys \<Longrightarrow> js_get (ks_keyByKid (createKeyResolutionState keys)) (ke_kid e) = Some e"
  unfolding keys_by_kid
proof (induction keys rule: rev_induct)
  case (snoc x keys)
  then show ?case
    by (cases "e = x") (auto simp: js_get_set image_iff)
qed simp

section \<open>Claims\<close>

definition clock_skew :: "jwt_options \<Rightarrow> rat" where
  "clock_skew options = (case jo_clockSkewSeconds options of Some (Fin x) \<Rightarrow> x | _ \<Rightarrow> 0)"

text \<open>A clock skew and a maximum age that are not finite and non-negative are configuration errors.\<close>

definition claim_policy_ok :: "jwt_options \<Rightarrow> bool" where
  "claim_policy_ok options \<longleftrightarrow>
     (case jo_clockSkewSeconds options of None \<Rightarrow> True | Some n \<Rightarrow> non_negative_number n) \<and>
     (case jo_maxAge options of None \<Rightarrow> True | Some n \<Rightarrow> non_negative_number n)"

definition claims_in_force :: "claims \<Rightarrow> jwt_options \<Rightarrow> int \<Rightarrow> bool" where
  "claims_in_force payload options now \<longleftrightarrow>
     (case js_get payload ''exp'' of
        None \<Rightarrow> jo_requireExp options = Some False
      | Some v \<Rightarrow> \<exists>t. v = JNum (Fin t) \<and> of_int now < t + clock_skew options) \<and>
     (case js_get payload ''nbf'' of None \<Rightarrow> True | Some v \<Rightarrow> \<exists>t. v = JNum (Fin t) \<and> t \<le> of_int now + clock_skew options) \<and>
     (case jo_maxAge options of
        Some (Fin limit) \<Rightarrow>
          \<exists>t. js_get payload ''iat'' = Some (JNum (Fin t)) \<and> t \<le> of_int now + clock_skew options \<and>
              of_int now \<le> t + limit + clock_skew options
      | _ \<Rightarrow> True) \<and>
     (case truthy_text (jo_issuer options) of None \<Rightarrow> True | Some iss \<Rightarrow> js_get payload ''iss'' = Some (JStr iss)) \<and>
     (case expected_audience (jo_audience options) of
        None \<Rightarrow> True
      | Some expected \<Rightarrow> \<exists>a \<in> set expected. JStr a \<in> set (actual_audience (js_get payload ''aud'')))"

lemma orelse_None [simp]: "orelse a b = None \<longleftrightarrow> a = None \<and> b = None" "orelse None b = b" "orelse (Some x) b = Some x"
  by (auto simp: orelse_def split: option.splits)

lemma skew_resolved: "resolveClockSkewSeconds (jo_clockSkewSeconds options) =
    (if case jo_clockSkewSeconds options of None \<Rightarrow> True | Some n \<Rightarrow> non_negative_number n then Inr (clock_skew options)
     else Inl (JwtConfigurationError ''JWT clockSkewSeconds must be a non-negative finite number.''))"
  by (auto simp: resolveClockSkewSeconds_def clock_skew_def non_negative_number_def split: option.splits js_number.splits)

lemma max_age_valid:
  "validateMaxAgeClaims payload maxAge skew now = None \<longleftrightarrow>
     (case maxAge of None \<Rightarrow> True | Some n \<Rightarrow> non_negative_number n) \<and>
     (case maxAge of
        Some (Fin limit) \<Rightarrow>
          \<exists>t. js_get payload ''iat'' = Some (JNum (Fin t)) \<and> t \<le> of_int now + skew \<and> of_int now \<le> t + limit + skew
      | _ \<Rightarrow> True)"
  by (auto simp: validateMaxAgeClaims_def non_negative_number_def date_claim_def algebra_simps not_less
      split: option.splits js_number.splits json.splits if_splits)

lemma issuer_audience_valid:
  "validateIssuerAndAudience payload options = None \<longleftrightarrow>
     (case truthy_text (jo_issuer options) of None \<Rightarrow> True | Some iss \<Rightarrow> js_get payload ''iss'' = Some (JStr iss)) \<and>
     (case expected_audience (jo_audience options) of
        None \<Rightarrow> True
      | Some expected \<Rightarrow> \<exists>a \<in> set expected. JStr a \<in> set (actual_audience (js_get payload ''aud'')))"
  by (auto simp: validateIssuerAndAudience_def truthy_text_def list_ex_iff split: option.splits list.splits if_splits)

lemma date_valid:
  "assertFiniteNumericDateClaim payload name = None \<longleftrightarrow> (case js_get payload name of None \<Rightarrow> True | Some v \<Rightarrow> \<exists>t. v = JNum (Fin t))"
  by (auto simp: assertFiniteNumericDateClaim_def isFiniteNumericDate_def is_finite_def split: option.splits json.splits js_number.splits)

lemma expiry_valid:
  "(case date_claim payload ''exp'' of
      Some t \<Rightarrow> if t + skew \<le> of_int now then Some e else rest
    | None \<Rightarrow> rest) = None \<longleftrightarrow> (case date_claim payload ''exp'' of None \<Rightarrow> True | Some t \<Rightarrow> of_int now < t + skew) \<and> rest = None"
  by (auto simp: not_le split: option.splits)

lemma activation_valid:
  "after_expiry payload options skew now = None \<longleftrightarrow>
     (case date_claim payload ''nbf'' of None \<Rightarrow> True | Some t \<Rightarrow> t \<le> of_int now + skew) \<and> validateIssuerAndAudience payload options = None"
  by (auto simp: after_expiry_def algebra_simps not_less split: option.splits)

lemma date_and_bound:
  "(case v of None \<Rightarrow> True | Some w \<Rightarrow> \<exists>t. w = JNum (Fin t)) \<and>
     (case (case v of Some (JNum (Fin x)) \<Rightarrow> Some x | _ \<Rightarrow> None) of None \<Rightarrow> True | Some t \<Rightarrow> P t) \<longleftrightarrow>
   (case v of None \<Rightarrow> True | Some w \<Rightarrow> \<exists>t. w = JNum (Fin t) \<and> P t)"
  by (auto split: option.splits json.splits js_number.splits)

lemma claims_valid_iff: "validateTokenClaims payload options now = None \<longleftrightarrow> claim_policy_ok options \<and> claims_in_force payload options now"
proof -
  have number: "is_number (js_get payload ''exp'') \<longleftrightarrow> (\<exists>n. js_get payload ''exp'' = Some (JNum n))"
    by (auto simp: is_number_def split: option.splits json.splits)
  let ?skew = "clock_skew options"
  have exp: "(js_get payload ''exp'' = None \<longrightarrow> jo_requireExp options = Some False) \<and>
      (case js_get payload ''exp'' of None \<Rightarrow> True | Some w \<Rightarrow> \<exists>t. w = JNum (Fin t)) \<and>
      (case date_claim payload ''exp'' of None \<Rightarrow> True | Some t \<Rightarrow> of_int now < t + ?skew) \<longleftrightarrow>
      (case js_get payload ''exp'' of
        None \<Rightarrow> jo_requireExp options = Some False
      | Some v \<Rightarrow> \<exists>t. v = JNum (Fin t) \<and> of_int now < t + ?skew)"
    unfolding date_claim_def date_and_bound by (cases "js_get payload ''exp''") auto
  have missing: "jo_requireExp options \<noteq> Some False \<and> \<not> is_number (js_get payload ''exp'') \<Longrightarrow>
      \<not> (case js_get payload ''exp'' of
        None \<Rightarrow> jo_requireExp options = Some False
      | Some v \<Rightarrow> \<exists>t. v = JNum (Fin t) \<and> of_int now < t + ?skew)"
    by (auto simp: number split: option.splits)
  have present: "\<not> (jo_requireExp options \<noteq> Some False \<and> \<not> is_number (js_get payload ''exp'')) \<Longrightarrow>
      js_get payload ''exp'' = None \<longrightarrow> jo_requireExp options = Some False"
    by (auto simp: number)
  have nbf: "(case js_get payload ''nbf'' of None \<Rightarrow> True | Some w \<Rightarrow> \<exists>t. w = JNum (Fin t)) \<and>
      (case date_claim payload ''nbf'' of None \<Rightarrow> True | Some t \<Rightarrow> t \<le> of_int now + ?skew) \<longleftrightarrow>
      (case js_get payload ''nbf'' of None \<Rightarrow> True | Some v \<Rightarrow> \<exists>t. v = JNum (Fin t) \<and> t \<le> of_int now + ?skew)"
    unfolding date_claim_def date_and_bound ..
  show ?thesis
  proof (cases "jo_requireExp options \<noteq> Some False \<and> \<not> is_number (js_get payload ''exp'')")
    case True
    then show ?thesis
      using missing by (auto simp: validateTokenClaims_def skew_resolved claims_in_force_def)
  next
    case False
    note facts = present [OF False]
    show ?thesis
      unfolding claims_in_force_def exp [symmetric] nbf [symmetric] claim_policy_ok_def
      using False facts
      by (simp only: validateTokenClaims_def skew_resolved expiry_valid activation_valid orelse_None date_valid max_age_valid
          issuer_audience_valid if_False sum.case option.distinct split: if_split) argo
  qed
qed

section \<open>What a token must be signed with\<close>

text \<open>
  The secrets an HMAC token may be signed with: the text the provider of the application gives for the
  header; otherwise the secret of the entry the header names; otherwise the only secret of the entries,
  or the single configured secret.
\<close>

definition allowed_secrets :: "jwt_options \<Rightarrow> claims \<Rightarrow> string set" where
  "allowed_secrets options header =
     (case resolveProviderKey options header of
        Some k \<Rightarrow> {s. k = KeyText s}
      | None \<Rightarrow>
          (case text_kid (js_get header ''kid'') of
             Some kid \<Rightarrow> {s. \<exists>e \<in> set (jo_keys options). ke_kid e = kid \<and> ke_secret e = Some s}
           | None \<Rightarrow> {s. hmac_secrets (jo_keys options) = [s]} \<union> {s. hmac_secrets (jo_keys options) = [] \<and> jo_secret options = Some s}))"

text \<open>The public keys, likewise; a remote key set takes the place of the configured keys.\<close>

definition allowed_public_keys :: "jwt_options \<Rightarrow> jwks_client option \<Rightarrow> claims \<Rightarrow> key set" where
  "allowed_public_keys options jwks header =
     (case resolveProviderKey options header of
        Some k \<Rightarrow> {k}
      | None \<Rightarrow>
          (case (jwks, text_kid (js_get header ''kid'')) of
             (Some client, Some kid) \<Rightarrow> {k. client kid = Inr k}
           | (Some client, None) \<Rightarrow> {}
           | (None, Some kid) \<Rightarrow>
               if jo_keys options = [] then {k. jo_publicKey options = Some k}
               else {k. \<exists>e \<in> set (jo_keys options). ke_kid e = kid \<and> ke_publicKey e = Some k}
           | (None, None) \<Rightarrow> {k. public_keys (jo_keys options) = [k]} \<union> {k. public_keys (jo_keys options) = [] \<and> jo_publicKey options = Some k}))"

definition properly_signed :: "jwt_runtime \<Rightarrow> jwt_options \<Rightarrow> jwks_client option \<Rightarrow> claims \<Rightarrow> string \<Rightarrow> string \<Rightarrow> string \<Rightarrow> bool" where
  "properly_signed rt options jwks header alg signingInput signature \<longleftrightarrow>
     (case map_of SUPPORTED_HMAC_HASH alg of
        Some h \<Rightarrow> \<exists>secret \<in> allowed_secrets options header. secret \<noteq> [] \<and> signature = rt_hmac rt h secret signingInput
      | None \<Rightarrow>
          (case map_of SUPPORTED_ASYMMETRIC_HASH alg of
             Some h \<Rightarrow> \<exists>k \<in> allowed_public_keys options jwks header. k \<noteq> KeyText [] \<and> rt_verify rt h (is_ec alg) k signingInput signature
           | None \<Rightarrow> False))"

lemma mapping_iff: "hasOwnAlgorithmMapping m alg \<longleftrightarrow> (\<exists>h. map_of m alg = Some h)"
  by (metis hasOwnAlgorithmMapping_def in_set_conv_decomp_first list.set_map map_of_eq_None_iff not_None_eq)

lemma truthy_text_Some [simp]: "truthy_text v = Some s \<longleftrightarrow> v = Some s \<and> s \<noteq> []"
  by (auto simp: truthy_text_def split: option.splits list.splits)

lemma truthy_text_nonempty [simp]: "s \<noteq> [] \<Longrightarrow> truthy_text (Some s) = Some s"
  by simp

lemma hmac_secret_allowed:
  assumes "resolveHmacSecret options (createKeyResolutionState (jo_keys options)) (js_get header ''kid'') = Inr (Some s)"
    and "resolveProviderKey options header = None"
  shows "s \<in> allowed_secrets options header"
proof (cases "text_kid (js_get header ''kid'')")
  case None
  then show ?thesis
    using assms key_state_tables [of "jo_keys options"]
    by (auto simp: resolveHmacSecret_def allowed_secrets_def orelse_def split: if_splits option.splits list.splits)
next
  case (Some kid)
  then show ?thesis
    using assms by (force simp: resolveHmacSecret_def allowed_secrets_def split: option.splits dest: key_by_kid)
qed

lemma no_keys: "ks_keyByKid (createKeyResolutionState keys) = [] \<longleftrightarrow> keys = []"
proof (cases keys rule: rev_cases)
  case (snoc ks k)
  then have "js_get (ks_keyByKid (createKeyResolutionState keys)) (ke_kid k) = Some k"
    by (simp add: keys_by_kid js_get_set)
  with snoc show ?thesis
    by auto
qed (simp add: keys_by_kid)

lemma public_key_allowed:
  assumes "resolveStaticPublicKey options (createKeyResolutionState (jo_keys options)) (js_get header ''kid'') = Inr (Some k)"
    and "resolveProviderKey options header = None"
  shows "k \<in> allowed_public_keys options None header"
proof (cases "text_kid (js_get header ''kid'')")
  case None
  then show ?thesis
    using assms key_state_tables [of "jo_keys options"]
    by (auto simp: resolveStaticPublicKey_def allowed_public_keys_def orelse_def Let_def split: if_splits option.splits list.splits)
next
  case (Some kid)
  show ?thesis
  proof (cases "jo_keys options = []")
    case True
    then show ?thesis
      using assms Some no_keys [of "jo_keys options"] key_state_tables [of "jo_keys options"]
      by (auto simp: resolveStaticPublicKey_def allowed_public_keys_def orelse_def public_keys_def Let_def split: option.splits)
  next
    case False
    then show ?thesis
      using assms Some no_keys [of "jo_keys options"]
      by (force simp: resolveStaticPublicKey_def allowed_public_keys_def Let_def split: option.splits dest: key_by_kid)
  qed
qed

lemma truthy_key_Some [simp]: "truthy_key v = Some k \<longleftrightarrow> v = Some k \<and> k \<noteq> KeyText []"
  by (auto simp: truthy_key_def)

lemma selected_secret_allowed:
  "selected_secret header options (createKeyResolutionState (jo_keys options)) = Inr (Some s) \<Longrightarrow> s \<in> allowed_secrets options header"
  using hmac_secret_allowed [of options header s] by (auto simp: selected_secret_def allowed_secrets_def split: option.splits key.splits)

lemma selected_key_allowed:
  "selected_public_key header options (createKeyResolutionState (jo_keys options)) jwks = Inr (Some k) \<Longrightarrow>
   k \<in> allowed_public_keys options jwks header"
  using public_key_allowed [of options header k]
  by (cases "resolveProviderKey options header"; cases jwks; cases "text_kid (js_get header ''kid'')")
    (auto simp: selected_public_key_def allowed_public_keys_def resolveJwksPublicKey_def map_sum_def split: sum.splits)

lemma signature_allowed:
  assumes ok: "verifyTokenSignature rt header alg signingInput signatureSegment options (createKeyResolutionState (jo_keys options)) jwks = None"
  shows "properly_signed rt options jwks header alg signingInput (unbase64 signatureSegment)"
proof (cases "map_of SUPPORTED_HMAC_HASH alg")
  case (Some h)
  then obtain s where s: "s \<noteq> []" "verifyHmacSignature rt alg s signingInput signatureSegment = None"
      "selected_secret header options (createKeyResolutionState (jo_keys options)) = Inr (Some s)"
    using ok by (auto simp: verifyTokenSignature_def mapping_iff verifyHmacTokenSignature_def split: option.splits sum.splits)
  then show ?thesis
    using Some selected_secret_allowed [OF s(3)]
    by (auto simp: properly_signed_def verifyHmacSignature_def encodeBase64Url_def unbase64_url Let_def split: if_splits)
next
  case None
  then obtain k where k: "k \<noteq> KeyText []" "verifyAsymmetricSignature rt alg k signingInput signatureSegment = None"
      "selected_public_key header options (createKeyResolutionState (jo_keys options)) jwks = Inr (Some k)"
    using ok by (auto simp: verifyTokenSignature_def mapping_iff verifyAsymmetricTokenSignature_def split: option.splits sum.splits)
  then show ?thesis
    using None selected_key_allowed [OF k(3)] by (auto simp: properly_signed_def verifyAsymmetricSignature_def split: option.splits if_splits)
qed

lemma split3: "split_on c s = [x, y, z] \<Longrightarrow> s = x @ [c] @ y @ [c] @ z"
  using join_split [of c s] by simp

text \<open>What verification accepts, in one place for both kinds of token.\<close>

definition token_accepted ::
  "jwt_runtime \<Rightarrow> int \<Rightarrow> jwt_options \<Rightarrow> jwks_client option \<Rightarrow> string \<Rightarrow> jwt_principal \<Rightarrow> bool" where
  "token_accepted rt now options jwks tok p \<longleftrightarrow>
     (\<exists>headerSegment payloadSegment signatureSegment header alg.
        tok = headerSegment @ ''.'' @ payloadSegment @ ''.'' @ signatureSegment \<and>
        parseJwtPart rt headerSegment = Inr header \<and>
        js_get header ''alg'' = Some (JStr alg) \<and> alg \<in> set (jo_algorithms options) \<and>
        properly_signed rt options jwks header alg (headerSegment @ ''.'' @ payloadSegment) (unbase64 signatureSegment) \<and>
        parseJwtPart rt payloadSegment = Inr (pr_claims p)) \<and>
     claims_in_force (pr_claims p) options now \<and>
     js_get (pr_claims p) ''sub'' = Some (JStr (pr_subject p)) \<and> pr_subject p \<noteq> []"

lemma principal_subject:
  "normalizePrincipal c = Inr p \<Longrightarrow> pr_claims p = c \<and> js_get c ''sub'' = Some (JStr (pr_subject p)) \<and> pr_subject p \<noteq> []"
proof (cases "js_get c ''sub''")
  case (Some v)
  then show "normalizePrincipal c = Inr p \<Longrightarrow> ?thesis"
  proof (cases v)
    case (JStr s)
    with Some show "normalizePrincipal c = Inr p \<Longrightarrow> ?thesis"
      by (cases s) (auto simp: normalizePrincipal_def)
  qed (simp_all add: normalizePrincipal_def)
qed (simp add: normalizePrincipal_def)

lemma verified_accepted:
  assumes "verifyToken rt now tok options (createKeyResolutionState (jo_keys options)) jwks = Inr p"
  shows "token_accepted rt now options jwks tok p"
proof -
  obtain h c s where seg: "parseTokenSegments tok = Inr (h, c, s)"
    using assms by (auto simp: verifyToken_def split: sum.splits)
  have tok: "tok = h @ ''.'' @ c @ ''.'' @ s"
    using seg by (auto simp: parseTokenSegments_def split: list.splits dest: split3)
  obtain header where header: "parseJwtPart rt h = Inr header"
    using assms by (auto simp: verifyToken_def seg split: sum.splits)
  have allowed: "isAllowedAlgorithm (js_get header ''alg'') (jo_algorithms options)"
    using assms by (auto simp: verifyToken_def seg header split: if_splits)
  then obtain alg where alg: "js_get header ''alg'' = Some (JStr alg)" "alg \<in> set (jo_algorithms options)"
    by (auto simp: isAllowedAlgorithm_def split: option.splits json.splits)
  have signed: "verifyTokenSignature rt header alg (h @ ''.'' @ c) s options (createKeyResolutionState (jo_keys options)) jwks = None"
    using assms allowed by (auto simp: verifyToken_def seg header alg split: option.splits)
  obtain payload where payload: "parseJwtPart rt c = Inr payload"
    using assms allowed signed by (auto simp: verifyToken_def seg header alg split: sum.splits)
  have "validateTokenClaims payload options now = None" "normalizePrincipal payload = Inr p"
    using assms allowed signed by (auto simp: verifyToken_def seg header alg payload split: option.splits)
  then show ?thesis
    using tok header alg payload signature_allowed [OF signed] principal_subject [of payload p] claims_valid_iff
    unfolding token_accepted_def by metis
qed

text \<open>
  C25. An access token is accepted only if it was signed for this verifier.  It consists of three
  segments; its algorithm is in force for the call; its signature is valid for exactly its header and
  payload, an HMAC one under a configured secret for the key id, never under a public key, and any other
  under a configured or remote public key; at the time of the call its expiry, activation, age, issuer
  and audience satisfy the policy of the call; and the principal has its non-empty subject and its
  claims.
\<close>

theorem access_token_sound:
  assumes "newVerifier options jwks = Inr v" "verifyAccessToken rt now v tok policy = Inr p"
  shows "token_accepted rt now (policy_options options policy) jwks tok p"
proof -
  have v: "vf_options v = options" "vf_keyResolutionState v = createKeyResolutionState (jo_keys options)" "vf_jwksClient v = jwks"
    using assms(1) by (auto simp: newVerifier_def Let_def map_sum_def split: option.splits sum.splits)
  have "verifyToken rt now tok (policy_options options policy) (createKeyResolutionState (jo_keys (policy_options options policy))) jwks = Inr p"
    using assms(2) by (auto simp: verifyAccessToken_def v Let_def policy_options_def split: option.splits)
  then show ?thesis
    by (rule verified_accepted)
qed

section \<open>Signed tokens are accepted\<close>

lemma get_default_claim:
  "js_get (default_claim name d c) n = (if n = name \<and> js_get c name \<in> {None, Some JNull} then d else js_get c n)"
  by (auto simp: default_claim_def js_get_set js_get_delete split: option.splits json.splits)

lemma algorithms_checked:
  "assertJwtAlgorithms algs ctx = None \<longleftrightarrow> algs \<noteq> [] \<and> list_all isSupportedAlgorithm algs"
  by (auto simp: assertJwtAlgorithms_def find_None_iff find_Some_iff list_all_iff split: option.splits)

definition first_algorithm :: "jwt_options \<Rightarrow> string" where
  "first_algorithm options = hd (jo_algorithms options)"

definition first_header :: "jwt_options \<Rightarrow> claims" where
  "first_header options = token_header (first_algorithm options) (resolveSigningKeyEntry options (first_algorithm options))"

lemma algorithm_families:
  "map_of SUPPORTED_HMAC_HASH alg = Some h \<Longrightarrow> map_of SUPPORTED_ASYMMETRIC_HASH alg = None"
  by (auto simp: SUPPORTED_HMAC_HASH_def SUPPORTED_ASYMMETRIC_HASH_def split: if_splits)

lemma header_fields_of:
  "js_get (first_header options) ''alg'' = Some (JStr (first_algorithm options))"
  "js_get (first_header options) ''kid'' = map_option (\<lambda>e. JStr (ke_kid e)) (resolveSigningKeyEntry options (first_algorithm options))"
  by (simp_all add: first_header_def token_header_def js_get_Cons split: option.split)

text \<open>The secret the verifier selects for a header of the signer is the one it was signed with.\<close>

lemma same_secret:
  assumes hmac: "hasOwnAlgorithmMapping SUPPORTED_HMAC_HASH (first_algorithm options)"
    and kids: "assertJwtKeyEntries (jo_keys options) = None" and "jo_secretOrKeyProvider options = None"
  shows "selected_secret (first_header options) options (createKeyResolutionState (jo_keys options)) =
    Inr (orelse (Option.bind (resolveSigningKeyEntry options (first_algorithm options)) ke_secret) (jo_secret options))"
proof -
  have none: "resolveProviderKey options (first_header options) = None"
    using assms(3) by (simp add: resolveProviderKey_def)
  have distinct: "distinct (map ke_kid (jo_keys options))" "[] \<notin> set (map ke_kid (jo_keys options))"
    using kids assert_kids_distinct [of "[]" "jo_keys options"] by (auto simp: assertJwtKeyEntries_def)
  show ?thesis
  proof (cases "resolveSigningKeyEntry options (first_algorithm options)")
    case None
    then have "hmac_secrets (jo_keys options) = []"
      using hmac by (auto simp: resolveSigningKeyEntry_def find_None_iff hmac_secrets_def map_filter_def filter_empty_conv)
    then show ?thesis
      using None key_state_tables [of "jo_keys options"]
      by (simp add: selected_secret_def none resolveHmacSecret_def header_fields_of text_kid_def)
  next
    case (Some e)
    then have e: "e \<in> set (jo_keys options)" "truthy_text (ke_secret e) \<noteq> None"
      using hmac by (auto simp: resolveSigningKeyEntry_def find_Some_iff)
    then obtain s where "ke_secret e = Some s" "s \<noteq> []"
      by (cases "truthy_text (ke_secret e)") auto
    moreover have "ke_kid e \<noteq> []"
      using distinct(2) e(1) by (auto simp: image_iff)
    ultimately have "text_kid (Some (JStr (ke_kid e))) = Some (ke_kid e)" "truthy_text (ke_secret e) = Some s" "ke_secret e = Some s"
      by (simp_all add: text_kid_def)
    then show ?thesis
      using Some kid_of_key [OF distinct(1) e(1)]
      by (simp add: selected_secret_def none resolveHmacSecret_def header_fields_of)
  qed
qed

text \<open>The public key the verifier selects belongs to the private key of the signer.\<close>

definition keys_paired :: "jwt_runtime \<Rightarrow> jwt_options \<Rightarrow> bool" where
  "keys_paired rt options \<longleftrightarrow>
     (let alg = first_algorithm options;
          sk = truthy_key (orelse (Option.bind (resolveSigningKeyEntry options alg) ke_privateKey) (jo_privateKey options))
      in sk = None \<or>
         (\<exists>pk. selected_public_key (first_header options) options (createKeyResolutionState (jo_keys options)) None = Inr (Some pk) \<and>
               pk \<noteq> KeyText [] \<and> (\<forall>h i. rt_verify rt h (is_ec alg) pk i (rt_sign rt h (is_ec alg) (the sk) i))))"

lemma own_signature_valid:
  assumes signed: "sign_input rt options (first_algorithm options) i = Inr s"
    and supported: "isSupportedAlgorithm (first_algorithm options)"
    and kids: "assertJwtKeyEntries (jo_keys options) = None" and provider: "jo_secretOrKeyProvider options = None"
    and paired: "hasOwnAlgorithmMapping SUPPORTED_HMAC_HASH (first_algorithm options) \<or> keys_paired rt options"
  shows "CHR ''.'' \<notin> set s \<and>
    verifyTokenSignature rt (first_header options) (first_algorithm options) i s options (createKeyResolutionState (jo_keys options)) None = None"
proof (cases "map_of SUPPORTED_HMAC_HASH (first_algorithm options)")
  case (Some h)
  then obtain secret where
      "orelse (Option.bind (resolveSigningKeyEntry options (first_algorithm options)) ke_secret) (jo_secret options) = Some secret"
      "secret \<noteq> []" "s = encodeBase64Url (rt_hmac rt h secret i)"
    using signed algorithm_families [OF Some] by (auto simp: sign_input_def Let_def split: option.splits)
  then show ?thesis
    using Some same_secret [OF _ kids provider]
    by (simp add: verifyTokenSignature_def mapping_iff verifyHmacTokenSignature_def verifyHmacSignature_def encodeBase64Url_def
        base64_url_dot Let_def truthy_text_def split: list.split)
next
  case None
  then obtain h where h: "map_of SUPPORTED_ASYMMETRIC_HASH (first_algorithm options) = Some h"
    using supported by (auto simp: isSupportedAlgorithm_def mapping_iff)
  then obtain sk where sk: "orelse (Option.bind (resolveSigningKeyEntry options (first_algorithm options)) ke_privateKey) (jo_privateKey options) = Some sk"
      "sk \<noteq> KeyText []" "s = encodeBase64Url (rt_sign rt h (is_ec (first_algorithm options)) sk i)"
    using signed by (auto simp: sign_input_def Let_def split: option.splits)
  then obtain pk where "selected_public_key (first_header options) options (createKeyResolutionState (jo_keys options)) None = Inr (Some pk)"
      "pk \<noteq> KeyText []" "rt_verify rt h (is_ec (first_algorithm options)) pk i (rt_sign rt h (is_ec (first_algorithm options)) sk i)"
    using paired None by (auto simp: keys_paired_def mapping_iff Let_def truthy_key_def)
  then show ?thesis
    using None h sk by (simp add: verifyTokenSignature_def mapping_iff verifyAsymmetricTokenSignature_def verifyAsymmetricSignature_def
        encodeBase64Url_def base64_url_dot unbase64_url truthy_key_def)
qed

text \<open>The times at which a token signed at \<open>signed\<close> is good.\<close>

definition token_window :: "jwt_options \<Rightarrow> int \<Rightarrow> rat \<Rightarrow> int \<Rightarrow> bool" where
  "token_window options signed ttl now \<longleftrightarrow>
     of_int now < of_int signed + ttl + clock_skew options \<and>
     (case jo_maxAge options of
        Some (Fin limit) \<Rightarrow> of_int signed \<le> of_int now + clock_skew options \<and> of_int now \<le> of_int signed + limit + clock_skew options
      | _ \<Rightarrow> True)"

text \<open>Claims that leave the registered names to the signer.\<close>

definition unregistered :: "claims \<Rightarrow> bool" where
  "unregistered c \<longleftrightarrow> list_all (\<lambda>name. js_get c name = None) [''exp'', ''iat'', ''nbf'', ''iss'', ''aud'']"

lemma payload_fields:
  assumes "unregistered c"
  shows "js_get (token_payload options signed ttl c) n =
    (if n = ''exp'' then Some (JNum (Fin (of_int signed + ttl))) else if n = ''iat'' then Some (JNum (Fin (of_int signed)))
     else if n = ''iss'' then map_option JStr (jo_issuer options) else if n = ''aud'' then map_option audience_json (jo_audience options)
     else js_get c n)"
  using assms by (simp add: token_payload_def get_default_claim unregistered_def)

lemma audience_accepted:
  "jo_audience options \<noteq> Some (Audiences []) \<Longrightarrow>
   case expected_audience (jo_audience options) of
     None \<Rightarrow> True
   | Some expected \<Rightarrow> \<exists>a \<in> set expected. JStr a \<in> set (actual_audience (map_option audience_json (jo_audience options)))"
  by (cases "jo_audience options"; cases "the (jo_audience options)")
    (auto simp: expected_audience_def actual_audience_def audience_json_def truthy_json_def ex_in_conv Bex_def)

lemma own_claims_in_force:
  assumes "unregistered c" "jo_audience options \<noteq> Some (Audiences [])"
  shows "claims_in_force (token_payload options signed ttl c) options now \<longleftrightarrow> token_window options signed ttl now"
proof -
  have "js_get c ''nbf'' = None"
    using assms(1) by (simp add: unregistered_def)
  moreover have "case truthy_text (jo_issuer options) of None \<Rightarrow> True | Some iss \<Rightarrow> map_option JStr (jo_issuer options) = Some (JStr iss)"
    by (auto simp: truthy_text_def split: option.splits list.splits)
  ultimately show ?thesis
    using audience_accepted [OF assms(2)]
    unfolding claims_in_force_def token_window_def payload_fields [OF assms(1)]
    by (simp add: add.assoc split: option.split js_number.split)
qed

text \<open>The two objects the signer prints, and that the runtime reads them back.\<close>

definition texts_read_back :: "jwt_runtime \<Rightarrow> jwt_options \<Rightarrow> claims \<Rightarrow> bool" where
  "texts_read_back rt options payload \<longleftrightarrow>
     rt_parse rt (rt_stringify rt (first_header options)) = Some (JObj (first_header options)) \<and>
     rt_parse rt (rt_stringify rt payload) = Some (JObj payload)"

lemma decode_encoded_segment: "decodeBase64Url (encodeBase64Url v) = v"
proof -
  have "sextets (replace_char (CHR ''_'') (CHR ''/'') (replace_char (CHR ''-'') (CHR ''+'') s) @ replicate n (CHR ''='')) = sextets s" for s n
  proof (induction s)
    case Nil
    show ?case
      by (induction n) (simp_all add: replace_char_def)
  next
    case (Cons c s)
    then show ?case
      by (auto simp: replace_char_def base64_value_def split: option.splits)
  qed
  from this [of _ 0] this show ?thesis
    using unbase64_url [of v] by (simp add: decodeBase64Url_def encodeBase64Url_def unbase64_def Let_def)
qed

lemma find_first_algorithm:
  "list_all isSupportedAlgorithm algs \<Longrightarrow> algs \<noteq> [] \<Longrightarrow> find isSupportedAlgorithm algs = Some (hd algs)"
  by (cases algs) simp_all

definition no_policy :: verify_policy where
  "no_policy = \<lparr>vp_algorithms = None, vp_audience = None, vp_clockSkewSeconds = None, vp_issuer = None, vp_maxAge = None, vp_requireExp = None\<rparr>"

text \<open>
  C26. A signed token is accepted exactly in its window.  Let a signer and a verifier be built from the same
  options, without a key provider or remote keys and with the public key the verifier selects belonging to
  the private key the signer uses.  A token the signer issues for claims with a subject that leave the
  registered names to it is accepted at time \<open>now\<close> if and only if \<open>now\<close> is before its expiry and within
  the maximum age, up to the clock skew, and the principal then has the subject and claims that were
  signed; otherwise verification fails with an error.
\<close>

theorem signed_token_accepted:
  assumes sg: "newSigner options = Inr sg" and v: "newVerifier options None = Inr v"
    and provider: "jo_secretOrKeyProvider options = None"
    and paired: "hasOwnAlgorithmMapping SUPPORTED_HMAC_HASH (first_algorithm options) \<or> keys_paired rt options"
    and policy: "claim_policy_ok options" "jo_audience options \<noteq> Some (Audiences [])"
    and c: "unregistered c" "js_get c ''sub'' = Some (JStr subject)" "subject \<noteq> []"
    and ttl: "resolveAccessTokenTtlSeconds options = Inr ttl"
    and read: "texts_read_back rt options (token_payload options signed ttl c)"
    and tok: "signAccessToken rt signed sg c = Inr tok"
  shows "(let answer = verifyAccessToken rt now v tok no_policy
     in if token_window options signed ttl now
        then \<exists>p. answer = Inr p \<and> pr_subject p = subject \<and> pr_claims p = token_payload options signed ttl c
        else isl answer)"
proof -
  let ?payload = "token_payload options signed ttl c"
  let ?h = "encodeBase64Url (rt_stringify rt (first_header options))"
  let ?c = "encodeBase64Url (rt_stringify rt ?payload)"
  have algs: "jo_algorithms options \<noteq> []" "list_all isSupportedAlgorithm (jo_algorithms options)" "assertJwtKeyEntries (jo_keys options) = None"
    using v algorithms_checked by (auto simp: newVerifier_def split: option.splits)
  have first: "isSupportedAlgorithm (first_algorithm options)" "first_algorithm options \<in> set (jo_algorithms options)"
    using algs by (cases "jo_algorithms options"; simp add: first_algorithm_def)+
  have "sg_options sg = options"
    using sg by (auto simp: newSigner_def Let_def map_sum_def split: option.splits sum.splits)
  then obtain s where s: "sign_input rt options (first_algorithm options) (?h @ ''.'' @ ?c) = Inr s" "tok = (?h @ ''.'' @ ?c) @ ''.'' @ s"
    using tok ttl find_first_algorithm [OF algs(2, 1)]
    by (auto simp: signAccessToken_def signToken_def first_header_def first_algorithm_def Let_def map_sum_def split: sum.splits)
  note signature = own_signature_valid [OF s(1) first(1) algs(3) provider paired]
  have segments: "parseTokenSegments tok = Inr (?h, ?c, s)"
    using signature base64_url_dot [of "rt_stringify rt (first_header options)"] base64_url_dot [of "rt_stringify rt ?payload"]
    by (simp add: s(2) parseTokenSegments_def split_on_append split_on_free encodeBase64Url_def)
  have parsed: "parseJwtPart rt ?h = Inr (first_header options)" "parseJwtPart rt ?c = Inr ?payload"
    using read by (simp_all add: parseJwtPart_def decode_encoded_segment texts_read_back_def)
  have allowed: "isAllowedAlgorithm (Some (JStr (first_algorithm options))) (jo_algorithms options)"
    using first by (simp add: isAllowedAlgorithm_def header_fields_of)
  have vf: "vf_options v = options" "vf_keyResolutionState v = createKeyResolutionState (jo_keys options)" "vf_jwksClient v = None"
    using v by (auto simp: newVerifier_def Let_def map_sum_def split: option.splits sum.splits)
  have "assertJwtAlgorithms (jo_algorithms options) ''JWT verifier'' = None"
    using algorithms_checked algs by blast
  moreover have "policy_options options no_policy = options"
    by (simp add: policy_options_def no_policy_def)
  ultimately have answer: "verifyAccessToken rt now v tok no_policy =
      (case validateTokenClaims ?payload options now of Some e \<Rightarrow> Inl e | None \<Rightarrow> normalizePrincipal ?payload)"
    using signature
    by (simp add: verifyAccessToken_def vf verifyToken_def segments parsed allowed header_fields_of)
  have "js_get ?payload ''sub'' = Some (JStr subject)"
    using c by (simp add: payload_fields)
  then obtain p where "normalizePrincipal ?payload = Inr p" "pr_subject p = subject" "pr_claims p = ?payload"
    using c(3) by (cases subject) (simp_all add: normalizePrincipal_def)
  then show ?thesis
    using own_claims_in_force [OF c(1) policy(2)] claims_valid_iff [of ?payload options now] policy(1)
    by (auto simp: answer Let_def isl_def split: option.split)
qed

section \<open>A sample\<close>

text \<open>A runtime for the sample: it prints the two objects of the sample and reads them back.\<close>

definition sample_options :: jwt_options where
  "sample_options = \<lparr>jo_algorithms = [''HS256''], jo_accessTokenTtlSeconds = Some (Fin 60), jo_audience = Some (OneAudience ''api''),
     jo_clockSkewSeconds = Some (Fin 5), jo_issuer = Some ''me'', jo_keys = [], jo_maxAge = None, jo_requireExp = None,
     jo_secretOrKeyProvider = None, jo_secret = Some ''k'', jo_privateKey = None, jo_publicKey = None, jo_refreshToken = None\<rparr>"

definition sample_claims :: claims where
  "sample_claims = [(''sub'', JStr ''ann''), (''scope'', JStr ''read write'')]"

definition sample_payload :: claims where
  "sample_payload = [(''sub'', JStr ''ann''), (''scope'', JStr ''read write''), (''aud'', JStr ''api''), (''exp'', JNum (Fin 160)),
     (''iat'', JNum (Fin 100)), (''iss'', JStr ''me'')]"

definition sample_runtime :: jwt_runtime where
  "sample_runtime = \<lparr>rt_parse = (\<lambda>s. if s = ''H'' then Some (JObj (first_header sample_options))
                                 else if s = ''P'' then Some (JObj sample_payload) else None),
     rt_stringify = (\<lambda>c. if c = sample_payload then ''P'' else ''H''),
     rt_hmac = (\<lambda>h secret i. h @ secret @ i), rt_sign = (\<lambda>h ec k i. []), rt_verify = (\<lambda>h ec k i s. False)\<rparr>"

definition sample_verifier :: verifier where
  "sample_verifier = \<lparr>vf_options = sample_options, vf_jwksClient = None, vf_keyResolutionState = empty_key_state,
     vf_refreshVerificationOptions = None, vf_refreshKeyResolutionState = empty_key_state\<rparr>"

definition sample_signer :: signer where
  "sample_signer = \<lparr>sg_options = sample_options, sg_refreshAlgorithms = [''HS256'']\<rparr>"

definition sample_token :: string where
  "sample_token = (case signAccessToken sample_runtime 100 sample_signer sample_claims of Inr t \<Rightarrow> t | Inl e \<Rightarrow> [])"

lemma sample_built: "newVerifier sample_options None = Inr sample_verifier" "newSigner sample_options = Inr sample_signer"
  by (simp_all add: newVerifier_def newSigner_def sample_options_def sample_verifier_def sample_signer_def assertJwtAlgorithms_def
      assertSigningAlgorithms_def isSupportedAlgorithm_def mapping_iff SUPPORTED_HMAC_HASH_def assertJwtKeyEntries_def
      createKeyResolutionState_def Let_def hasOwnAlgorithmMapping_def)

lemma sample_accepted: "map_sum id pr_subject (verifyAccessToken sample_runtime 164 sample_verifier sample_token no_policy) = Inr ''ann''"
  by code_simp

lemma sample_signed: "map_sum (\<lambda>_. ()) id (signAccessToken sample_runtime 100 sample_signer sample_claims) = Inr sample_token"
  by code_simp

theorem access_token_sound_witness:
  "\<exists>p. token_accepted sample_runtime 164 (policy_options sample_options no_policy) None sample_token p \<and> pr_subject p = ''ann''"
proof -
  obtain p where "verifyAccessToken sample_runtime 164 sample_verifier sample_token no_policy = Inr p" "pr_subject p = ''ann''"
    using sample_accepted by (cases "verifyAccessToken sample_runtime 164 sample_verifier sample_token no_policy") auto
  then show ?thesis
    using access_token_sound [OF sample_built(1)] by blast
qed

theorem signed_token_accepted_witness:
  "\<exists>p. verifyAccessToken sample_runtime 164 sample_verifier sample_token no_policy = Inr p \<and> pr_claims p = sample_payload"
proof -
  have payload: "token_payload sample_options 100 60 sample_claims = sample_payload"
    by code_simp
  have read: "texts_read_back sample_runtime sample_options (token_payload sample_options 100 60 sample_claims)"
    unfolding payload by code_simp
  have facts: "jo_secretOrKeyProvider sample_options = None" "hasOwnAlgorithmMapping SUPPORTED_HMAC_HASH (first_algorithm sample_options)"
    "claim_policy_ok sample_options" "jo_audience sample_options \<noteq> Some (Audiences [])" "unregistered sample_claims"
    "js_get sample_claims ''sub'' = Some (JStr ''ann'')" "resolveAccessTokenTtlSeconds sample_options = Inr 60"
    "token_window sample_options 100 60 164"
    by (simp_all add: sample_options_def first_algorithm_def mapping_iff SUPPORTED_HMAC_HASH_def claim_policy_ok_def non_negative_number_def
        unregistered_def sample_claims_def js_get_Cons resolveAccessTokenTtlSeconds_def token_window_def clock_skew_def)
  have tok: "signAccessToken sample_runtime 100 sample_signer sample_claims = Inr sample_token"
    using sample_signed by (cases "signAccessToken sample_runtime 100 sample_signer sample_claims") auto
  show ?thesis
    using signed_token_accepted [OF sample_built(2, 1) facts(1) _ facts(3-6) _ facts(7) read tok, of 164] facts(2, 8)
    by (auto simp: payload Let_def)
qed

end
