(* ===== verification/Cors.thy ===== *)
theory Cors
  imports Web_Response
begin

text \<open>
  \<open>packages/http/src/middleware/cors.ts\<close>: the origin policy of an application, the headers the CORS
  middleware writes and its answer to preflight requests.  The theorem compares the headers with the
  check a browser makes before a script may read the response.
\<close>

section \<open>Options\<close>





section \<open>The middleware\<close>









section \<open>What a browser lets a script read\<close>




section \<open>Lookups\<close>





text \<open>The two fields the check reads, and \<open>Vary\<close>, after the middleware wrote its headers.\<close>











section \<open>The policy is enforced\<close>










end
