(* ===== verification/Cookies.thy ===== *)
theory Cookies
  imports Conditional_Request JS_Number
begin

text \<open>
  \<open>packages/http/src/cookie-helpers.ts\<close>: the checks of cookie names, domains, paths, lifetimes and
  policies, the serialization of one \<open>Set-Cookie\<close> field, and the two writers.  The theorem reads the
  field back the way a browser does (RFC 6265, 5.2).
\<close>

section \<open>Options\<close>

text \<open>Values arrive untyped: \<open>Typed\<close> has the type the option declares, \<open>Untyped\<close> is any other value.\<close>

datatype 'a dyn = Typed 'a | Untyped

datatype same_site = SameLax | SameNone | SameStrict

text \<open>The time of a \<open>Date\<close> is \<open>None\<close> when it is invalid.\<close>

record cookie_options =
  ck_domain :: "string dyn option"
  ck_expires :: "int option dyn option"
  ck_httpOnly :: "bool dyn option"
  ck_maxAgeSeconds :: "js_number dyn option"
  ck_path :: "string dyn option"
  ck_sameSite :: "same_site dyn option"
  ck_secure :: "bool dyn option"

datatype cookie_error =
    InvalidName | InvalidValue | InvalidHttpOnly | InvalidSecure | InvalidMaxAge | InvalidDomain | InvalidPath
  | NotADate | InvalidDate | YearOutOfRange | SameSiteNeedsSecure | InvalidSameSite

section \<open>Checks\<close>

definition cookie_token_char :: "char \<Rightarrow> bool" where
  "cookie_token_char c \<longleftrightarrow> is_alnum c \<or> c \<in> set ''!#$%&*+-.^_`|~'' \<or> c = CHR 0x27"

definition validateCookieName :: "string dyn \<Rightarrow> cookie_error option" where
  "validateCookieName name =
     (case name of
        Typed s \<Rightarrow> if s \<noteq> [] \<and> list_all cookie_token_char s then None else Some InvalidName
      | Untyped \<Rightarrow> Some InvalidName)"

definition validateOptionalBoolean :: "bool dyn option \<Rightarrow> cookie_error \<Rightarrow> cookie_error option" where
  "validateOptionalBoolean v e = (if v = Some Untyped then Some e else None)"

text \<open>One label of a host name: up to 63 letters, digits and inner hyphens.\<close>

definition domain_label :: "string \<Rightarrow> bool" where
  "domain_label l \<longleftrightarrow>
     l \<noteq> [] \<and> length l \<le> 63 \<and> is_alnum (hd l) \<and> is_alnum (last l) \<and> list_all (\<lambda>c. is_alnum c \<or> c = CHR ''-'') l"

definition validateDomain :: "string dyn \<Rightarrow> cookie_error option" where
  "validateDomain domain =
     (case domain of
        Untyped \<Rightarrow> Some InvalidDomain
      | Typed d \<Rightarrow>
          (let host = (case d of c # cs \<Rightarrow> if c = CHR ''.'' then cs else d | [] \<Rightarrow> [])
           in if host = [] \<or> 253 < length host \<or> \<not> list_all domain_label (split_on (CHR ''.'') host)
              then Some InvalidDomain else None))"

definition cookie_path_char :: "char \<Rightarrow> bool" where
  "cookie_path_char c \<longleftrightarrow> (let n = of_char c :: nat in 32 \<le> n \<and> n \<noteq> 59 \<and> n \<le> 126)"

definition validatePath :: "string dyn \<Rightarrow> cookie_error option" where
  "validatePath path =
     (case path of
        Untyped \<Rightarrow> Some InvalidPath
      | Typed p \<Rightarrow> if p \<noteq> [] \<and> list_all cookie_path_char p then None else Some InvalidPath)"

definition validate_max_age :: "js_number dyn \<Rightarrow> cookie_error option" where
  "validate_max_age age =
     (case age of
        Typed x \<Rightarrow>
          (case as_integer x of
             Some n \<Rightarrow> if \<bar>n\<bar> \<le> max_safe_integer \<and> 0 \<le> n then None else Some InvalidMaxAge
           | None \<Rightarrow> Some InvalidMaxAge)
      | Untyped \<Rightarrow> Some InvalidMaxAge)"

definition formatExpiry :: "int option dyn \<Rightarrow> cookie_error + string" where
  "formatExpiry expires =
     (case expires of
        Untyped \<Rightarrow> Inl NotADate
      | Typed None \<Rightarrow> Inl InvalidDate
      | Typed (Some t) \<Rightarrow>
          (let year = fst (civil (t div ms_per_day))
           in if year < 1601 \<or> year > 9999 then Inl YearOutOfRange else Inr (to_utc_string t)))"

definition normalizeSameSite :: "same_site dyn option \<Rightarrow> bool dyn option \<Rightarrow> cookie_error + string option" where
  "normalizeSameSite sameSite secure =
     (case sameSite of
        None \<Rightarrow> Inr None
      | Some (Typed SameLax) \<Rightarrow> Inr (Some ''Lax'')
      | Some (Typed SameStrict) \<Rightarrow> Inr (Some ''Strict'')
      | Some (Typed SameNone) \<Rightarrow> if secure \<noteq> Some (Typed True) then Inl SameSiteNeedsSecure else Inr (Some ''None'')
      | Some Untyped \<Rightarrow> Inl InvalidSameSite)"

section \<open>Serialization\<close>

definition first_error :: "cookie_error option list \<Rightarrow> cookie_error option" where
  "first_error checks = (case List.map_filter id checks of [] \<Rightarrow> None | e # _ \<Rightarrow> Some e)"

definition optionally :: "('a \<Rightarrow> cookie_error option) \<Rightarrow> 'a option \<Rightarrow> cookie_error option" where
  "optionally check v = (case v of None \<Rightarrow> None | Some x \<Rightarrow> check x)"

text \<open>The checks before the policy and the expiry are looked at, in the order of the code.\<close>

definition cookie_checks :: "string dyn \<Rightarrow> string dyn \<Rightarrow> cookie_options \<Rightarrow> cookie_error option" where
  "cookie_checks name value options =
     first_error
       [validateCookieName name,
        (if value = Untyped then Some InvalidValue else None),
        validateOptionalBoolean (ck_httpOnly options) InvalidHttpOnly,
        validateOptionalBoolean (ck_secure options) InvalidSecure,
        optionally validate_max_age (ck_maxAgeSeconds options),
        optionally validateDomain (ck_domain options),
        optionally validatePath (ck_path options)]"

text \<open>The text of a value that passed its check.\<close>

definition text_of :: "string dyn \<Rightarrow> string" where
  "text_of v = (case v of Typed s \<Rightarrow> s | Untyped \<Rightarrow> [])"

definition age_text :: "js_number dyn \<Rightarrow> string" where
  "age_text v = (case v of Typed x \<Rightarrow> (case as_integer x of Some n \<Rightarrow> show_int n | None \<Rightarrow> []) | Untyped \<Rightarrow> [])"

definition present :: "'a option \<Rightarrow> ('a \<Rightarrow> string) \<Rightarrow> string list" where
  "present v f = (case v of None \<Rightarrow> [] | Some x \<Rightarrow> [f x])"

definition serializeCookie :: "string dyn \<Rightarrow> string dyn \<Rightarrow> cookie_options \<Rightarrow> cookie_error + string" where
  "serializeCookie name value options =
     (case cookie_checks name value options of
        Some e \<Rightarrow> Inl e
      | None \<Rightarrow>
          (case normalizeSameSite (ck_sameSite options) (ck_secure options) of
             Inl e \<Rightarrow> Inl e
           | Inr sameSite \<Rightarrow>
               (case (case ck_expires options of None \<Rightarrow> Inr None | Some x \<Rightarrow> map_sum id Some (formatExpiry x)) of
                  Inl e \<Rightarrow> Inl e
                | Inr expiry \<Rightarrow>
                    Inr (join_with ''; ''
                      ([text_of name @ ''='' @ encodeURIComponent (text_of value)] @
                       present (ck_maxAgeSeconds options) (\<lambda>age. ''Max-Age='' @ age_text age) @
                       present expiry (\<lambda>date. ''Expires='' @ date) @
                       present (ck_path options) (\<lambda>path. ''Path='' @ text_of path) @
                       present (ck_domain options) (\<lambda>domain. ''Domain='' @ text_of domain) @
                       (if ck_secure options = Some (Typed True) then [''Secure''] else []) @
                       (if ck_httpOnly options = Some (Typed True) then [''HttpOnly''] else []) @
                       present sameSite (\<lambda>policy. ''SameSite='' @ policy))))))"

definition setCookie :: "string dyn \<Rightarrow> string dyn \<Rightarrow> cookie_options \<Rightarrow> web_response \<Rightarrow> cookie_error + web_response" where
  "setCookie name value options response =
     map_sum id (\<lambda>field. setHeader ''Set-Cookie'' field response) (serializeCookie name value options)"

definition clearCookie :: "string dyn \<Rightarrow> cookie_options \<Rightarrow> web_response \<Rightarrow> cookie_error + web_response" where
  "clearCookie name options response =
     map_sum id (\<lambda>field. setHeader ''Set-Cookie'' field response)
       (serializeCookie name (Typed [])
         (options\<lparr>ck_expires := Some (Typed (Some 0)), ck_maxAgeSeconds := Some (Typed (Fin 0))\<rparr>))"

section \<open>What a browser reads\<close>

text \<open>
  The parser of RFC 6265, 5.2: the field is cut at semicolons; the first piece and each attribute is
  cut at its first equals sign and trimmed.
\<close>

definition cut_at :: "char \<Rightarrow> string \<Rightarrow> string \<times> string" where
  "cut_at c s = (js_trim (takeWhile (\<lambda>x. x \<noteq> c) s), js_trim (tl (dropWhile (\<lambda>x. x \<noteq> c) s)))"

definition parse_set_cookie :: "string \<Rightarrow> (string \<times> string) list" where
  "parse_set_cookie field = map (cut_at (CHR ''='')) (split_on (CHR '';'') field)"

definition cookie_attributes :: "cookie_options \<Rightarrow> (string \<times> string) list" where
  "cookie_attributes options =
     (case ck_maxAgeSeconds options of Some (Typed x) \<Rightarrow> [(''Max-Age'', age_text (Typed x))] | _ \<Rightarrow> []) @
     (case ck_expires options of Some (Typed (Some t)) \<Rightarrow> [(''Expires'', to_utc_string t)] | _ \<Rightarrow> []) @
     (case ck_path options of Some (Typed p) \<Rightarrow> [(''Path'', js_trim p)] | _ \<Rightarrow> []) @
     (case ck_domain options of Some (Typed d) \<Rightarrow> [(''Domain'', d)] | _ \<Rightarrow> []) @
     (if ck_secure options = Some (Typed True) then [(''Secure'', [])] else []) @
     (if ck_httpOnly options = Some (Typed True) then [(''HttpOnly'', [])] else []) @
     (case ck_sameSite options of
        Some (Typed SameLax) \<Rightarrow> [(''SameSite'', ''Lax'')]
      | Some (Typed SameStrict) \<Rightarrow> [(''SameSite'', ''Strict'')]
      | Some (Typed SameNone) \<Rightarrow> [(''SameSite'', ''None'')]
      | _ \<Rightarrow> [])"

text \<open>Cutting and trimming.\<close>

lemma split_join_space:
  assumes "xs \<noteq> []" "\<And>x. x \<in> set xs \<Longrightarrow> CHR '';'' \<notin> set x"
  shows "split_on (CHR '';'') (join_with ''; '' xs) = hd xs # map ((#) (CHR '' '')) (tl xs)"
  using assms
proof (induction xs)
  case (Cons x xs)
  show ?case
  proof (cases xs)
    case Nil
    with Cons.prems show ?thesis
      by (simp add: split_on_free)
  next
    case (Cons y ys)
    then have "split_on (CHR '';'') (join_with ''; '' (x # xs)) = x # split_on (CHR '';'') (CHR '' '' # join_with ''; '' xs)"
      using Cons.prems by (simp add: split_on_append)
    then show ?thesis
      using Cons.IH Cons.prems Cons by simp
  qed
qed simp

lemma cut_space [simp]: "c \<noteq> CHR '' '' \<Longrightarrow> cut_at c (CHR '' '' # s) = cut_at c s"
  by (simp add: cut_at_def)

lemma cut_pair: "c \<notin> set n \<Longrightarrow> cut_at c (n @ c # v) = (js_trim n, js_trim v)"
proof -
  assume "c \<notin> set n"
  then have "takeWhile (\<lambda>x. x \<noteq> c) (n @ c # v) = n" "dropWhile (\<lambda>x. x \<noteq> c) (n @ c # v) = c # v"
    by (subst takeWhile_append2 dropWhile_append2; auto)+
  then show ?thesis
    by (simp add: cut_at_def)
qed

lemma trim_solid: "list_all (\<lambda>c. \<not> is_space c) s \<Longrightarrow> js_trim s = s"
proof -
  assume s: "list_all (\<lambda>c. \<not> is_space c) s"
  have "dropWhile is_space u = u" if "set u = set s" for u
    using s that hd_in_set [of u] by (auto simp: dropWhile_eq_self_iff list_all_iff)
  then show ?thesis
    by (simp add: js_trim_def)
qed

text \<open>Texts whose characters cannot end a piece or disappear when trimmed.\<close>

definition solid_char :: "char \<Rightarrow> bool" where
  "solid_char c \<longleftrightarrow> 33 \<le> (of_char c :: nat) \<and> (of_char c :: nat) \<le> 126 \<and> c \<noteq> CHR '';''"

lemma solid_trim: "list_all solid_char s \<Longrightarrow> js_trim s = s"
proof -
  have "\<not> is_space c" if "solid_char c" for c
  proof -
    define n :: nat where "n = of_char c"
    have "33 \<le> n" "n \<le> 126"
      using that by (simp_all add: solid_char_def n_def)
    then show ?thesis
      unfolding is_space_def n_def [symmetric] by simp
  qed
  then show "list_all solid_char s \<Longrightarrow> js_trim s = s"
    by (simp add: trim_solid list_all_iff)
qed

lemma solid_alnum: "is_alnum c \<Longrightarrow> solid_char c"
proof -
  assume c: "is_alnum c"
  have "\<not> is_alnum (CHR '';'')"
    by code_simp
  with c have "c \<noteq> CHR '';''"
    by blast
  moreover have "33 \<le> (of_char c :: nat) \<and> (of_char c :: nat) \<le> 126"
    using c unfolding is_alnum_def Let_def by linarith
  ultimately show ?thesis
    by (simp add: solid_char_def)
qed

lemma solid_encode: "list_all solid_char (encodeURIComponent s)"
proof -
  have marks: "list_all solid_char ''-_.!~*()%''" "solid_char (CHR 0x27)"
    by code_simp+
  have "solid_char c" if "c \<in> set (encodeURIComponent s)" for c
  proof -
    have "uri_unreserved c \<or> is_alnum c \<or> c = CHR ''%''"
      using that unfolding encodeURIComponent_def by (rule uri.encode_chars)
    then consider "is_alnum c" | "c \<in> set ''-_.!~*()%''" | "c = CHR 0x27"
      unfolding uri_unreserved_def by auto
    then show ?thesis
      using marks solid_alnum [of c] by cases (simp_all only: list_all_iff Ball_def)
  qed
  then show ?thesis
    by (simp add: list_all_iff)
qed

lemma solid_token: "cookie_token_char c \<Longrightarrow> solid_char c \<and> c \<noteq> CHR ''=''"
proof -
  assume "cookie_token_char c"
  moreover have "list_all (\<lambda>c. solid_char c \<and> c \<noteq> CHR ''='') (CHR 0x27 # ''!#$%&*+-.^_`|~'')" "\<not> is_alnum (CHR ''='')"
    by code_simp+
  ultimately show ?thesis
    using solid_alnum unfolding cookie_token_char_def list_all_iff by auto
qed

lemma solid_digits: "list_all solid_char (show_nat n)"
  using show_nat_digits by (fastforce simp: list_all_iff solid_char_def is_digit_def)

lemma solid_domain:
  assumes "validateDomain (Typed d) = None"
  shows "list_all solid_char d"
proof -
  define host where "host = (case d of c # cs \<Rightarrow> if c = CHR ''.'' then cs else d | [] \<Rightarrow> [])"
  have labels: "list_all domain_label (split_on (CHR ''.'') host)"
    using assms unfolding validateDomain_def dyn.case Let_def host_def [symmetric] by (simp split: if_splits)
  have dot: "solid_char (CHR ''.'')" "solid_char (CHR ''-'')"
    by code_simp+
  have "c = CHR ''.'' \<or> (\<exists>l\<in>set (split_on (CHR ''.'') host). c \<in> set l)" if "c \<in> set host" for c
  proof -
    have "set (join_with [CHR ''.''] xs) \<subseteq> insert (CHR ''.'') (\<Union>l\<in>set xs. set l)" for xs
      by (induction "[CHR ''.'']" xs rule: join_with.induct) auto
    from this [of "split_on (CHR ''.'') host"] that show ?thesis
      by (auto simp: join_split)
  qed
  then have "solid_char c" if "c \<in> set host" for c
    using that labels dot solid_alnum by (auto simp: list_all_iff domain_label_def)
  then have "list_all solid_char host"
    by (simp add: list_all_iff)
  with dot(1) show ?thesis
    unfolding host_def by (cases d) (simp_all split: if_splits)
qed

definition visible_char :: "char \<Rightarrow> bool" where
  "visible_char c \<longleftrightarrow> 32 \<le> (of_char c :: nat) \<and> (of_char c :: nat) \<le> 126 \<and> c \<noteq> CHR '';''"

lemma date_chars: "list_all visible_char (to_utc_string t)"
proof -
  define day where "day = t div ms_per_day"
  obtain y m d where civil: "civil day = (y, m, d)"
    by (metis prod_cases3)
  have names: "HTTP_WEEKDAYS ! week_day day \<in> set HTTP_WEEKDAYS" "HTTP_MONTHS ! m \<in> set HTTP_MONTHS"
    using week_day_bound civil_spec(2) [OF civil] months_distinct(2) by auto
  have "visible_char x" if "is_digit x" for x
    using that by (auto simp: is_digit_def visible_char_def)
  then have padded: "list_all visible_char (padded n v)" for n v
    using padded_digits [of n v] by (simp add: list_all_iff)
  have "list_all (list_all visible_char) (HTTP_WEEKDAYS @ HTTP_MONTHS)" and marks: "list_all visible_char '', -:GMT''"
    by code_simp+
  with names have words: "list_all visible_char (HTTP_WEEKDAYS ! week_day day)" "list_all visible_char (HTTP_MONTHS ! m)"
    unfolding list_all_append list_all_iff [of "list_all visible_char"] by auto
  show ?thesis
    unfolding to_utc_string_def Let_def day_def [symmetric] civil prod.case
    using padded words marks by simp
qed

section \<open>The pieces of a field\<close>

text \<open>Pieces that read back as the given attributes and hold no separator or control character.\<close>

definition reads_as :: "string list \<Rightarrow> (string \<times> string) list \<Rightarrow> bool" where
  "reads_as pieces attributes \<longleftrightarrow> map (cut_at (CHR ''='')) pieces = attributes \<and> list_all (list_all visible_char) pieces"

lemma reads_append: "reads_as ps as \<Longrightarrow> reads_as qs bs \<Longrightarrow> reads_as (ps @ qs) (as @ bs)"
  by (simp add: reads_as_def)

lemma reads_Nil: "reads_as [] []"
  by (simp add: reads_as_def)

lemma solid_visible: "list_all solid_char s \<Longrightarrow> list_all visible_char s"
proof -
  have "visible_char c" if "solid_char c" for c
    using that unfolding solid_char_def visible_char_def by simp
  then show "list_all solid_char s \<Longrightarrow> list_all visible_char s"
    by (simp add: list_all_iff)
qed

lemma visible_equals: "visible_char (CHR ''='')" "visible_char (CHR '' '')"
  by code_simp+

lemma reads_pair:
  assumes "list_all (\<lambda>c. solid_char c \<and> c \<noteq> CHR ''='') n" "list_all visible_char v"
  shows "reads_as [n @ CHR ''='' # v] [(n, js_trim v)]"
proof -
  have "CHR ''='' \<notin> set n" "list_all solid_char n"
    using assms(1) by (auto simp: list_all_iff)
  then show ?thesis
    using assms(2) visible_equals by (simp add: reads_as_def cut_pair solid_trim solid_visible)
qed

lemma attribute_names:
  "list_all (list_all (\<lambda>c. solid_char c \<and> c \<noteq> CHR ''=''))
     [''Max-Age'', ''Expires'', ''Path'', ''Domain'', ''SameSite'']"
  by code_simp

lemma attribute_pairs:
  assumes "list_all visible_char v"
  shows "reads_as [''Max-Age='' @ v] [(''Max-Age'', js_trim v)]"
    "reads_as [''Expires='' @ v] [(''Expires'', js_trim v)]"
    "reads_as [''Path='' @ v] [(''Path'', js_trim v)]"
    "reads_as [''Domain='' @ v] [(''Domain'', js_trim v)]"
    "reads_as [''SameSite='' @ v] [(''SameSite'', js_trim v)]"
proof -
  have pair: "reads_as [n @ CHR ''='' # v] [(n, js_trim v)]"
    if "n \<in> set [''Max-Age'', ''Expires'', ''Path'', ''Domain'', ''SameSite'']" for n
    using that attribute_names assms unfolding list_all_iff [of "list_all (\<lambda>c. solid_char c \<and> c \<noteq> CHR ''='')"]
    by (intro reads_pair) blast+
  show "reads_as [''Max-Age='' @ v] [(''Max-Age'', js_trim v)]"
    "reads_as [''Expires='' @ v] [(''Expires'', js_trim v)]"
    "reads_as [''Path='' @ v] [(''Path'', js_trim v)]"
    "reads_as [''Domain='' @ v] [(''Domain'', js_trim v)]"
    "reads_as [''SameSite='' @ v] [(''SameSite'', js_trim v)]"
    using pair [of "''Max-Age''"] pair [of "''Expires''"] pair [of "''Path''"] pair [of "''Domain''"] pair [of "''SameSite''"]
    by simp_all
qed

lemma reads_max_age:
  assumes "optionally validate_max_age age = None"
  shows "reads_as (present age (\<lambda>age. ''Max-Age='' @ age_text age))
    (case age of Some (Typed x) \<Rightarrow> [(''Max-Age'', age_text (Typed x))] | _ \<Rightarrow> [])"
proof -
  have "reads_as [''Max-Age='' @ show_int n] [(''Max-Age'', show_int n)]" if "0 \<le> n" for n
    using that attribute_pairs(1) [of "show_int n"] solid_digits [of "nat n"]
    by (simp only: show_int_def solid_visible solid_trim not_less [symmetric] if_False)
  then show ?thesis
    using assms by (auto simp: optionally_def validate_max_age_def present_def age_text_def reads_Nil
        split: option.splits dyn.splits if_splits)
qed

lemma reads_path:
  assumes "optionally validatePath path = None"
  shows "reads_as (present path (\<lambda>path. ''Path='' @ text_of path)) (case path of Some (Typed p) \<Rightarrow> [(''Path'', js_trim p)] | _ \<Rightarrow> [])"
proof -
  have "visible_char c" if "cookie_path_char c" for c
    using that by (auto simp: cookie_path_char_def visible_char_def Let_def)
  then have "list_all visible_char p" if "list_all cookie_path_char p" for p
    using that by (simp add: list_all_iff)
  then show ?thesis
    using assms attribute_pairs(3)
    by (auto simp: optionally_def validatePath_def present_def text_of_def reads_Nil split: option.splits dyn.splits if_splits)
qed

lemma reads_domain:
  assumes "optionally validateDomain domain = None"
  shows "reads_as (present domain (\<lambda>domain. ''Domain='' @ text_of domain)) (case domain of Some (Typed d) \<Rightarrow> [(''Domain'', d)] | _ \<Rightarrow> [])"
proof -
  have "reads_as [''Domain='' @ d] [(''Domain'', d)]" if "validateDomain (Typed d) = None" for d
    using attribute_pairs(4) [of d] solid_domain [OF that] by (simp only: solid_visible solid_trim)
  moreover have "validateDomain Untyped \<noteq> None"
    by (simp add: validateDomain_def)
  ultimately show ?thesis
    using assms by (auto simp: optionally_def present_def text_of_def reads_Nil split: option.splits dyn.splits)
qed

lemma reads_expiry:
  assumes "(case expires of None \<Rightarrow> Inr None | Some x \<Rightarrow> map_sum id Some (formatExpiry x)) = Inr expiry"
  shows "reads_as (present expiry (\<lambda>date. ''Expires='' @ date))
    (case expires of Some (Typed (Some t)) \<Rightarrow> [(''Expires'', to_utc_string t)] | _ \<Rightarrow> [])"
proof -
  have "reads_as [''Expires='' @ to_utc_string t] [(''Expires'', to_utc_string t)]" for t
    using attribute_pairs(2) [OF date_chars [of t]] by (simp only: utc_trim)
  then show ?thesis
    using assms by (auto simp: formatExpiry_def present_def reads_Nil Let_def split: option.splits dyn.splits if_splits)
qed

lemma reads_same_site:
  assumes "normalizeSameSite sameSite secure = Inr policy"
  shows "reads_as (present policy (\<lambda>policy. ''SameSite='' @ policy))
    (case sameSite of
       Some (Typed SameLax) \<Rightarrow> [(''SameSite'', ''Lax'')]
     | Some (Typed SameStrict) \<Rightarrow> [(''SameSite'', ''Strict'')]
     | Some (Typed SameNone) \<Rightarrow> [(''SameSite'', ''None'')]
     | _ \<Rightarrow> [])"
proof -
  have "list_all (list_all solid_char) [''Lax'', ''Strict'', ''None'']"
    by code_simp
  then have "reads_as [''SameSite='' @ p] [(''SameSite'', p)]" if "p \<in> set [''Lax'', ''Strict'', ''None'']" for p
    using that attribute_pairs(5) [of p] solid_trim [of p] solid_visible [of p]
    unfolding list_all_iff [of "list_all solid_char"] by (metis (no_types))
  then show ?thesis
    using assms by (auto simp: normalizeSameSite_def present_def reads_Nil split: option.splits dyn.splits same_site.splits if_splits)
qed

lemma reads_flags:
  "reads_as (if b then [''Secure''] else []) (if b then [(''Secure'', [])] else [])"
  "reads_as (if b then [''HttpOnly''] else []) (if b then [(''HttpOnly'', [])] else [])"
proof -
  have "reads_as [''Secure''] [(''Secure'', [])]" "reads_as [''HttpOnly''] [(''HttpOnly'', [])]"
    by code_simp+
  then show "reads_as (if b then [''Secure''] else []) (if b then [(''Secure'', [])] else [])"
    "reads_as (if b then [''HttpOnly''] else []) (if b then [(''HttpOnly'', [])] else [])"
    by (simp_all add: reads_Nil)
qed

definition printable :: "char \<Rightarrow> bool" where
  "printable c \<longleftrightarrow> 32 \<le> (of_char c :: nat) \<and> (of_char c :: nat) \<le> 126"

lemma set_join_with: "set (join_with sep xs) \<subseteq> set sep \<union> (\<Union>x\<in>set xs. set x)"
  by (induction sep xs rule: join_with.induct) auto

lemma parse_joined:
  assumes reads: "reads_as pieces attributes" and "pieces \<noteq> []"
  shows "parse_set_cookie (join_with ''; '' pieces) = attributes" "list_all printable (join_with ''; '' pieces)"
proof -
  have "CHR '';'' \<notin> set p" if "p \<in> set pieces" for p
    using reads that by (auto simp: reads_as_def list_all_iff visible_char_def)
  then have "split_on (CHR '';'') (join_with ''; '' pieces) = hd pieces # map ((#) (CHR '' '')) (tl pieces)"
    using \<open>pieces \<noteq> []\<close> by (intro split_join_space)
  moreover have "map (cut_at (CHR ''='')) (map ((#) (CHR '' '')) ps) = map (cut_at (CHR ''='')) ps" for ps
    by simp
  ultimately have "parse_set_cookie (join_with ''; '' pieces) = cut_at (CHR ''='') (hd pieces) # map (cut_at (CHR ''='')) (tl pieces)"
    by (simp only: parse_set_cookie_def list.map)
  then show "parse_set_cookie (join_with ''; '' pieces) = attributes"
    using reads \<open>pieces \<noteq> []\<close> by (cases pieces) (simp_all add: reads_as_def)
  have "list_all printable ''; ''"
    by code_simp
  moreover have "printable c" if "p \<in> set pieces" "c \<in> set p" for p c
    using reads that by (auto simp: reads_as_def list_all_iff visible_char_def printable_def)
  ultimately show "list_all printable (join_with ''; '' pieces)"
    using set_join_with [of "''; ''" pieces] unfolding list_all_iff by blast
qed

text \<open>What a cookie must satisfy to be written.\<close>

definition expiry_acceptable :: "int option dyn option \<Rightarrow> bool" where
  "expiry_acceptable expires =
     (case expires of
        None \<Rightarrow> True
      | Some (Typed (Some t)) \<Rightarrow> 1601 \<le> year_from_day (t div ms_per_day) \<and> year_from_day (t div ms_per_day) \<le> 9999
      | _ \<Rightarrow> False)"

definition cookie_acceptable :: "string dyn \<Rightarrow> string dyn \<Rightarrow> cookie_options \<Rightarrow> bool" where
  "cookie_acceptable name value options \<longleftrightarrow>
     validateCookieName name = None \<and> value \<noteq> Untyped \<and>
     ck_httpOnly options \<noteq> Some Untyped \<and> ck_secure options \<noteq> Some Untyped \<and> ck_sameSite options \<noteq> Some Untyped \<and>
     optionally validate_max_age (ck_maxAgeSeconds options) = None \<and>
     optionally validateDomain (ck_domain options) = None \<and>
     optionally validatePath (ck_path options) = None \<and>
     (ck_sameSite options = Some (Typed SameNone) \<longrightarrow> ck_secure options = Some (Typed True)) \<and>
     expiry_acceptable (ck_expires options)"

lemma civil_year: "fst (civil day) = year_from_day day"
  by (cases "civil day") (simp add: civil_spec(1))

lemma first_error_None: "first_error checks = None \<longleftrightarrow> (\<forall>c\<in>set checks. c = None)"
  by (induction checks) (auto simp: first_error_def map_filter_def split: list.splits option.splits)

lemma checks_iff:
  "cookie_checks name value options = None \<longleftrightarrow>
     validateCookieName name = None \<and> value \<noteq> Untyped \<and> ck_httpOnly options \<noteq> Some Untyped \<and> ck_secure options \<noteq> Some Untyped \<and>
     optionally validate_max_age (ck_maxAgeSeconds options) = None \<and>
     optionally validateDomain (ck_domain options) = None \<and> optionally validatePath (ck_path options) = None"
  by (auto simp: cookie_checks_def first_error_None validateOptionalBoolean_def)

lemma same_site_iff:
  "(\<exists>policy. normalizeSameSite sameSite secure = Inr policy) \<longleftrightarrow>
     sameSite \<noteq> Some Untyped \<and> (sameSite = Some (Typed SameNone) \<longrightarrow> secure = Some (Typed True))"
  by (auto simp: normalizeSameSite_def split: option.splits dyn.splits same_site.splits)

lemma expiry_iff:
  "(\<exists>expiry. (case expires of None \<Rightarrow> Inr None | Some x \<Rightarrow> map_sum id Some (formatExpiry x)) = Inr expiry) \<longleftrightarrow> expiry_acceptable expires"
  by (auto simp: formatExpiry_def expiry_acceptable_def civil_year Let_def split: option.splits dyn.splits)

lemma serialize_cases:
  "case serializeCookie name value options of
     Inl e \<Rightarrow> \<not> cookie_acceptable name value options
   | Inr field \<Rightarrow> cookie_acceptable name value options \<and>
       (\<exists>n v. name = Typed n \<and> value = Typed v \<and> list_all printable field \<and>
          parse_set_cookie field = (n, encodeURIComponent v) # cookie_attributes options)"
proof (cases "cookie_acceptable name value options")
  case True
  then have checks: "cookie_checks name value options = None"
    by (simp add: cookie_acceptable_def checks_iff)
  obtain policy where policy: "normalizeSameSite (ck_sameSite options) (ck_secure options) = Inr policy"
    using True same_site_iff by (auto simp: cookie_acceptable_def)
  obtain expiry where expiry: "(case ck_expires options of None \<Rightarrow> Inr None | Some x \<Rightarrow> map_sum id Some (formatExpiry x)) = Inr expiry"
    using True expiry_iff by (auto simp: cookie_acceptable_def)
  obtain n v where nv: "name = Typed n" "value = Typed v" "list_all cookie_token_char n"
    using True by (cases name; cases "value") (auto simp: cookie_acceptable_def validateCookieName_def split: if_splits)
  have "list_all (\<lambda>c. solid_char c \<and> c \<noteq> CHR ''='') n"
    using nv(3) solid_token by (auto simp: list_all_iff)
  then have first: "reads_as [n @ CHR ''='' # encodeURIComponent v] [(n, encodeURIComponent v)]"
    using reads_pair [of n "encodeURIComponent v"] solid_encode by (simp add: solid_visible solid_trim)
  have opt: "optionally validate_max_age (ck_maxAgeSeconds options) = None" "optionally validateDomain (ck_domain options) = None"
      "optionally validatePath (ck_path options) = None"
    using True by (simp_all add: cookie_acceptable_def)
  note groups = reads_max_age [OF opt(1)] reads_expiry [OF expiry] reads_path [OF opt(3)] reads_domain [OF opt(2)]
    reads_flags [where b = "ck_secure options = Some (Typed True)"] reads_flags [where b = "ck_httpOnly options = Some (Typed True)"]
    reads_same_site [OF policy]
  define pieces where "pieces = [n @ CHR ''='' # encodeURIComponent v] @
      present (ck_maxAgeSeconds options) (\<lambda>age. ''Max-Age='' @ age_text age) @
      present expiry (\<lambda>date. ''Expires='' @ date) @
      present (ck_path options) (\<lambda>path. ''Path='' @ text_of path) @
      present (ck_domain options) (\<lambda>domain. ''Domain='' @ text_of domain) @
      (if ck_secure options = Some (Typed True) then [''Secure''] else []) @
      (if ck_httpOnly options = Some (Typed True) then [''HttpOnly''] else []) @
      present policy (\<lambda>policy. ''SameSite='' @ policy)"
  have "reads_as pieces ([(n, encodeURIComponent v)] @ cookie_attributes options)"
    unfolding pieces_def cookie_attributes_def by (intro reads_append first groups)
  then have "parse_set_cookie (join_with ''; '' pieces) = (n, encodeURIComponent v) # cookie_attributes options"
      "list_all printable (join_with ''; '' pieces)"
    using parse_joined [of pieces] by (simp_all add: pieces_def)
  moreover have "serializeCookie name value options = Inr (join_with ''; '' pieces)"
    unfolding serializeCookie_def checks policy expiry option.case sum.case pieces_def by (simp add: nv text_of_def)
  ultimately show ?thesis
    using True nv by simp
next
  case False
  let ?expiry = "case ck_expires options of None \<Rightarrow> Inr None | Some x \<Rightarrow> map_sum id Some (formatExpiry x)"
  have "serializeCookie name value options \<noteq> Inr field" for field
  proof
    assume ok: "serializeCookie name value options = Inr field"
    then have checks: "cookie_checks name value options = None"
      by (cases "cookie_checks name value options") (simp_all add: serializeCookie_def)
    with ok obtain policy where policy: "normalizeSameSite (ck_sameSite options) (ck_secure options) = Inr policy"
      by (cases "normalizeSameSite (ck_sameSite options) (ck_secure options)") (simp_all add: serializeCookie_def)
    have "\<exists>expiry. ?expiry = Inr expiry"
      using ok unfolding serializeCookie_def checks policy option.case sum.case by (cases ?expiry) (simp_all only: sum.case sum.distinct sum.inject ex_simps simp_thms)
    with policy have "cookie_acceptable name value options"
      using checks checks_iff [of name "value" options] same_site_iff [of "ck_sameSite options" "ck_secure options"] expiry_iff [of "ck_expires options"]
      unfolding cookie_acceptable_def by metis
    with False show False ..
  qed
  with False show ?thesis
    by (cases "serializeCookie name value options") auto
qed

section \<open>Writing cookies\<close>

text \<open>An expiry is rendered to the second.\<close>

lemma seconds_of_time:
  "t div ms_per_day = t div 1000 div 86400" "t mod ms_per_day div 1000 = t div 1000 mod 86400"
proof -
  have day: "ms_per_day = 1000 * 86400"
    by (simp add: ms_per_day_def)
  show "t div ms_per_day = t div 1000 div 86400"
    unfolding day by (rule zdiv_zmult2_eq) simp
  have "t mod ms_per_day = 1000 * (t div 1000 mod 86400) + t mod 1000"
    unfolding day by (rule zmod_zmult2_eq) simp
  then show "t mod ms_per_day div 1000 = t div 1000 mod 86400"
    by (simp add: div_add1_eq)
qed

lemma utc_seconds: "to_utc_string (1000 * (t div 1000)) = to_utc_string t"
  by (simp add: to_utc_string_def seconds_of_time)

lemma expiry_reads_back:
  assumes "expiry_acceptable (Some (Typed (Some t)))"
  shows "parseHttpDate (Some (to_utc_string t)) referenceYear = Some (1000 * (t div 1000))"
  using render_accepted(2) [of "1000 * (t div 1000)" referenceYear] assms
  by (simp add: utc_seconds expiry_acceptable_def seconds_of_time)

definition cookie_fields :: "web_response \<Rightarrow> string list" where
  "cookie_fields r = (case get_header (wr_headers r) ''set-cookie'' of None \<Rightarrow> [] | Some vs \<Rightarrow> vs)"

text \<open>
  C37. A cookie is written exactly if its name is a token, its value a string and its options are
  acceptable; otherwise the error is returned instead of a response.  A written cookie is one new
  \<open>Set-Cookie\<close> field behind the fields already there, no other header changes, and the field is
  printable, whatever the value and the path contain.  A browser that takes the field apart finds
  exactly the name, the encoded value, which decodes to the value, and the attributes that were asked
  for (a path without the spaces around it), in a fixed order: no value, path or domain can add or change an attribute.  The expiry reads
  back as the date given, to the second.
\<close>

theorem cookie_round_trip:
  "case setCookie name value options r of
     Inl e \<Rightarrow> \<not> cookie_acceptable name value options
   | Inr r' \<Rightarrow> cookie_acceptable name value options \<and>
       (\<exists>field n v. name = Typed n \<and> value = Typed v \<and>
          cookie_fields r' = cookie_fields r @ [field] \<and>
          r' = r\<lparr>wr_headers := wr_headers r'\<rparr> \<and>
          (\<forall>other. js_lower other = ''set-cookie'' \<or> get_header (wr_headers r') other = get_header (wr_headers r) other) \<and>
          list_all printable field \<and>
          parse_set_cookie field = (n, encodeURIComponent v) # cookie_attributes options \<and>
          decode_uri (encodeURIComponent v) = v \<and>
          (case ck_expires options of
             Some (Typed (Some t)) \<Rightarrow> parseHttpDate (Some (to_utc_string t)) referenceYear = Some (1000 * (t div 1000))
           | _ \<Rightarrow> True))"
proof (cases "serializeCookie name value options")
  case (Inl e)
  then show ?thesis
    using serialize_cases [of name "value" options] by (simp add: setCookie_def)
next
  case (Inr field)
  define r' where "r' = setHeader ''Set-Cookie'' field r"
  obtain n v where nv: "name = Typed n" "value = Typed v" "list_all printable field"
      "parse_set_cookie field = (n, encodeURIComponent v) # cookie_attributes options" and ok: "cookie_acceptable name value options"
    using serialize_cases [of name "value" options] Inr by auto
  have name: "js_lower ''Set-Cookie'' = ''set-cookie''" "js_lower ''set-cookie'' = ''set-cookie''"
    by code_simp+
  have "case ck_expires options of
      Some (Typed (Some t)) \<Rightarrow> parseHttpDate (Some (to_utc_string t)) referenceYear = Some (1000 * (t div 1000))
    | _ \<Rightarrow> True"
    using ok expiry_reads_back by (auto simp: cookie_acceptable_def split: option.splits dyn.splits)
  moreover have "cookie_fields r' = cookie_fields r @ [field]" "r' = r\<lparr>wr_headers := wr_headers r'\<rparr>"
      "\<forall>other. js_lower other = ''set-cookie'' \<or> get_header (wr_headers r') other = get_header (wr_headers r) other"
    by (auto simp: r'_def setHeader_def cookie_fields_def web.look_put name)
  moreover have "setCookie name value options r = Inr r'"
    by (simp add: setCookie_def Inr r'_def)
  moreover have "decode_uri (encodeURIComponent v) = v"
    by (simp add: encodeURIComponent_def uri.decode_encode)
  ultimately show ?thesis
    unfolding nv(1, 2) using ok nv(3, 4) by (simp add: nv(1, 2))
qed

text \<open>
  Clearing a cookie writes an empty value with a lifetime of zero and the epoch as expiry, under the same
  path and domain; it succeeds whenever setting it did.
\<close>

lemma clear_is_set:
  "clearCookie name options r =
     setCookie name (Typed []) (options\<lparr>ck_expires := Some (Typed (Some 0)), ck_maxAgeSeconds := Some (Typed (Fin 0))\<rparr>) r"
  by (simp add: clearCookie_def setCookie_def)

lemma cleared_attributes:
  "cookie_attributes (options\<lparr>ck_expires := Some (Typed (Some 0)), ck_maxAgeSeconds := Some (Typed (Fin 0))\<rparr>) =
     [(''Max-Age'', ''0''), (''Expires'', ''Thu, 01 Jan 1970 00:00:00 GMT'')] @
     cookie_attributes (options\<lparr>ck_expires := None, ck_maxAgeSeconds := None\<rparr>)"
proof -
  have "show_int 0 = ''0''" "to_utc_string 0 = ''Thu, 01 Jan 1970 00:00:00 GMT''"
    by code_simp+
  moreover from this have "age_text (Typed (Fin 0)) = ''0''"
    by (simp add: age_text_def as_integer_def)
  ultimately show ?thesis
    by (simp add: cookie_attributes_def)
qed

lemma clear_after_set:
  assumes "setCookie name value options r = Inr r'"
  shows "\<exists>r''. clearCookie name options r' = Inr r''"
proof -
  let ?cleared = "options\<lparr>ck_expires := Some (Typed (Some 0)), ck_maxAgeSeconds := Some (Typed (Fin 0))\<rparr>"
  have "cookie_acceptable name value options"
    using assms serialize_cases [of name "value" options] by (cases "serializeCookie name value options") (simp_all add: setCookie_def)
  moreover have "expiry_acceptable (Some (Typed (Some 0)))" "optionally validate_max_age (Some (Typed (Fin 0))) = None"
    by code_simp+
  ultimately have "cookie_acceptable name (Typed []) ?cleared"
    by (simp add: cookie_acceptable_def)
  then show ?thesis
    using serialize_cases [of name "Typed []" ?cleared]
    by (cases "serializeCookie name (Typed []) ?cleared") (simp_all add: clearCookie_def)
qed

end
