(* ===== verification/Success_Response.thy ===== *)
theory Success_Response
  imports Byte_Range Content_Negotiation
begin

text \<open>
  \<open>packages/http/src/dispatch/dispatch-response-policy.ts\<close> and \<open>dispatch-response-metadata.ts\<close>: how the
  value of a handler becomes a response, and from \<open>packages/runtime/src/web.ts\<close> the serialization of bodies.
  The integrations of an application (finalizers, writers, representations, formatters) and
  \<open>JSON.stringify\<close> are arguments and may fail.  The theorems: \<open>HEAD\<close> answers what \<open>GET\<close> would without
  the body, and a representation is publicly cacheable only if nothing of it can depend on a user.
\<close>

section \<open>Bodies\<close>

text \<open>The value of a handler: arrays and plain objects are simple JSON; the rest has its own branches.\<close>

datatype response_value =
    UndefinedValue
  | BytesValue byte_source
  | TextValue string
  | SimpleJson nat
  | OtherValue nat

datatype 'e write_failure = UserError 'e | NotAcceptableFailure | RangeFailure range_error

text \<open>What is known of the route.\<close>

record success_route =
  sr_method :: string
  sr_redirect :: "(string \<times> nat option) option"
  sr_headers :: "(string \<times> string) list"
  sr_successStatus :: "nat option"
  sr_produces :: "string list option"

text \<open>The response while an integration writes it, whether the success metadata was applied, and whether
  the request was aborted.\<close>

record write_state =
  ws_response :: web_response
  ws_applied :: bool
  ws_aborted :: bool

type_synonym ('e, 'a) writer_code = "(write_state \<Rightarrow> write_state) \<Rightarrow> write_state \<Rightarrow> write_state \<times> ('e write_failure + 'a)"

record 'e representation =
  rp_mediaType :: string
  rp_post :: bool
  rp_public :: bool
  rp_body :: "('e, response_value) writer_code"

record 'e success_env =
  se_year :: int
  se_stringify :: "response_value \<Rightarrow> 'e + string"
  se_format :: "formatter \<Rightarrow> response_value \<Rightarrow> 'e + response_value"
  se_finalizer :: "(response_value \<Rightarrow> write_state \<Rightarrow> write_state \<times> ('e write_failure + response_value)) option"
  se_writer :: "response_value \<Rightarrow> ('e, unit) writer_code option"
  se_representation :: "response_value \<Rightarrow> 'e representation option"

definition utf8_bytes :: "string \<Rightarrow> byte list" where
  "utf8_bytes s =
     concat (map (\<lambda>c. let n = of_char c :: nat
                     in if n < 128 then [of_nat n] else [of_nat (192 + n div 64), of_nat (128 + n mod 64)]) s)"

definition isJsonMediaType :: "string option \<Rightarrow> bool" where
  "isJsonMediaType contentType = (case contentType of None \<Rightarrow> False | Some t \<Rightarrow> includes_str ''application/json'' (js_lower t))"

text \<open>The payload and the content type a body has by default.\<close>

definition serializeWebResponseBody ::
  "'e success_env \<Rightarrow> response_value \<Rightarrow> string option \<Rightarrow> 'e + (string option \<times> byte list)" where
  "serializeWebResponseBody env body contentType =
     (case body of
        UndefinedValue \<Rightarrow> Inr (None, [])
      | BytesValue source \<Rightarrow> Inr (Some ''application/octet-stream'', case toBytes source of None \<Rightarrow> [] | Some bs \<Rightarrow> bs)
      | TextValue s \<Rightarrow>
          if isJsonMediaType contentType then map_sum id (\<lambda>t. (None, utf8_bytes t)) (se_stringify env body)
          else Inr (Some ''text/plain; charset=utf-8'', utf8_bytes s)
      | _ \<Rightarrow> map_sum id (\<lambda>t. (Some ''application/json; charset=utf-8'', utf8_bytes t)) (se_stringify env body))"

definition single_value :: "string list option \<Rightarrow> string option" where
  "single_value v = (case v of Some [s] \<Rightarrow> Some s | _ \<Rightarrow> None)"

definition stated_content_type :: "response_headers \<Rightarrow> string option" where
  "stated_content_type headers =
     (case single_value (js_get headers ''Content-Type'') of
        Some t \<Rightarrow> Some t
      | None \<Rightarrow> single_value (js_get headers ''content-type''))"

definition finish_body :: "string option \<Rightarrow> byte list \<Rightarrow> web_response \<Rightarrow> web_response" where
  "finish_body defaultContentType payload r =
     (let r1 = (case defaultContentType of
                  None \<Rightarrow> r
                | Some t \<Rightarrow> if hasHeader (wr_headers r) ''content-type'' then r else setHeader ''Content-Type'' t r)
      in r1\<lparr>wr_body := Some payload, wr_committed := True\<rparr>)"

definition send_value :: "'e success_env \<Rightarrow> response_value \<Rightarrow> web_response \<Rightarrow> web_response \<times> ('e write_failure + unit)" where
  "send_value env body r =
     (if wr_finalized r then (r\<lparr>wr_committed := True\<rparr>, Inr ())
      else (case serializeWebResponseBody env body (stated_content_type (wr_headers r)) of
              Inl e \<Rightarrow> (r, Inl (UserError e))
            | Inr (defaultContentType, payload) \<Rightarrow> (finish_body defaultContentType payload r, Inr ())))"

definition sendSimpleJson :: "'e success_env \<Rightarrow> response_value \<Rightarrow> web_response \<Rightarrow> web_response \<times> ('e write_failure + unit)" where
  "sendSimpleJson env body r =
     (if wr_finalized r then (r\<lparr>wr_committed := True\<rparr>, Inr ())
      else (let r1 = (if hasHeader (wr_headers r) ''content-type'' then r
                      else setHeader ''Content-Type'' ''application/json; charset=utf-8'' r)
            in case se_stringify env body of
                 Inl e \<Rightarrow> (r1, Inl (UserError e))
               | Inr t \<Rightarrow> (r1\<lparr>wr_body := Some (utf8_bytes t), wr_committed := True\<rparr>, Inr ())))"

section \<open>Metadata of a success\<close>

definition applyRouteHeaders :: "success_route \<Rightarrow> web_response \<Rightarrow> web_response" where
  "applyRouteHeaders route r = fold (\<lambda>(name, v). setHeader name v) (sr_headers route) r"

definition resolveDefaultSuccessStatus :: "success_route \<Rightarrow> response_value \<Rightarrow> nat" where
  "resolveDefaultSuccessStatus route v =
     (if sr_method route = ''POST'' then 201
      else if sr_method route = ''DELETE'' \<or> sr_method route = ''OPTIONS'' then (if v = UndefinedValue then 204 else 200)
      else 200)"

definition applySuccessResponseMetadata :: "formatter option \<Rightarrow> success_route \<Rightarrow> response_value \<Rightarrow> web_response \<Rightarrow> web_response" where
  "applySuccessResponseMetadata formatter route v r =
     (let r1 = applyRouteHeaders route r;
          r2 = (case formatter of Some f \<Rightarrow> setHeader ''Content-Type'' (rf_mediaType f) r1 | None \<Rightarrow> r1)
      in case sr_successStatus route of
           Some s \<Rightarrow> setStatus s r2
         | None \<Rightarrow> if wr_statusCode r2 = None then setStatus (resolveDefaultSuccessStatus route v) r2 else r2)"

definition isSimpleJsonResponseBody :: "response_value \<Rightarrow> bool" where
  "isSimpleJsonResponseBody v = (case v of SimpleJson _ \<Rightarrow> True | _ \<Rightarrow> False)"

definition readHeader :: "response_headers \<Rightarrow> string \<Rightarrow> string option" where
  "readHeader headers name = single_value (get_header headers name)"

definition isJsonContentType :: "string \<Rightarrow> bool" where
  "isJsonContentType t \<longleftrightarrow> includes_str ''application/json'' (js_lower t) \<or> ends_with ''+json'' (js_lower t)"

definition hasJsonCompatibleContentType :: "response_headers \<Rightarrow> bool" where
  "hasJsonCompatibleContentType headers =
     (case readHeader headers ''content-type'' of None \<Rightarrow> True | Some t \<Rightarrow> isJsonContentType t)"

definition canUseSimpleJsonFastPath :: "web_response \<Rightarrow> response_value \<Rightarrow> bool" where
  "canUseSimpleJsonFastPath r v \<longleftrightarrow>
     isSimpleJsonResponseBody v \<and>
     (case wr_statusCode r of None \<Rightarrow> True | Some s \<Rightarrow> \<not> isResponseBodyForbidden s) \<and>
     hasJsonCompatibleContentType (wr_headers r)"

definition applyImplicitHeadContentType :: "response_value \<Rightarrow> web_response \<Rightarrow> web_response" where
  "applyImplicitHeadContentType v r =
     (if readHeader (wr_headers r) ''content-type'' \<noteq> None \<or> v = UndefinedValue then r
      else setHeader ''Content-Type''
        (case v of BytesValue _ \<Rightarrow> ''application/octet-stream''
                 | TextValue _ \<Rightarrow> ''text/plain; charset=utf-8''
                 | _ \<Rightarrow> ''application/json; charset=utf-8'') r)"

definition vary_accept :: "web_response \<Rightarrow> web_response" where
  "vary_accept r = r\<lparr>wr_headers := appendVaryHeader [''Accept''] (wr_headers r)\<rparr>"

section \<open>Representations\<close>

definition NAVIGATION_CONTENT_TYPE :: string where
  "NAVIGATION_CONTENT_TYPE = ''application/vnd.fluo.react-navigation+json;v=2''"

definition requestsRepresentation :: "http_request \<Rightarrow> 'e representation \<Rightarrow> bool" where
  "requestsRepresentation request rep \<longleftrightarrow>
     js_upper (hr_method request) = (if rp_post rep then ''POST'' else ''GET'') \<and>
     (case getRequestHeader request ''accept'' of
        None \<Rightarrow> False
      | Some v \<Rightarrow> list_ex (\<lambda>s. js_lower (js_trim s) = js_lower (rp_mediaType rep)) (List.map_filter id v))"

definition varies_only_by_accept :: "response_headers \<Rightarrow> bool" where
  "varies_only_by_accept headers \<longleftrightarrow>
     list_all (\<lambda>(name, vs). list_all (\<lambda>entry. list_all (\<lambda>f. js_lower (js_trim f) = ''accept'') (split_on (CHR '','') entry)) vs)
       (filter (\<lambda>(name, vs). js_lower name = ''vary'') headers)"

definition has_existing_header :: "response_headers \<Rightarrow> string \<Rightarrow> bool" where
  "has_existing_header headers name \<longleftrightarrow> list_ex (\<lambda>(key, v). js_lower key = name) headers"

definition has_identity_header :: "http_request \<Rightarrow> bool" where
  "has_identity_header request \<longleftrightarrow>
     list_ex (\<lambda>(name, v). (js_lower name = ''cookie'' \<or> js_lower name = ''authorization'') \<and> v \<noteq> [None]) (hr_headers request)"

definition grants_prefetch :: "http_request \<Rightarrow> 'e representation \<Rightarrow> web_response \<Rightarrow> bool" where
  "grants_prefetch request rep r \<longleftrightarrow>
     rp_mediaType rep = NAVIGATION_CONTENT_TYPE \<and> js_upper (hr_method request) = ''GET'' \<and> rp_public rep \<and>
     wr_statusCode r = Some 200 \<and> \<not> has_identity_header request \<and>
     \<not> has_existing_header (wr_headers r) ''set-cookie'' \<and> \<not> has_existing_header (wr_headers r) ''cache-control'' \<and>
     varies_only_by_accept (wr_headers r)"

definition delete_headers :: "(string \<Rightarrow> bool) \<Rightarrow> response_headers \<Rightarrow> response_headers \<Rightarrow> response_headers" where
  "delete_headers P existing headers = fold (\<lambda>(name, v) h. if P name then js_delete h name else h) existing headers"

text \<open>The caching policy of a representation, from its media type to the header writes.\<close>

definition representation_policy :: "http_request \<Rightarrow> 'e representation \<Rightarrow> web_response \<Rightarrow> web_response" where
  "representation_policy request rep r0 =
     (let r = setHeader ''Content-Type'' (rp_mediaType rep) r0;
          existing = wr_headers r;
          r1 = vary_accept r;
          r2 = r1\<lparr>wr_headers := delete_headers (\<lambda>name. js_lower name = ''x-fluo-navigation-prefetch'') existing (wr_headers r1)\<rparr>
      in if grants_prefetch request rep r
         then setHeader ''Cache-Control'' ''public, max-age=15'' (setHeader ''X-Fluo-Navigation-Prefetch'' ''public'' r2)
         else (let cached = filter (\<lambda>(name, v). js_lower name = ''cache-control'') existing;
                   r3 = r2\<lparr>wr_headers := delete_headers (\<lambda>name. js_lower name = ''cache-control'') cached (wr_headers r2)\<rparr>
               in setHeader (case cached of [] \<Rightarrow> ''Cache-Control'' | (name, v) # _ \<Rightarrow> name)
                    (join_with '', '' (concat (map snd cached) @ [''private, no-store''])) r3))"

section \<open>Writing a success\<close>

text \<open>The metadata callback of a writer takes effect once.\<close>

definition writer_metadata :: "success_route \<Rightarrow> response_value \<Rightarrow> response_validators option \<Rightarrow> write_state \<Rightarrow> write_state" where
  "writer_metadata route v validators s =
     (if ws_applied s then s
      else s\<lparr>ws_applied := True,
             ws_response := applyResponseValidators validators (applySuccessResponseMetadata None route v (ws_response s))\<rparr>)"

text \<open>The writer of a value: the integration's own, or that of a byte range response over bytes.\<close>

definition range_writer ::
  "'e success_env \<Rightarrow> http_request \<Rightarrow> response_validators option \<Rightarrow> range_entry \<Rightarrow> ('e, unit) writer_code" where
  "range_writer env request validators entry metadata s =
     (let apply = (\<lambda>r. ws_response (metadata (s\<lparr>ws_response := r\<rparr>)))
      in case writeByteRangeResponse (se_year env) apply entry request validators (ws_response s) of
           (None, r) \<Rightarrow> (s\<lparr>ws_response := r\<rparr>, Inr ())
         | (Some e, r) \<Rightarrow> (s\<lparr>ws_response := r\<rparr>, Inl (RangeFailure e)))"

definition select_writer ::
  "'e success_env \<Rightarrow> http_request \<Rightarrow> response_validators option \<Rightarrow> response_value \<Rightarrow> 'e write_failure + ('e, unit) writer_code option" where
  "select_writer env request validators v =
     (case se_writer env v of
        Some w \<Rightarrow> Inr (Some w)
      | None \<Rightarrow>
          (case v of
             BytesValue source \<Rightarrow>
               if shouldApplyByteRange (se_year env) request validators
               then (case createByteRangeResponse source None None of
                       Inl e \<Rightarrow> Inl (RangeFailure e)
                     | Inr entry \<Rightarrow> Inr (Some (range_writer env request validators entry)))
               else Inr None
           | _ \<Rightarrow> Inr None))"

definition on_response :: "(web_response \<Rightarrow> web_response) \<Rightarrow> write_state \<Rightarrow> write_state" where
  "on_response f s = s\<lparr>ws_response := f (ws_response s)\<rparr>"

definition finish_send :: "(web_response \<Rightarrow> web_response \<times> ('e write_failure + unit)) \<Rightarrow> write_state \<Rightarrow> write_state \<times> ('e write_failure + unit)" where
  "finish_send f s = (case f (ws_response s) of (r, out) \<Rightarrow> (s\<lparr>ws_response := r\<rparr>, out))"

definition write_with_writer ::
  "'e success_env \<Rightarrow> success_route \<Rightarrow> http_request \<Rightarrow> response_validators option \<Rightarrow> response_value \<Rightarrow> ('e, unit) writer_code \<Rightarrow>
   write_state \<Rightarrow> write_state \<times> ('e write_failure + unit)" where
  "write_with_writer env route request validators v writer s0 =
     (let s = (on_response (applyResponseValidators validators) s0)\<lparr>ws_applied := False\<rparr>;
          metadata = writer_metadata route v validators
      in case se_representation env v of
           None \<Rightarrow> writer metadata s
         | Some rep \<Rightarrow>
             if requestsRepresentation request rep
             then (case rp_body rep metadata s of
                     (s1, Inl e) \<Rightarrow> (s1, Inl e)
                   | (s1, Inr body) \<Rightarrow>
                       if ws_aborted s1 \<or> wr_committed (ws_response s1) then (s1, Inr ())
                       else finish_send (send_value env body) (on_response (representation_policy request rep) (metadata s1)))
             else writer metadata (on_response vary_accept s))"

definition resolveResponsePolicy :: "success_route \<Rightarrow> http_request \<Rightarrow> negotiation option \<Rightarrow> 'e write_failure + formatter option" where
  "resolveResponsePolicy route request negotiation =
     (case negotiation of
        None \<Rightarrow> Inr None
      | Some n \<Rightarrow> (case selectResponseFormatter (sr_produces route) request n of
                    Inl _ \<Rightarrow> Inl NotAcceptableFailure
                  | Inr f \<Rightarrow> Inr (Some f)))"

definition write_conditional :: "outcome \<Rightarrow> response_validators option \<Rightarrow> bool \<Rightarrow> web_response \<Rightarrow> web_response" where
  "write_conditional out validators variesByAccept r =
     (let r1 = applyResponseValidators validators r;
          r2 = (if variesByAccept then vary_accept r1 else r1)
      in send None (setStatus (if out = NotModified then 304 else 412) r2))"

text \<open>A value without a writer.\<close>

definition write_plain ::
  "'e success_env \<Rightarrow> success_route \<Rightarrow> http_request \<Rightarrow> response_validators option \<Rightarrow> response_value \<Rightarrow> formatter option \<Rightarrow>
   web_response \<Rightarrow> web_response \<times> ('e write_failure + unit)" where
  "write_plain env route request validators v formatter r =
     (let r1 = applySuccessResponseMetadata formatter route v r;
          r2 = (if formatter \<noteq> None then vary_accept r1 else r1);
          r3 = applyResponseValidators validators r2
      in if js_upper (hr_method request) = ''HEAD'' then (send None (applyImplicitHeadContentType v r3), Inr ())
         else if formatter = None \<and> canUseSimpleJsonFastPath r3 v then sendSimpleJson env v r3
         else (case (case formatter of None \<Rightarrow> Inr v | Some f \<Rightarrow> se_format env f v) of
                 Inl e \<Rightarrow> (r3, Inl (UserError e))
               | Inr body \<Rightarrow> send_value env body r3))"

definition writeSuccessResponse ::
  "'e success_env \<Rightarrow> success_route \<Rightarrow> http_request \<Rightarrow> response_value \<Rightarrow> negotiation option \<Rightarrow> response_validators option \<Rightarrow>
   outcome option \<Rightarrow> write_state \<Rightarrow> write_state \<times> ('e write_failure + unit)" where
  "writeSuccessResponse env route request value negotiation validators conditionalOutcome s =
     (if wr_committed (ws_response s) then (s, Inr ())
      else (case sr_redirect route of
              Some (url, statusCode) \<Rightarrow>
                (on_response (\<lambda>r. redirect (case statusCode of None \<Rightarrow> 302 | Some c \<Rightarrow> c) url (applyResponseValidators validators r)) s, Inr ())
            | None \<Rightarrow>
                (case (case se_finalizer env of None \<Rightarrow> (s, Inr value) | Some f \<Rightarrow> f value s) of
                   (s1, Inl e) \<Rightarrow> (s1, Inl e)
                 | (s1, Inr v) \<Rightarrow>
                     (case select_writer env request validators v of
                        Inl e \<Rightarrow> (s1, Inl e)
                      | Inr (Some writer) \<Rightarrow> write_with_writer env route request validators v writer s1
                      | Inr None \<Rightarrow>
                          (case resolveResponsePolicy route request negotiation of
                             Inl e \<Rightarrow> (s1, Inl e)
                           | Inr formatter \<Rightarrow>
                               (case conditionalOutcome of
                                  Some out \<Rightarrow>
                                    (on_response (\<lambda>r. write_conditional out validators (formatter \<noteq> None) (applyRouteHeaders route r)) s1, Inr ())
                                | None \<Rightarrow> finish_send (write_plain env route request validators v formatter) s1))))))"

section \<open>HEAD mirrors GET\<close>

text \<open>The content type a body gets unless one was stated.\<close>

definition default_type :: "response_value \<Rightarrow> string" where
  "default_type v =
     (case v of BytesValue _ \<Rightarrow> ''application/octet-stream''
              | TextValue _ \<Rightarrow> ''text/plain; charset=utf-8''
              | _ \<Rightarrow> ''application/json; charset=utf-8'')"

definition typed :: "response_value \<Rightarrow> web_response \<Rightarrow> web_response" where
  "typed v r = (if hasHeader (wr_headers r) ''content-type'' \<or> v = UndefinedValue then r else setHeader ''Content-Type'' (default_type v) r)"

lemma content_type_name: "js_lower ''Content-Type'' = ''content-type''" "js_lower ''content-type'' = ''content-type''"
  by code_simp+

lemma js_get_find: "js_get h k = Some v \<Longrightarrow> js_lower k = js_lower n \<Longrightarrow> get_header h n \<noteq> None"
  by (induction h) (auto simp: js_get_def get_header_def split: if_splits)

lemma stated_present: "isJsonMediaType (stated_content_type h) \<Longrightarrow> hasHeader h ''content-type''"
  using js_get_find [of h "''Content-Type''" _ "''content-type''"] js_get_find [of h "''content-type''" _ "''content-type''"]
  by (auto simp: isJsonMediaType_def stated_content_type_def single_value_def has_header_iff content_type_name
      split: option.splits list.splits)

text \<open>What sending does to the headers, whichever way the body is written.\<close>

lemma send_value_typed:
  assumes "send_value env body r = (r', Inr ())" "\<not> wr_finalized r"
  shows "wr_headers r' = wr_headers (typed body r)" "wr_statusCode r' = wr_statusCode r" "wr_streamActive r' = wr_streamActive r"
    "wr_committed r'"
proof -
  obtain default payload where out: "serializeWebResponseBody env body (stated_content_type (wr_headers r)) = Inr (default, payload)"
      "r' = finish_body default payload r"
    using assms by (auto simp: send_value_def split: sum.splits)
  have "(case default of None \<Rightarrow> r | Some t \<Rightarrow> if hasHeader (wr_headers r) ''content-type'' then r else setHeader ''Content-Type'' t r) = typed body r"
    using out(1) stated_present [of "wr_headers r"]
    by (cases body) (auto simp: serializeWebResponseBody_def typed_def default_type_def map_sum_def split: if_splits sum.splits)
  then have r': "r' = (typed body r)\<lparr>wr_body := Some payload, wr_committed := True\<rparr>"
    using out(2) by (simp add: finish_body_def)
  then show "wr_headers r' = wr_headers (typed body r)" "wr_statusCode r' = wr_statusCode r" "wr_streamActive r' = wr_streamActive r"
    "wr_committed r'"
    by (simp_all add: typed_def setHeader_def)
qed

lemma simple_json_typed:
  assumes "isSimpleJsonResponseBody v"
  shows "sendSimpleJson env v r = (r', Inr ()) \<longleftrightarrow> send_value env v r = (r', Inr ())"
  using assms by (auto simp: sendSimpleJson_def send_value_def isSimpleJsonResponseBody_def serializeWebResponseBody_def finish_body_def
      map_sum_def Let_def split: response_value.splits sum.splits)

lemma head_typed:
  assumes "\<forall>vs. get_header (wr_headers r) ''content-type'' = Some vs \<longrightarrow> (\<exists>t. vs = [t])"
  shows "applyImplicitHeadContentType v r = typed v r"
  using assms by (auto simp: applyImplicitHeadContentType_def typed_def default_type_def readHeader_def single_value_def has_header_iff
      split: option.splits list.splits response_value.splits)

text \<open>A response still to be written, with at most one content type.\<close>

definition writable :: "web_response \<Rightarrow> bool" where
  "writable r \<longleftrightarrow>
     \<not> wr_finalized r \<and> \<not> wr_streamActive r \<and>
     (\<forall>vs. get_header (wr_headers r) ''content-type'' = Some vs \<longrightarrow> (\<exists>t. vs = [t]))"

lemma writable_set [intro]: "writable r \<Longrightarrow> writable (setHeader name v r)"
  by (auto simp: writable_def setHeader_def web.look_put content_type_name split: if_splits)

lemma writable_status [intro]: "writable r \<Longrightarrow> writable (setStatus s r)"
  by (simp add: writable_def setStatus_def)

lemma vary_not_type: "js_lower ''content-type'' \<noteq> ''vary''"
  by code_simp

lemma writable_vary [intro]: "writable r \<Longrightarrow> writable (vary_accept r)"
  by (simp add: writable_def vary_accept_def get_after_vary vary_not_type)

lemma writable_route [intro]: "writable r \<Longrightarrow> writable (applyRouteHeaders route r)"
proof -
  have "writable r \<Longrightarrow> writable (fold (\<lambda>(name, v). setHeader name v) hs r)" for hs r
    by (induction hs arbitrary: r) (auto simp: writable_set)
  then show "writable r \<Longrightarrow> writable (applyRouteHeaders route r)"
    by (simp add: applyRouteHeaders_def)
qed

lemma writable_validators [intro]: "writable r \<Longrightarrow> writable (applyResponseValidators validators r)"
  by (auto simp: applyResponseValidators_def Let_def split: option.splits)

lemma writable_metadata [intro]: "writable r \<Longrightarrow> writable (applySuccessResponseMetadata formatter route v r)"
  by (auto simp: applySuccessResponseMetadata_def Let_def split: option.splits)

lemma other_fields: "js_lower ''ETag'' \<noteq> js_lower ''content-type''" "js_lower ''Last-Modified'' \<noteq> js_lower ''content-type''"
  by code_simp+

lemma type_after_validators:
  "get_header (wr_headers (applyResponseValidators validators r)) ''content-type'' = get_header (wr_headers r) ''content-type''"
  by (auto simp: applyResponseValidators_def Let_def setHeader_def web.look_put other_fields split: option.splits)

lemma type_of_formatter:
  "hasHeader (wr_headers (applyResponseValidators validators (vary_accept (applySuccessResponseMetadata (Some f) route v r)))) ''content-type''"
proof -
  have "get_header (wr_headers (applySuccessResponseMetadata (Some f) route v r)) ''content-type'' = Some [rf_mediaType f]"
    by (auto simp: applySuccessResponseMetadata_def Let_def setHeader_def setStatus_def web.look_put content_type_name split: option.splits)
  then show ?thesis
    unfolding has_header_iff type_after_validators by (simp add: vary_accept_def get_after_vary vary_not_type)
qed

lemma plain_head:
  assumes "writable r" and get: "write_plain env route (request\<lparr>hr_method := ''GET''\<rparr>) validators v formatter r = (rG, Inr ())"
  shows "\<exists>rH. write_plain env route (request\<lparr>hr_method := ''HEAD''\<rparr>) validators v formatter r = (rH, Inr ()) \<and>
    wr_headers rH = wr_headers rG \<and> wr_statusCode rH = wr_statusCode rG \<and> \<not> wr_streamActive rH \<and> wr_body rH = Some [] \<and>
    wr_committed rH \<and> wr_committed rG"
proof -
  define r3 where "r3 = applyResponseValidators validators
    (if formatter \<noteq> None then vary_accept (applySuccessResponseMetadata formatter route v r) else applySuccessResponseMetadata formatter route v r)"
  have w: "writable r3"
    using assms(1) by (auto simp: r3_def)
  have methods: "js_upper ''HEAD'' = ''HEAD''" "js_upper ''GET'' \<noteq> ''HEAD''"
    by code_simp+
  obtain body where body: "send_value env body r3 = (rG, Inr ())" "formatter = None \<Longrightarrow> body = v"
    using get methods simple_json_typed [of v env r3]
    by (auto simp: write_plain_def Let_def r3_def canUseSimpleJsonFastPath_def split: if_splits option.splits sum.splits)
  have "typed body r3 = typed v r3"
    using body(2) type_of_formatter [of validators _ route v r] by (cases formatter) (simp_all add: typed_def r3_def)
  note sent = send_value_typed [OF body(1), unfolded this]
  have "write_plain env route (request\<lparr>hr_method := ''HEAD''\<rparr>) validators v formatter r = (send None (typed v r3), Inr ())"
    using w by (simp add: write_plain_def Let_def r3_def methods head_typed writable_def)
  moreover have "writable (typed v r3)"
    using w by (auto simp: typed_def)
  then have "send None (typed v r3) = (typed v r3)\<lparr>wr_body := Some [], wr_committed := True\<rparr>" "\<not> wr_streamActive (typed v r3)"
    by (simp_all add: send_def writable_def)
  moreover have "wr_statusCode (typed v r3) = wr_statusCode r3"
    by (simp add: typed_def setHeader_def)
  ultimately show ?thesis
    using sent w by (simp add: writable_def)
qed

lemma head_selects:
  "select_writer env (request\<lparr>hr_method := ''GET''\<rparr>) validators v = Inr None \<Longrightarrow>
   select_writer env (request\<lparr>hr_method := ''HEAD''\<rparr>) validators v = Inr None"
  "resolveResponsePolicy route (request\<lparr>hr_method := a\<rparr>) negotiation = resolveResponsePolicy route request negotiation"
proof -
  have same: "hr_headers (request\<lparr>hr_method := a\<rparr>) = hr_headers request" for a
    by simp
  have read: "readFirstNonEmptyRequestHeaderValue (request\<lparr>hr_method := a\<rparr>) name = readFirstNonEmptyRequestHeaderValue request name" for a name
    unfolding readFirstNonEmptyRequestHeaderValue_def same by (rule refl)
  have "isByteRangeRequestMethod ''HEAD'' = isByteRangeRequestMethod ''GET''"
    by code_simp
  then have range: "shouldApplyByteRange year (request\<lparr>hr_method := ''HEAD''\<rparr>) validators =
      shouldApplyByteRange year (request\<lparr>hr_method := ''GET''\<rparr>) validators" for year
    by (simp add: shouldApplyByteRange_def matchesIfRange_def read)
  show "select_writer env (request\<lparr>hr_method := ''GET''\<rparr>) validators v = Inr None \<Longrightarrow>
      select_writer env (request\<lparr>hr_method := ''HEAD''\<rparr>) validators v = Inr None"
    by (auto simp: select_writer_def range split: option.splits response_value.splits sum.splits if_splits)
  have accept: "readAcceptHeader (request\<lparr>hr_method := a\<rparr>) = readAcceptHeader request"
    unfolding readAcceptHeader_def readJoinedNonEmptyRequestHeaderValues_def getRequestHeader_def same by (rule refl)
  show "resolveResponsePolicy route (request\<lparr>hr_method := a\<rparr>) negotiation = resolveResponsePolicy route request negotiation"
    unfolding resolveResponsePolicy_def selectResponseFormatter_def accept by (rule refl)
qed

lemma mirrored:
  assumes "wr_headers rH = wr_headers rG" "wr_statusCode rH = wr_statusCode rG" "\<not> wr_streamActive rH" "wr_body rH = Some []"
  shows "toResponse rH = (fst (toResponse rG), fst (snd (toResponse rG)), [])"
  using assms by (simp add: toResponse_def Let_def)

text \<open>
  C38. \<open>HEAD\<close> mirrors \<open>GET\<close>.  Take a value that no integration writes, on a response that is still to
  be written, with any redirect, conditional outcome, formatters and validators.  If the \<open>GET\<close> request is
  answered, the same request with \<open>HEAD\<close> is answered too, with the same status, the same headers, the
  implied content type included, and an empty body.
\<close>

theorem head_mirrors_get:
  fixes env :: "'e success_env"
  assumes "se_finalizer env = None" "select_writer env (request\<lparr>hr_method := ''GET''\<rparr>) validators value = Inr None"
    and open_response: "writable (ws_response s)" "\<not> wr_committed (ws_response s)"
    and get: "writeSuccessResponse env route (request\<lparr>hr_method := ''GET''\<rparr>) value negotiation validators out s = (sG, Inr ())"
  shows "\<exists>sH. writeSuccessResponse env route (request\<lparr>hr_method := ''HEAD''\<rparr>) value negotiation validators out s = (sH, Inr ()) \<and>
    wr_committed (ws_response sH) \<and> wr_committed (ws_response sG) \<and>
    toResponse (ws_response sH) = (fst (toResponse (ws_response sG)), fst (snd (toResponse (ws_response sG))), [])"
proof -
  note common = assms(1-4) head_selects(1) [OF assms(2)]
  have empty: "wr_committed (send None r) \<and> toResponse (send None r) = (fst (toResponse (send None r)), fst (snd (toResponse (send None r))), [])"
    if "writable r" for r
    using that by (simp add: send_def toResponse_def writable_def Let_def)
  show ?thesis
  proof (cases "sr_redirect route")
    case (Some target)
    obtain url code where target: "target = (url, code)"
      by (cases target)
    have "writable (setHeader ''Location'' url (setStatus c (applyResponseValidators validators (ws_response s))))" for c
      using open_response by (intro writable_set writable_status writable_validators)
    then show ?thesis
      using get empty open_response by (auto simp: writeSuccessResponse_def Some target redirect_def on_response_def)
  next
    case None
    note run = writeSuccessResponse_def None common head_selects(2) option.case sum.case prod.case if_False if_True
    let ?policy = "resolveResponsePolicy route request negotiation :: 'e write_failure + formatter option"
    have "\<exists>formatter. ?policy = Inr formatter"
      using get by (cases ?policy) (simp_all add: run)
    then obtain formatter where f: "?policy = Inr formatter" ..
    show ?thesis
    proof (cases out)
      case (Some o')
      have "writable (applyResponseValidators validators (applyRouteHeaders route (ws_response s)))"
        using open_response by auto
      then have "writable (setStatus c (if b then vary_accept (applyResponseValidators validators (applyRouteHeaders route (ws_response s)))
          else applyResponseValidators validators (applyRouteHeaders route (ws_response s))))" for b c
        by auto
      then show ?thesis
        using get empty by (auto simp: run f Some write_conditional_def on_response_def Let_def)
    next
      case None
      obtain rG where rG: "write_plain env route (request\<lparr>hr_method := ''GET''\<rparr>) validators value formatter (ws_response s) = (rG, Inr ())"
          "sG = s\<lparr>ws_response := rG\<rparr>"
        using get by (cases "write_plain env route (request\<lparr>hr_method := ''GET''\<rparr>) validators value formatter (ws_response s)")
          (auto simp: run f None finish_send_def)
      show ?thesis
        using plain_head [OF open_response(1) rG(1)] mirrored rG(2) by (auto simp: run f None finish_send_def)
    qed
  qed
qed

section \<open>Caching of representations\<close>

lemma delete_headers_filter:
  "delete_headers P existing h = filter (\<lambda>(k, v). \<not> (P k \<and> k \<in> fst ` set existing)) h"
proof (induction existing arbitrary: h)
  case (Cons e existing)
  then show ?case
    by (cases e) (auto simp: delete_headers_def js_delete_def intro!: filter_cong)
qed (simp add: delete_headers_def)

lemma get_delete_other:
  assumes "\<And>k. P k \<Longrightarrow> js_lower k \<noteq> js_lower n"
  shows "get_header (delete_headers P existing h) n = get_header h n"
proof -
  have "get_header h n = get_header (filter (\<lambda>(k, v). \<not> (P k \<and> k \<in> fst ` set existing)) h) n"
    by (rule get_header_filter) (use assms in blast)
  then show ?thesis
    by (simp only: delete_headers_filter)
qed

lemma get_delete_gone:
  assumes "\<And>k v. (k, v) \<in> set h \<Longrightarrow> js_lower k = js_lower n \<Longrightarrow> P k \<and> k \<in> fst ` set existing"
  shows "get_header (delete_headers P existing h) n = None"
  using assms by (force simp: delete_headers_filter get_header_def find_None_iff)

lemma ok_delete: "js_ok h \<Longrightarrow> js_ok (delete_headers P existing h)"
  by (simp add: delete_headers_filter distinct_map_filter)

lemma vary_keeps_keys:
  assumes "(k, v) \<in> set (appendVaryHeader added h)" "\<not> is_vary k"
  shows "(k, v) \<in> set h"
proof -
  have "filter (\<lambda>(name, v). \<not> is_vary name) (appendVaryHeader added h) = filter (\<lambda>(name, v). \<not> is_vary name) h"
    by (simp add: append_vary_put others_after_put Let_def)
  moreover have "(k, v) \<in> set (filter (\<lambda>(name, v). \<not> is_vary name) (appendVaryHeader added h))"
    using assms by simp
  ultimately have "(k, v) \<in> set (filter (\<lambda>(name, v). \<not> is_vary name) h)"
    by simp
  then show ?thesis
    by simp
qed

lemma get_None_iff: "get_header h n = None \<longleftrightarrow> (\<forall>(k, v)\<in>set h. js_lower k \<noteq> js_lower n)"
  by (auto simp: get_header_def find_None_iff)

lemma policy_names:
  "js_lower ''Cache-Control'' = ''cache-control''" "js_lower ''X-Fluo-Navigation-Prefetch'' = ''x-fluo-navigation-prefetch''"
  "js_lower ''cache-control'' = ''cache-control''" "js_lower ''x-fluo-navigation-prefetch'' = ''x-fluo-navigation-prefetch''"
  "js_lower ''vary'' = ''vary''" "js_lower ''set-cookie'' = ''set-cookie''" "js_lower ''content-type'' = ''content-type''"
  "js_lower ''Content-Type'' = ''content-type''" "parseHeaderTokens [''Accept''] = [''Accept'']" "js_lower ''Accept'' = ''accept''"
  by code_simp+

lemma policy_distinct:
  "distinct [''cache-control'', ''x-fluo-navigation-prefetch'', ''vary'', ''set-cookie'', ''content-type'']"
  by code_simp

definition stated_cache_control :: "response_headers \<Rightarrow> string list" where
  "stated_cache_control headers = concat (map snd (filter (\<lambda>(name, v). js_lower name = ''cache-control'') headers))"

lemma single_vary:
  assumes ok: "js_ok h" and only: "varies_only_by_accept h"
  shows "\<exists>a. get_header (appendVaryHeader [''Accept''] h) ''vary'' = Some [a] \<and> js_lower a = ''accept''"
proof -
  define merged where "merged = vary_tokens h @ parseHeaderTokens [''Accept'']"
  have accept: "js_lower t = ''accept''" if "t \<in> set merged" for t
    using that only policy_names
    by (auto simp: merged_def vary_tokens_def parseHeaderTokens_def varies_only_by_accept_def is_vary_def list_all_iff)
  have "merged \<noteq> []"
    by (simp add: merged_def policy_names)
  then obtain s where s: "appendVaryHeader [''Accept''] h = put_vary [s] h"
      "s = (if ''*'' \<in> set merged then ''*'' else join_with '', '' (dedupe_tokens [] merged))"
    using append_vary_cases [OF ok merged_def] by blast
  have "js_lower ''*'' \<noteq> ''accept''"
    by code_simp
  then have star: "''*'' \<notin> set merged"
    using accept by blast
  define ts where "ts = dedupe_tokens [] merged"
  have spec: "js_lower ` set ts = js_lower ` set merged" "distinct (map js_lower ts)" "set ts \<subseteq> set merged"
    using dedupe_spec [of "[]" merged] by (simp_all add: ts_def)
  have "ts \<noteq> []"
    using spec(1) \<open>merged \<noteq> []\<close> by auto
  then obtain t us where ts: "ts = t # us"
    by (cases ts) auto
  moreover have "us = []"
    using spec(2, 3) accept unfolding ts by (cases us) auto
  ultimately have "s = t" "js_lower t = ''accept''"
    using s(2) star spec(3) accept by (simp_all add: ts_def [symmetric])
  moreover have "get_header (put_vary [s] h) ''vary'' = Some [s]"
    using get_header_filter [of "''vary''" is_vary "put_vary [s] h"] vary_after_put [OF ok, of "[s]"] is_vary_name [of h] policy_names
    by (simp add: is_vary_def get_header_def)
  ultimately show ?thesis
    using s(1) by auto
qed

text \<open>The headers of the policy, in both cases.\<close>

lemma policy_headers:
  fixes rep :: "'e representation" and request :: http_request and r :: web_response
  defines "typed_r \<equiv> setHeader ''Content-Type'' (rp_mediaType rep) r"
    and "h \<equiv> wr_headers (representation_policy request rep r)"
  shows "get_header h ''content-type'' = Some [rp_mediaType rep]"
    and "get_header h ''set-cookie'' = get_header (wr_headers r) ''set-cookie''"
    and "get_header h ''vary'' = get_header (appendVaryHeader [''Accept''] (wr_headers typed_r)) ''vary''"
    and "get_header h ''cache-control'' =
      Some [if grants_prefetch request rep typed_r then ''public, max-age=15''
            else join_with '', '' (stated_cache_control (wr_headers typed_r) @ [''private, no-store''])]"
    and "get_header h ''x-fluo-navigation-prefetch'' = (if grants_prefetch request rep typed_r then Some [''public''] else None)"
    and "wr_statusCode (representation_policy request rep r) = wr_statusCode r"
proof -
  let ?X = "\<lambda>name. js_lower name = ''x-fluo-navigation-prefetch''" and ?C = "\<lambda>name. js_lower name = ''cache-control''"
  define existing where "existing = wr_headers typed_r"
  define h2 where "h2 = delete_headers ?X existing (appendVaryHeader [''Accept''] existing)"
  define cached where "cached = filter (\<lambda>(name, v). ?C name) existing"
  define h3 where "h3 = delete_headers ?C cached h2"
  define cache_name where "cache_name = (case cached of [] \<Rightarrow> ''Cache-Control'' | (name, v) # _ \<Rightarrow> name)"
  note d = policy_distinct policy_names
  have h: "h = (if grants_prefetch request rep typed_r
      then put_header (put_header h2 ''X-Fluo-Navigation-Prefetch'' [''public'']) ''Cache-Control'' [''public, max-age=15'']
      else put_header h3 cache_name [join_with '', '' (stated_cache_control existing @ [''private, no-store''])])"
    unfolding h_def representation_policy_def typed_r_def [symmetric] Let_def
    by (simp add: existing_def [symmetric] h2_def h3_def cached_def cache_name_def vary_accept_def setHeader_def stated_cache_control_def)
  have lower_cache: "js_lower cache_name = ''cache-control''"
  proof (cases cached)
    case (Cons e es)
    then have "e \<in> set cached"
      by simp
    then show ?thesis
      using Cons by (auto simp: cached_def cache_name_def split: prod.splits)
  qed (simp add: cache_name_def d)
  have h2_other: "get_header h2 n = get_header (appendVaryHeader [''Accept''] existing) n" if "js_lower n \<noteq> ''x-fluo-navigation-prefetch''" for n
    unfolding h2_def by (rule get_delete_other) (use that in auto)
  have h3_other: "get_header h3 n = get_header h2 n" if "js_lower n \<noteq> ''cache-control''" for n
    unfolding h3_def by (rule get_delete_other) (use that in auto)
  have h2_x: "get_header h2 ''x-fluo-navigation-prefetch'' = None"
    unfolding h2_def
  proof (rule get_delete_gone)
    fix k v
    assume k: "(k, v) \<in> set (appendVaryHeader [''Accept''] existing)" "js_lower k = js_lower ''x-fluo-navigation-prefetch''"
    then have "(k, v) \<in> set existing"
      using d by (intro vary_keeps_keys [OF k(1)]) (simp add: is_vary_def)
    with k show "js_lower k = ''x-fluo-navigation-prefetch'' \<and> k \<in> fst ` set existing"
      using d by (force simp: rev_image_eqI)
  qed
  have type: "get_header existing ''content-type'' = Some [rp_mediaType rep]"
    "get_header existing ''set-cookie'' = get_header (wr_headers r) ''set-cookie''"
    using d by (simp_all add: existing_def typed_r_def setHeader_def web.look_put)
  have get: "get_header h n = (if js_lower n = ''cache-control''
        then Some [if grants_prefetch request rep typed_r then ''public, max-age=15''
                   else join_with '', '' (stated_cache_control existing @ [''private, no-store''])]
        else if js_lower n = ''x-fluo-navigation-prefetch'' \<and> grants_prefetch request rep typed_r then Some [''public'']
        else get_header h2 n)" for n
    using d lower_cache unfolding h by (auto simp: web.look_put h3_other)
  show "get_header h ''content-type'' = Some [rp_mediaType rep]"
    "get_header h ''set-cookie'' = get_header (wr_headers r) ''set-cookie''"
    "get_header h ''vary'' = get_header (appendVaryHeader [''Accept''] (wr_headers typed_r)) ''vary''"
    "get_header h ''cache-control'' =
      Some [if grants_prefetch request rep typed_r then ''public, max-age=15''
            else join_with '', '' (stated_cache_control (wr_headers typed_r) @ [''private, no-store''])]"
    "get_header h ''x-fluo-navigation-prefetch'' = (if grants_prefetch request rep typed_r then Some [''public''] else None)"
    using d by (simp_all add: get h2_other h2_x type [unfolded existing_def] get_after_vary existing_def)
  show "wr_statusCode (representation_policy request rep r) = wr_statusCode r"
    by (simp add: representation_policy_def vary_accept_def setHeader_def Let_def)
qed

lemma get_after_send:
  assumes "send_value env body r = (r', Inr ())" "js_lower n \<noteq> ''content-type''"
  shows "get_header (wr_headers r') n = get_header (wr_headers r) n" "wr_statusCode r' = wr_statusCode r"
  using assms send_value_typed [OF assms(1)] content_type_name
  by (cases "wr_finalized r"; auto simp: send_value_def typed_def setHeader_def web.look_put)+

lemma ok_setHeader: "js_ok (wr_headers r) \<Longrightarrow> js_ok (wr_headers (setHeader name v r))"
  by (auto simp: setHeader_def put_header_def Let_def intro!: jsm.ok_put)

lemma absent_header: "\<not> has_existing_header h name \<Longrightarrow> js_lower name = name \<Longrightarrow> get_header h name = None"
  by (auto simp: has_existing_header_def get_None_iff list_ex_iff)

lemma stated_other: "js_lower name \<noteq> ''cache-control'' \<Longrightarrow> stated_cache_control (put_header h name v) = stated_cache_control h"
proof -
  assume name: "js_lower name \<noteq> ''cache-control''"
  have "js_lower k = js_lower name" if "findHeaderName h name = Some k" for k
    using that by (auto simp: findHeaderName_def find_Some_iff)
  with name have "\<exists>k w. put_header h name v = js_set h k w \<and> js_lower k \<noteq> ''cache-control''"
    by (cases "findHeaderName h name") (auto simp: put_header_def Let_def)
  then obtain k w where "put_header h name v = js_set h k w" "js_lower k \<noteq> ''cache-control''"
    by blast
  then show ?thesis
    by (simp add: stated_cache_control_def filter_js_set [where P = "\<lambda>n. js_lower n = ''cache-control''"])
qed

text \<open>
  C39. The caching of representations.  Take a value whose representation a request asks for, and let
  the integration produce its body.  Whatever headers the handler and the integration set, the response
  varies on \<open>Accept\<close>, and its caching is one of two.  Either it is public for fifteen seconds and marked
  for prefetching, and then the integration declared the navigation representation public, the request
  was a \<open>GET\<close> without cookies and credentials, the status is 200, no cookie is set, nothing was stated on
  caching and the response varies on nothing but \<open>Accept\<close>.  Or it is private and not to be stored, on top
  of everything that was stated, and not marked for prefetching, even if the handler had marked it.
\<close>

theorem representation_caching:
  assumes "\<not> wr_committed (ws_response s)" "sr_redirect route = None"
    and "(case se_finalizer env of None \<Rightarrow> (s, Inr value) | Some f \<Rightarrow> f value s) = (s1, Inr v)"
    and "select_writer env request validators v = Inr (Some writer)"
    and "se_representation env v = Some rep" "requestsRepresentation request rep"
    and "rp_body rep (writer_metadata route v validators)
           ((on_response (applyResponseValidators validators) s1)\<lparr>ws_applied := False\<rparr>) = (s2, Inr body)"
    and "\<not> ws_aborted s2" "\<not> wr_committed (ws_response s2)"
    and described: "described = writer_metadata route v validators s2" "js_ok (wr_headers (ws_response described))"
    and sent: "writeSuccessResponse env route request value negotiation validators out s = (s', Inr ())"
  shows "\<exists>vary caching. get_header (wr_headers (ws_response s')) ''vary'' = Some [vary] \<and>
    varies_on ''Accept'' (wr_headers (ws_response s')) \<and>
    get_header (wr_headers (ws_response s')) ''cache-control'' = Some [caching] \<and>
    (if get_header (wr_headers (ws_response s')) ''x-fluo-navigation-prefetch'' = Some [''public'']
     then caching = ''public, max-age=15'' \<and> rp_public rep \<and> rp_mediaType rep = NAVIGATION_CONTENT_TYPE \<and>
       js_upper (hr_method request) = ''GET'' \<and> \<not> has_identity_header request \<and>
       wr_statusCode (ws_response s') = Some 200 \<and> get_header (wr_headers (ws_response s')) ''set-cookie'' = None \<and>
       stated_cache_control (wr_headers (ws_response described)) = [] \<and> js_lower vary = ''accept''
     else caching = join_with '', '' (stated_cache_control (wr_headers (ws_response described)) @ [''private, no-store'']) \<and>
       get_header (wr_headers (ws_response s')) ''x-fluo-navigation-prefetch'' = None)"
proof -
  define r where "r = ws_response described"
  define r' where "r' = ws_response s'"
  define typed_r where "typed_r = setHeader ''Content-Type'' (rp_mediaType rep) r"
  have send: "send_value env body (representation_policy request rep r) = (r', Inr ())"
    using sent assms(1-9) described(1)
    by (auto simp: writeSuccessResponse_def write_with_writer_def Let_def finish_send_def on_response_def r_def r'_def split: prod.splits)
  note d = policy_distinct policy_names and policy = policy_headers [where r = r and request = request and rep = rep, folded typed_r_def]
  have after: "get_header (wr_headers r') n = get_header (wr_headers (representation_policy request rep r)) n" if "js_lower n \<noteq> ''content-type''" for n
    using get_after_send(1) [OF send that] .
  have status: "wr_statusCode r' = wr_statusCode r"
    using get_after_send(2) [OF send, of "''vary''"] policy(6) d by simp
  have ok: "js_ok (wr_headers typed_r)"
    using described(2) by (simp add: typed_r_def r_def ok_setHeader)
  have "varies_on ''Accept'' (appendVaryHeader [''Accept''] (wr_headers typed_r))"
    using ok by (rule varies_after_append) (simp add: d)
  moreover have vary: "get_header (wr_headers r') ''vary'' = get_header (appendVaryHeader [''Accept''] (wr_headers typed_r)) ''vary''"
    using after [of "''vary''"] policy(3) d by simp
  ultimately have varies: "varies_on ''Accept'' (wr_headers r')"
    using varies_cong by blast
  then obtain a where a: "get_header (wr_headers r') ''vary'' = Some [a]"
    by (auto simp: varies_on_def split: option.splits list.splits)
  have stated: "stated_cache_control (wr_headers typed_r) = stated_cache_control (wr_headers r)"
    using d by (simp add: typed_r_def setHeader_def stated_other)
  have cookie: "get_header (wr_headers r') ''set-cookie'' = get_header (wr_headers typed_r) ''set-cookie''"
    using after [of "''set-cookie''"] policy(2) d by (simp add: typed_r_def setHeader_def web.look_put)
  show ?thesis
  proof (cases "grants_prefetch request rep typed_r")
    case True
    have "stated_cache_control (wr_headers typed_r) = []"
      using True by (auto simp: grants_prefetch_def has_existing_header_def stated_cache_control_def list_ex_iff filter_empty_conv)
    moreover have "get_header (wr_headers r') ''set-cookie'' = None"
      using True absent_header [of "wr_headers typed_r" "''set-cookie''"] d cookie by (simp add: grants_prefetch_def)
    moreover have "wr_statusCode typed_r = wr_statusCode r"
      by (simp add: typed_r_def setHeader_def)
    moreover have "js_lower a = ''accept''"
      using True single_vary [OF ok] a vary by (auto simp: grants_prefetch_def)
    ultimately show ?thesis
      using True a varies after [of "''cache-control''"] after [of "''x-fluo-navigation-prefetch''"] policy(4, 5) d status stated
      by (simp add: grants_prefetch_def r_def [symmetric] r'_def [symmetric])
  next
    case False
    then show ?thesis
      using a varies after [of "''cache-control''"] after [of "''x-fluo-navigation-prefetch''"] policy(4, 5) d stated
      by (simp add: r_def [symmetric] r'_def [symmetric])
  qed
qed

section \<open>Samples\<close>

text \<open>An application whose values \<open>OtherValue\<close> carry a public navigation representation.\<close>

definition sample_env :: "unit success_env" where
  "sample_env = \<lparr>se_year = 2024, se_stringify = (\<lambda>_. Inr ''{}''), se_format = (\<lambda>_ v. Inr v), se_finalizer = None,
     se_writer = (\<lambda>v. case v of OtherValue _ \<Rightarrow> Some (\<lambda>_ s. (s, Inr ())) | _ \<Rightarrow> None),
     se_representation = (\<lambda>v. Some \<lparr>rp_mediaType = NAVIGATION_CONTENT_TYPE, rp_post = False, rp_public = True,
       rp_body = (\<lambda>_ s. (s, Inr (SimpleJson 0)))\<rparr>)\<rparr>"

definition sample_route :: success_route where
  "sample_route = \<lparr>sr_method = ''GET'', sr_redirect = None, sr_headers = [(''X-Sample'', ''1'')], sr_successStatus = None, sr_produces = None\<rparr>"

definition sample_fetch :: "string \<Rightarrow> http_request" where
  "sample_fetch accept = \<lparr>hr_method = ''GET'', hr_path = ''/'', hr_headers = [(''accept'', [Some accept])], hr_headExplicitOrGet = True\<rparr>"

definition open_state :: write_state where
  "open_state = \<lparr>ws_response = new_response, ws_applied = False, ws_aborted = False\<rparr>"

theorem head_mirrors_get_witness:
  "\<exists>s. writeSuccessResponse sample_env sample_route ((sample_fetch ''*/*'')\<lparr>hr_method := ''HEAD''\<rparr>) (SimpleJson 0) None None None open_state =
        (s, Inr ()) \<and>
     toResponse (ws_response s) =
       (200, [(''X-Sample'', [''1'']), (''Content-Type'', [''application/json; charset=utf-8''])], [])"
proof -
  let ?get = "writeSuccessResponse sample_env sample_route ((sample_fetch ''*/*'')\<lparr>hr_method := ''GET''\<rparr>) (SimpleJson 0) None None None open_state"
  have "case ?get of (s, written) \<Rightarrow> written = Inr () \<and> fst (toResponse (ws_response s)) = 200 \<and>
      fst (snd (toResponse (ws_response s))) = [(''X-Sample'', [''1'']), (''Content-Type'', [''application/json; charset=utf-8''])]"
    by code_simp
  then obtain sG where get: "?get = (sG, Inr ())" and shape: "fst (toResponse (ws_response sG)) = 200"
      "fst (snd (toResponse (ws_response sG))) = [(''X-Sample'', [''1'']), (''Content-Type'', [''application/json; charset=utf-8''])]"
    by (auto split: prod.splits)
  have "se_finalizer sample_env = None" "select_writer sample_env ((sample_fetch ''*/*'')\<lparr>hr_method := ''GET''\<rparr>) None (SimpleJson 0) = Inr None"
      "writable (ws_response open_state)" "\<not> wr_committed (ws_response open_state)"
    by (simp_all add: sample_env_def select_writer_def writable_def open_state_def new_response_def get_header_def)
  note head = head_mirrors_get [OF this get]
  with shape show ?thesis
    by auto
qed

theorem representation_caching_witness:
  "\<exists>s. writeSuccessResponse sample_env sample_route (sample_fetch NAVIGATION_CONTENT_TYPE) (OtherValue 0) None None None open_state =
        (s, Inr ()) \<and> get_header (wr_headers (ws_response s)) ''cache-control'' = Some [''public, max-age=15'']"
proof -
  let ?request = "sample_fetch NAVIGATION_CONTENT_TYPE"
  let ?written = "writeSuccessResponse sample_env sample_route ?request (OtherValue 0) None None None open_state"
  have "case ?written of (s, written) \<Rightarrow> written = Inr () \<and>
      get_header (wr_headers (ws_response s)) ''x-fluo-navigation-prefetch'' = Some [''public'']"
    by code_simp
  then obtain s' where sent: "?written = (s', Inr ())"
      and marked: "get_header (wr_headers (ws_response s')) ''x-fluo-navigation-prefetch'' = Some [''public'']"
    by (auto split: prod.splits)
  define rep :: "unit representation" where
    "rep = \<lparr>rp_mediaType = NAVIGATION_CONTENT_TYPE, rp_post = False, rp_public = True, rp_body = (\<lambda>_ s. (s, Inr (SimpleJson 0)))\<rparr>"
  have shape: "js_upper ''GET'' = ''GET''" "getRequestHeader ?request ''accept'' = Some [Some NAVIGATION_CONTENT_TYPE]"
      "js_trim NAVIGATION_CONTENT_TYPE = NAVIGATION_CONTENT_TYPE"
    by code_simp+
  have *: "\<not> wr_committed (ws_response open_state)" "sr_redirect sample_route = None"
      "(case se_finalizer sample_env of None \<Rightarrow> (open_state, Inr (OtherValue 0)) | Some f \<Rightarrow> f (OtherValue 0) open_state) = (open_state, Inr (OtherValue 0))"
      "select_writer sample_env ?request None (OtherValue 0) = Inr (Some (\<lambda>_ s. (s, Inr ())))"
      "se_representation sample_env (OtherValue 0) = Some rep" "requestsRepresentation ?request rep"
      "rp_body rep (writer_metadata sample_route (OtherValue 0) None)
         ((on_response (applyResponseValidators None) open_state)\<lparr>ws_applied := False\<rparr>) =
       ((on_response (applyResponseValidators None) open_state)\<lparr>ws_applied := False\<rparr>, Inr (SimpleJson 0))"
      "\<not> ws_aborted ((on_response (applyResponseValidators None) open_state)\<lparr>ws_applied := False\<rparr>)"
      "\<not> wr_committed (ws_response ((on_response (applyResponseValidators None) open_state)\<lparr>ws_applied := False\<rparr>))"
    using shape by (simp_all add: open_state_def sample_route_def sample_env_def select_writer_def rep_def requestsRepresentation_def
        on_response_def applyResponseValidators_def current_etag_def current_modified_def normalizeLastModified_def new_response_def
        sample_fetch_def map_filter_def)
  define described where "described = writer_metadata sample_route (OtherValue 0) None
      ((on_response (applyResponseValidators None) open_state)\<lparr>ws_applied := False\<rparr>)"
  have "js_ok (wr_headers (ws_response described))"
    unfolding described_def by code_simp
  note caching = representation_caching [OF * described_def this sent]
  with marked sent show ?thesis
    by auto
qed

end
