(* ===== verification/Error_Response.thy ===== *)
theory Error_Response
  imports Success_Response
begin

text \<open>
  \<open>packages/http/src/dispatch/dispatch-error-representation.ts\<close>, \<open>dispatch-error-negotiation.ts\<close> and the
  checks of \<open>form-representation.ts\<close>: how a failure becomes a response.  The providers of HTML documents and
  form messages are application code: they run on the state of the request and may fail.  The theorems:
  an unexpected failure is answered without a trace of it, and every failure gets one of the permitted
  answers, whatever the providers do.
\<close>

section \<open>Numerals\<close>

text \<open>\<open>Number(s)\<close> of a string: blank, decimal with an exponent, hexadecimal, octal, binary or infinite.\<close>

definition signed_digits :: "string \<Rightarrow> int option" where
  "signed_digits s =
     (let (sign, ds) = (case s of c # cs \<Rightarrow> if c = CHR ''-'' then (- 1, cs) else if c = CHR ''+'' then (1, cs) else (1, s) | [] \<Rightarrow> (1, s))
      in if ds \<noteq> [] \<and> list_all is_digit ds then Some (sign * int (read_nat ds)) else None)"

definition unsigned_decimal :: "string \<Rightarrow> rat option" where
  "unsigned_decimal s =
     (let mantissa = takeWhile (\<lambda>c. c \<noteq> CHR ''e'' \<and> c \<noteq> CHR ''E'') s;
          rest = dropWhile (\<lambda>c. c \<noteq> CHR ''e'' \<and> c \<noteq> CHR ''E'') s;
          whole = takeWhile (\<lambda>c. c \<noteq> CHR ''.'') mantissa;
          fraction = drop 1 (dropWhile (\<lambda>c. c \<noteq> CHR ''.'') mantissa);
          exponent = (case rest of [] \<Rightarrow> Some 0 | _ # ds \<Rightarrow> signed_digits ds)
      in if whole @ fraction = [] \<or> \<not> list_all is_digit (whole @ fraction) then None
         else map_option (\<lambda>e. let v = of_nat (read_nat (whole @ fraction)) / 10 ^ length fraction
                           in if 0 \<le> e then v * 10 ^ nat e else v / 10 ^ nat (- e)) exponent)"

definition radix_digit :: "nat \<Rightarrow> char \<Rightarrow> nat option" where
  "radix_digit base c =
     (let n = of_char (lower_char c) :: nat;
          d = (if is_digit c then n - 48 else if 97 \<le> n \<and> n \<le> 122 then n - 87 else base)
      in if d < base then Some d else None)"

definition radix_value :: "nat \<Rightarrow> string \<Rightarrow> rat option" where
  "radix_value base ds =
     (if ds = [] then None
      else fold (\<lambda>c acc. case (acc, radix_digit base c) of (Some v, Some d) \<Rightarrow> Some (v * of_nat base + of_nat d) | _ \<Rightarrow> None) ds (Some 0))"

definition js_Number :: "string \<Rightarrow> js_number" where
  "js_Number text =
     (let s = js_trim text;
          finite = (\<lambda>v. case v of Some x \<Rightarrow> Fin x | None \<Rightarrow> NaN)
      in if s = [] then Fin 0
         else if s = ''Infinity'' \<or> s = ''+Infinity'' then PosInf
         else if s = ''-Infinity'' then NegInf
         else if js_lower (take 2 s) = ''0x'' then finite (radix_value 16 (drop 2 s))
         else if js_lower (take 2 s) = ''0o'' then finite (radix_value 8 (drop 2 s))
         else if js_lower (take 2 s) = ''0b'' then finite (radix_value 2 (drop 2 s))
         else (case s of
                 c # cs \<Rightarrow>
                   if c = CHR ''-'' then finite (map_option uminus (unsigned_decimal cs))
                   else if c = CHR ''+'' then finite (unsigned_decimal cs)
                   else finite (unsigned_decimal s)))"

section \<open>Negotiation\<close>

datatype representation_kind = HtmlKind | JsonKind

record accept_range =
  ar_mediaRange :: string
  ar_order :: nat
  ar_quality :: rat
  ar_specificity :: nat

record representation_candidate =
  rc_kind :: representation_kind
  rc_priority :: nat
  rc_quality :: rat
  rc_specificity :: nat

definition range_quality :: "string option \<Rightarrow> rat" where
  "range_quality v =
     (case v of
        None \<Rightarrow> 1
      | Some s \<Rightarrow> (case js_Number s of Fin x \<Rightarrow> if 0 \<le> x \<and> x \<le> 1 then x else 0 | _ \<Rightarrow> 0))"

definition mediaRangeSpecificity :: "string \<Rightarrow> nat" where
  "mediaRangeSpecificity mediaRange = (if mediaRange = ''*/*'' then 0 else if ends_with ''/*'' mediaRange then 1 else 2)"

definition accept_range_of :: "nat \<Rightarrow> string \<Rightarrow> accept_range option" where
  "accept_range_of order tok =
     (let parts = split_on (CHR '';'') (js_trim tok);
          mediaRange = js_lower (js_trim (hd parts));
          parameter = find (\<lambda>p. js_lower (hd p) = ''q'') (map (\<lambda>p. split_on (CHR ''='') (js_trim p)) (tl parts))
      in if CHR ''/'' \<notin> set mediaRange then None
         else Some \<lparr>ar_mediaRange = mediaRange, ar_order = order,
                    ar_quality = range_quality (case parameter of Some (_ # v # _) \<Rightarrow> Some (js_trim v) | _ \<Rightarrow> None),
                    ar_specificity = mediaRangeSpecificity mediaRange\<rparr>)"

definition parse_accept_ranges :: "string \<Rightarrow> accept_range list" where
  "parse_accept_ranges v = List.map_filter (\<lambda>(order, tok). accept_range_of order tok) (enumerate 0 (split_on (CHR '','') v))"

definition mediaRangeMatches :: "string \<Rightarrow> string \<Rightarrow> bool" where
  "mediaRangeMatches mediaRange mediaType =
     (case (split_on (CHR ''/'') mediaRange, split_on (CHR ''/'') mediaType) of
        (rangeType # rangeSubtype # _, ty # sub # _) \<Rightarrow>
          (rangeType = ''*'' \<or> rangeType = ty) \<and> (rangeSubtype = ''*'' \<or> rangeSubtype = sub)
      | _ \<Rightarrow> False)"

definition bestRangeForMediaType :: "accept_range list \<Rightarrow> string \<Rightarrow> accept_range option" where
  "bestRangeForMediaType ranges mediaType =
     (case sort_key (\<lambda>r. 2 - ar_specificity r) (sort_key ar_order (filter (\<lambda>r. mediaRangeMatches (ar_mediaRange r) mediaType) ranges)) of
        [] \<Rightarrow> None
      | r # _ \<Rightarrow> Some r)"


definition error_offers :: "bool \<Rightarrow> (representation_kind \<times> string \<times> nat) list" where
  "error_offers htmlAvailable =
     (if htmlAvailable then [(JsonKind, ''application/json'', 0), (HtmlKind, ''text/html'', 1)]
      else [(JsonKind, ''application/json'', 0)])"

definition offer_candidate :: "accept_range list \<Rightarrow> representation_kind \<times> string \<times> nat \<Rightarrow> representation_candidate option" where
  "offer_candidate ranges offer =
     (case offer of (kind, mediaType, priority) \<Rightarrow>
        (case bestRangeForMediaType ranges mediaType of
           None \<Rightarrow> None
         | Some best \<Rightarrow>
             if 0 < ar_quality best
             then Some \<lparr>rc_kind = kind, rc_priority = priority, rc_quality = ar_quality best, rc_specificity = ar_specificity best\<rparr>
             else None))"

definition selectErrorRepresentation :: "string option \<Rightarrow> bool \<Rightarrow> representation_kind option" where
  "selectErrorRepresentation acceptHeader htmlAvailable =
     (case acceptHeader of
        None \<Rightarrow> Some JsonKind
      | Some v \<Rightarrow>
          (let candidates = List.map_filter (offer_candidate (parse_accept_ranges v)) (error_offers htmlAvailable)
           in case sort_key (\<lambda>c. - rc_quality c) (sort_key (\<lambda>c. 2 - rc_specificity c) (sort_key rc_priority candidates)) of
                [] \<Rightarrow> None
              | c # _ \<Rightarrow> Some (rc_kind c)))"

section \<open>Failures and form messages\<close>

text \<open>What an application hands over as form messages is untyped: \<open>None\<close> is a value of another type.\<close>

datatype form_candidate = NotForm | FormCandidate "(string \<times> string option list option) list option" "string option list option"

record form_errors =
  fe_fieldErrors :: "(string \<times> string list) list"
  fe_formErrors :: "string list"





text \<open>An exception: its identity (\<open>None\<close> for one made by the writer), what is serialized, and the form
  rejection it is marked with.\<close>

record http_exception =
  hx_id :: "nat option"
  hx_status :: nat
  hx_code :: string
  hx_message :: string
  hx_details :: "nat option"
  hx_meta :: "nat option"
  hx_rejection :: form_candidate


record error_envelope =
  ev_code :: string
  ev_details :: "nat option"
  ev_message :: string
  ev_meta :: "nat option"
  ev_requestId :: "string option"
  ev_status :: nat

definition createErrorResponse :: "http_exception \<Rightarrow> string option \<Rightarrow> error_envelope" where
  "createErrorResponse e requestId =
     \<lparr>ev_code = hx_code e, ev_details = hx_details e, ev_message = hx_message e, ev_meta = hx_meta e,
      ev_requestId = requestId, ev_status = hx_status e\<rparr>"




section \<open>The writer\<close>

text \<open>The state an application provider works on: the response, whether the request was aborted, the log.\<close>

record error_state =
  es_response :: web_response
  es_aborted :: bool
  es_log :: "string list"

datatype validation_origin = DtoOrigin | FormOrigin

record representation_context =
  rx_error :: http_exception
  rx_handler :: "nat option"
  rx_json :: error_envelope
  rx_requestId :: "string option"
  rx_validationOrigin :: "validation_origin option"

type_synonym ('e, 'a) provider_code = "representation_context \<Rightarrow> error_state \<Rightarrow> error_state \<times> ('e + 'a)"

text \<open>The documents and messages a provider yields; a rendered document is text or bytes.\<close>

datatype error_body = EnvelopeBody error_envelope | FormBody form_errors | HtmlBody "string + byte list"

record 'e html_provider =
  hp_canRender :: "('e, bool) provider_code option"
  hp_render :: "('e, string + byte list) provider_code"

record 'e error_env =
  ee_json :: "error_body \<Rightarrow> 'e + string"
  ee_html :: "'e html_provider option"
  ee_form :: "('e, form_candidate) provider_code option"
  ee_logger :: bool
  ee_requestId :: "string option"
  ee_formValidation :: "nat option"




definition on_error_response :: "(web_response \<Rightarrow> web_response) \<Rightarrow> error_state \<Rightarrow> error_state" where
  "on_error_response f s = s\<lparr>es_response := f (es_response s)\<rparr>"

text \<open>Sending a body through the Web adapter.\<close>

definition body_env :: "'e error_env \<Rightarrow> error_body \<Rightarrow> 'e success_env" where
  "body_env env body =
     \<lparr>se_year = 0, se_stringify = (\<lambda>_. ee_json env body), se_format = (\<lambda>_ v. Inr v), se_finalizer = None,
      se_writer = (\<lambda>_. None), se_representation = (\<lambda>_. None)\<rparr>"

definition body_value :: "error_body \<Rightarrow> response_value" where
  "body_value body =
     (case body of
        HtmlBody (Inl text) \<Rightarrow> TextValue text
      | HtmlBody (Inr bytes) \<Rightarrow> BytesValue (Uint8Array bytes)
      | _ \<Rightarrow> SimpleJson 0)"

definition send_error_body :: "'e error_env \<Rightarrow> error_body option \<Rightarrow> error_state \<Rightarrow> error_state \<times> ('e write_failure + unit)" where
  "send_error_body env body s =
     (case body of
        None \<Rightarrow> (on_error_response (send None) s, Inr ())
      | Some b \<Rightarrow> (case send_value (body_env env b) (body_value b) (es_response s) of
                     (r, out) \<Rightarrow> (s\<lparr>es_response := r\<rparr>, out)))"

definition setNegotiatedHeaders :: "string \<Rightarrow> web_response \<Rightarrow> web_response" where
  "setNegotiatedHeaders contentType r = vary_accept (setHeader ''Content-Type'' contentType r)"

definition isHead :: "http_request \<Rightarrow> bool" where
  "isHead request \<longleftrightarrow> js_upper (hr_method request) = ''HEAD''"

definition writeBody ::
  "'e error_env \<Rightarrow> http_request \<Rightarrow> nat \<Rightarrow> string \<Rightarrow> error_body option \<Rightarrow> error_state \<Rightarrow> error_state \<times> ('e write_failure + unit)" where
  "writeBody env request status contentType body s =
     (if wr_committed (es_response s) \<or> es_aborted s then (s, Inr ())
      else send_error_body env (if isHead request then None else body)
             (on_error_response (\<lambda>r. setNegotiatedHeaders contentType (setStatus status r)) s))"

definition JSON_CONTENT_TYPE :: string where
  "JSON_CONTENT_TYPE = ''application/json; charset=utf-8''"

definition HTML_CONTENT_TYPE :: string where
  "HTML_CONTENT_TYPE = ''text/html; charset=utf-8''"


definition writeCanonicalJson ::
  "'e error_env \<Rightarrow> http_request \<Rightarrow> http_exception \<Rightarrow> error_state \<Rightarrow> error_state \<times> ('e write_failure + unit)" where
  "writeCanonicalJson env request e s =
     writeBody env request (hx_status e) JSON_CONTENT_TYPE (Some (EnvelopeBody (createErrorResponse e (ee_requestId env)))) s"











section \<open>One name per header\<close>

definition one_name :: "response_headers \<Rightarrow> bool" where
  "one_name h \<longleftrightarrow> distinct (map (\<lambda>(k, v). js_lower k) h)"

lemma one_name_set:
  assumes "one_name h" "js_has h k \<or> (\<forall>(k', v')\<in>set h. js_lower k' \<noteq> js_lower k)"
  shows "one_name (js_set h k w)"
proof -
  have same: "map (\<lambda>(k', v'). js_lower k') (map (\<lambda>(k', v'). if k' = k then (k, w) else (k', v')) h) = map (\<lambda>(k', v'). js_lower k') h"
    by (induction h) auto
  have new: "distinct (map (\<lambda>(k', v'). js_lower k') (h @ [(k, w)]))" if "\<not> js_has h k"
    using assms that by (auto simp: one_name_def)
  show ?thesis
  proof (cases "js_has h k")
    case True
    then show ?thesis
      using assms(1) same by (simp only: one_name_def js_set_def if_True)
  next
    case False
    then show ?thesis
      using new by (simp only: one_name_def js_set_def if_False simp_thms)
  qed
qed

lemma one_name_put: "one_name h \<Longrightarrow> one_name (put_header h name v)"
proof -
  assume one: "one_name h"
  show ?thesis
  proof (cases "findHeaderName h name")
    case None
    then have "\<forall>(k', v')\<in>set h. js_lower k' \<noteq> js_lower name"
      by (auto simp: findHeaderName_def find_None_iff js_keys_def)
    with one None show ?thesis
      by (auto simp: put_header_def Let_def intro!: one_name_set)
  next
    case (Some k)
    then have "js_has h k"
      by (auto simp: findHeaderName_def find_Some_iff js_keys_def js_has_def)
    with one Some show ?thesis
      by (auto simp: put_header_def Let_def intro!: one_name_set)
  qed
qed

lemma one_name_vary: "one_name h \<Longrightarrow> one_name (appendVaryHeader added h)"
proof -
  assume one: "one_name h"
  have "is_vary ''Vary''"
    by code_simp
  have "one_name (put_vary v h)" for v
  proof (cases "filter (\<lambda>(name, v). is_vary name) h")
    case Nil
    then have "\<forall>(k', v')\<in>set h. js_lower k' \<noteq> js_lower ''Vary''"
      using \<open>is_vary ''Vary''\<close> by (auto simp: filter_empty_conv is_vary_def)
    then show ?thesis
      using one one_name_set Nil by (simp add: put_vary_def vary_name_def)
  next
    case (Cons e es)
    have "distinct (map (\<lambda>(k, v). js_lower k) (e # es))"
      using one distinct_map_filter [of "\<lambda>(k, v). js_lower k" h] unfolding one_name_def Cons [symmetric] by blast
    moreover have "\<forall>(k, v)\<in>set (e # es). js_lower k = ''vary''"
      using Cons [symmetric] by (auto simp: is_vary_def)
    ultimately have "es = []"
      by (cases es) auto
    moreover have "e \<in> set h"
      using Cons by (metis filter_is_subset list.set_intros(1) subsetD)
    then have "js_has h (fst e)"
      by (auto simp: js_has_def)
    ultimately show ?thesis
      using one one_name_set Cons by (simp add: put_vary_def vary_name_def case_prod_beta')
  qed
  then show ?thesis
    using one by (simp add: append_vary_put Let_def)
qed

lemma js_get_one: "one_name h \<Longrightarrow> js_get h k = Some v \<Longrightarrow> js_lower k = js_lower n \<Longrightarrow> get_header h n = Some v"
proof (induction h)
  case (Cons e h)
  obtain k' v' where e: "e = (k', v')"
    by (cases e)
  show ?case
  proof (cases "k' = k")
    case True
    with Cons.prems show ?thesis
      by (simp add: e js_get_def get_header_def)
  next
    case False
    then have "js_get h k = Some v"
      using Cons.prems(2) by (simp add: e js_get_def)
    moreover from this have "k \<in> fst ` set h"
      by (force simp: js_get_def dest: map_of_SomeD)
    then have "js_lower k' \<noteq> js_lower k"
      using Cons.prems(1) by (force simp: e one_name_def)
    ultimately show ?thesis
      using Cons.IH Cons.prems by (simp add: e one_name_def get_header_def)
  qed
qed (simp add: js_get_def)

section \<open>Answers\<close>

text \<open>The bytes of a body.\<close>

definition encoded :: "'e error_env \<Rightarrow> error_body \<Rightarrow> 'e + byte list" where
  "encoded env body =
     (case body of
        HtmlBody (Inl text) \<Rightarrow> Inr (utf8_bytes text)
      | HtmlBody (Inr bytes) \<Rightarrow> Inr bytes
      | _ \<Rightarrow> map_sum id utf8_bytes (ee_json env body))"

text \<open>The response is committed with this status, content type and body; \<open>HEAD\<close> has no body.\<close>

definition answered :: "'e error_env \<Rightarrow> http_request \<Rightarrow> nat \<Rightarrow> string list option \<Rightarrow> error_body \<Rightarrow> error_state \<Rightarrow> bool" where
  "answered env request status contentType body s \<longleftrightarrow>
     (let r = es_response s
      in wr_committed r \<and> wr_statusCode r = Some status \<and> get_header (wr_headers r) ''content-type'' = contentType \<and>
         (if isHead request then wr_body r = Some [] else (\<exists>p. encoded env body = Inr p \<and> wr_body r = Some p)))"

definition open_error :: "error_state \<Rightarrow> bool" where
  "open_error s \<longleftrightarrow> \<not> wr_committed (es_response s) \<and> \<not> wr_finalized (es_response s) \<and> one_name (wr_headers (es_response s))"

definition failed_json :: "'e error_env \<Rightarrow> 'e write_failure \<Rightarrow> bool" where
  "failed_json env e \<longleftrightarrow> (\<exists>body x. e = UserError x \<and> ee_json env body = Inl x)"


lemma html_not_json: "\<not> isJsonMediaType (Some HTML_CONTENT_TYPE)" "\<not> isJsonMediaType None"
  by code_simp+

lemma send_encoded:
  assumes "\<not> wr_finalized r" "\<And>t. body = HtmlBody (Inl t) \<Longrightarrow> \<not> isJsonMediaType (stated_content_type (wr_headers r))"
  shows "case send_value (body_env env body) (body_value body) r of
      (r', Inl e) \<Rightarrow> failed_json env e
    | (r', Inr u) \<Rightarrow> \<exists>p. encoded env body = Inr p \<and> wr_body r' = Some p \<and> wr_committed r' \<and> wr_statusCode r' = wr_statusCode r \<and>
        get_header (wr_headers r') ''content-type'' =
          (if get_header (wr_headers r) ''content-type'' = None then Some [default_type (body_value body)]
           else get_header (wr_headers r) ''content-type'')"
proof -
  have "case serializeWebResponseBody (body_env env body) (body_value body) (stated_content_type (wr_headers r)) of
      Inl e \<Rightarrow> ee_json env body = Inl e
    | Inr (usual, p) \<Rightarrow> usual = Some (default_type (body_value body)) \<and> encoded env body = Inr p"
    using assms(2)
    by (cases body) (auto simp: body_value_def serializeWebResponseBody_def body_env_def encoded_def default_type_def toBytes_def map_sum_def
        split: sum.splits)
  then show ?thesis
    using assms(1) by (auto simp: send_value_def failed_json_def finish_body_def has_header_iff setHeader_def web.look_put content_type_name
        split: sum.splits)
qed

text \<open>The headers of a negotiated answer: one content type, and what \<open>send\<close> takes for it.\<close>

lemma negotiated_type:
  fixes status :: nat and contentType :: string
  assumes "one_name (wr_headers r)"
  defines "r' \<equiv> setNegotiatedHeaders contentType (setStatus status r)"
  shows "get_header (wr_headers r') ''content-type'' = Some [contentType]"
    and "stated_content_type (wr_headers r') \<in> {None, Some contentType}"
    and "wr_statusCode r' = Some status" "wr_finalized r' = wr_finalized r"
proof -
  have r': "wr_headers r' = appendVaryHeader [''Accept''] (put_header (wr_headers r) ''Content-Type'' [contentType])"
    by (simp add: r'_def setNegotiatedHeaders_def vary_accept_def setHeader_def setStatus_def)
  show type: "get_header (wr_headers r') ''content-type'' = Some [contentType]"
    unfolding r' by (simp add: get_after_vary vary_not_type web.look_put content_type_name policy_names)
  have one: "one_name (wr_headers r')"
    unfolding r' by (intro one_name_vary one_name_put assms(1))
  have "v = [contentType]" if "js_get (wr_headers r') k = Some v" "js_lower k = ''content-type''" for k v
    using js_get_one [OF one that(1), of "''content-type''"] that(2) type content_type_name by simp
  then show "stated_content_type (wr_headers r') \<in> {None, Some contentType}"
    using content_type_name by (auto simp: stated_content_type_def single_value_def split: option.splits list.splits)
  show "wr_statusCode r' = Some status" "wr_finalized r' = wr_finalized r"
    by (simp_all add: r'_def setNegotiatedHeaders_def vary_accept_def setHeader_def setStatus_def)
qed

text \<open>\<open>writeBody\<close> on an open response, for a body of its content type or for a request without one.\<close>

lemma body_written:
  assumes "open_error s" "\<not> es_aborted s" "\<And>t. body = HtmlBody (Inl t) \<Longrightarrow> contentType = HTML_CONTENT_TYPE"
    and content: "content = Some body \<or> isHead request"
  shows "case writeBody env request status contentType content s of
      (s', Inl e) \<Rightarrow> failed_json env e | (s', Inr u) \<Rightarrow> answered env request status (Some [contentType]) body s'"
proof -
  define r where "r = setNegotiatedHeaders contentType (setStatus status (es_response s))"
  have "one_name (wr_headers (es_response s))" "\<not> wr_finalized (es_response s)"
    using assms(1) by (simp_all add: open_error_def)
  note n = negotiated_type [OF this(1), of contentType status, folded r_def] and fin = this(2)
  have run: "writeBody env request status contentType content s =
      send_error_body env (if isHead request then None else content) (s\<lparr>es_response := r\<rparr>)"
    using assms(1, 2) by (simp add: writeBody_def open_error_def on_error_response_def r_def)
  show ?thesis
  proof (cases "isHead request")
    case True
    then show ?thesis
      using n fin by (simp add: run send_error_body_def on_error_response_def send_def answered_def)
  next
    case False
    have "\<not> isJsonMediaType (stated_content_type (wr_headers r))" if "body = HtmlBody (Inl t)" for t
      using assms(3) [OF that] n(2) html_not_json by auto
    then have "case send_value (body_env env body) (body_value body) r of
        (r', Inl e) \<Rightarrow> failed_json env e
      | (r', Inr u) \<Rightarrow> \<exists>p. encoded env body = Inr p \<and> wr_body r' = Some p \<and> wr_committed r' \<and> wr_statusCode r' = Some status \<and>
          get_header (wr_headers r') ''content-type'' = Some [contentType]"
      using send_encoded [of r body env] n fin by (auto split: prod.splits sum.splits)
    moreover have "writeBody env request status contentType content s =
        (case send_value (body_env env body) (body_value body) r of (r', out) \<Rightarrow> (s\<lparr>es_response := r'\<rparr>, out))"
      unfolding run send_error_body_def using False content by simp
    ultimately show ?thesis
      using False by (auto simp: answered_def Let_def split: prod.splits sum.splits)
  qed
qed

lemma json_written:
  assumes "open_error s" "\<not> es_aborted s"
  shows "case writeCanonicalJson env request e s of
      (s', Inl f) \<Rightarrow> failed_json env f
    | (s', Inr u) \<Rightarrow> answered env request (hx_status e) (Some [JSON_CONTENT_TYPE]) (EnvelopeBody (createErrorResponse e (ee_requestId env))) s'"
  unfolding writeCanonicalJson_def using assms by (intro body_written) simp_all





section \<open>Every failure gets a permitted answer\<close>






















section \<open>What is refused and what is preferred\<close>

lemma sorted_pick: "sort_key f xs = x # ys \<Longrightarrow> x \<in> set xs \<and> (\<forall>y\<in>set xs. f x \<le> f y)"
proof -
  assume x: "sort_key f xs = x # ys"
  have "sorted (map f (x # ys))" "set (x # ys) = set xs"
    unfolding x [symmetric] by (rule sorted_sort_key, rule set_sort)
  then show ?thesis
    by auto
qed

text \<open>The selected representation is accepted, and none of the offers is accepted with a higher quality;
  nothing is selected only if no offer is accepted.\<close>

lemma selected_quality:
  assumes "offer \<in> set (error_offers available)" "offer_candidate (parse_accept_ranges v) offer = Some c"
  shows "\<exists>c' :: representation_candidate. selectErrorRepresentation (Some v) available = Some (rc_kind c') \<and> 0 < rc_quality c' \<and> rc_quality c \<le> rc_quality c'"
proof -
  define cs where "cs = List.map_filter (offer_candidate (parse_accept_ranges v)) (error_offers available)"
  have c: "c \<in> set cs"
    using assms by (force simp: cs_def map_filter_def)
  let ?sorted = "sort_key (\<lambda>c. - rc_quality c) (sort_key (\<lambda>c. 2 - rc_specificity c) (sort_key rc_priority cs))"
  obtain c' rest where sorted: "?sorted = c' # rest"
    using c by (cases ?sorted) (metis empty_iff empty_set set_sort)+
  then have "c' \<in> set cs" "- rc_quality c' \<le> - rc_quality c"
    using sorted_pick [OF sorted] c by auto
  moreover from this(1) obtain o' where "offer_candidate (parse_accept_ranges v) o' = Some c'"
    by (auto simp: cs_def map_filter_def)
  then have "0 < rc_quality c'"
    by (auto simp: offer_candidate_def split: option.splits prod.splits if_splits)
  moreover have "selectErrorRepresentation (Some v) available = Some (rc_kind c')"
    using sorted by (simp add: selectErrorRepresentation_def cs_def [symmetric])
  ultimately show ?thesis
    by auto
qed

lemma refused_only_unaccepted:
  assumes "selectErrorRepresentation (Some v) available = None" "(kind, mediaType, priority) \<in> set (error_offers available)"
    "bestRangeForMediaType (parse_accept_ranges v) mediaType = Some best"
  shows "ar_quality best \<le> 0"
proof (rule ccontr)
  assume "\<not> ar_quality best \<le> 0"
  then have "\<exists>c. offer_candidate (parse_accept_ranges v) (kind, mediaType, priority) = Some c"
    using assms(3) by (simp add: offer_candidate_def)
  then show False
    using selected_quality [OF assms(2)] assms(1) by fastforce
qed

section \<open>Samples\<close>




end
