(* ===== verification/Request_Pipeline.thy ===== *)
theory Request_Pipeline
  imports Handler_Mapping
begin

text \<open>
  \<open>packages/http/src/middleware/middleware.ts\<close>, \<open>guards.ts\<close>, \<open>interceptors.ts\<close> and the request scope of
  \<open>dispatch/dispatcher.ts\<close>: the chains a request runs through.  The world \<open>'w\<close> is everything user code
  reads and writes, the request and the response among it.  A piece of user code maps a world to a new
  one, says whether it resolved from the container of the request context, and returns or throws.  Code
  that calls \<open>next\<close> is a tree: what it does before, and how it goes on with what \<open>next\<close> did; it may call
  \<open>next\<close> any number of times and catch what it throws.
\<close>

section \<open>User code\<close>

datatype failure =
    Thrown nat
  | RequestAbortedError
  | HandlerNotFoundError
  | ForbiddenException
  | NotAcceptableException
  | InvariantError
  | NoHandlerMethod
  | ManagedSseCleanupError failure
  | ManagedSseOperationError failure

type_synonym ('w, 'r) code = "'w \<Rightarrow> 'w \<times> bool \<times> (failure + 'r)"

datatype ('w, 'r) prog =
    Stop "('w, 'r) code"
  | CallNext "('w, unit) code" "failure + 'r \<Rightarrow> 'w \<Rightarrow> ('w, 'r) prog"

text \<open>
  The request context: the world, the container of the request (\<open>cx_requestScoped\<close> once a request scope
  was made), whether resolving may still make one, the matched handler, and the result the route produced.
  \<open>cx_trace\<close> records what happened, in order.
\<close>

datatype handler_result = Undefined | PlainResult nat | CompatibleSse | AsyncIterable nat

datatype stage = RequestStart | HandlerMatched | RequestSuccess handler_result | RequestError failure | RequestFinish

datatype event =
    ScopeCreated
  | ScopeDisposed
  | DisposeFailed
  | Notified stage
  | ObserverCalled
  | ObserverFailed
  | GuardsStarted descriptor
  | GuardAllowed
  | HandlerInvoked descriptor
  | ErrorHandled
  | ErrorWritten

record 'w ctx =
  cx_world :: 'w
  cx_requestScoped :: bool
  cx_promotionOpen :: bool
  cx_matched :: "descriptor option"
  cx_result :: "handler_result option"
  cx_trace :: "event list"

definition emit :: "event \<Rightarrow> 'w ctx \<Rightarrow> 'w ctx" where
  "emit e x = x\<lparr>cx_trace := cx_trace x @ [e]\<rparr>"

definition ensureRequestScope :: "'w ctx \<Rightarrow> 'w ctx" where
  "ensureRequestScope x = (if cx_requestScoped x then x else emit ScopeCreated (x\<lparr>cx_requestScoped := True\<rparr>))"

text \<open>The container handed to user code: the first resolution makes a request scope while that is open.\<close>

definition promote :: "'w ctx \<Rightarrow> 'w ctx" where
  "promote x = (if cx_promotionOpen x then ensureRequestScope x else x)"

definition run_code :: "('w, 'r) code \<Rightarrow> 'w ctx \<Rightarrow> 'w ctx \<times> (failure + 'r)" where
  "run_code c x = (let (w, resolves, r) = c (cx_world x); x1 = x\<lparr>cx_world := w\<rparr> in (if resolves then promote x1 else x1, r))"

primrec run_prog :: "('w ctx \<Rightarrow> 'w ctx \<times> (failure + 'r)) \<Rightarrow> ('w, 'r) prog \<Rightarrow> 'w ctx \<Rightarrow> 'w ctx \<times> (failure + 'r)" where
  "run_prog nxt (Stop c) = run_code c"
| "run_prog nxt (CallNext c k) =
     (\<lambda>x. case run_code c x of
            (x1, Inl e) \<Rightarrow> (x1, Inl e)
          | (x1, Inr _) \<Rightarrow> (case nxt x1 of (x2, r) \<Rightarrow> run_prog nxt (k r (cx_world x2)) x2))"

text \<open>Sequencing: the first failure ends it.\<close>

definition and_then :: "'x \<times> (failure + 'a) \<Rightarrow> ('a \<Rightarrow> 'x \<Rightarrow> 'x \<times> (failure + 'b)) \<Rightarrow> 'x \<times> (failure + 'b)" where
  "and_then p f = (case p of (x, Inl e) \<Rightarrow> (x, Inl e) | (x, Inr a) \<Rightarrow> f a x)"

text \<open>An instance, or a token that is resolved from the container.\<close>

datatype ('w, 'a) definition_like = Instance 'a | Token "('w, 'a) code"

definition resolve_definition :: "('w, 'a) definition_like \<Rightarrow> 'w ctx \<Rightarrow> 'w ctx \<times> (failure + 'a)" where
  "resolve_definition d x =
     (case d of
        Instance a \<Rightarrow> (x, Inr a)
      | Token c \<Rightarrow> (case c (cx_world x) of (w, _, r) \<Rightarrow> (promote (x\<lparr>cx_world := w\<rparr>), r)))"

section \<open>Middleware\<close>

function normalizeRoutePattern :: "string \<Rightarrow> string" where
  "normalizeRoutePattern path =
     (if ends_with ''/*'' path then normalizeRoutePattern (take (length path - 2) path) @ ''/*'' else normalizeRoutePath path)"
  by auto
termination
  by (relation "measure length") (auto simp: ends_with_def)

declare normalizeRoutePattern.simps [simp del]

definition matchRoutePattern :: "string \<Rightarrow> string \<Rightarrow> bool" where
  "matchRoutePattern pattern path \<longleftrightarrow>
     (let normalizedPath = normalizeRoutePattern path; normalizedPattern = normalizeRoutePattern pattern
      in if ends_with ''/*'' normalizedPattern
         then (let pre = take (length normalizedPattern - 2) normalizedPattern
               in normalizedPath = pre \<or> starts_with (pre @ ''/'') normalizedPath)
         else normalizedPath = normalizedPattern)"

text \<open>
  A middleware definition: the framework's own security headers, which only write headers and go on; an
  instance or a token; or a class restricted to routes.
\<close>

datatype 'w middleware_like =
    SecurityHeaders "'w \<Rightarrow> 'w"
  | Plain "('w, ('w, unit) prog) definition_like"
  | ForRoutes "string list" "('w, ('w, unit) prog) code"

definition security_prog :: "('w \<Rightarrow> 'w) \<Rightarrow> ('w, unit) prog" where
  "security_prog applyHeaders = CallNext (\<lambda>w. (applyHeaders w, False, Inr ())) (\<lambda>r w. Stop (\<lambda>w. (w, False, r)))"

definition route_applies :: "string list \<Rightarrow> string \<Rightarrow> bool" where
  "route_applies routes path \<longleftrightarrow> routes = [] \<or> list_ex (\<lambda>route. matchRoutePattern route path) routes"

definition resolveMiddleware :: "'w middleware_like \<Rightarrow> 'w ctx \<Rightarrow> 'w ctx \<times> (failure + ('w, unit) prog)" where
  "resolveMiddleware d x =
     (case d of
        SecurityHeaders f \<Rightarrow> (x, Inr (security_prog f))
      | Plain p \<Rightarrow> resolve_definition p x
      | ForRoutes routes c \<Rightarrow> resolve_definition (Token c) x)"

text \<open>The path is read once, before the first definition is resolved.\<close>

fun resolve_active :: "string \<Rightarrow> 'w middleware_like list \<Rightarrow> 'w ctx \<Rightarrow> 'w ctx \<times> (failure + ('w, unit) prog list)" where
  "resolve_active path [] x = (x, Inr [])"
| "resolve_active path (d # ds) x =
     (if (case d of ForRoutes routes c \<Rightarrow> \<not> route_applies routes path | _ \<Rightarrow> False) then resolve_active path ds x
      else (case resolveMiddleware d x of
              (x1, Inl e) \<Rightarrow> (x1, Inl e)
            | (x1, Inr m) \<Rightarrow>
                (case resolve_active path ds x1 of
                   (x2, Inl e) \<Rightarrow> (x2, Inl e)
                 | (x2, Inr ms) \<Rightarrow> (x2, Inr (m # ms)))))"

definition runMiddlewareChain ::
  "('w \<Rightarrow> string) \<Rightarrow> 'w middleware_like list \<Rightarrow> ('w ctx \<Rightarrow> 'w ctx \<times> (failure + unit)) \<Rightarrow> 'w ctx \<Rightarrow> 'w ctx \<times> (failure + unit)" where
  "runMiddlewareChain path definitions terminal x =
     (if definitions = [] then terminal x
      else (case resolve_active (path (cx_world x)) definitions x of
              (x1, Inl e) \<Rightarrow> (x1, Inl e)
            | (x1, Inr chain) \<Rightarrow> foldr (\<lambda>m nxt. run_prog nxt m) chain terminal x1))"

section \<open>Guards\<close>

text \<open>A guard answers \<open>False\<close> to refuse; any other value of the program lets the request pass.\<close>

fun run_guards :: "('w, ('w, bool) code) definition_like list \<Rightarrow> 'w ctx \<Rightarrow> 'w ctx \<times> (failure + unit)" where
  "run_guards [] x = (x, Inr ())"
| "run_guards (d # ds) x =
     (case resolve_definition d x of
        (x1, Inl e) \<Rightarrow> (x1, Inl e)
      | (x1, Inr guard) \<Rightarrow>
          (case run_code guard x1 of
             (x2, Inl e) \<Rightarrow> (x2, Inl e)
           | (x2, Inr allowed) \<Rightarrow>
               if allowed then run_guards ds (emit GuardAllowed x2) else (x2, Inl ForbiddenException)))"

definition runGuardChain ::
  "descriptor \<Rightarrow> ('w, ('w, bool) code) definition_like list \<Rightarrow> 'w ctx \<Rightarrow> 'w ctx \<times> (failure + unit)" where
  "runGuardChain handler definitions x = (if definitions = [] then (x, Inr ()) else run_guards definitions (emit (GuardsStarted handler) x))"

section \<open>Interceptors\<close>

text \<open>The chain is built from the last definition to the first: the first one runs outermost.\<close>

fun build_interceptors ::
  "('w, ('w, 'r) prog) definition_like list \<Rightarrow> ('w ctx \<Rightarrow> 'w ctx \<times> (failure + 'r)) \<Rightarrow> 'w ctx \<Rightarrow>
   'w ctx \<times> (failure + ('w ctx \<Rightarrow> 'w ctx \<times> (failure + 'r)))" where
  "build_interceptors [] nxt x = (x, Inr nxt)"
| "build_interceptors (d # ds) nxt x =
     (case resolve_definition d x of
        (x1, Inl e) \<Rightarrow> (x1, Inl e)
      | (x1, Inr interceptor) \<Rightarrow> build_interceptors ds (run_prog nxt interceptor) x1)"

definition runInterceptorChain ::
  "('w, ('w, 'r) prog) definition_like list \<Rightarrow> ('w ctx \<Rightarrow> 'w ctx \<times> (failure + 'r)) \<Rightarrow> 'w ctx \<Rightarrow> 'w ctx \<times> (failure + 'r)" where
  "runInterceptorChain definitions terminal x =
     (case build_interceptors (rev definitions) terminal x of
        (x1, Inl e) \<Rightarrow> (x1, Inl e)
      | (x1, Inr handle) \<Rightarrow> handle x1)"

section \<open>Observers\<close>

type_synonym 'w observer = "stage \<Rightarrow> ('w, unit) code option"

definition notify_one :: "stage \<Rightarrow> ('w, 'w observer) definition_like \<Rightarrow> 'w ctx \<Rightarrow> 'w ctx" where
  "notify_one s d x =
     (case resolve_definition d x of
        (x1, Inl e) \<Rightarrow> emit ObserverFailed x1
      | (x1, Inr observer) \<Rightarrow>
          (case observer s of
             None \<Rightarrow> x1
           | Some callback \<Rightarrow>
               (case run_code callback (emit ObserverCalled x1) of
                  (x2, Inl e) \<Rightarrow> emit ObserverFailed x2
                | (x2, Inr _) \<Rightarrow> x2)))"

definition notifyObserversSafely :: "stage \<Rightarrow> ('w, 'w observer) definition_like list \<Rightarrow> 'w ctx \<Rightarrow> 'w ctx" where
  "notifyObserversSafely s observers x = (if observers = [] then x else fold (notify_one s) observers (emit (Notified s) x))"

section \<open>What the chains keep\<close>

text \<open>
  An invariant of the request context that user code keeps: it survives a change of the world and the
  making of a request scope.  The chains keep it when what they call does.
\<close>

locale pipeline_invariant =
  fixes I :: "'w ctx \<Rightarrow> bool"
  assumes keeps_world: "I x \<Longrightarrow> I (x\<lparr>cx_world := w\<rparr>)"
    and keeps_scope: "I x \<Longrightarrow> I (ensureRequestScope x)"
begin

lemma keeps_promote: "I x \<Longrightarrow> I (promote x)"
  by (simp add: promote_def keeps_scope)

lemma keeps_code: "I x \<Longrightarrow> I (fst (run_code c x))"
  by (simp add: run_code_def Let_def keeps_promote keeps_world split: prod.split)

lemma keeps_and_then:
  assumes "I (fst p)" and "\<And>a x1. p = (x1, Inr a) \<Longrightarrow> I x1 \<Longrightarrow> I (fst (f a x1))"
  shows "I (fst (and_then p f))"
  using assms by (cases p; cases "snd p") (auto simp: and_then_def)

lemma keeps_resolve: "I x \<Longrightarrow> I (fst (resolve_definition d x))"
  by (simp add: resolve_definition_def keeps_promote keeps_world split: definition_like.split prod.split)

lemma keeps_prog:
  assumes nxt: "\<And>y. I y \<Longrightarrow> I (fst (nxt y))"
  shows "I x \<Longrightarrow> I (fst (run_prog nxt p x))"
proof (induction p arbitrary: x)
  case (Stop c)
  then show ?case
    by (simp add: keeps_code)
next
  case (CallNext c k)
  obtain x1 r1 where ran: "run_code c x = (x1, r1)"
    by fastforce
  obtain x2 r2 where went: "nxt x1 = (x2, r2)"
    by fastforce
  have "I x1"
    using keeps_code [OF CallNext.prems, of c] ran by simp
  moreover from this have "I x2"
    using nxt [of x1] went by simp
  ultimately show ?case
    using CallNext.IH [OF rangeI rangeI] ran went by (cases r1; simp)
qed

lemma keeps_resolveMiddleware: "I x \<Longrightarrow> I (fst (resolveMiddleware d x))"
  by (simp add: resolveMiddleware_def keeps_resolve split: middleware_like.split)

lemma keeps_resolve_active: "I x \<Longrightarrow> I (fst (resolve_active path ds x))"
proof (induction path ds x rule: resolve_active.induct)
  case (2 path d ds x)
  obtain x1 r1 where resolved: "resolveMiddleware d x = (x1, r1)"
    by fastforce
  have "I x1"
    using keeps_resolveMiddleware [OF 2(3), of d] resolved by simp
  show ?case
  proof (cases "case d of ForRoutes routes c \<Rightarrow> \<not> route_applies routes path | _ \<Rightarrow> False")
    case True
    then show ?thesis
      using 2(1) 2(3) by simp
  next
    case False
    show ?thesis
    proof (cases r1)
      case (Inl e)
      then show ?thesis
        using False resolved \<open>I x1\<close> by simp
    next
      case (Inr m)
      have "I (fst (resolve_active path ds x1))"
        using 2(2) [OF False resolved [symmetric] Inr \<open>I x1\<close>] .
      then show ?thesis
        using False resolved Inr
        by (cases "resolve_active path ds x1"; cases "snd (resolve_active path ds x1)") simp_all
    qed
  qed
qed simp

lemma keeps_middleware_chain:
  assumes nxt: "\<And>y. I y \<Longrightarrow> I (fst (terminal y))" and start: "I x"
  shows "I (fst (runMiddlewareChain path ds terminal x))"
proof -
  have "I y \<Longrightarrow> I (fst (foldr (\<lambda>m nxt. run_prog nxt m) chain terminal y))" for chain :: "('w, unit) prog list" and y
    by (induction chain arbitrary: y) (simp_all add: nxt keeps_prog)
  then show ?thesis
    using keeps_resolve_active [OF start, of "path (cx_world x)" ds] nxt [OF start]
    by (cases "resolve_active (path (cx_world x)) ds x"; cases "snd (resolve_active (path (cx_world x)) ds x)") (simp_all add: runMiddlewareChain_def)
qed

lemma keeps_interceptor_chain:
  assumes nxt: "\<And>y. I y \<Longrightarrow> I (fst (terminal y))" and start: "I x"
  shows "I (fst (runInterceptorChain ds terminal x))"
proof -
  have "I y \<Longrightarrow> (\<And>z. I z \<Longrightarrow> I (fst (inner z))) \<Longrightarrow> build_interceptors es inner y = (y1, r) \<Longrightarrow>
      I y1 \<and> (\<forall>handle. r = Inr handle \<longrightarrow> (\<forall>z. I z \<longrightarrow> I (fst (handle z))))"
    for es inner y y1 r
  proof (induction es arbitrary: inner y)
    case (Cons d es)
    obtain y2 r2 where resolved: "resolve_definition d y = (y2, r2)"
      by fastforce
    have "I y2"
      using keeps_resolve [OF Cons.prems(1), of d] resolved by simp
    show ?case
    proof (cases r2)
      case (Inl e)
      then show ?thesis
        using Cons.prems(3) resolved \<open>I y2\<close> by auto
    next
      case (Inr interceptor)
      have "I z \<Longrightarrow> I (fst (run_prog inner interceptor z))" for z
        by (rule keeps_prog) (rule Cons.prems(2))
      then show ?thesis
        using Cons.IH [OF \<open>I y2\<close>, of "run_prog inner interceptor"] Cons.prems(3) resolved Inr by simp
    qed
  qed auto
  from this [OF start nxt] show ?thesis
    by (simp add: runInterceptorChain_def split: prod.split sum.split)
qed

end

text \<open>An invariant that does not look at observers, either; and one that sees nothing of guards and handlers.\<close>

locale observer_invariant = pipeline_invariant I for I :: "'w ctx \<Rightarrow> bool" +
  assumes keeps_observed: "e \<in> {ObserverCalled, ObserverFailed} \<Longrightarrow> I x \<Longrightarrow> I (emit e x)"
begin

lemma keeps_notified:
  assumes "os \<noteq> [] \<Longrightarrow> I (emit (Notified s) x)" and "os = [] \<Longrightarrow> I x"
  shows "I (notifyObserversSafely s os x)"
proof -
  have one: "I (notify_one s d y)" if "I y" for d y
  proof -
    obtain y1 r1 where resolved: "resolve_definition d y = (y1, r1)"
      by fastforce
    have "I y1"
      using keeps_resolve [OF that, of d] resolved by simp
    then have "I (emit ObserverFailed y1)" "I (emit ObserverCalled y1)"
      by (simp_all add: keeps_observed)
    moreover have "I (fst (run_code c (emit ObserverCalled y1)))" for c :: "('w, unit) code"
      by (rule keeps_code) (rule \<open>I (emit ObserverCalled y1)\<close>)
    then have "run_code c (emit ObserverCalled y1) = (y2, r2) \<Longrightarrow> I y2 \<and> I (emit ObserverFailed y2)" for c :: "('w, unit) code" and y2 r2
      using keeps_observed by (metis fst_conv insertI1 insertI2)
    ultimately show ?thesis
      using \<open>I y1\<close> resolved by (simp add: notify_one_def split: prod.split sum.split option.split)
  qed
  have "I y \<Longrightarrow> I (fold (notify_one s) os y)" for y
    by (induction os arbitrary: y) (simp_all add: one)
  with assms show ?thesis
    by (simp add: notifyObserversSafely_def)
qed

end

fun routine :: "event \<Rightarrow> bool" where
  "routine ObserverCalled = True"
| "routine ObserverFailed = True"
| "routine (Notified HandlerMatched) = True"
| "routine (GuardsStarted _) = True"
| "routine GuardAllowed = True"
| "routine (HandlerInvoked _) = True"
| "routine _ = False"

locale routine_invariant = observer_invariant I for I :: "'w ctx \<Rightarrow> bool" +
  assumes keeps_routine: "routine e \<Longrightarrow> I x \<Longrightarrow> I (emit e x)"
begin

lemma keeps_guards: "I x \<Longrightarrow> I (fst (runGuardChain d gs x))"
proof -
  have "I y \<Longrightarrow> I (fst (run_guards gs y))" for gs y
  proof (induction gs y rule: run_guards.induct)
    case (2 g gs y)
    obtain y1 r1 where resolved: "resolve_definition g y = (y1, r1)"
      by fastforce
    have "I y1"
      using keeps_resolve [OF 2(2), of g] resolved by simp
    show ?case
    proof (cases r1)
      case (Inl e)
      then show ?thesis
        using resolved \<open>I y1\<close> by simp
    next
      case (Inr guard)
      obtain y2 r2 where ran: "run_code guard y1 = (y2, r2)"
        by fastforce
      have "I y2"
        using keeps_code [OF \<open>I y1\<close>, of guard] ran by simp
      then have "r2 = Inr True \<Longrightarrow> I (fst (run_guards gs (emit GuardAllowed y2)))"
        using 2(1) [OF resolved [symmetric] Inr ran [symmetric]] keeps_routine by simp
      with \<open>I y2\<close> show ?thesis
        using resolved Inr ran by (simp split: sum.split)
    qed
  qed simp
  then show "I x \<Longrightarrow> ?thesis"
    by (simp add: runGuardChain_def keeps_routine)
qed

end

section \<open>Which routes a middleware is restricted to\<close>

lemma segments_append: "path_segments (a @ CHR ''/'' # b) = path_segments a @ path_segments b"
proof -
  have "split_on c (xs @ c # ys) = split_on c xs @ split_on c ys" for c :: char and xs ys
    by (induction c xs rule: split_on.induct) (auto split: list.split)
  then show ?thesis
    by (simp add: path_segments_def)
qed

lemma join_append: "xs \<noteq> [] \<Longrightarrow> ys \<noteq> [] \<Longrightarrow> join_with sep (xs @ ys) = join_with sep xs @ sep @ join_with sep ys"
proof (induction xs)
  case (Cons x xs)
  then show ?case
    by (cases "xs = []") (simp_all add: join_with_Cons)
qed simp

lemma subtree_prefix:
  assumes "path_segments p \<noteq> []"
  shows "normalizeRoutePath q = normalizeRoutePath p \<or> starts_with (normalizeRoutePath p @ ''/'') (normalizeRoutePath q) \<longleftrightarrow>
    (\<exists>ss. path_segments q = path_segments p @ ss)"
proof
  assume "normalizeRoutePath q = normalizeRoutePath p \<or> starts_with (normalizeRoutePath p @ ''/'') (normalizeRoutePath q)"
  then consider "path_segments q = path_segments p" | rest where "normalizeRoutePath q = normalizeRoutePath p @ CHR ''/'' # rest"
    unfolding starts_with_def normalize_eq_iff by (metis append.assoc append_Cons append_Nil append_take_drop_id)
  then show "\<exists>ss. path_segments q = path_segments p @ ss"
  proof cases
    case 2
    then have "path_segments q = path_segments (normalizeRoutePath p @ CHR ''/'' # rest)"
      by (metis segments_normalize)
    then show ?thesis
      by (simp add: segments_append)
  qed simp
next
  assume "\<exists>ss. path_segments q = path_segments p @ ss"
  then obtain ss where "path_segments q = path_segments p @ ss"
    by blast
  then show "normalizeRoutePath q = normalizeRoutePath p \<or> starts_with (normalizeRoutePath p @ ''/'') (normalizeRoutePath q)"
    using assms by (cases "ss = []") (simp_all add: normalizeRoutePath_def join_append starts_with_def)
qed

lemma plain_pattern: "\<not> ends_with ''/*'' p \<Longrightarrow> normalizeRoutePattern p = normalizeRoutePath p"
  by (simp add: normalizeRoutePattern.simps)

lemma star_pattern: "normalizeRoutePattern (p @ ''/*'') = normalizeRoutePattern p @ ''/*''"
  by (subst normalizeRoutePattern.simps) (simp add: ends_with_def)

text \<open>The wildcard selector of the root: its prefix is normalized to one slash.\<close>

lemma root_wildcard:
  assumes "path_segments p = []" "\<not> ends_with ''/*'' p" "\<not> ends_with ''/*'' q"
  shows "matchRoutePattern (p @ ''/*'') q \<longleftrightarrow> path_segments q = []"
proof -
  have "normalizeRoutePattern (p @ ''/*'') = ''//*''"
    using assms by (simp add: star_pattern plain_pattern normalizeRoutePath_def)
  moreover have "\<not> starts_with ''//'' (normalizeRoutePath q)"
  proof (cases "path_segments q")
    case (Cons s ss)
    then obtain c cs where s: "s = c # cs" "c \<noteq> CHR ''/''"
      using segments_no_slash [of s q] by (cases s) auto
    with Cons show ?thesis
      by (cases ss) (simp_all add: normalizeRoutePath_def starts_with_def)
  qed (simp add: normalizeRoutePath_def starts_with_def)
  moreover have "normalizeRoutePath q = ''/'' \<longleftrightarrow> path_segments q = []"
    using normalize_eq_iff [of q "[]"] by (simp add: normalizeRoutePath_def path_segments_def)
  ultimately show ?thesis
    using assms by (simp add: matchRoutePattern_def plain_pattern ends_with_def [of _ "''//*''"])
qed

text \<open>
  A selector \<open>P/*\<close> picks exactly the request paths at or below \<open>P\<close>, segment by segment: \<open>/users/*\<close>
  picks \<open>/users\<close> and \<open>/users/1\<close> but not \<open>/users2\<close>, whatever duplicate or trailing slashes are written.
  Only the selector \<open>/*\<close> of the root picks nothing below it: a path below would have to begin with two
  slashes, which no normalized path does.
\<close>

theorem route_selector_subtree:
  assumes "\<not> ends_with ''/*'' p" "\<not> ends_with ''/*'' q"
  shows "matchRoutePattern (p @ ''/*'') q \<longleftrightarrow>
    (if path_segments p = [] then path_segments q = [] else \<exists>ss. path_segments q = path_segments p @ ss)"
proof (cases "path_segments p = []")
  case False
  then show ?thesis
    using subtree_prefix [of p q] assms
    by (simp add: matchRoutePattern_def star_pattern plain_pattern ends_with_def [of "''/*''" "_ @ ''/*''"])
qed (use root_wildcard assms in simp)

theorem route_selector_subtree_witness:
  "matchRoutePattern ''/users/*'' ''//users/1/'' \<and> \<not> matchRoutePattern ''/users/*'' ''/users2'' \<and> \<not> matchRoutePattern ''/*'' ''/users''"
  using route_selector_subtree [of "''/users''" "''//users/1/''"] route_selector_subtree [of "''/users''" "''/users2''"]
    route_selector_subtree [of "[]" "''/users''"]
  by (simp add: ends_with_def path_segments_def)

end
