(* ===== verification/Dispatcher.thy ===== *)
theory Dispatcher
  imports Request_Pipeline Conditional_Request Content_Negotiation
begin

text \<open>
  \<open>packages/http/src/dispatch/dispatcher.ts\<close>, \<open>dispatch-handler-policy.ts\<close>, \<open>dispatch-routing-policy.ts\<close>,
  \<open>native-route-handoff.ts\<close>, \<open>fast-path/eligibility-checker.ts\<close>, \<open>fast-path/dispatcher-state.ts\<close> and
  \<open>fast-path/fast-path-executor.ts\<close>: one request from the adapter to the response.  User code, the response
  writers and the streams of server-sent events are values of the options.
\<close>

section \<open>The request, the response and the options\<close>

text \<open>
  What user code works on: the framework request with its parameters and native route handoff, whether the
  transport was aborted, whether the response is committed, and the rest of the program.
\<close>

record 'u world =
  wd_request :: http_request
  wd_params :: "(string, string) js_map"
  wd_handoff :: "(handler_match \<times> string \<times> string) option"
  wd_aborted :: bool
  wd_committed :: bool
  wd_data :: 'u

text \<open>The request type of a route: whether a field has a converter or needs validation, the active binder
  applied to it, and the validator.\<close>

record 'u request_dto =
  rd_converter :: bool
  rd_needsValidation :: bool
  rd_bind :: "('u world, nat) code"
  rd_validate :: "nat \<Rightarrow> ('u world, unit) code"

type_synonym 'u writer =
  "negotiation option \<Rightarrow> handler_result \<Rightarrow> response_validators option \<Rightarrow> outcome option \<Rightarrow> ('u world, unit) code"

record 'u dispatch_options =
  od_appMiddleware :: "'u world middleware_like list"
  od_customBinder :: bool
  od_formatters :: "formatter list"
  od_defaultMediaType :: "string option"
  od_conditionalRequest :: "(descriptor \<Rightarrow> ('u world, resolution) code) option"
  od_year :: int
  od_handlerMapping :: handler_mapping
  od_interceptors :: "('u world, ('u world, handler_result) prog) definition_like list"
  od_observers :: "('u world, 'u world observer) definition_like list"
  od_debugHeader :: "(bool \<Rightarrow> 'u world \<Rightarrow> 'u world) option"
  od_onError :: "(failure \<Rightarrow> ('u world, bool) code) option"
  od_converterDefinitions :: nat
  od_requestScopedDependency :: "(nat \<Rightarrow> bool) option"
  od_correlation :: "'u world \<Rightarrow> 'u world"
  od_dispose :: "('u world, unit) code"
  od_guard :: "nat \<Rightarrow> ('u world, ('u world, bool) code) definition_like"
  od_interceptor :: "nat \<Rightarrow> ('u world, ('u world, handler_result) prog) definition_like"
  od_middleware :: "nat \<Rightarrow> 'u world middleware_like"
  od_requestDto :: "descriptor \<Rightarrow> 'u request_dto option"
  od_methodLength :: "descriptor \<Rightarrow> nat option"
  od_redirect :: "descriptor \<Rightarrow> bool"
  od_finalizer :: "'u world \<Rightarrow> bool"
  od_controller :: "nat \<Rightarrow> bool \<Rightarrow> ('u world, nat) code"
  od_method :: "descriptor \<Rightarrow> nat \<Rightarrow> (nat option \<Rightarrow> ('u world, handler_result) code) option"
  od_waitForSse :: "('u world, unit) code"
  od_managedSse :: "nat \<Rightarrow> ('u world, unit) code"
  od_writeSuccess :: "descriptor \<Rightarrow> 'u writer"
  od_writeError :: "failure \<Rightarrow> descriptor option \<Rightarrow> ('u world, unit) code"

definition get_guards :: "'u dispatch_options \<Rightarrow> descriptor \<Rightarrow> ('u world, ('u world, bool) code) definition_like list" where
  "get_guards options d = map (od_guard options) (de_guards d)"

definition module_middleware :: "'u dispatch_options \<Rightarrow> descriptor \<Rightarrow> 'u world middleware_like list" where
  "module_middleware options d = map (od_middleware options) (de_middleware d)"

definition route_interceptors :: "'u dispatch_options \<Rightarrow> descriptor \<Rightarrow> ('u world, ('u world, handler_result) prog) definition_like list" where
  "route_interceptors options d = map (od_interceptor options) (de_interceptors d)"

definition dispatcher_negotiation :: "'u dispatch_options \<Rightarrow> negotiation option" where
  "dispatcher_negotiation options = resolveContentNegotiation (od_formatters options) (od_defaultMediaType options)"

definition is_security_headers :: "'w middleware_like \<Rightarrow> bool" where
  "is_security_headers d = (case d of SecurityHeaders _ \<Rightarrow> True | _ \<Rightarrow> False)"

section \<open>Request scope plans\<close>

definition activeMiddlewareMayRequireRequestScope :: "'w middleware_like list \<Rightarrow> string \<Rightarrow> bool" where
  "activeMiddlewareMayRequireRequestScope definitions path \<longleftrightarrow>
     list_ex (\<lambda>d. case d of SecurityHeaders _ \<Rightarrow> False | Plain _ \<Rightarrow> True | ForRoutes routes _ \<Rightarrow> route_applies routes path) definitions"

text \<open>A plan: whether a scope is always required, and the definitions to look at otherwise.\<close>

definition compileMiddlewareScopePlan :: "'w middleware_like list \<Rightarrow> bool \<times> 'w middleware_like list" where
  "compileMiddlewareScopePlan definitions =
     (if list_ex (\<lambda>d. case d of SecurityHeaders _ \<Rightarrow> False | Plain _ \<Rightarrow> True | ForRoutes routes _ \<Rightarrow> routes = []) definitions
      then (True, []) else (False, definitions))"

definition compiledMiddlewareMayRequireRequestScope :: "bool \<times> 'w middleware_like list \<Rightarrow> string \<Rightarrow> bool" where
  "compiledMiddlewareMayRequireRequestScope plan path \<longleftrightarrow> fst plan \<or> activeMiddlewareMayRequireRequestScope (snd plan) path"

definition requestDtoMayRequireRequestScope :: "'u dispatch_options \<Rightarrow> descriptor \<Rightarrow> bool" where
  "requestDtoMayRequireRequestScope options d \<longleftrightarrow>
     (case od_requestDto options d of
        None \<Rightarrow> False
      | Some dto \<Rightarrow> od_converterDefinitions options > 0 \<or> od_customBinder options \<or> rd_converter dto)"

definition handlerMethodMayUseRequestContext :: "'u dispatch_options \<Rightarrow> descriptor \<Rightarrow> bool" where
  "handlerMethodMayUseRequestContext options d \<longleftrightarrow> (case od_methodLength options d of None \<Rightarrow> False | Some n \<Rightarrow> n \<ge> 2)"

definition has_request_scoped_dependency :: "'u dispatch_options \<Rightarrow> descriptor \<Rightarrow> bool" where
  "has_request_scoped_dependency options d \<longleftrightarrow> (case od_requestScopedDependency options of None \<Rightarrow> True | Some f \<Rightarrow> f (de_controller d))"

definition mergeInterceptors :: "'a list \<Rightarrow> 'a list \<Rightarrow> 'a list" where
  "mergeInterceptors globalInterceptors routeInterceptors =
     (if globalInterceptors = [] then routeInterceptors
      else if routeInterceptors = [] then globalInterceptors
      else globalInterceptors @ routeInterceptors)"

record 'u execution_plan =
  ep_mergedInterceptors :: "('u world, ('u world, handler_result) prog) definition_like list"
  ep_requestScope :: "bool \<times> 'u world middleware_like list"
  ep_requiresRequestScope :: bool
  ep_routeGuards :: "('u world, ('u world, bool) code) definition_like list"

definition compileHandlerExecutionPlan :: "'u dispatch_options \<Rightarrow> descriptor \<Rightarrow> 'u execution_plan" where
  "compileHandlerExecutionPlan options d =
     (let routeGuards = get_guards options d;
          requestScope = compileMiddlewareScopePlan (module_middleware options d);
          mergedInterceptors = mergeInterceptors (od_interceptors options) (route_interceptors options d)
      in \<lparr>ep_mergedInterceptors = mergedInterceptors,
          ep_requestScope = requestScope,
          ep_requiresRequestScope =
            (routeGuards \<noteq> [] \<or> mergedInterceptors \<noteq> [] \<or> fst requestScope \<or> requestDtoMayRequireRequestScope options d
             \<or> handlerMethodMayUseRequestContext options d \<or> has_request_scoped_dependency options d),
          ep_routeGuards = routeGuards\<rparr>)"

definition handlerMayRequireRequestScope :: "'u execution_plan \<Rightarrow> string \<Rightarrow> bool" where
  "handlerMayRequireRequestScope plan path \<longleftrightarrow>
     ep_requiresRequestScope plan \<or> compiledMiddlewareMayRequireRequestScope (ep_requestScope plan) path"

definition dispatchStartMayRequireRequestScope :: "'u dispatch_options \<Rightarrow> string \<Rightarrow> bool" where
  "dispatchStartMayRequireRequestScope options path \<longleftrightarrow>
     (let plan = compileMiddlewareScopePlan (od_appMiddleware options)
      in (od_observers options \<noteq> [] \<or> fst plan) \<or> compiledMiddlewareMayRequireRequestScope plan path)"

section \<open>Fast path eligibility\<close>

definition determineRequestScopeRequirement :: "'u dispatch_options \<Rightarrow> descriptor \<Rightarrow> bool" where
  "determineRequestScopeRequirement options d \<longleftrightarrow>
     de_guards d \<noteq> [] \<or> de_interceptors d \<noteq> [] \<or> de_middleware d \<noteq> []
     \<or> requestDtoMayRequireRequestScope options d \<or> has_request_scoped_dependency options d"

definition determineMiddlewareRequirement :: "'u dispatch_options \<Rightarrow> descriptor \<Rightarrow> bool" where
  "determineMiddlewareRequirement options d \<longleftrightarrow>
     (if length (od_appMiddleware options) > 1 \<or> list_ex (\<lambda>m. \<not> is_security_headers m) (od_appMiddleware options) then True
      else de_middleware d \<noteq> [])"

definition isSseRoute :: "descriptor \<Rightarrow> bool" where
  "isSseRoute d \<longleftrightarrow> (case de_produces d of None \<Rightarrow> False | Some ms \<Rightarrow> list_ex (\<lambda>m. starts_with ''text/event-stream'' (js_lower m)) ms)"

definition blocking_reasons :: "'u dispatch_options \<Rightarrow> descriptor \<Rightarrow> string list" where
  "blocking_reasons options d =
     (if de_guards d \<noteq> [] then [''guards''] else [])
     @ (if de_interceptors d \<noteq> [] \<or> od_interceptors options \<noteq> [] then [''interceptors''] else [])
     @ (if determineRequestScopeRequirement options d then [''request-scoped DI''] else [])
     @ (if determineMiddlewareRequirement options d then [''middleware''] else [])
     @ (if od_observers options \<noteq> [] then [''request observers''] else [])
     @ (if od_onError options \<noteq> None then [''custom error filter''] else [])
     @ (if od_customBinder options then [''custom binder''] else [])
     @ (if od_formatters options \<noteq> [] then [''content negotiation''] else [])
     @ (if od_conditionalRequest options \<noteq> None then [''conditional requests''] else [])
     @ (if isSseRoute d then [''SSE streaming''] else [])"

definition compileFastPathEligibility :: "'u dispatch_options \<Rightarrow> descriptor \<Rightarrow> bool" where
  "compileFastPathEligibility options d \<longleftrightarrow> blocking_reasons options d = []"

text \<open>The routes of the dispatcher have an eligibility, \<open>Some True\<close> for the fast path; others have none.\<close>

definition getEligibility :: "'u dispatch_options \<Rightarrow> descriptor \<Rightarrow> bool option" where
  "getEligibility options d =
     (if d \<in> set (ma_descriptors (od_handlerMapping options)) then Some (compileFastPathEligibility options d) else None)"

definition shouldUseFastPathForRequest :: "bool option \<Rightarrow> 'u world \<Rightarrow> bool" where
  "shouldUseFastPathForRequest eligibility w \<longleftrightarrow> eligibility = Some True \<and> \<not> wd_aborted w"

section \<open>The request of a dispatch\<close>

definition consumeFrameworkRequestNativeRouteHandoff :: "'u world \<Rightarrow> 'u world \<times> handler_match option" where
  "consumeFrameworkRequestNativeRouteHandoff w =
     (w\<lparr>wd_handoff := None\<rparr>,
      case wd_handoff w of
        None \<Rightarrow> None
      | Some (handoff, m, path) \<Rightarrow>
          if m = hr_method (wd_request w) \<and> path = hr_path (wd_request w) then Some handoff else None)"

definition attachFrameworkRequestNativeRouteHandoff :: "handler_match \<Rightarrow> 'u world \<Rightarrow> 'u world" where
  "attachFrameworkRequestNativeRouteHandoff handoff w =
     w\<lparr>wd_handoff := Some (handoff, hr_method (wd_request w), hr_path (wd_request w))\<rparr>"

definition createDispatchRequest :: "'u world \<Rightarrow> 'u world" where
  "createDispatchRequest w =
     (case consumeFrameworkRequestNativeRouteHandoff w of
        (w1, None) \<Rightarrow> w1
      | (w1, Some handoff) \<Rightarrow> attachFrameworkRequestNativeRouteHandoff handoff w1)"

definition matchHandlerOrThrow :: "handler_mapping \<Rightarrow> http_request \<Rightarrow> failure + handler_match" where
  "matchHandlerOrThrow m request = (case mapping_match m request of None \<Rightarrow> Inl HandlerNotFoundError | Some mt \<Rightarrow> Inr mt)"

definition updateRequestParams :: "(string, string) js_map \<Rightarrow> 'u world \<Rightarrow> 'u world" where
  "updateRequestParams params w = w\<lparr>wd_params := params\<rparr>"

definition map_world :: "('w \<Rightarrow> 'w) \<Rightarrow> 'w ctx \<Rightarrow> 'w ctx" where
  "map_world f x = x\<lparr>cx_world := f (cx_world x)\<rparr>"

definition ensureRequestNotAborted :: "'u world ctx \<Rightarrow> 'u world ctx \<times> (failure + unit)" where
  "ensureRequestNotAborted x = (x, if wd_aborted (cx_world x) then Inl RequestAbortedError else Inr ())"

section \<open>The handler\<close>

definition bind_input :: "'u dispatch_options \<Rightarrow> descriptor \<Rightarrow> 'u world ctx \<Rightarrow> 'u world ctx \<times> (failure + nat option)" where
  "bind_input options d x =
     (case od_requestDto options d of
        None \<Rightarrow> (x, Inr None)
      | Some dto \<Rightarrow>
          and_then (run_code (rd_bind dto) x) (\<lambda>input x1.
            if rd_needsValidation dto then and_then (run_code (rd_validate dto input) x1) (\<lambda>_ x2. (x2, Inr (Some input)))
            else (x1, Inr (Some input))))"

definition invokeControllerHandler ::
  "'u dispatch_options \<Rightarrow> descriptor \<Rightarrow> bool \<Rightarrow> 'u world ctx \<Rightarrow> 'u world ctx \<times> (failure + handler_result)" where
  "invokeControllerHandler options d scoped x =
     and_then (run_code (od_controller options (de_controller d) scoped) x) (\<lambda>controller x1.
       case od_method options d controller of
         None \<Rightarrow> (x1, Inl InvariantError)
       | Some handler_method \<Rightarrow>
           and_then (bind_input options d x1) (\<lambda>input x2. run_code (handler_method input) (emit (HandlerInvoked d) x2)))"

definition executeFastPath ::
  "'u dispatch_options \<Rightarrow> descriptor \<Rightarrow> nat \<Rightarrow> 'u world ctx \<Rightarrow> 'u world ctx \<times> (failure + handler_result)" where
  "executeFastPath options d controller x =
     (case od_method options d controller of
        None \<Rightarrow> (x, Inl NoHandlerMethod)
      | Some handler_method \<Rightarrow>
          and_then (bind_input options d x) (\<lambda>input x1.
          and_then (run_code (handler_method input) (emit (HandlerInvoked d) x1)) (\<lambda>result x2.
          and_then (ensureRequestNotAborted x2) (\<lambda>_ x3.
          if result = CompatibleSse
          then and_then (run_code (od_waitForSse options) x3) (\<lambda>_ x4.
               and_then (ensureRequestNotAborted x4) (\<lambda>_ x5. (x5, Inr result)))
          else if \<not> wd_committed (cx_world x3)
          then and_then (run_code (od_writeSuccess options d (dispatcher_negotiation options) result None None) x3) (\<lambda>_ x4. (x4, Inr result))
          else (x3, Inr result)))))"

definition tryFastPathExecution ::
  "'u dispatch_options \<Rightarrow> descriptor \<Rightarrow> 'u world ctx \<Rightarrow> 'u world ctx \<times> (failure + unit)" where
  "tryFastPathExecution options d x =
     and_then (run_code (od_controller options (de_controller d) (cx_requestScoped x)) x) (\<lambda>controller x1.
     and_then (executeFastPath options d controller x1) (\<lambda>_ x2. (x2, Inr ())))"

definition requiresResultFirstConditionalClassification :: "'u dispatch_options \<Rightarrow> descriptor \<Rightarrow> 'u world \<Rightarrow> bool" where
  "requiresResultFirstConditionalClassification options d w \<longleftrightarrow>
     isSafeMethod (hr_method (wd_request w)) \<and> (od_redirect options d \<or> od_finalizer options w)"

definition check_representation :: "'u dispatch_options \<Rightarrow> descriptor \<Rightarrow> 'u world ctx \<Rightarrow> 'u world ctx \<times> (failure + unit)" where
  "check_representation options d x =
     (case dispatcher_negotiation options of
        None \<Rightarrow> (x, Inr ())
      | Some n \<Rightarrow>
          if de_produces d \<notin> {None, Some []} \<and> \<not> od_redirect options d \<and> \<not> od_finalizer options (cx_world x)
          then (x, case selectResponseFormatter (de_produces d) (wd_request (cx_world x)) n of
                     Inl _ \<Rightarrow> Inl NotAcceptableException
                   | Inr _ \<Rightarrow> Inr ())
          else (x, Inr ()))"

text \<open>The validators and the outcome that is not \<open>proceed\<close>.\<close>

definition conditional_outcome ::
  "'u dispatch_options \<Rightarrow> descriptor \<Rightarrow> 'u world ctx \<Rightarrow> 'u world ctx \<times> (failure + response_validators option \<times> outcome option)" where
  "conditional_outcome options d x =
     (case od_conditionalRequest options of
        None \<Rightarrow> (x, Inr (None, None))
      | Some resolver \<Rightarrow>
          and_then (run_code (resolver d) x) (\<lambda>resolution x1.
            case resolveConditionalRequestRepresentation (od_year options) (wd_request (cx_world x1)) resolution of
              (out, validators) \<Rightarrow> (x1, Inr (validators, if out = Proceed then None else Some out))))"

definition finish_result ::
  "'u dispatch_options \<Rightarrow> descriptor \<Rightarrow> response_validators option \<Rightarrow> outcome option \<Rightarrow> handler_result \<Rightarrow> 'u world ctx \<Rightarrow>
   'u world ctx \<times> (failure + unit)" where
  "finish_result options d validators out result x =
     (let write = (if \<not> wd_committed (cx_world x)
                   then run_code (od_writeSuccess options d (dispatcher_negotiation options) result validators out) x
                   else (x, Inr ()))
      in if out = None
         then (case result of
                 CompatibleSse \<Rightarrow> and_then (run_code (od_waitForSse options) x) (\<lambda>_ x1. ensureRequestNotAborted x1)
               | AsyncIterable i \<Rightarrow> if isSseRoute d then run_code (od_managedSse options i) x else write
               | _ \<Rightarrow> write)
         else write)"

definition dispatchMatchedHandler ::
  "'u dispatch_options \<Rightarrow> descriptor \<Rightarrow> 'u execution_plan \<Rightarrow> 'u world ctx \<Rightarrow> 'u world ctx \<times> (failure + handler_result option)" where
  "dispatchMatchedHandler options d plan x =
     and_then (runGuardChain d (ep_routeGuards plan) x) (\<lambda>_ x1.
     if wd_committed (cx_world x1) then (x1, Inr None)
     else
     and_then (check_representation options d x1) (\<lambda>_ x2.
     and_then (conditional_outcome options d x2) (\<lambda>(validators, out) x3.
     if out \<noteq> None \<and> \<not> requiresResultFirstConditionalClassification options d (cx_world x3)
     then and_then (run_code (od_writeSuccess options d (dispatcher_negotiation options) Undefined validators out) x3)
            (\<lambda>_ x4. (x4, Inr (Some Undefined)))
     else
     and_then
       (if ep_mergedInterceptors plan = [] then invokeControllerHandler options d (cx_requestScoped x) x3
        else runInterceptorChain (ep_mergedInterceptors plan) (invokeControllerHandler options d (cx_requestScoped x)) x3) (\<lambda>result x4.
     and_then (ensureRequestNotAborted x4) (\<lambda>_ x5.
     and_then (finish_result options d validators out result x5) (\<lambda>_ x6. (x6, Inr (Some result))))))))"

section \<open>The pipeline\<close>

text \<open>
  The matched route.  \<open>elig\<close> is the dispatcher's fast-path state: \<open>getEligibility options\<close> in the program.
\<close>

definition choose_match :: "'u dispatch_options \<Rightarrow> 'u world ctx \<Rightarrow> 'u world ctx \<times> (failure + handler_match)" where
  "choose_match options x =
     (case consumeFrameworkRequestNativeRouteHandoff (cx_world x) of
        (w, Some handoff) \<Rightarrow> (x\<lparr>cx_world := w\<rparr>, Inr handoff)
      | (w, None) \<Rightarrow> (x\<lparr>cx_world := w\<rparr>, matchHandlerOrThrow (od_handlerMapping options) (wd_request w)))"

definition add_debug_header :: "'u dispatch_options \<Rightarrow> bool option \<Rightarrow> 'u world ctx \<Rightarrow> 'u world ctx" where
  "add_debug_header options eligibility x =
     (case (od_debugHeader options, eligibility) of
        (Some header, Some fast) \<Rightarrow> if wd_committed (cx_world x) then x else map_world (header fast) x
      | _ \<Rightarrow> x)"

definition run_full_route :: "'u dispatch_options \<Rightarrow> descriptor \<Rightarrow> 'u world ctx \<Rightarrow> 'u world ctx \<times> (failure + unit)" where
  "run_full_route options d x =
     (let plan = compileHandlerExecutionPlan options d;
          x1 = (if handlerMayRequireRequestScope plan (hr_path (wd_request (cx_world x))) then ensureRequestScope x else x);
          x2 = notifyObserversSafely HandlerMatched (od_observers options) x1
      in runMiddlewareChain (\<lambda>w. hr_path (wd_request w)) (module_middleware options d)
           (\<lambda>y. and_then (dispatchMatchedHandler options d plan y) (\<lambda>r y1. (y1\<lparr>cx_result := r\<rparr>, Inr ()))) x2)"

definition dispatchMatchedRoute ::
  "(descriptor \<Rightarrow> bool option) \<Rightarrow> 'u dispatch_options \<Rightarrow> 'u world ctx \<Rightarrow> 'u world ctx \<times> (failure + unit)" where
  "dispatchMatchedRoute elig options x =
     (if wd_committed (cx_world x) then (x, Inr ())
      else and_then (choose_match options x) (\<lambda>(d, params) x1.
        let x2 = map_world (updateRequestParams params) (x1\<lparr>cx_matched := Some d\<rparr>);
            x3 = add_debug_header options (elig d) x2
        in if od_conditionalRequest options = None \<and> shouldUseFastPathForRequest (elig d) (cx_world x3)
           then tryFastPathExecution options d x3
           else run_full_route options d x3))"

definition run_app_middleware ::
  "(descriptor \<Rightarrow> bool option) \<Rightarrow> 'u dispatch_options \<Rightarrow> 'u world ctx \<Rightarrow> 'u world ctx \<times> (failure + unit)" where
  "run_app_middleware elig options x =
     (case od_appMiddleware options of
        [SecurityHeaders applyHeaders] \<Rightarrow> dispatchMatchedRoute elig options (map_world applyHeaders x)
      | ms \<Rightarrow> runMiddlewareChain (\<lambda>w. hr_path (wd_request w)) ms (dispatchMatchedRoute elig options) x)"

definition runDispatchPipeline ::
  "(descriptor \<Rightarrow> bool option) \<Rightarrow> 'u dispatch_options \<Rightarrow> 'u world ctx \<Rightarrow> 'u world ctx \<times> (failure + unit)" where
  "runDispatchPipeline elig options x =
     and_then (ensureRequestNotAborted x) (\<lambda>_ x1.
     and_then (run_app_middleware elig options x1) (\<lambda>_ x2.
       (case cx_result x2 of
          None \<Rightarrow> x2
        | Some result \<Rightarrow> notifyObserversSafely (RequestSuccess result) (od_observers options) x2, Inr ())))"

section \<open>Errors and the end of the request\<close>

fun unwrap_managed :: "failure \<Rightarrow> failure" where
  "unwrap_managed (ManagedSseCleanupError e) = e"
| "unwrap_managed (ManagedSseOperationError e) = e"
| "unwrap_managed e = e"

fun is_managed :: "failure \<Rightarrow> bool" where
  "is_managed (ManagedSseCleanupError e) = True"
| "is_managed (ManagedSseOperationError e) = True"
| "is_managed e = False"

definition run_error_handler :: "'u dispatch_options \<Rightarrow> failure \<Rightarrow> 'u world ctx \<Rightarrow> 'u world ctx \<times> (failure + bool)" where
  "run_error_handler options e x =
     (case od_onError options of
        None \<Rightarrow> (x, Inr False)
      | Some handler \<Rightarrow> run_code (handler e) (emit ErrorHandled x))"

definition handleDispatchError :: "'u dispatch_options \<Rightarrow> failure \<Rightarrow> 'u world ctx \<Rightarrow> 'u world ctx \<times> (failure + unit)" where
  "handleDispatchError options e x =
     (let dispatchError = unwrap_managed e
      in if \<not> is_managed e \<and> (e = RequestAbortedError \<or> wd_aborted (cx_world x)) then (x, Inr ())
         else and_then (run_error_handler options dispatchError (notifyObserversSafely (RequestError dispatchError) (od_observers options) x))
                (\<lambda>handled x1.
                  if handled then (x1, Inr ())
                  else run_code (od_writeError options dispatchError (cx_matched x1)) (emit ErrorWritten x1)))"

definition finishDispatchScope :: "'u dispatch_options \<Rightarrow> 'u world ctx \<Rightarrow> 'u world ctx" where
  "finishDispatchScope options x =
     (let x1 = x\<lparr>cx_promotionOpen := False\<rparr>
      in if cx_requestScoped x
         then (case run_code (od_dispose options) (emit ScopeDisposed x1) of
                 (x2, Inl e) \<Rightarrow> emit DisposeFailed x2
               | (x2, Inr _) \<Rightarrow> x2)
         else x1)"

text \<open>A fresh context; the request scope is made at once when observers or middleware need it.\<close>

definition create_context :: "'u dispatch_options \<Rightarrow> 'u world \<Rightarrow> 'u world ctx" where
  "create_context options w =
     (let dispatchRequest = createDispatchRequest w;
          x = \<lparr>cx_world = dispatchRequest, cx_requestScoped = False, cx_promotionOpen = True, cx_matched = None,
               cx_result = None, cx_trace = []\<rparr>
      in map_world (od_correlation options)
           (if dispatchStartMayRequireRequestScope options (hr_path (wd_request dispatchRequest)) then ensureRequestScope x else x))"

text \<open>The body of the \<open>try\<close> with its \<open>catch\<close>, and the notification that opens the \<open>finally\<close>.\<close>

definition dispatch_request ::
  "(descriptor \<Rightarrow> bool option) \<Rightarrow> 'u dispatch_options \<Rightarrow> 'u world \<Rightarrow> 'u world ctx \<times> (failure + unit)" where
  "dispatch_request elig options w =
     (let x = notifyObserversSafely RequestStart (od_observers options) (create_context options w)
      in case (case runDispatchPipeline elig options x of
                 (x1, Inl e) \<Rightarrow> handleDispatchError options e x1
               | (x1, Inr _) \<Rightarrow> (x1, Inr ())) of
           (x2, r) \<Rightarrow> (notifyObserversSafely RequestFinish (od_observers options) x2, r))"

definition dispatch :: "'u dispatch_options \<Rightarrow> 'u world \<Rightarrow> 'u world ctx \<times> (failure + unit)" where
  "dispatch options w =
     (case dispatch_request (getEligibility options) options w of (x, r) \<Rightarrow> (finishDispatchScope options x, r))"

text \<open>A route that the adapter matched itself: \<open>None\<close> when it has to take the general path.\<close>

definition dispatchNativeFastRoute ::
  "handler_match \<Rightarrow> 'u dispatch_options \<Rightarrow> 'u world \<Rightarrow> ('u world ctx \<times> (failure + unit)) option" where
  "dispatchNativeFastRoute mt options w =
     (if od_conditionalRequest options \<noteq> None \<or> od_observers options \<noteq> [] then None
      else if \<not> shouldUseFastPathForRequest (getEligibility options (fst mt)) w then None
      else Some (let x = \<lparr>cx_world = w, cx_requestScoped = False, cx_promotionOpen = True, cx_matched = None,
                          cx_result = None, cx_trace = []\<rparr>;
                     r = and_then (ensureRequestNotAborted x) (\<lambda>_ x1.
                           let x2 = (case od_appMiddleware options of SecurityHeaders f # _ \<Rightarrow> map_world f x1 | _ \<Rightarrow> x1)
                           in if wd_committed (cx_world x2) then (x2, Inr ())
                              else let x3 = map_world (updateRequestParams (snd mt)) (x2\<lparr>cx_matched := Some (fst mt)\<rparr>)
                                   in tryFastPathExecution options (fst mt)
                                        (case od_debugHeader options of None \<Rightarrow> x3 | Some header \<Rightarrow> map_world (header True) x3))
                 in case (case r of (x1, Inl e) \<Rightarrow> handleDispatchError options e x1 | (x1, Inr _) \<Rightarrow> (x1, Inr ())) of
                      (x4, s) \<Rightarrow> (finishDispatchScope options x4, s)))"

end
