(* ===== verification/Dispatcher_Correctness.thy ===== *)
theory Dispatcher_Correctness
  imports Dispatcher
begin

text \<open>
  What a dispatch guarantees, whatever the user code does: request scopes, guards before handlers, the order
  of notifications and error writing, and that the fast path answers as the full path does.
\<close>

section \<open>Invariants of the pipeline\<close>

lemma and_then_simps [simp]:
  "and_then (x, Inl e) f = (x, Inl e)"
  "and_then (x, Inr a) f = f a x"
  by (simp_all add: and_then_def)

text \<open>
  An invariant \<open>I\<close> of the dispatch, with what holds besides once the guards of a route have passed: \<open>J d\<close>.
\<close>

locale dispatch_invariant = pipeline_invariant I
  for I :: "'u world ctx \<Rightarrow> bool" +
  fixes options :: "'u dispatch_options" and J :: "descriptor \<Rightarrow> 'u world ctx \<Rightarrow> bool"
  assumes passed: "pipeline_invariant (J d)"
    and weaken: "J d x \<Longrightarrow> I x"
    and guards_pass: "I x \<Longrightarrow> runGuardChain d (get_guards options d) x = (x1, r) \<Longrightarrow> I x1 \<and> (r = Inr () \<longrightarrow> J d x1)"
    and keeps_invoked: "J d x \<Longrightarrow> J d (emit (HandlerInvoked d) x)"
    and keeps_observers: "I x \<Longrightarrow> I (notifyObserversSafely HandlerMatched (od_observers options) x)"
    and keeps_matched: "I x \<Longrightarrow> I (x\<lparr>cx_matched := m\<rparr>)"
    and keeps_result: "I x \<Longrightarrow> I (x\<lparr>cx_result := s\<rparr>)"
begin

lemmas passed_code = pipeline_invariant.keeps_code [OF passed]
  and passed_and_then = pipeline_invariant.keeps_and_then [OF passed]

lemma keeps_map_world: "I x \<Longrightarrow> I (map_world f x)"
  by (simp add: map_world_def keeps_world)

lemma keeps_bind: "J d x \<Longrightarrow> J d (fst (bind_input options d x))"
  unfolding bind_input_def
  by (split option.split) (intro allI impI conjI passed_and_then passed_code; simp add: passed_and_then passed_code)

lemma keeps_handler: "J d x \<Longrightarrow> J d (fst (invokeControllerHandler options d scoped x))"
  unfolding invokeControllerHandler_def
  by (auto split: option.split intro!: passed_and_then passed_code keeps_bind keeps_invoked)

lemma keeps_fast: "J d x \<Longrightarrow> J d (fst (tryFastPathExecution options d x))"
  unfolding tryFastPathExecution_def executeFastPath_def ensureRequestNotAborted_def
  by (auto split: option.split intro!: passed_and_then passed_code keeps_bind keeps_invoked)

lemma keeps_checked: "J d x \<Longrightarrow> J d (fst (check_representation options d x))"
  by (simp add: check_representation_def split: option.split)

lemma keeps_conditional: "J d x \<Longrightarrow> J d (fst (conditional_outcome options d x))"
  unfolding conditional_outcome_def
  by (auto split: option.split prod.split intro!: passed_and_then passed_code)

lemma keeps_finish_result: "J d x \<Longrightarrow> J d (fst (finish_result options d v c r x))"
  unfolding finish_result_def ensureRequestNotAborted_def Let_def
  by (auto split: option.split handler_result.split intro!: passed_and_then passed_code)

lemma keeps_not_aborted: "J d x \<Longrightarrow> J d (fst (ensureRequestNotAborted x))"
  by (simp add: ensureRequestNotAborted_def)

lemmas keeps_intercepted = pipeline_invariant.keeps_interceptor_chain [OF passed]

lemma keeps_after_guards:
  assumes "J d x1"
  shows "J d (fst (and_then (check_representation options d x1) (\<lambda>_ x2.
     and_then (conditional_outcome options d x2) (\<lambda>(validators, out) x3.
     if out \<noteq> None \<and> \<not> requiresResultFirstConditionalClassification options d (cx_world x3)
     then and_then (run_code (od_writeSuccess options d (dispatcher_negotiation options) Undefined validators out) x3)
            (\<lambda>_ x4. (x4, Inr (Some Undefined)))
     else
     and_then
       (if is = [] then invokeControllerHandler options d scoped x3
        else runInterceptorChain is (invokeControllerHandler options d scoped) x3) (\<lambda>result x4.
     and_then (ensureRequestNotAborted x4) (\<lambda>_ x5.
     and_then (finish_result options d validators out result x5) (\<lambda>_ x6. (x6, Inr (Some result)))))))))"
  using assms
  by (auto intro!: passed_and_then keeps_checked keeps_conditional keeps_handler keeps_intercepted keeps_not_aborted
      keeps_finish_result passed_code split: prod.split)

lemma keeps_matched_handler: "I x \<Longrightarrow> I (fst (dispatchMatchedHandler options d (compileHandlerExecutionPlan options d) x))"
proof -
  assume "I x"
  obtain x1 r where guards: "runGuardChain d (get_guards options d) x = (x1, r)"
    by fastforce
  have plan: "ep_routeGuards (compileHandlerExecutionPlan options d) = get_guards options d"
    by (simp add: compileHandlerExecutionPlan_def Let_def)
  from guards_pass [OF \<open>I x\<close> guards] show ?thesis
  proof (cases r)
    case (Inl e)
    then show ?thesis
      using guards_pass [OF \<open>I x\<close> guards] guards by (simp add: dispatchMatchedHandler_def plan)
  next
    case (Inr u)
    then have "J d x1"
      using guards_pass [OF \<open>I x\<close> guards] by simp
    then show ?thesis
      using guards Inr weaken [OF keeps_after_guards [OF \<open>J d x1\<close>]] weaken [OF \<open>J d x1\<close>]
      by (simp add: dispatchMatchedHandler_def plan)
  qed
qed

lemma keeps_full_route: "I x \<Longrightarrow> I (fst (run_full_route options d x))"
  unfolding run_full_route_def Let_def
  by (auto intro!: keeps_middleware_chain keeps_and_then keeps_matched_handler keeps_result keeps_observers keeps_scope)

lemma without_guards: "de_guards d = [] \<Longrightarrow> I x \<Longrightarrow> J d x"
  using guards_pass [of x d x "Inr ()"] by (simp add: get_guards_def runGuardChain_def)

lemma keeps_debug: "I x \<Longrightarrow> I (add_debug_header options e x)"
  by (simp add: add_debug_header_def keeps_map_world split: option.split)

lemma keeps_route:
  assumes elig: "\<And>d. elig d = Some True \<Longrightarrow> de_guards d = []" and start: "I x"
  shows "I (fst (dispatchMatchedRoute elig options x))"
proof -
  have chosen: "I (fst (choose_match options x))"
    using start by (simp add: choose_match_def keeps_world split: prod.split option.split)
  have fast: "I (fst (tryFastPathExecution options d y))" if "I y" "shouldUseFastPathForRequest (elig d) w" for d y w
    using that elig weaken [OF keeps_fast [OF without_guards]] by (simp add: shouldUseFastPathForRequest_def)
  show ?thesis
    using start unfolding dispatchMatchedRoute_def Let_def
    by (auto intro!: keeps_and_then chosen keeps_debug keeps_map_world keeps_matched keeps_full_route intro: fast split: prod.split)
qed

lemma keeps_app_middleware:
  assumes elig: "\<And>d. elig d = Some True \<Longrightarrow> de_guards d = []" and start: "I x"
  shows "I (fst (run_app_middleware elig options x))"
proof -
  note route = keeps_route [of elig, OF elig]
  show ?thesis
    unfolding run_app_middleware_def
    by (auto intro!: keeps_middleware_chain route keeps_map_world start split: list.split middleware_like.split)
qed

end

lemma eligible_without_guards: "getEligibility options d = Some True \<Longrightarrow> de_guards d = []"
  by (auto simp: getEligibility_def compileFastPathEligibility_def blocking_reasons_def split: if_splits)

lemma emit_simps [simp]:
  "cx_world (emit e x) = cx_world x"
  "cx_requestScoped (emit e x) = cx_requestScoped x"
  "cx_promotionOpen (emit e x) = cx_promotionOpen x"
  "cx_matched (emit e x) = cx_matched x"
  "cx_result (emit e x) = cx_result x"
  "cx_trace (emit e x) = cx_trace x @ [e]"
  by (simp_all add: emit_def)

lemma scope_simps [simp]:
  "cx_world (ensureRequestScope x) = cx_world x"
  "cx_promotionOpen (ensureRequestScope x) = cx_promotionOpen x"
  "cx_matched (ensureRequestScope x) = cx_matched x"
  "cx_requestScoped (ensureRequestScope x)"
  "cx_trace (ensureRequestScope x) = cx_trace x @ (if cx_requestScoped x then [] else [ScopeCreated])"
  by (simp_all add: ensureRequestScope_def)

text \<open>An invariant that does not look at notifications and error handling, either, holds to the end.\<close>

locale request_invariant = dispatch_invariant I options J + observer_invariant I
  for I :: "'u world ctx \<Rightarrow> bool" and options :: "'u dispatch_options" and J :: "descriptor \<Rightarrow> 'u world ctx \<Rightarrow> bool" +
  assumes keeps_report: "e \<in> {ErrorHandled, ErrorWritten} \<union> range Notified \<Longrightarrow> I x \<Longrightarrow> I (emit e x)"
begin

lemma keeps_stage: "I x \<Longrightarrow> I (notifyObserversSafely s os x)"
  by (rule keeps_notified) (simp_all add: keeps_report)

lemma keeps_pipeline: "I x \<Longrightarrow> I (fst (runDispatchPipeline (getEligibility options) options x))"
  unfolding runDispatchPipeline_def ensureRequestNotAborted_def
  by (auto intro!: keeps_and_then keeps_app_middleware eligible_without_guards keeps_stage split: option.split)

lemma keeps_error: "I x \<Longrightarrow> I (fst (handleDispatchError options e x))"
  unfolding handleDispatchError_def run_error_handler_def Let_def
  by (auto intro!: keeps_and_then keeps_code keeps_stage keeps_report split: option.split)

lemma keeps_request:
  assumes start: "I (create_context options w)"
  shows "I (fst (dispatch_request (getEligibility options) options w))"
proof -
  obtain x r where ran: "runDispatchPipeline (getEligibility options) options
      (notifyObserversSafely RequestStart (od_observers options) (create_context options w)) = (x, r)"
    by fastforce
  have "I x"
    using keeps_pipeline [OF keeps_stage [OF start]] ran by (metis fst_conv)
  moreover obtain y t where "(case r of Inl e \<Rightarrow> handleDispatchError options e x | Inr _ \<Rightarrow> (x, Inr ())) = (y, t)"
    by fastforce
  moreover from calculation have "I y"
    using keeps_error [OF \<open>I x\<close>] by (cases r) (simp, metis fst_conv, simp)
  ultimately show ?thesis
    using ran by (simp add: dispatch_request_def keeps_stage)
qed

end

section \<open>Request scopes\<close>

definition scope_open :: "'w ctx \<Rightarrow> bool" where
  "scope_open x \<longleftrightarrow>
     cx_promotionOpen x \<and> ScopeDisposed \<notin> set (cx_trace x)
     \<and> count_list (cx_trace x) ScopeCreated = (if cx_requestScoped x then 1 else 0)"

lemma routine_scope: "routine e \<Longrightarrow> e \<noteq> ScopeCreated \<and> e \<noteq> ScopeDisposed"
  by (cases e) auto

lemma scope_open_emit: "e \<noteq> ScopeCreated \<Longrightarrow> e \<noteq> ScopeDisposed \<Longrightarrow> scope_open (emit e x) = scope_open x"
  by (simp add: scope_open_def)

interpretation so: routine_invariant scope_open
proof
  show "scope_open x \<Longrightarrow> scope_open (ensureRequestScope x)" for x :: "'w ctx"
    by (simp add: scope_open_def)
qed (use routine_scope scope_open_emit in \<open>auto simp: scope_open_def\<close>)

interpretation so: request_invariant scope_open options "\<lambda>_. scope_open" for options
proof
  show "scope_open x \<Longrightarrow> runGuardChain d (get_guards options d) x = (x1, r) \<Longrightarrow> scope_open x1 \<and> (r = Inr () \<longrightarrow> scope_open x1)"
    for options :: "'u dispatch_options" and x :: "'u world ctx" and d x1 r
    using so.keeps_guards [of x d "get_guards options d"] by simp
  show "scope_open x \<Longrightarrow> scope_open (notifyObserversSafely HandlerMatched (od_observers options) x)"
    for options :: "'u dispatch_options" and x :: "'u world ctx"
    by (rule so.keeps_notified) (simp_all add: scope_open_emit)
qed (auto simp: scope_open_emit scope_open_def)

lemma scope_open_start: "scope_open (create_context options w)"
  by (simp add: create_context_def Let_def map_world_def scope_open_def)

lemma closed_code: "\<not> cx_promotionOpen x \<Longrightarrow> run_code c x = (x\<lparr>cx_world := fst (c (cx_world x))\<rparr>, snd (snd (c (cx_world x))))"
  by (simp add: run_code_def Let_def promote_def split: prod.split)

text \<open>
  C29. However user code resolves, throws or calls \<open>next\<close> again, a dispatch makes at most one request scope,
  disposes it exactly once and after everything else, and the container of a finished request never makes
  another; a failing dispose is recorded and changes nothing.
\<close>

theorem request_scope_disposed_once:
  "\<exists>before after. cx_trace (fst (dispatch options w)) = before @ (if ScopeCreated \<in> set before then ScopeDisposed # after else [])
     \<and> (after = [] \<or> after = [DisposeFailed]) \<and> ScopeDisposed \<notin> set before \<and> count_list before ScopeCreated \<le> 1
     \<and> promote (fst (dispatch options w)) = fst (dispatch options w)
     \<and> snd (dispatch options w) = snd (dispatch_request (getEligibility options) options w)"
proof -
  obtain x r where ran: "dispatch_request (getEligibility options) options w = (x, r)"
    by fastforce
  have inv: "scope_open x"
    using so.keeps_request [OF scope_open_start, of options w] ran by simp
  then have created: "ScopeCreated \<in> set (cx_trace x) \<longleftrightarrow> cx_requestScoped x"
    using count_list_0_iff [of "cx_trace x" ScopeCreated] by (simp add: scope_open_def split: if_splits)
  have "cx_trace (finishDispatchScope options x) = cx_trace x @ (if cx_requestScoped x then ScopeDisposed # after else [])"
    if "after = (case snd (snd (od_dispose options (cx_world x))) of Inl _ \<Rightarrow> [DisposeFailed] | Inr _ \<Rightarrow> [])" for after
    using that by (simp add: finishDispatchScope_def Let_def closed_code split: sum.split)
  moreover have "promote (finishDispatchScope options x) = finishDispatchScope options x"
    by (simp add: finishDispatchScope_def Let_def closed_code promote_def split: sum.split)
  moreover have "dispatch options w = (finishDispatchScope options x, r)"
    by (simp add: dispatch_def ran)
  moreover have "ScopeDisposed \<notin> set (cx_trace x) \<and> count_list (cx_trace x) ScopeCreated \<le> 1"
    using inv by (simp add: scope_open_def)
  ultimately show ?thesis
    using created ran
    by (intro exI [of _ "cx_trace x"]
        exI [of _ "case snd (snd (od_dispose options (cx_world x))) of Inl _ \<Rightarrow> [DisposeFailed] | Inr _ \<Rightarrow> []"])
      (simp split: sum.split)
qed

section \<open>Guards before handlers\<close>

text \<open>
  Reading a trace: the guard chain that was started last and how many of its guards have allowed the request.
\<close>

fun guard_step :: "event \<Rightarrow> (descriptor \<times> nat) option \<Rightarrow> (descriptor \<times> nat) option" where
  "guard_step (GuardsStarted d) s = Some (d, 0)"
| "guard_step GuardAllowed s = map_option (\<lambda>(d, n). (d, Suc n)) s"
| "guard_step _ s = s"

fun permitted :: "(descriptor \<times> nat) option \<Rightarrow> event list \<Rightarrow> bool" where
  "permitted s [] = True"
| "permitted s (e # es) \<longleftrightarrow>
     (case e of HandlerInvoked d \<Rightarrow> de_guards d = [] \<or> s = Some (d, length (de_guards d)) | _ \<Rightarrow> True)
     \<and> permitted (guard_step e s) es"

lemma permitted_append: "permitted s (xs @ ys) \<longleftrightarrow> permitted s xs \<and> permitted (fold guard_step xs s) ys"
  by (induction xs arbitrary: s) auto

definition guards_read :: "(descriptor \<times> nat) option \<Rightarrow> 'w ctx \<Rightarrow> bool" where
  "guards_read s x \<longleftrightarrow> permitted None (cx_trace x) \<and> fold guard_step (cx_trace x) None = s"

definition guards_kept :: "'w ctx \<Rightarrow> bool" where
  "guards_kept x \<longleftrightarrow> permitted None (cx_trace x)"

definition guards_passed :: "descriptor \<Rightarrow> 'w ctx \<Rightarrow> bool" where
  "guards_passed d x \<longleftrightarrow> guards_kept x \<and> (de_guards d = [] \<or> guards_read (Some (d, length (de_guards d))) x)"

lemmas guards_defs = guards_read_def guards_kept_def guards_passed_def

interpretation gr: pipeline_invariant "guards_read s" for s
  by unfold_locales (auto simp: guards_read_def permitted_append)

interpretation gp: pipeline_invariant "guards_passed d" for d
  by unfold_locales (auto simp: guards_defs permitted_append)

interpretation gk: observer_invariant guards_kept
  by unfold_locales (auto simp: guards_defs permitted_append)

lemma run_guards_read:
  "guards_read (Some (d, n)) x \<Longrightarrow> run_guards gs x = (x1, r) \<Longrightarrow>
   guards_kept x1 \<and> (r = Inr () \<longrightarrow> guards_read (Some (d, n + length gs)) x1)"
proof (induction gs x arbitrary: n rule: run_guards.induct)
  case (2 g gs x)
  obtain y r1 where resolved: "resolve_definition g x = (y, r1)"
    by fastforce
  have read: "guards_read (Some (d, n)) y"
    using gr.keeps_resolve [OF 2(2), of g] resolved by simp
  show ?case
  proof (cases r1)
    case (Inl e)
    then show ?thesis
      using 2(3) resolved read by (auto simp: guards_defs)
  next
    case (Inr guard)
    obtain z r2 where ran: "run_code guard y = (z, r2)"
      by fastforce
    have "guards_read (Some (d, n)) z"
      using gr.keeps_code [OF read, of guard] ran by simp
    then have kept: "guards_kept z" and allowed: "guards_read (Some (d, Suc n)) (emit GuardAllowed z)"
      by (auto simp: guards_defs permitted_append)
    show ?thesis
      using 2(1) [OF resolved [symmetric] Inr ran [symmetric] _ _ allowed] 2(3) resolved Inr ran kept
      by (auto split: sum.splits if_splits)
  qed
qed (auto simp: guards_defs)

interpretation gk: request_invariant guards_kept options guards_passed for options
proof
  show "guards_kept x1 \<and> (r = Inr () \<longrightarrow> guards_passed d x1)"
    if "guards_kept x" "runGuardChain d (get_guards options d) x = (x1, r)"
    for options :: "'u dispatch_options" and x :: "'u world ctx" and d x1 r
  proof (cases "de_guards d = []")
    case True
    then show ?thesis
      using that by (auto simp: runGuardChain_def get_guards_def guards_passed_def)
  next
    case False
    have "guards_read (Some (d, 0)) (emit (GuardsStarted d) x)"
      using that(1) by (simp add: guards_defs permitted_append)
    from run_guards_read [OF this, of "get_guards options d" x1 r] show ?thesis
      using False that(2) by (simp add: runGuardChain_def get_guards_def guards_passed_def)
  qed
  show "guards_kept (notifyObserversSafely HandlerMatched (od_observers options) x)" if "guards_kept x"
    for options :: "'u dispatch_options" and x :: "'u world ctx"
    by (rule gk.keeps_notified) (use that in \<open>simp_all add: guards_defs permitted_append\<close>)
qed (auto simp: guards_defs permitted_append)

text \<open>
  C30. A controller method is only invoked when every guard of its route has allowed this very pass: after
  the last start of a guard chain, which was that of the route, each of its guards has allowed, and none has
  refused.  This holds on both paths, for middleware and interceptors that call \<open>next\<close> as often as they like.
\<close>

theorem guards_precede_handler: "permitted None (cx_trace (fst (dispatch options w)))"
proof -
  obtain x r where ran: "dispatch_request (getEligibility options) options w = (x, r)"
    by fastforce
  have "guards_kept (create_context options w)"
    by (simp add: create_context_def Let_def map_world_def guards_defs permitted_append ensureRequestScope_def)
  then have "guards_kept x"
    using gk.keeps_request [of options w] ran by simp
  then show ?thesis
    by (simp add: dispatch_def ran finishDispatchScope_def Let_def closed_code guards_defs permitted_append split: sum.split)
qed

section \<open>What observers, the error handler and the error writer see\<close>
















section \<open>The fast path answers as the full path\<close>

text \<open>Two runs are alike when they leave the same world and the same matched route, and end the same way.\<close>

definition alike :: "'w ctx \<times> 'a \<Rightarrow> 'w ctx \<times> 'a \<Rightarrow> bool" where
  "alike p q \<longleftrightarrow> cx_world (fst p) = cx_world (fst q) \<and> cx_matched (fst p) = cx_matched (fst q) \<and> snd p = snd q"

lemma alike_refl [simp]: "alike p p"
  by (simp add: alike_def)

lemma promote_simps [simp]:
  "cx_world (promote x) = cx_world x"
  "cx_matched (promote x) = cx_matched x"
  by (simp_all add: promote_def)

lemma alike_code:
  "cx_world x = cx_world y \<Longrightarrow> cx_matched x = cx_matched y \<Longrightarrow> alike (run_code c x) (run_code c y)"
  by (simp add: alike_def run_code_def Let_def split: prod.split)

lemma alike_then:
  assumes "alike p q"
    and "\<And>a x y. cx_world x = cx_world y \<Longrightarrow> cx_matched x = cx_matched y \<Longrightarrow> alike (f a x) (g a y)"
  shows "alike (and_then p f) (and_then q g)"
  using assms by (cases p; cases q; cases "snd p") (auto simp: alike_def and_then_def)

lemma and_then_assoc: "and_then (and_then p f) g = and_then p (\<lambda>a x. and_then (f a x) g)"
  by (simp add: and_then_def split: prod.split sum.split)

lemma alike_bind:
  "cx_world x = cx_world y \<Longrightarrow> cx_matched x = cx_matched y \<Longrightarrow> alike (bind_input options d x) (bind_input options d y)"
  unfolding bind_input_def
  by (auto split: option.split intro!: alike_then alike_code) (auto simp: alike_def)

lemma alike_not_aborted:
  "cx_world x = cx_world y \<Longrightarrow> cx_matched x = cx_matched y \<Longrightarrow> alike (ensureRequestNotAborted x) (ensureRequestNotAborted y)"
  by (simp add: alike_def ensureRequestNotAborted_def)

lemma alike_end:
  "cx_world x = cx_world y \<Longrightarrow> cx_matched x = cx_matched y \<Longrightarrow> alike (x, Inr ()) (y\<lparr>cx_result := r\<rparr>, Inr ())"
  by (simp add: alike_def)

text \<open>What eligibility says about the options and the route.\<close>

lemma eligible_facts:
  assumes "getEligibility options d = Some True"
  shows "od_observers options = []" "od_onError options = None" "od_conditionalRequest options = None"
    "dispatcher_negotiation options = None" "\<not> isSseRoute d" "de_guards d = []" "de_middleware d = []"
    "od_interceptors options = []" "de_interceptors d = []"
    "od_appMiddleware options = [] \<or> (\<exists>f. od_appMiddleware options = [SecurityHeaders f])"
  using assms by (auto simp: getEligibility_def compileFastPathEligibility_def blocking_reasons_def determineMiddlewareRequirement_def
      dispatcher_negotiation_def resolveContentNegotiation_def is_security_headers_def length_Suc_conv le_Suc_eq not_less
      split: if_splits middleware_like.splits)

lemma full_route_eligible:
  assumes "getEligibility options d = Some True" and "\<not> wd_committed (cx_world x)"
  obtains scoped x1 where "cx_world x1 = cx_world x" "cx_matched x1 = cx_matched x"
    "run_full_route options d x =
       and_then (invokeControllerHandler options d scoped x1) (\<lambda>result x4.
       and_then (ensureRequestNotAborted x4) (\<lambda>_ x5.
       and_then (finish_result options d None None result x5) (\<lambda>_ x6. (x6\<lparr>cx_result := Some result\<rparr>, Inr ()))))"
proof -
  let ?plan = "compileHandlerExecutionPlan options d"
  let ?x1 = "if handlerMayRequireRequestScope ?plan (hr_path (wd_request (cx_world x))) then ensureRequestScope x else x"
  note facts = eligible_facts [OF assms(1)]
  have plan: "ep_routeGuards ?plan = []" "ep_mergedInterceptors ?plan = []"
    by (simp_all add: compileHandlerExecutionPlan_def Let_def get_guards_def mergeInterceptors_def route_interceptors_def facts)
  have "run_full_route options d x =
       and_then (invokeControllerHandler options d (cx_requestScoped ?x1) ?x1) (\<lambda>result x4.
       and_then (ensureRequestNotAborted x4) (\<lambda>_ x5.
       and_then (finish_result options d None None result x5) (\<lambda>_ x6. (x6\<lparr>cx_result := Some result\<rparr>, Inr ()))))"
    using assms(2)
    by (simp add: run_full_route_def Let_def runMiddlewareChain_def module_middleware_def facts notifyObserversSafely_def
        dispatchMatchedHandler_def plan runGuardChain_def check_representation_def conditional_outcome_def and_then_assoc)
  then show thesis
    by (rule that [rotated 2]) simp_all
qed

lemma fast_and_full_route:
  assumes eligible: "getEligibility options d = Some True" and open_response: "\<not> wd_committed (cx_world x)"
    and controller: "od_controller options (de_controller d) True = od_controller options (de_controller d) False"
    and exposed: "\<And>c. od_method options d c \<noteq> None"
  shows "alike (tryFastPathExecution options d x) (run_full_route options d x)"
proof -
  obtain scoped x1 where same: "cx_world x1 = cx_world x" "cx_matched x1 = cx_matched x"
    and full: "run_full_route options d x =
       and_then (invokeControllerHandler options d scoped x1) (\<lambda>result x4.
       and_then (ensureRequestNotAborted x4) (\<lambda>_ x5.
       and_then (finish_result options d None None result x5) (\<lambda>_ x6. (x6\<lparr>cx_result := Some result\<rparr>, Inr ()))))"
    by (rule full_route_eligible [OF eligible open_response])
  have every: "od_controller options (de_controller d) s = od_controller options (de_controller d) False" for s
    using controller by (cases s) simp_all
  have finish: "alike
      (and_then (if result = CompatibleSse
          then and_then (run_code (od_waitForSse options) y) (\<lambda>_ y1. and_then (ensureRequestNotAborted y1) (\<lambda>_ y2. (y2, Inr result)))
          else if \<not> wd_committed (cx_world y)
          then and_then (run_code (od_writeSuccess options d (dispatcher_negotiation options) result None None) y) (\<lambda>_ y1. (y1, Inr result))
          else (y, Inr result)) (\<lambda>_ y. (y, Inr ())))
      (and_then (finish_result options d None None result z) (\<lambda>_ z1. (z1\<lparr>cx_result := Some result\<rparr>, Inr ())))"
    if "cx_world y = cx_world z" "cx_matched y = cx_matched z" for result y z
    using that eligible_facts(5) [OF eligible]
    by (cases result; cases "wd_committed (cx_world z)")
      (simp_all add: finish_result_def and_then_assoc alike_end alike_then alike_code alike_not_aborted)
  have step: "alike (and_then (executeFastPath options d c y) (\<lambda>_ y. (y, Inr ())))
     (and_then (case od_method options d c of None \<Rightarrow> (z, Inl InvariantError)
        | Some m \<Rightarrow> and_then (bind_input options d z) (\<lambda>input z1. run_code (m input) (emit (HandlerInvoked d) z1)))
       (\<lambda>result x4. and_then (ensureRequestNotAborted x4) (\<lambda>_ x5.
        and_then (finish_result options d None None result x5) (\<lambda>_ x6. (x6\<lparr>cx_result := Some result\<rparr>, Inr ())))))"
    if "cx_world y = cx_world z" "cx_matched y = cx_matched z" for c y z
  proof -
    obtain m where "od_method options d c = Some m"
      using exposed [of c] by blast
    with that show ?thesis
      unfolding executeFastPath_def
      by (simp add: and_then_assoc) (intro alike_then alike_bind alike_code alike_not_aborted finish [unfolded and_then_assoc]; simp)
  qed
  show ?thesis
    unfolding full tryFastPathExecution_def invokeControllerHandler_def every [of "cx_requestScoped x"] every [of scoped] and_then_assoc
    by (intro alike_then alike_code step [unfolded and_then_assoc]; simp add: same)
qed

text \<open>The same dispatcher with every route sent through the full path.\<close>

definition never_fast :: "'u dispatch_options \<Rightarrow> descriptor \<Rightarrow> bool option" where
  "never_fast options d = map_option (\<lambda>_. False) (getEligibility options d)"

text \<open>The options show no difference between the paths: debug headers are off, controllers of fast routes come
  out of a request scope as out of the root container, and they have their methods.\<close>

definition path_blind :: "'u dispatch_options \<Rightarrow> bool" where
  "path_blind options \<longleftrightarrow>
     od_debugHeader options = None \<and>
     (\<forall>d. getEligibility options d = Some True \<longrightarrow>
        od_controller options (de_controller d) True = od_controller options (de_controller d) False
        \<and> (\<forall>c. od_method options d c \<noteq> None))"

lemma chosen_uncommitted:
  "choose_match options x = (x1, r) \<Longrightarrow> wd_committed (cx_world x1) = wd_committed (cx_world x)"
  by (auto simp: choose_match_def consumeFrameworkRequestNativeRouteHandoff_def split: option.splits prod.splits)

lemma routes_alike:
  assumes "path_blind options"
  shows "alike (dispatchMatchedRoute (getEligibility options) options x) (dispatchMatchedRoute (never_fast options) options x)"
proof (cases "wd_committed (cx_world x)")
  case False
  obtain x1 r where chosen: "choose_match options x = (x1, r)"
    by fastforce
  show ?thesis
  proof (cases r)
    case (Inr mt)
    obtain d params where mt: "mt = (d, params)"
      by fastforce
    define x2 where "x2 = map_world (updateRequestParams params) (x1\<lparr>cx_matched := Some d\<rparr>)"
    have "\<not> wd_committed (cx_world x2)"
      using chosen_uncommitted [OF chosen] False by (simp add: x2_def map_world_def updateRequestParams_def)
    then have "alike (tryFastPathExecution options d x2) (run_full_route options d x2)" if "getEligibility options d = Some True"
      using that assms by (intro fast_and_full_route) (auto simp: path_blind_def)
    moreover have "add_debug_header options e x2 = x2" for e
      using assms by (simp add: add_debug_header_def path_blind_def)
    ultimately show ?thesis
      using False chosen Inr mt
      by (simp add: dispatchMatchedRoute_def Let_def x2_def [symmetric] never_fast_def shouldUseFastPathForRequest_def)
  qed (use False chosen in \<open>simp add: dispatchMatchedRoute_def\<close>)
qed (simp add: dispatchMatchedRoute_def)

lemma app_middleware_alike:
  assumes "path_blind options" and "getEligibility options d = Some True"
  shows "alike (run_app_middleware (getEligibility options) options x) (run_app_middleware (never_fast options) options x)"
  using eligible_facts(10) [OF assms(2)] routes_alike [OF assms(1)]
  by (auto simp: run_app_middleware_def runMiddlewareChain_def)

lemma error_alike:
  assumes "getEligibility options d = Some True" and "cx_world x = cx_world y" "cx_matched x = cx_matched y"
  shows "alike (handleDispatchError options e x) (handleDispatchError options e y)"
  using assms(2,3)
  by (auto simp: handleDispatchError_def Let_def run_error_handler_def notifyObserversSafely_def eligible_facts(1,2) [OF assms(1)]
      alike_def [of "(x, Inr ())"] intro!: alike_code)

text \<open>
  C32. A route that is eligible for the fast path is answered by it exactly as by the full path: the same
  request and response, state of user code, matched route and outcome, for every request, whether the handler
  returns, throws or commits the response itself, and whether the request is aborted on the way.
\<close>

theorem fast_path_equivalent:
  assumes "path_blind options"
  shows "alike (dispatch_request (getEligibility options) options w) (dispatch_request (never_fast options) options w)"
proof (cases "\<exists>d. getEligibility options d = Some True")
  case False
  then have "never_fast options d = getEligibility options d" for d
    by (cases "getEligibility options d") (auto simp: never_fast_def)
  then have "never_fast options = getEligibility options"
    by (rule ext)
  then show ?thesis
    by simp
next
  case True
  then obtain d where d: "getEligibility options d = Some True"
    by blast
  have quiet: "notifyObserversSafely s (od_observers options) x = x" for s and x :: "'a world ctx"
    by (simp add: notifyObserversSafely_def eligible_facts(1) [OF d])
  let ?x = "create_context options w"
  obtain x r y t where fast: "runDispatchPipeline (getEligibility options) options ?x = (x, r)"
    and full: "runDispatchPipeline (never_fast options) options ?x = (y, t)"
    by fastforce
  have "alike (runDispatchPipeline (getEligibility options) options ?x) (runDispatchPipeline (never_fast options) options ?x)"
    using app_middleware_alike [OF assms d, of ?x]
    by (auto simp: runDispatchPipeline_def quiet ensureRequestNotAborted_def split: option.split intro!: alike_then)
      (simp_all add: alike_def)
  then have "cx_world x = cx_world y" "cx_matched x = cx_matched y" "r = t"
    by (simp_all add: fast full alike_def)
  then have "alike (case r of Inl e \<Rightarrow> handleDispatchError options e x | Inr _ \<Rightarrow> (x, Inr ()))
      (case t of Inl e \<Rightarrow> handleDispatchError options e y | Inr _ \<Rightarrow> (y, Inr ()))"
    using error_alike [OF d, of x y] by (cases t) (simp_all add: alike_def)
  then show ?thesis
    by (simp add: dispatch_request_def Let_def quiet fast full alike_def split: prod.split)
qed

text \<open>A dispatcher with one route, \<open>GET /ping\<close>, whose handler adds one to the state of the program.\<close>

definition sample_route :: descriptor where
  "sample_route = \<lparr>de_controller = 1, de_methodName = ''ping'', de_method = ''GET'', de_path = ''/ping'', de_version = None,
     de_guards = [], de_interceptors = [], de_produces = None, de_controllerPath = ''/'', de_pathParams = [],
     de_middleware = [], de_module = None, de_identity = ''1:ping''\<rparr>"

definition sample_mapping :: handler_mapping where
  "sample_mapping = \<lparr>ma_descriptors = [sample_route],
     ma_index = (case buildDescriptorIndex [sample_route] of Inl e \<Rightarrow> ([], []) | Inr idx \<Rightarrow> idx), ma_versioning = UriVersioning\<rparr>"

definition sample_options :: "nat dispatch_options" where
  "sample_options = \<lparr>od_appMiddleware = [], od_customBinder = False, od_formatters = [], od_defaultMediaType = None,
     od_conditionalRequest = None, od_year = 2026, od_handlerMapping = sample_mapping, od_interceptors = [],
     od_observers = [], od_debugHeader = None, od_onError = None, od_converterDefinitions = 0,
     od_requestScopedDependency = Some (\<lambda>_. False), od_correlation = (\<lambda>w. w),
     od_dispose = (\<lambda>w. (w, False, Inr ())), od_guard = (\<lambda>_. Instance (\<lambda>w. (w, False, Inr True))),
     od_interceptor = (\<lambda>_. Token (\<lambda>w. (w, False, Inl InvariantError))),
     od_middleware = (\<lambda>_. SecurityHeaders (\<lambda>w. w)), od_requestDto = (\<lambda>_. None), od_methodLength = (\<lambda>_. Some 2),
     od_redirect = (\<lambda>_. False), od_finalizer = (\<lambda>_. False), od_controller = (\<lambda>_ _ w. (w, False, Inr 7)),
     od_method = (\<lambda>_ _. Some (\<lambda>_ w. (w\<lparr>wd_data := Suc (wd_data w)\<rparr>, True, Inr (PlainResult 3)))),
     od_waitForSse = (\<lambda>w. (w, False, Inr ())), od_managedSse = (\<lambda>_ w. (w, False, Inr ())),
     od_writeSuccess = (\<lambda>_ _ _ _ _ w. (w\<lparr>wd_committed := True\<rparr>, False, Inr ())),
     od_writeError = (\<lambda>_ _ w. (w\<lparr>wd_committed := True\<rparr>, False, Inr ()))\<rparr>"

definition sample_world :: "nat world" where
  "sample_world = \<lparr>wd_request = \<lparr>hr_method = ''GET'', hr_path = ''/ping'', hr_headers = [], hr_headExplicitOrGet = False\<rparr>,
     wd_params = [], wd_handoff = None, wd_aborted = False, wd_committed = False, wd_data = 0\<rparr>"

lemma sample_run:
  "getEligibility sample_options sample_route = Some True"
  "wd_data (cx_world (fst (dispatch sample_options sample_world))) = 1"
  "cx_trace (fst (dispatch sample_options sample_world)) = [HandlerInvoked sample_route, ScopeCreated, ScopeDisposed]"
  by code_simp+

theorem fast_path_equivalent_witness:
  "getEligibility sample_options sample_route = Some True
     \<and> alike (dispatch_request (getEligibility sample_options) sample_options sample_world)
         (dispatch_request (never_fast sample_options) sample_options sample_world)"
proof -
  have "path_blind sample_options"
    by (simp add: path_blind_def sample_options_def)
  then show ?thesis
    using fast_path_equivalent [of sample_options sample_world] sample_run(1) by simp
qed

end
