(* ===== verification/Serialization.thy ===== *)
theory Serialization
  imports JS_String
begin

text \<open>
  \<open>packages/serialization/src/serialize.ts\<close>, \<open>metadata.ts\<close> and the decorators: class instances, arrays and
  plain objects, given as addresses of a heap, become plain output objects, each source object at most once.
  Accessors and transforms are functions of the heap: one that throws ends the call and returns nothing.
\<close>

section \<open>Metadata\<close>

datatype pkey = Name string | Sym nat

record field_metadata =
  fm_excluded :: "bool option"
  fm_exposed :: "bool option"
  fm_transforms :: "nat list"

definition no_metadata :: field_metadata where
  "no_metadata = \<lparr>fm_excluded = None, fm_exposed = None, fm_transforms = []\<rparr>"

text \<open>The own metadata of a class: the \<open>excludeExtraneous\<close> option, if the class sets it, and its fields.\<close>

record class_bag =
  cb_excludeExtraneous :: "bool option option"
  cb_fields :: "(pkey, field_metadata) js_map"

definition updateFieldSerializationMetadata ::
  "pkey \<Rightarrow> (field_metadata option \<Rightarrow> field_metadata) \<Rightarrow> class_bag \<Rightarrow> class_bag" where
  "updateFieldSerializationMetadata k update bag =
     bag\<lparr>cb_fields := js_set (cb_fields bag) k (update (js_get (cb_fields bag) k))\<rparr>"

definition or_no_metadata :: "field_metadata option \<Rightarrow> field_metadata" where
  "or_no_metadata current = (case current of None \<Rightarrow> no_metadata | Some m \<Rightarrow> m)"

definition ExcludeField :: "pkey \<Rightarrow> class_bag \<Rightarrow> class_bag" where
  "ExcludeField k = updateFieldSerializationMetadata k (\<lambda>current. (or_no_metadata current)\<lparr>fm_excluded := Some True\<rparr>)"

definition ExposeField :: "pkey \<Rightarrow> class_bag \<Rightarrow> class_bag" where
  "ExposeField k = updateFieldSerializationMetadata k (\<lambda>current. (or_no_metadata current)\<lparr>fm_exposed := Some True\<rparr>)"

definition TransformField :: "nat \<Rightarrow> pkey \<Rightarrow> class_bag \<Rightarrow> class_bag" where
  "TransformField t k = updateFieldSerializationMetadata k
     (\<lambda>current. (or_no_metadata current)\<lparr>fm_transforms := fm_transforms (or_no_metadata current) @ [t]\<rparr>)"

definition ExposeClass :: "bool option option \<Rightarrow> class_bag \<Rightarrow> class_bag" where
  "ExposeClass options bag = (case options of None \<Rightarrow> bag | Some v \<Rightarrow> bag\<lparr>cb_excludeExtraneous := Some v\<rparr>)"

text \<open>Metadata of a class: the bags of its constructors, the base class first.\<close>

fun override_with :: "'a option \<Rightarrow> 'a option \<Rightarrow> 'a option" where
  "override_with old None = old"
| "override_with old (Some x) = Some x"

definition merge_field :: "field_metadata option \<Rightarrow> field_metadata \<Rightarrow> field_metadata" where
  "merge_field current m =
     (let c = or_no_metadata current
      in \<lparr>fm_excluded = override_with (fm_excluded c) (fm_excluded m), fm_exposed = override_with (fm_exposed c) (fm_exposed m),
          fm_transforms = fm_transforms c @ fm_transforms m\<rparr>)"

definition getFieldSerializationMetadata :: "class_bag list \<Rightarrow> (pkey, field_metadata) js_map" where
  "getFieldSerializationMetadata bags =
     fold (\<lambda>bag. fold (\<lambda>(k, m) merged. js_set merged k (merge_field (js_get merged k) m)) (cb_fields bag)) bags []"

definition getClassSerializationOptions :: "class_bag list \<Rightarrow> bool option" where
  "getClassSerializationOptions bags = fold (\<lambda>bag v. case cb_excludeExtraneous bag of None \<Rightarrow> v | Some w \<Rightarrow> w) bags None"

definition excludes_extraneous :: "class_bag list \<Rightarrow> bool" where
  "excludes_extraneous bags \<longleftrightarrow> getClassSerializationOptions bags = Some True"

section \<open>Source values\<close>

datatype sval = Undef | Null | Prim nat | Ref nat

text \<open>
  An object of the heap.  Records and instances have their own enumerable keys, strings before symbols, and
  what reading a property gives; an instance may have no constructor that is a function.
\<close>

datatype source_object =
    SourceArray "sval list"
  | OpaqueObject
  | PlainObject "pkey list" "pkey \<Rightarrow> sval"
  | ClassInstance "nat option" "pkey list" "pkey \<Rightarrow> sval"

record ser_env =
  se_heap :: "nat \<Rightarrow> source_object"
  se_bags :: "nat \<Rightarrow> class_bag list"
  se_transform :: "nat \<Rightarrow> sval \<Rightarrow> sval"

definition applyTransforms :: "ser_env \<Rightarrow> field_metadata \<Rightarrow> sval \<Rightarrow> sval" where
  "applyTransforms env m x = fold (se_transform env) (fm_transforms m) x"

definition is_exposed :: "field_metadata option \<Rightarrow> bool" where
  "is_exposed m \<longleftrightarrow> Option.bind m fm_exposed = Some True"

definition is_excluded :: "field_metadata option \<Rightarrow> bool" where
  "is_excluded m \<longleftrightarrow> Option.bind m fm_excluded = Some True"

definition resolveCandidateKeys :: "pkey list \<Rightarrow> (pkey, field_metadata) js_map \<Rightarrow> bool \<Rightarrow> pkey list" where
  "resolveCandidateKeys own meta excludeExtraneous =
     (let exposed = map fst (filter (\<lambda>(k, m). fm_exposed m = Some True) meta)
      in if excludeExtraneous then exposed
         else fold (\<lambda>k ks. if k \<in> set ks then ks else ks @ [k]) (own @ exposed) [])"

text \<open>The keys of an instance that are serialized, with the transformed values.\<close>

definition instance_fields :: "ser_env \<Rightarrow> class_bag list \<Rightarrow> pkey list \<Rightarrow> (pkey \<Rightarrow> sval) \<Rightarrow> (pkey \<times> sval) list" where
  "instance_fields env bags own get =
     (let meta = getFieldSerializationMetadata bags; extraneous = excludes_extraneous bags
      in List.map_filter (\<lambda>k.
           let m = js_get meta k
           in if is_excluded m then None
              else let raw = get k
                   in if raw = Undef \<and> extraneous \<and> \<not> is_exposed m then None
                      else Some (k, case m of None \<Rightarrow> raw | Some fm \<Rightarrow> applyTransforms env fm raw))
         (resolveCandidateKeys own meta extraneous))"

text \<open>What the serializer walks at an address: an opaque value, the items of an array, the fields of a record.\<close>

datatype contents = Whole | Items "sval list" | Fields "(pkey \<times> sval) list"

definition record_fields :: "pkey list \<Rightarrow> (pkey \<Rightarrow> sval) \<Rightarrow> (pkey \<times> sval) list" where
  "record_fields own get = map (\<lambda>k. (k, get k)) own"

definition has_metadata :: "class_bag list \<Rightarrow> bool" where
  "has_metadata bags \<longleftrightarrow> getFieldSerializationMetadata bags \<noteq> [] \<or> excludes_extraneous bags"

definition contents_at :: "ser_env \<Rightarrow> nat \<Rightarrow> contents" where
  "contents_at env a =
     (case se_heap env a of
        SourceArray xs \<Rightarrow> Items xs
      | OpaqueObject \<Rightarrow> Whole
      | PlainObject own get \<Rightarrow> Fields (record_fields own get)
      | ClassInstance None own get \<Rightarrow> Fields (record_fields own get)
      | ClassInstance (Some c) own get \<Rightarrow>
          Fields (if has_metadata (se_bags env c) then instance_fields env (se_bags env c) own get else record_fields own get))"

section \<open>The serializer\<close>

datatype oval = OUndef | ONull | OPrim nat | OOpaque nat | OObject nat

datatype out_object = OutArray "oval list" | OutRecord "(pkey, oval) js_map"

record ser_state =
  ss_references :: "nat \<Rightarrow> (bool \<times> nat) option"
  ss_out :: "out_object list"

fun push_item :: "unit \<Rightarrow> oval \<Rightarrow> out_object \<Rightarrow> out_object" where
  "push_item u v (OutArray vs) = OutArray (vs @ [v])"
| "push_item u v ob = ob"

fun assignSerializedProperty :: "pkey \<Rightarrow> oval \<Rightarrow> out_object \<Rightarrow> out_object" where
  "assignSerializedProperty k v (OutRecord m) = OutRecord (js_set m k v)"
| "assignSerializedProperty k v ob = ob"

text \<open>The loop that fills the object \<open>i\<close>.\<close>

fun fill ::
  "('k \<Rightarrow> oval \<Rightarrow> out_object \<Rightarrow> out_object) \<Rightarrow> (sval \<Rightarrow> ser_state \<Rightarrow> (oval \<times> ser_state) option) \<Rightarrow> nat \<Rightarrow> ('k \<times> sval) list \<Rightarrow>
   ser_state \<Rightarrow> ser_state option" where
  "fill put ser i [] s = Some s"
| "fill put ser i ((k, x) # xs) s =
     (case ser x s of
        None \<Rightarrow> None
      | Some (v, s1) \<Rightarrow> fill put ser i xs (s1\<lparr>ss_out := (ss_out s1)[i := put k v (ss_out s1 ! i)]\<rparr>))"

definition markSerializationStart :: "nat \<Rightarrow> out_object \<Rightarrow> ser_state \<Rightarrow> ser_state" where
  "markSerializationStart a ob s =
     s\<lparr>ss_references := (ss_references s)(a \<mapsto> (True, length (ss_out s))), ss_out := ss_out s @ [ob]\<rparr>"

definition markSerializationComplete :: "nat \<Rightarrow> ser_state \<Rightarrow> ser_state" where
  "markSerializationComplete a s =
     (case ss_references s a of
        None \<Rightarrow> s
      | Some (active, i) \<Rightarrow> s\<lparr>ss_references := (ss_references s)(a \<mapsto> (False, i))\<rparr>)"

definition serializeWithTrackedReference ::
  "nat \<Rightarrow> out_object \<Rightarrow> (nat \<Rightarrow> ser_state \<Rightarrow> ser_state option) \<Rightarrow> ser_state \<Rightarrow> (oval \<times> ser_state) option" where
  "serializeWithTrackedReference a created fill_it s =
     (case ss_references s a of
        Some (active, i) \<Rightarrow> Some (if active then OUndef else OObject i, s)
      | None \<Rightarrow>
          map_option (\<lambda>s1. (OObject (length (ss_out s)), markSerializationComplete a s1))
            (fill_it (length (ss_out s)) (markSerializationStart a created s)))"

text \<open>One level of the recursion, and the recursion, its depth bounded by \<open>n\<close>: \<open>None\<close> means that the bound was too small.\<close>

definition visit ::
  "ser_env \<Rightarrow> (sval \<Rightarrow> ser_state \<Rightarrow> (oval \<times> ser_state) option) \<Rightarrow> sval \<Rightarrow> ser_state \<Rightarrow> (oval \<times> ser_state) option" where
  "visit env ser v s =
     (case v of
        Undef \<Rightarrow> Some (OUndef, s)
      | Null \<Rightarrow> Some (ONull, s)
      | Prim p \<Rightarrow> Some (OPrim p, s)
      | Ref a \<Rightarrow>
          (case contents_at env a of
             Whole \<Rightarrow> Some (OOpaque a, s)
           | Items xs \<Rightarrow> serializeWithTrackedReference a (OutArray []) (\<lambda>i. fill push_item ser i (map (Pair ()) xs)) s
           | Fields fs \<Rightarrow> serializeWithTrackedReference a (OutRecord []) (\<lambda>i. fill assignSerializedProperty ser i fs) s))"

primrec serializeInternal :: "ser_env \<Rightarrow> nat \<Rightarrow> sval \<Rightarrow> ser_state \<Rightarrow> (oval \<times> ser_state) option" where
  "serializeInternal env 0 = (\<lambda>v s. None)"
| "serializeInternal env (Suc n) = visit env (serializeInternal env n)"

definition empty_references :: ser_state where
  "empty_references = \<lparr>ss_references = Map.empty, ss_out = []\<rparr>"

definition serialize :: "ser_env \<Rightarrow> nat \<Rightarrow> sval \<Rightarrow> (oval \<times> ser_state) option" where
  "serialize env n v = serializeInternal env n v empty_references"

text \<open>The interceptor keeps what a handler wrote itself.\<close>

definition serializer_intercept :: "ser_env \<Rightarrow> nat \<Rightarrow> bool \<Rightarrow> sval \<Rightarrow> (sval + oval \<times> ser_state) option" where
  "serializer_intercept env n committed v = (if committed then Some (Inl v) else map_option Inr (serialize env n v))"

end
