(* ===== verification/Serialization_Correctness.thy ===== *)
theory Serialization_Correctness
  imports Serialization
begin

text \<open>
  The serializer returns on every finite heap, never reads what it must hide, and on acyclic graphs builds
  what a plain recursion without reference tracking would build.
\<close>

section \<open>Termination\<close>

lemma fill_some:
  assumes step: "\<And>k x t. (k, x) \<in> set xs \<Longrightarrow> P t \<Longrightarrow> \<exists>v t'. ser x t = Some (v, t') \<and> P t'"
    and out: "\<And>t vs. P t \<Longrightarrow> P (t\<lparr>ss_out := vs\<rparr>)"
  shows "P s \<Longrightarrow> \<exists>s'. fill put ser i xs s = Some s' \<and> P s'"
  using step
proof (induction xs arbitrary: s)
  case (Cons kx xs)
  obtain k x where kx: "kx = (k, x)"
    by fastforce
  obtain v t' where ran: "ser x s = Some (v, t')" "P t'"
    using Cons.prems kx by (metis list.set_intros(1))
  have "\<exists>s'. fill put ser i xs (t'\<lparr>ss_out := (ss_out t')[i := put k v (ss_out t' ! i)]\<rparr>) = Some s' \<and> P s'"
    using Cons.prems(2) by (intro Cons.IH out ran(2)) (meson list.set_intros(2))
  then show ?case
    by (simp add: kx ran)
qed simp

definition child_values :: "ser_env \<Rightarrow> nat \<Rightarrow> sval set" where
  "child_values env a = (case contents_at env a of Whole \<Rightarrow> {} | Items xs \<Rightarrow> set xs | Fields fs \<Rightarrow> snd ` set fs)"

text \<open>A set of addresses that walking a value never leaves.\<close>

definition inside :: "nat set \<Rightarrow> sval \<Rightarrow> bool" where
  "inside A v \<longleftrightarrow> (\<forall>a. v = Ref a \<longrightarrow> a \<in> A)"

definition closed_heap :: "ser_env \<Rightarrow> nat set \<Rightarrow> bool" where
  "closed_heap env A \<longleftrightarrow> finite A \<and> (\<forall>a\<in>A. \<forall>v\<in>child_values env a. inside A v)"

lemma tracked_some:
  assumes "\<And>s1. dom (ss_references s1) = insert a (dom (ss_references s)) \<Longrightarrow>
      \<exists>s2. fill_it (length (ss_out s)) s1 = Some s2 \<and> dom (ss_references s1) \<subseteq> dom (ss_references s2) \<and> dom (ss_references s2) \<subseteq> A"
    and "dom (ss_references s) \<subseteq> A"
  shows "\<exists>v s'. serializeWithTrackedReference a ob fill_it s = Some (v, s') \<and>
    dom (ss_references s) \<subseteq> dom (ss_references s') \<and> dom (ss_references s') \<subseteq> A"
proof (cases "ss_references s a")
  case None
  let ?s1 = "markSerializationStart a ob s"
  have "dom (ss_references ?s1) = insert a (dom (ss_references s))"
    by (simp add: markSerializationStart_def)
  from assms(1) [OF this] obtain s2 where s2: "fill_it (length (ss_out s)) ?s1 = Some s2"
    "insert a (dom (ss_references s)) \<subseteq> dom (ss_references s2)" "dom (ss_references s2) \<subseteq> A"
    by (auto simp: markSerializationStart_def)
  moreover have "dom (ss_references (markSerializationComplete a s2)) = dom (ss_references s2)"
    by (auto simp: markSerializationComplete_def split: option.split)
  ultimately show ?thesis
    using None by (simp add: serializeWithTrackedReference_def)
qed (use assms(2) in \<open>auto simp: serializeWithTrackedReference_def split: prod.split\<close>)

lemma fuel_suffices:
  assumes closed: "closed_heap env A"
  shows "inside A v \<Longrightarrow> dom (ss_references s) \<subseteq> A \<Longrightarrow> card (A - dom (ss_references s)) < n \<Longrightarrow>
    \<exists>r s'. serializeInternal env n v s = Some (r, s') \<and> dom (ss_references s) \<subseteq> dom (ss_references s') \<and> dom (ss_references s') \<subseteq> A"
proof (induction n arbitrary: v s)
  case (Suc n)
  have fin: "finite A"
    using closed by (simp add: closed_heap_def)
  show ?case
  proof (cases v)
    case (Ref a)
    then have "a \<in> A"
      using Suc.prems(1) by (simp add: inside_def)
    have filled: "\<exists>s2. fill put (serializeInternal env n) i xs s1 = Some s2 \<and> dom (ss_references s1) \<subseteq> dom (ss_references s2) \<and> dom (ss_references s2) \<subseteq> A"
      if s1: "dom (ss_references s1) = insert a (dom (ss_references s))" and fresh: "ss_references s a = None"
        and xs: "snd ` set xs \<subseteq> child_values env a"
      for put :: "'k \<Rightarrow> oval \<Rightarrow> out_object \<Rightarrow> out_object" and i xs s1
    proof -
      have "card (A - insert a (dom (ss_references s))) < card (A - dom (ss_references s))"
        using \<open>a \<in> A\<close> fresh fin by (intro psubset_card_mono) auto
      then have small: "card (A - insert a (dom (ss_references s))) < n"
        using Suc.prems(3) by simp
      let ?P = "\<lambda>t. dom (ss_references s1) \<subseteq> dom (ss_references t) \<and> dom (ss_references t) \<subseteq> A"
      have "\<exists>v t'. serializeInternal env n x t = Some (v, t') \<and> ?P t'" if "(k, x) \<in> set xs" "?P t" for k x t
      proof -
        have "inside A x"
          using xs that(1) closed \<open>a \<in> A\<close> unfolding closed_heap_def by (metis image_subset_iff snd_conv)
        moreover have "card (A - dom (ss_references t)) \<le> card (A - insert a (dom (ss_references s)))"
          using that(2) s1 fin by (intro card_mono) auto
        ultimately show ?thesis
          using Suc.IH [of x t] small that(2) by auto
      qed
      moreover have "?P s1"
        using s1 \<open>a \<in> A\<close> Suc.prems(2) by auto
      ultimately show ?thesis
        by (intro fill_some) auto
    qed
    show ?thesis
    proof (cases "ss_references s a")
      case None
      show ?thesis
      proof (cases "contents_at env a")
        case (Items xs)
        then have inner: "snd ` set (map (Pair ()) xs) \<subseteq> child_values env a"
          by (auto simp: child_values_def)
        show ?thesis
          using Ref Items by (auto simp: visit_def intro!: tracked_some filled [OF _ None inner] Suc.prems(2))
      next
        case (Fields fs)
        then have inner: "snd ` set fs \<subseteq> child_values env a"
          by (auto simp: child_values_def)
        show ?thesis
          using Ref Fields by (auto simp: visit_def intro!: tracked_some filled [OF _ None inner] Suc.prems(2))
      qed (use Ref Suc.prems(2) in \<open>simp add: visit_def\<close>)
    next
      case (Some p)
      then show ?thesis
        using Ref Suc.prems(2)
        by (auto simp: visit_def serializeWithTrackedReference_def split: contents.split prod.split)
    qed
  qed (use Suc.prems(2) in \<open>auto simp: visit_def\<close>)
qed simp

lemma fill_more:
  assumes more: "\<And>x t v t'. f x t = Some (v, t') \<Longrightarrow> g x t = Some (v, t')"
  shows "fill put f i xs s = Some s' \<Longrightarrow> fill put g i xs s = Some s'"
proof (induction xs arbitrary: s)
  case (Cons kx xs)
  obtain k x where kx: "kx = (k, x)"
    by fastforce
  from Cons.prems obtain v t where "f x s = Some (v, t)"
    by (auto simp: kx split: option.splits)
  with Cons more [OF this] show ?case
    by (simp add: kx)
qed simp

lemma visit_more:
  assumes more: "\<And>x t v t'. f x t = Some (v, t') \<Longrightarrow> g x t = Some (v, t')"
    and visited: "visit env f v s = Some (r, s')"
  shows "visit env g v s = Some (r, s')"
proof -
  have tracked: "serializeWithTrackedReference a ob (\<lambda>i. fill put g i xs) s = Some (r, s')"
    if "serializeWithTrackedReference a ob (\<lambda>i. fill put f i xs) s = Some (r, s')"
    for put :: "'k \<Rightarrow> oval \<Rightarrow> out_object \<Rightarrow> out_object" and xs a ob
    using that fill_more [of f g put _ xs, OF more] by (auto simp: serializeWithTrackedReference_def split: option.splits prod.splits)
  show ?thesis
    using visited by (auto simp: visit_def intro: tracked split: sval.splits contents.splits)
qed

lemma more_fuel: "serializeInternal env n v s = Some (r, s') \<Longrightarrow> serializeInternal env (Suc n) v s = Some (r, s')"
proof (induction n arbitrary: v s r s')
  case (Suc n)
  have "visit env (serializeInternal env n) v s = Some (r, s')"
    using Suc.prems by simp
  then have "visit env (serializeInternal env (Suc n)) v s = Some (r, s')"
    by (rule visit_more [rotated]) (rule Suc.IH)
  then show ?case
    by simp
qed simp

lemma enough_fuel: "n \<le> m \<Longrightarrow> serializeInternal env n v s = Some (r, s') \<Longrightarrow> serializeInternal env m v s = Some (r, s')"
  by (induction rule: dec_induct) (simp, metis more_fuel)

text \<open>
  C33. Serializing returns on every finite object graph, cyclic ones included, and at every depth bound
  above the number of reachable objects it returns the same value and the same output objects.
\<close>

theorem serialize_returns:
  assumes "closed_heap env A" "inside A v"
  shows "\<exists>r s. \<forall>n>card A. serialize env n v = Some (r, s)"
proof -
  have "card (A - dom (ss_references empty_references)) < Suc (card A)"
    by (simp add: empty_references_def)
  then obtain r s where "serializeInternal env (Suc (card A)) v empty_references = Some (r, s)"
    using fuel_suffices [OF assms, of empty_references "Suc (card A)"] by (auto simp: empty_references_def)
  then have "serialize env n v = Some (r, s)" if "card A < n" for n
    using enough_fuel [of "Suc (card A)" n] that by (simp add: serialize_def Suc_le_eq)
  then show ?thesis
    by blast
qed

section \<open>Hidden fields\<close>

text \<open>A key of an instance that must not show: excluded, or not exposed where only exposed fields may show.\<close>

definition hidden_key :: "class_bag list \<Rightarrow> pkey \<Rightarrow> bool" where
  "hidden_key bags k \<longleftrightarrow>
     (let m = js_get (getFieldSerializationMetadata bags) k
      in is_excluded m \<or> excludes_extraneous bags \<and> \<not> is_exposed m)"

text \<open>Two objects that differ in hidden properties only.\<close>

fun same_but_hidden :: "ser_env \<Rightarrow> source_object \<Rightarrow> source_object \<Rightarrow> bool" where
  "same_but_hidden env (ClassInstance (Some c) own get) (ClassInstance (Some c') own' get') \<longleftrightarrow>
     c' = c \<and> own' = own \<and> (\<forall>k. get' k = get k \<or> hidden_key (se_bags env c) k)"
| "same_but_hidden env ob ob' \<longleftrightarrow> ob' = ob"

lemma metadata_ok: "js_ok (getFieldSerializationMetadata bags)"
proof -
  have set_ok: "js_ok m \<Longrightarrow> js_ok (js_set m k v)" for m :: "(pkey, field_metadata) js_map" and k v
    using js_keys_set [of m k v] by (auto simp: js_keys_def)
  have one: "js_ok m \<Longrightarrow> js_ok (fold (\<lambda>(k, fm) merged. js_set merged k (merge_field (js_get merged k) fm)) fs m)" for fs and m :: "(pkey, field_metadata) js_map"
    by (induction fs arbitrary: m) (auto simp: set_ok)
  have "js_ok m \<Longrightarrow> js_ok (fold (\<lambda>bag. fold (\<lambda>(k, fm) merged. js_set merged k (merge_field (js_get merged k) fm)) (cb_fields bag)) bags m)" for m
    by (induction bags arbitrary: m) (auto simp: one)
  then show ?thesis
    by (simp add: getFieldSerializationMetadata_def)
qed

lemma map_filter_same: "(\<And>x. x \<in> set xs \<Longrightarrow> f x = g x) \<Longrightarrow> List.map_filter f xs = List.map_filter g xs"
  by (induction xs) (auto simp: List.map_filter_simps split: option.split)

lemma instance_fields_cong:
  assumes "\<And>k. get' k = get k \<or> hidden_key bags k"
  shows "instance_fields env bags own get' = instance_fields env bags own get"
proof -
  let ?meta = "getFieldSerializationMetadata bags" and ?extraneous = "excludes_extraneous bags"
  have same: "is_excluded (js_get ?meta k) \<or> get' k = get k"
    if "k \<in> set (resolveCandidateKeys own ?meta ?extraneous)" for k
  proof (rule ccontr)
    assume "\<not> ?thesis"
    then have "?extraneous" "\<not> is_exposed (js_get ?meta k)"
      using assms [of k] by (auto simp: hidden_key_def Let_def)
    moreover have "js_ok ?meta"
      by (rule metadata_ok)
    ultimately show False
      using that by (auto simp: resolveCandidateKeys_def is_exposed_def dest: js_in_get)
  qed
  show ?thesis
    unfolding instance_fields_def Let_def
  proof (rule map_filter_same)
    fix k
    assume "k \<in> set (resolveCandidateKeys own ?meta ?extraneous)"
    from same [OF this] show "(if is_excluded (js_get ?meta k) then None
        else if get' k = Undef \<and> ?extraneous \<and> \<not> is_exposed (js_get ?meta k) then None
        else Some (k, case js_get ?meta k of None \<Rightarrow> get' k | Some fm \<Rightarrow> applyTransforms env fm (get' k))) =
      (if is_excluded (js_get ?meta k) then None
        else if get k = Undef \<and> ?extraneous \<and> \<not> is_exposed (js_get ?meta k) then None
        else Some (k, case js_get ?meta k of None \<Rightarrow> get k | Some fm \<Rightarrow> applyTransforms env fm (get k)))"
      by (cases "is_excluded (js_get ?meta k)"; cases "js_get ?meta k") simp_all
  qed
qed

lemma contents_same_but_hidden:
  assumes "same_but_hidden env (se_heap env a) (heap' a)"
  shows "contents_at (env\<lparr>se_heap := heap'\<rparr>) a = contents_at env a"
proof -
  have inst: "instance_fields (env\<lparr>se_heap := heap'\<rparr>) bags own get = instance_fields env bags own get" for bags own get
  proof -
    have "applyTransforms (env\<lparr>se_heap := heap'\<rparr>) = applyTransforms env"
      by (intro ext) (simp add: applyTransforms_def)
    then show ?thesis
      by (simp only: instance_fields_def)
  qed
  have plain: "\<not> has_metadata bags \<Longrightarrow> \<not> hidden_key bags k" for bags k
    by (simp add: has_metadata_def hidden_key_def is_excluded_def)
  have recs: "(\<And>k. get' k = get k) \<Longrightarrow> record_fields own get' = record_fields own get" for own get get'
    by (simp add: record_fields_def)
  show ?thesis
  proof (cases "(env, se_heap env a, heap' a)" rule: same_but_hidden.cases)
    case (1 env1 c own get c' own' get')
    then have same: "se_heap env a = ClassInstance (Some c) own get" "heap' a = ClassInstance (Some c) own get'"
      "\<And>k. get' k = get k \<or> hidden_key (se_bags env c) k"
      using assms by auto
    show ?thesis
    proof (cases "has_metadata (se_bags env c)")
      case True
      then show ?thesis
        using instance_fields_cong [OF same(3)] by (simp add: contents_at_def same(1,2) inst)
    next
      case False
      then show ?thesis
        using recs [of get' get] plain same(3) by (simp add: contents_at_def same(1,2))
    qed
  qed (use assms in \<open>auto simp: contents_at_def inst split: source_object.split option.split\<close>)
qed

lemma same_contents:
  assumes "\<And>a. contents_at env' a = contents_at env a"
  shows "serializeInternal env' n = serializeInternal env n"
proof (induction n)
  case (Suc n)
  have "visit env' f v s = visit env f v s" for f v s
    by (simp add: visit_def assms split: sval.split)
  then have "visit env' = visit env"
    by (intro ext)
  with Suc show ?case
    by simp
qed simp

text \<open>
  C34. What an excluded field holds, or a field that is not exposed where only exposed fields may show, has no
  influence on the output: with any other values there, anywhere in the graph, inherited declarations
  included, the serializer returns the same value and builds the same objects.
\<close>

theorem hidden_fields_do_not_leak:
  assumes "\<And>a. same_but_hidden env (se_heap env a) (heap' a)"
  shows "serialize (env\<lparr>se_heap := heap'\<rparr>) n v = serialize env n v"
proof -
  have "contents_at (env\<lparr>se_heap := heap'\<rparr>) a = contents_at env a" for a
    by (rule contents_same_but_hidden) (rule assms)
  then have "serializeInternal (env\<lparr>se_heap := heap'\<rparr>) n = serializeInternal env n"
    by (rule same_contents)
  then show ?thesis
    by (simp add: serialize_def)
qed

section \<open>The graph that is built\<close>

text \<open>
  Output objects unfolded to a tree of depth \<open>n\<close>, and the tree that plain recursion over the source builds,
  without any memory of what was visited.
\<close>

datatype tree =
    Cut
  | TUndef
  | TNull
  | TPrim nat
  | TOpaque nat
  | TArray "tree list"
  | TRecord "(pkey \<times> tree) list"

fun unfold_out :: "out_object list \<Rightarrow> nat \<Rightarrow> oval \<Rightarrow> tree" where
  "unfold_out out n OUndef = TUndef"
| "unfold_out out n ONull = TNull"
| "unfold_out out n (OPrim p) = TPrim p"
| "unfold_out out n (OOpaque a) = TOpaque a"
| "unfold_out out 0 (OObject i) = Cut"
| "unfold_out out (Suc n) (OObject i) =
     (case out ! i of
        OutArray vs \<Rightarrow> TArray (map (unfold_out out n) vs)
      | OutRecord m \<Rightarrow> TRecord (map (\<lambda>(k, v). (k, unfold_out out n v)) m))"

fun plain_tree :: "ser_env \<Rightarrow> nat \<Rightarrow> sval \<Rightarrow> tree" where
  "plain_tree env n Undef = TUndef"
| "plain_tree env n Null = TNull"
| "plain_tree env n (Prim p) = TPrim p"
| "plain_tree env 0 (Ref a) = (if contents_at env a = Whole then TOpaque a else Cut)"
| "plain_tree env (Suc n) (Ref a) =
     (case contents_at env a of
        Whole \<Rightarrow> TOpaque a
      | Items xs \<Rightarrow> TArray (map (plain_tree env n) xs)
      | Fields fs \<Rightarrow> TRecord (fold (\<lambda>(k, x) m. js_set m k (plain_tree env n x)) fs []))"

text \<open>An object counts as settled once it is complete; what it refers to is settled too.\<close>

definition settled :: "ser_state \<Rightarrow> oval \<Rightarrow> bool" where
  "settled s v \<longleftrightarrow> (\<forall>i. v = OObject i \<longrightarrow> (\<exists>a. ss_references s a = Some (False, i)))"

fun parts :: "out_object \<Rightarrow> oval set" where
  "parts (OutArray vs) = set vs"
| "parts (OutRecord m) = snd ` set m"

definition shows_source :: "ser_env \<Rightarrow> ser_state \<Rightarrow> oval \<Rightarrow> sval \<Rightarrow> bool" where
  "shows_source env s v x \<longleftrightarrow> settled s v \<and> (\<forall>n. unfold_out (ss_out s) n v = plain_tree env n x)"

definition graph_ok :: "ser_env \<Rightarrow> ser_state \<Rightarrow> bool" where
  "graph_ok env s \<longleftrightarrow>
     (\<forall>a b p q i. ss_references s a = Some (p, i) \<longrightarrow> ss_references s b = Some (q, i) \<longrightarrow> a = b)
     \<and> (\<forall>a p i. ss_references s a = Some (p, i) \<longrightarrow> i < length (ss_out s) \<and> contents_at env a \<noteq> Whole)
     \<and> (\<forall>a i. ss_references s a = Some (False, i) \<longrightarrow>
          (\<forall>v\<in>parts (ss_out s ! i). settled s v) \<and> (\<forall>n. unfold_out (ss_out s) n (OObject i) = plain_tree env n (Ref a)))"

lemma graph_okD:
  assumes "graph_ok env s" "ss_references s a = Some (p, i)"
  shows "i < length (ss_out s)" "contents_at env a \<noteq> Whole"
    "ss_references s b = Some (q, i) \<Longrightarrow> a = b"
    "\<not> p \<Longrightarrow> v \<in> parts (ss_out s ! i) \<Longrightarrow> settled s v"
    "\<not> p \<Longrightarrow> unfold_out (ss_out s) n (OObject i) = plain_tree env n (Ref a)"
proof -
  note parts = assms(1) [unfolded graph_ok_def]
  show "i < length (ss_out s)" "contents_at env a \<noteq> Whole"
    using parts [THEN conjunct2, THEN conjunct1] assms(2) by blast+
  show "ss_references s b = Some (q, i) \<Longrightarrow> a = b"
    using parts [THEN conjunct1] assms(2) by blast
  show "\<not> p \<Longrightarrow> v \<in> parts (ss_out s ! i) \<Longrightarrow> settled s v"
    "\<not> p \<Longrightarrow> unfold_out (ss_out s) n (OObject i) = plain_tree env n (Ref a)"
    using parts [THEN conjunct2, THEN conjunct2] assms(2) by auto
qed

lemma graph_okI:
  assumes "\<And>a p i. ss_references s a = Some (p, i) \<Longrightarrow> i < length (ss_out s) \<and> contents_at env a \<noteq> Whole"
    and "\<And>a b p q i. ss_references s a = Some (p, i) \<Longrightarrow> ss_references s b = Some (q, i) \<Longrightarrow> a = b"
    and "\<And>a i v. ss_references s a = Some (False, i) \<Longrightarrow> v \<in> parts (ss_out s ! i) \<Longrightarrow> settled s v"
    and "\<And>a i n. ss_references s a = Some (False, i) \<Longrightarrow> unfold_out (ss_out s) n (OObject i) = plain_tree env n (Ref a)"
  shows "graph_ok env s"
  unfolding graph_ok_def
  by (intro conjI allI impI ballI assms(2)) (use assms(1,3,4) in auto)

text \<open>Later states: completed and open references stay, and only the objects \<open>W\<close> are written.\<close>

definition grows :: "nat set \<Rightarrow> ser_state \<Rightarrow> ser_state \<Rightarrow> bool" where
  "grows W s t \<longleftrightarrow>
     (\<forall>a p. ss_references s a = Some p \<longrightarrow> ss_references t a = Some p)
     \<and> (\<forall>a i. ss_references t a = Some (True, i) \<longrightarrow> ss_references s a = Some (True, i))
     \<and> length (ss_out s) \<le> length (ss_out t)
     \<and> (\<forall>i<length (ss_out s). i \<notin> W \<longrightarrow> ss_out t ! i = ss_out s ! i)"

lemma growsD:
  assumes "grows W s t"
  shows "ss_references s a = Some p \<Longrightarrow> ss_references t a = Some p"
    "ss_references t a = Some (True, i) \<Longrightarrow> ss_references s a = Some (True, i)"
    "i < length (ss_out s) \<Longrightarrow> i < length (ss_out t)"
    "i < length (ss_out s) \<Longrightarrow> i \<notin> W \<Longrightarrow> ss_out t ! i = ss_out s ! i"
  using assms unfolding grows_def by (blast, blast, meson order_less_le_trans, blast)

lemma grows_refl [simp]: "grows W s s"
  by (simp add: grows_def)

lemma growsI:
  assumes "\<And>a p. ss_references s a = Some p \<Longrightarrow> ss_references t a = Some p"
    and "\<And>a i. ss_references t a = Some (True, i) \<Longrightarrow> ss_references s a = Some (True, i)"
    and "length (ss_out s) \<le> length (ss_out t)"
    and "\<And>i. i < length (ss_out s) \<Longrightarrow> i \<notin> W \<Longrightarrow> ss_out t ! i = ss_out s ! i"
  shows "grows W s t"
  unfolding grows_def by (intro conjI allI impI; rule assms)

lemma grows_length: "grows W s t \<Longrightarrow> length (ss_out s) \<le> length (ss_out t)"
  by (simp add: grows_def)

lemma grows_trans:
  assumes st: "grows W s t" and tu: "grows W t u"
  shows "grows W s u"
proof (rule growsI)
  show "ss_references u a = Some p" if "ss_references s a = Some p" for a p
    using growsD(1) [OF tu growsD(1) [OF st that]] .
  show "ss_references s a = Some (True, i)" if "ss_references u a = Some (True, i)" for a i
    using growsD(2) [OF st growsD(2) [OF tu that]] .
  show "length (ss_out s) \<le> length (ss_out u)"
    using grows_length [OF st] grows_length [OF tu] by simp
  show "ss_out u ! i = ss_out s ! i" if "i < length (ss_out s)" "i \<notin> W" for i
    using growsD(4) [OF tu growsD(3) [OF st that(1)] that(2)] growsD(4) [OF st that] by simp
qed

lemma grows_more: "grows W s t \<Longrightarrow> W \<subseteq> V \<Longrightarrow> grows V s t"
  unfolding grows_def by blast

lemma settled_grows: "settled s v \<Longrightarrow> grows W s t \<Longrightarrow> settled t v"
  unfolding settled_def grows_def by blast

lemma unfold_same:
  assumes "\<And>i. settled s (OObject i) \<Longrightarrow> ss_out t ! i = ss_out s ! i"
    and "\<And>i v. settled s (OObject i) \<Longrightarrow> v \<in> parts (ss_out s ! i) \<Longrightarrow> settled s v"
  shows "settled s v \<Longrightarrow> unfold_out (ss_out t) n v = unfold_out (ss_out s) n v"
proof (induction "ss_out s" n v rule: unfold_out.induct)
  case (6 n i)
  have "\<forall>v\<in>parts (ss_out s ! i). settled s v"
    using assms(2) [OF 6(3)] by blast
  with 6 assms(1) [OF 6(3)] show ?case
    by (cases "ss_out s ! i") auto
qed simp_all

lemma shows_grows:
  assumes "graph_ok env s" "grows W s t" and untouched: "\<And>a i. i \<in> W \<Longrightarrow> ss_references s a \<noteq> Some (False, i)"
    and "shows_source env s v x"
  shows "shows_source env t v x"
proof -
  have "unfold_out (ss_out t) n v = unfold_out (ss_out s) n v" for n
  proof (rule unfold_same)
    show "settled s v"
      using assms(4) by (simp add: shows_source_def)
    show "ss_out t ! i = ss_out s ! i" if complete: "settled s (OObject i)" for i
    proof -
      obtain a where "ss_references s a = Some (False, i)"
        using complete by (auto simp: settled_def)
      then have "i < length (ss_out s)" "i \<notin> W"
        using assms(1) untouched unfolding graph_ok_def by blast+
      then show ?thesis
        using assms(2) by (simp add: grows_def)
    qed
    show "settled s w" if complete: "settled s (OObject i)" "w \<in> parts (ss_out s ! i)" for i w
    proof -
      obtain a where "ss_references s a = Some (False, i)"
        using complete(1) by (auto simp: settled_def)
      then show ?thesis
        using complete(2) assms(1) unfolding graph_ok_def by blast
    qed
  qed
  then show ?thesis
    using assms(4) settled_grows [OF _ assms(2)] by (simp add: shows_source_def)
qed

text \<open>
  An acyclic graph: a rank of the addresses that falls along every step.  A value is below the objects that
  are being filled, so it never meets one of them.
\<close>

definition ranked :: "ser_env \<Rightarrow> (nat \<Rightarrow> nat) \<Rightarrow> bool" where
  "ranked env rk \<longleftrightarrow> (\<forall>a b. Ref b \<in> child_values env a \<longrightarrow> rk b < rk a)"

definition below_open :: "(nat \<Rightarrow> nat) \<Rightarrow> ser_state \<Rightarrow> sval \<Rightarrow> bool" where
  "below_open rk s x \<longleftrightarrow> (\<forall>a b i. x = Ref a \<longrightarrow> ss_references s b = Some (True, i) \<longrightarrow> rk a < rk b)"

lemma below_grows: "below_open rk s x \<Longrightarrow> grows W s t \<Longrightarrow> below_open rk t x"
  unfolding below_open_def grows_def by blast

definition correct_for :: "ser_env \<Rightarrow> (nat \<Rightarrow> nat) \<Rightarrow> (sval \<Rightarrow> ser_state \<Rightarrow> (oval \<times> ser_state) option) \<Rightarrow> bool" where
  "correct_for env rk ser \<longleftrightarrow>
     (\<forall>x s v t. graph_ok env s \<longrightarrow> below_open rk s x \<longrightarrow> ser x s = Some (v, t) \<longrightarrow>
        graph_ok env t \<and> grows {} s t \<and> shows_source env t v x)"

lemma correct_forD:
  assumes "correct_for env rk ser" "graph_ok env s" "below_open rk s x" "ser x s = Some (v, t)"
  shows "graph_ok env t" "grows {} s t" "shows_source env t v x"
  using assms unfolding correct_for_def by blast+

text \<open>Writing to an object that is still open.\<close>

lemma open_unsettled: "graph_ok env s \<Longrightarrow> ss_references s a = Some (True, i) \<Longrightarrow> ss_references s b \<noteq> Some (False, i)"
  unfolding graph_ok_def by (metis Pair_inject option.inject)

lemma write_open:
  assumes ok: "graph_ok env s" and opened: "ss_references s a = Some (True, i)"
  shows "graph_ok env (s\<lparr>ss_out := (ss_out s)[i := ob]\<rparr>)" "grows {i} s (s\<lparr>ss_out := (ss_out s)[i := ob]\<rparr>)"
proof -
  let ?t = "s\<lparr>ss_out := (ss_out s)[i := ob]\<rparr>"
  show grown: "grows {i} s ?t"
    by (simp add: grows_def)
  have same: "ss_out ?t ! j = ss_out s ! j" if "ss_references s b = Some (False, j)" for b j
    using open_unsettled [OF ok opened] that by (cases "j = i") auto
  show "graph_ok env ?t"
  proof (rule graph_okI)
    show "j < length (ss_out ?t) \<and> contents_at env b \<noteq> Whole" if "ss_references ?t b = Some (p, j)" for b p j
      using that graph_okD(1,2) [OF ok, of b p j] by simp
    show "b = c" if "ss_references ?t b = Some (p, j)" "ss_references ?t c = Some (q, j)" for b c p q j
      using that graph_okD(3) [OF ok, of b p j] by simp
    show "settled ?t v" if "ss_references ?t b = Some (False, j)" "v \<in> parts (ss_out ?t ! j)" for b j v
      using that same [of b j] graph_okD(4) [OF ok, of b False j v] by (simp add: settled_def)
    show "unfold_out (ss_out ?t) n (OObject j) = plain_tree env n (Ref b)" if b: "ss_references ?t b = Some (False, j)" for b j n
    proof -
      have "ss_references s b = Some (False, j)"
        using b by simp
      then have "shows_source env s (OObject j) (Ref b)"
        using graph_okD(5) [OF ok] by (auto simp: shows_source_def settled_def)
      then have "shows_source env ?t (OObject j) (Ref b)"
        using open_unsettled [OF ok opened] by (intro shows_grows [OF ok grown]) auto
      then show ?thesis
        by (simp add: shows_source_def)
    qed
  qed
qed

text \<open>The loop: the object \<open>i\<close> of the open address \<open>a\<close> collects what shows the values, in order.\<close>

lemma fill_correct:
  assumes ser: "correct_for env rk ser"
    and parts_put: "\<And>k v ob. parts (put k v ob) \<subseteq> insert v (parts ob)"
  shows "graph_ok env s \<Longrightarrow> ss_references s a = Some (True, i) \<Longrightarrow> (\<forall>(k, x)\<in>set xs. below_open rk s x) \<Longrightarrow>
    (\<forall>w\<in>parts (ss_out s ! i). settled s w) \<Longrightarrow> fill put ser i xs s = Some t \<Longrightarrow>
    graph_ok env t \<and> grows {i} s t \<and> (\<forall>w\<in>parts (ss_out t ! i). settled t w) \<and>
    (\<exists>vs. ss_out t ! i = fold (\<lambda>(k, v). put k v) vs (ss_out s ! i)
      \<and> list_all2 (\<lambda>(k, v) (k', x). k = k' \<and> shows_source env t v x) vs xs)"
proof (induction xs arbitrary: s)
  case Nil
  then show ?case
    by (auto intro: exI [of _ "[]"])
next
  case (Cons kx xs)
  obtain k x where kx: "kx = (k, x)"
    by fastforce
  obtain v u where ran: "ser x s = Some (v, u)"
    using Cons.prems(5) by (auto simp: kx split: option.splits)
  note step = correct_forD [OF ser Cons.prems(1) _ ran]
  have "below_open rk s x"
    using Cons.prems(3) by (simp add: kx)
  note step = step [OF this]
  define ob where "ob = put k v (ss_out u ! i)"
  let ?u = "u\<lparr>ss_out := (ss_out u)[i := ob]\<rparr>"
  have "i < length (ss_out s)"
    by (rule graph_okD(1) [OF Cons.prems(1,2)])
  then have i: "i < length (ss_out s)" "ss_references u a = Some (True, i)" "ss_out u ! i = ss_out s ! i"
    using growsD(1) [OF step(2) Cons.prems(2)] growsD(4) [OF step(2)] by simp_all
  then have i': "i < length (ss_out u)"
    using growsD(3) [OF step(2)] by simp
  note written = write_open [OF step(1) i(2), of ob]
  have grown: "grows {i} s ?u"
    using grows_trans [OF grows_more [OF step(2)] written(2)] by simp
  have unsettled: "ss_references u b \<noteq> Some (False, j)" if "j \<in> {i}" for b j
    using that open_unsettled [OF step(1) i(2)] by simp
  have shown: "shows_source env ?u v x"
    using shows_grows [OF step(1) written(2) unsettled step(3)] .
  have below: "\<forall>(k, x)\<in>set xs. below_open rk ?u x"
    using Cons.prems(3) below_grows [OF _ grown] by auto
  have inner: "\<forall>w\<in>parts (ss_out ?u ! i). settled ?u w"
    using parts_put [of k v "ss_out u ! i"] shown i' i(3) Cons.prems(4) settled_grows [OF _ grown]
    by (auto simp: ob_def shows_source_def)
  have rest: "fill put ser i xs ?u = Some t"
    using Cons.prems(5) ran by (simp add: kx ob_def)
  have "ss_references ?u a = Some (True, i)"
    using i(2) by simp
  note IH = Cons.IH [OF written(1) this below inner rest]
  have finish: "graph_ok env t" "grows {i} ?u t" "\<forall>w\<in>parts (ss_out t ! i). settled t w"
    using IH by blast+
  have "\<exists>vs. ss_out t ! i = fold (\<lambda>(k, v). put k v) vs (ss_out ?u ! i)
      \<and> list_all2 (\<lambda>(k, v) (k', x). k = k' \<and> shows_source env t v x) vs xs"
    using IH by blast
  then obtain vs where vs: "ss_out t ! i = fold (\<lambda>(k, v). put k v) vs ob"
    "list_all2 (\<lambda>(k, v) (k', x). k = k' \<and> shows_source env t v x) vs xs"
    using i' by auto
  have "ss_references ?u b \<noteq> Some (False, j)" if "j \<in> {i}" for b j
    using unsettled [OF that] by simp
  then have "shows_source env t v x"
    by (rule shows_grows [OF written(1) finish(2) _ shown])
  then have "ss_out t ! i = fold (\<lambda>(k, v). put k v) ((k, v) # vs) (ss_out s ! i)
      \<and> list_all2 (\<lambda>(k, v) (k', x). k = k' \<and> shows_source env t v x) ((k, v) # vs) (kx # xs)"
    using vs i(3) by (simp add: kx ob_def)
  then show ?case
    using finish grows_trans [OF grown finish(2)] by blast
qed

text \<open>Opening an address, and completing it.\<close>

lemma unfold_kept:
  assumes "graph_ok env s" and refs: "\<And>b i. ss_references s b = Some (False, i) \<Longrightarrow> ss_out t ! i = ss_out s ! i"
    and "settled s v"
  shows "unfold_out (ss_out t) n v = unfold_out (ss_out s) n v"
proof (rule unfold_same [OF _ _ assms(3)])
  show "ss_out t ! i = ss_out s ! i" if "settled s (OObject i)" for i
    using that refs by (auto simp: settled_def)
  show "settled s w" if complete: "settled s (OObject i)" "w \<in> parts (ss_out s ! i)" for i w
  proof -
    obtain b where "ss_references s b = Some (False, i)"
      using complete(1) by (auto simp: settled_def)
    then show ?thesis
      using graph_okD(4) [OF assms(1)] complete(2) by blast
  qed
qed

lemma start_ok:
  assumes ok: "graph_ok env s" and new: "ss_references s a = None"
    and contents: "contents_at env a \<noteq> Whole" and "parts ob = {}"
  shows "graph_ok env (markSerializationStart a ob s)"
proof -
  let ?t = "markSerializationStart a ob s"
  have out: "ss_out ?t ! i = ss_out s ! i" if "ss_references s b = Some (p, i)" for b p i
    using graph_okD(1) [OF ok that] by (simp add: markSerializationStart_def nth_append)
  have "ss_references ?t b = ss_references s b" if "b \<noteq> a" for b
    using that by (simp add: markSerializationStart_def)
  then have keep: "settled s v \<Longrightarrow> settled ?t v" for v
    unfolding settled_def by (metis new option.distinct(1))
  have old: "ss_references s b = Some (p, i) \<or> b = a \<and> p \<and> i = length (ss_out s)" if "ss_references ?t b = Some (p, i)" for b p i
    using that by (auto simp: markSerializationStart_def split: if_splits)
  have small: "i < length (ss_out s)" if "ss_references s b = Some (p, i)" for b p i
    using graph_okD(1) [OF ok that] .
  show ?thesis
  proof (rule graph_okI)
    show "i < length (ss_out ?t) \<and> contents_at env b \<noteq> Whole" if "ss_references ?t b = Some (p, i)" for b p i
      using old [OF that] graph_okD(1,2) [OF ok, of b p i] contents by (auto simp: markSerializationStart_def)
    show "b = c" if "ss_references ?t b = Some (p, i)" "ss_references ?t c = Some (q, i)" for b c p q i
      using old [OF that(1)] old [OF that(2)] graph_okD(3) [OF ok, of b p i] small by blast
    show "settled ?t v" if "ss_references ?t b = Some (False, i)" "v \<in> parts (ss_out ?t ! i)" for b i v
      using old [OF that(1)] that(2) out graph_okD(4) [OF ok, of b False i v] keep by auto
    show "unfold_out (ss_out ?t) n (OObject i) = plain_tree env n (Ref b)" if "ss_references ?t b = Some (False, i)" for b i n
    proof -
      have b: "ss_references s b = Some (False, i)"
        using old [OF that] by simp
      then have "unfold_out (ss_out ?t) n (OObject i) = unfold_out (ss_out s) n (OObject i)"
        by (intro unfold_kept [OF ok]) (auto simp: settled_def intro: out)
      then show ?thesis
        using graph_okD(5) [OF ok b] by simp
    qed
  qed
qed

lemma complete_ok:
  assumes ok: "graph_ok env s" and opened: "ss_references s a = Some (True, i)"
    and inner: "\<forall>w\<in>parts (ss_out s ! i). settled s w"
    and tree: "\<And>n. unfold_out (ss_out s) n (OObject i) = plain_tree env n (Ref a)"
  shows "graph_ok env (markSerializationComplete a s)"
proof -
  let ?t = "markSerializationComplete a s"
  have t: "?t = s\<lparr>ss_references := (ss_references s)(a \<mapsto> (False, i))\<rparr>"
    by (simp add: markSerializationComplete_def opened)
  have old: "\<exists>q. ss_references s b = Some (q, j) \<and> (q = p \<or> b = a)" if "ss_references ?t b = Some (p, j)" for b p j
    using that opened by (auto simp: t split: if_splits)
  have "ss_references ?t b = ss_references s b" if "b \<noteq> a" for b
    using that by (simp add: t)
  then have keep: "settled s v \<Longrightarrow> settled ?t v" for v
    unfolding settled_def by (metis Pair_inject opened option.inject)
  show ?thesis
  proof (rule graph_okI)
    show "j < length (ss_out ?t) \<and> contents_at env b \<noteq> Whole" if "ss_references ?t b = Some (p, j)" for b p j
      using old [OF that] graph_okD(1,2) [OF ok] by (auto simp: t)
    show "b = c" if "ss_references ?t b = Some (p, j)" "ss_references ?t c = Some (q, j)" for b c p q j
      using old [OF that(1)] old [OF that(2)] graph_okD(3) [OF ok] by blast
    show "settled ?t v" if "ss_references ?t b = Some (False, j)" "v \<in> parts (ss_out ?t ! j)" for b j v
      using that inner graph_okD(4) [OF ok, of b False j v] keep by (auto simp: t split: if_splits)
    show "unfold_out (ss_out ?t) n (OObject j) = plain_tree env n (Ref b)" if "ss_references ?t b = Some (False, j)" for b j n
      using that tree graph_okD(5) [OF ok, of b False j n] by (auto simp: t split: if_splits)
  qed
qed

lemma tracked_correct:
  assumes ser: "correct_for env rk ser" and rank: "ranked env rk"
    and parts_put: "\<And>k v ob. parts (put k v ob) \<subseteq> insert v (parts ob)" and "parts created = {}"
    and contents: "contents_at env a \<noteq> Whole" and children: "snd ` set xs \<subseteq> child_values env a"
    and tree: "\<And>out vs n i. out ! i = fold (\<lambda>(k, v). put k v) vs created \<Longrightarrow>
        list_all2 (\<lambda>(k, v) (k', x). k = k' \<and> unfold_out out n v = plain_tree env n x) vs xs \<Longrightarrow>
        unfold_out out (Suc n) (OObject i) = plain_tree env (Suc n) (Ref a)"
    and ok: "graph_ok env s" and below: "below_open rk s (Ref a)"
    and ran: "serializeWithTrackedReference a created (\<lambda>i. fill put ser i xs) s = Some (v, t)"
  shows "graph_ok env t \<and> grows {} s t \<and> shows_source env t v (Ref a)"
proof (cases "ss_references s a")
  case (Some pi)
  obtain p i where pi: "pi = (p, i)"
    by fastforce
  have "\<not> p"
    using below Some pi by (cases p) (auto simp: below_open_def)
  moreover from this have "t = s" "v = OObject i"
    using ran Some pi by (auto simp: serializeWithTrackedReference_def)
  moreover have "shows_source env s (OObject i) (Ref a)"
    using graph_okD(5) [OF ok, of a p i] Some pi \<open>\<not> p\<close> by (auto simp: shows_source_def settled_def)
  ultimately show ?thesis
    using ok by simp
next
  case None
  define i where "i = length (ss_out s)"
  define s1 where "s1 = markSerializationStart a created s"
  have s1: "ss_references s1 = (ss_references s)(a \<mapsto> (True, i))" "ss_out s1 = ss_out s @ [created]"
    by (simp_all add: s1_def i_def markSerializationStart_def)
  obtain s2 where filled: "fill put ser i xs s1 = Some s2" and v: "v = OObject i" and t: "t = markSerializationComplete a s2"
    using ran None by (auto simp: serializeWithTrackedReference_def i_def s1_def)
  have ok1: "graph_ok env s1"
    unfolding s1_def using start_ok [OF ok None contents] \<open>parts created = {}\<close> .
  have below1: "\<forall>(k, x)\<in>set xs. below_open rk s1 x"
  proof -
    have "below_open rk s1 x" if "x \<in> child_values env a" for x
      using that rank below unfolding below_open_def ranked_def s1(1) by (auto split: if_splits) (meson order_less_trans)
    then show ?thesis
      using children by force
  qed
  have opened: "ss_references s1 a = Some (True, i)" and created: "ss_out s1 ! i = created"
    by (simp_all add: s1 i_def)
  from fill_correct [OF ser parts_put ok1 opened below1 _ filled] \<open>parts created = {}\<close> created
  have ok2: "graph_ok env s2" and grown: "grows {i} s1 s2" and inner: "\<forall>w\<in>parts (ss_out s2 ! i). settled s2 w"
    and "\<exists>vs. ss_out s2 ! i = fold (\<lambda>(k, v). put k v) vs created
      \<and> list_all2 (\<lambda>(k, v) (k', x). k = k' \<and> shows_source env s2 v x) vs xs"
    by simp_all
  then obtain vs where vs: "ss_out s2 ! i = fold (\<lambda>(k, v). put k v) vs created"
    "list_all2 (\<lambda>(k, v) (k', x). k = k' \<and> shows_source env s2 v x) vs xs"
    by blast
  have opened2: "ss_references s2 a = Some (True, i)"
    using growsD(1) [OF grown opened] .
  have whole: "unfold_out (ss_out s2) n (OObject i) = plain_tree env n (Ref a)" for n
  proof (cases n)
    case (Suc m)
    have "list_all2 (\<lambda>(k, v) (k', x). k = k' \<and> unfold_out (ss_out s2) m v = plain_tree env m x) vs xs"
      using vs(2) by (rule list_all2_mono) (auto simp: shows_source_def)
    from tree [OF vs(1) this] show ?thesis
      using Suc by simp
  qed (simp add: contents)
  have refs: "ss_references t = (ss_references s2)(a \<mapsto> (False, i))" "ss_out t = ss_out s2"
    by (simp_all add: t markSerializationComplete_def opened2)
  have "graph_ok env t"
    unfolding t by (rule complete_ok [OF ok2 opened2 inner whole])
  moreover have "grows {} s t"
  proof (rule growsI)
    show "ss_references t b = Some p" if "ss_references s b = Some p" for b p
      using growsD(1) [OF grown, of b p] that None by (auto simp: s1(1) refs(1))
    show "ss_references s b = Some (True, j)" if "ss_references t b = Some (True, j)" for b j
      using that growsD(2) [OF grown, of b j] by (auto simp: refs(1) s1(1) split: if_splits)
    show "length (ss_out s) \<le> length (ss_out t)"
      using grows_length [OF grown] by (simp add: s1(2) refs(2))
    show "ss_out t ! j = ss_out s ! j" if "j < length (ss_out s)" for j
      using growsD(4) [OF grown, of j] that by (simp add: s1(2) refs(2) i_def nth_append)
  qed
  moreover have "shows_source env t v (Ref a)"
    using whole by (auto simp: shows_source_def settled_def v refs)
  ultimately show ?thesis
    by blast
qed

lemma fold_push: "fold (\<lambda>(k, v). push_item k v) vs (OutArray ws) = OutArray (ws @ map snd vs)"
  by (induction vs arbitrary: ws) auto

lemma fold_assign: "fold (\<lambda>(k, v). assignSerializedProperty k v) vs (OutRecord m) = OutRecord (fold (\<lambda>(k, v) m. js_set m k v) vs m)"
  by (induction vs arbitrary: m) auto

lemma parts_push: "parts (push_item k v ob) \<subseteq> insert v (parts ob)"
  by (cases ob) auto

lemma parts_assign: "parts (assignSerializedProperty k v ob) \<subseteq> insert v (parts ob)"
proof (cases ob)
  case (OutRecord m)
  have "snd ` set (js_set m k v) \<subseteq> snd ` insert (k, v) (set m)"
    by (rule image_mono) (rule js_set_subset)
  then show ?thesis
    by (simp add: OutRecord)
qed auto

lemma js_set_map: "map (\<lambda>(k, v). (k, f v)) (js_set m k v) = js_set (map (\<lambda>(k, v). (k, f v)) m) k (f v)"
  by (force simp: js_set_def js_has_def)

lemma tree_items:
  assumes "list_all2 (\<lambda>(k, v) (k', x). k = k' \<and> unfold_out out n v = plain_tree env n x) vs (map (Pair ()) xs)"
  shows "map (unfold_out out n) (map snd vs) = map (plain_tree env n) xs"
  using assms by (induction vs arbitrary: xs) (auto simp: list_all2_Cons1)

lemma tree_fields:
  assumes "list_all2 (\<lambda>(k, v) (k', x). k = k' \<and> unfold_out out n v = plain_tree env n x) vs fs"
  shows "map (\<lambda>(k, v). (k, unfold_out out n v)) (fold (\<lambda>(k, v) m. js_set m k v) vs m) =
    fold (\<lambda>(k, x) m. js_set m k (plain_tree env n x)) fs (map (\<lambda>(k, v). (k, unfold_out out n v)) m)"
  using assms
proof (induction vs arbitrary: fs m)
  case (Cons kv vs)
  then show ?case
    by (cases kv) (auto simp: list_all2_Cons1 js_set_map)
qed simp

lemma visit_correct:
  assumes ser: "correct_for env rk ser" and rank: "ranked env rk"
  shows "correct_for env rk (visit env ser)"
  unfolding correct_for_def
proof (intro allI impI)
  fix x s v t
  assume ok: "graph_ok env s" and below: "below_open rk s x" and ran: "visit env ser x s = Some (v, t)"
  show "graph_ok env t \<and> grows {} s t \<and> shows_source env t v x"
  proof (cases x)
    case (Ref a)
    show ?thesis
    proof (cases "contents_at env a")
      case Whole
      have "plain_tree env n (Ref a) = TOpaque a" for n
        by (cases n) (simp_all add: Whole)
      then show ?thesis
        using ran ok by (auto simp: visit_def Ref Whole shows_source_def settled_def)
    next
      case (Items xs)
      have "unfold_out out (Suc n) (OObject i) = plain_tree env (Suc n) (Ref a)"
        if "out ! i = fold (\<lambda>(k, v). push_item k v) vs (OutArray [])"
          "list_all2 (\<lambda>(k, v) (k', x). k = k' \<and> unfold_out out n v = plain_tree env n x) vs (map (Pair ()) xs)" for out vs n i
        using that(1) tree_items [OF that(2)] by (simp add: Items fold_push)
      then show ?thesis
        unfolding Ref using ran ok below
        by (intro tracked_correct [OF ser rank parts_push, of "OutArray []" a "map (Pair ()) xs"])
          (auto simp: visit_def Ref Items child_values_def)
    next
      case (Fields fs)
      have "unfold_out out (Suc n) (OObject i) = plain_tree env (Suc n) (Ref a)"
        if "out ! i = fold (\<lambda>(k, v). assignSerializedProperty k v) vs (OutRecord [])"
          "list_all2 (\<lambda>(k, v) (k', x). k = k' \<and> unfold_out out n v = plain_tree env n x) vs fs" for out vs n i
        using that(1) tree_fields [OF that(2), of "[]"] by (simp add: Fields fold_assign)
      then show ?thesis
        unfolding Ref using ran ok below
        by (intro tracked_correct [OF ser rank parts_assign, of "OutRecord []" a fs])
          (auto simp: visit_def Ref Fields child_values_def)
    qed
  qed (use ran ok in \<open>auto simp: visit_def shows_source_def settled_def\<close>)
qed

lemma serializer_correct: "ranked env rk \<Longrightarrow> correct_for env rk (serializeInternal env n)"
  by (induction n) (simp_all add: correct_for_def [of _ _ "\<lambda>v s. None"] visit_correct)

text \<open>
  C35. On an acyclic graph the reference tracking does not show: the output objects, unfolded to any depth,
  are the tree that plain recursion over the source gives, with the fields of every instance filtered and
  transformed by its metadata, although an object that is referred to from several places is only
  serialized once.
\<close>

theorem serialize_is_plain_recursion:
  assumes "ranked env rk" "serialize env n v = Some (r, s)"
  shows "unfold_out (ss_out s) depth r = plain_tree env depth v"
proof -
  have "graph_ok env empty_references"
    by (rule graph_okI) (simp_all add: empty_references_def)
  moreover have "below_open rk empty_references v"
    by (simp add: below_open_def empty_references_def)
  ultimately have "shows_source env s r v"
    using serializer_correct [OF assms(1), of n] assms(2) unfolding correct_for_def serialize_def by blast
  then show ?thesis
    by (simp add: shows_source_def)
qed

section \<open>A sample graph\<close>

text \<open>An array that holds one user twice; users have an identifier, an excluded password and a derived class bag.\<close>

definition sample_user_bags :: "class_bag list" where
  "sample_user_bags =
     [ExcludeField (Name ''password'') \<lparr>cb_excludeExtraneous = None, cb_fields = []\<rparr>,
      TransformField 0 (Name ''id'') \<lparr>cb_excludeExtraneous = None, cb_fields = []\<rparr>]"

definition sample_user_object :: "nat \<Rightarrow> source_object" where
  "sample_user_object password = ClassInstance (Some 1) [Name ''id'', Name ''password'']
     (\<lambda>k. if k = Name ''id'' then Prim 1 else if k = Name ''password'' then Prim password else Undef)"

definition sample_graph :: "nat \<Rightarrow> nat \<Rightarrow> source_object" where
  "sample_graph password a = (if a = 0 then SourceArray [Ref 1, Ref 1] else if a = 1 then sample_user_object password else OpaqueObject)"

definition sample_ser_env :: ser_env where
  "sample_ser_env = \<lparr>se_heap = sample_graph 5, se_bags = (\<lambda>_. sample_user_bags),
     se_transform = (\<lambda>_ v. case v of Prim p \<Rightarrow> Prim (Suc p) | _ \<Rightarrow> v)\<rparr>"

lemma sample_contents:
  "contents_at sample_ser_env 0 = Items [Ref 1, Ref 1]"
  "contents_at sample_ser_env 1 = Fields [(Name ''id'', Prim 2)]"
  by code_simp+

lemma sample_opaque: "a \<noteq> 0 \<Longrightarrow> a \<noteq> 1 \<Longrightarrow> contents_at sample_ser_env a = Whole"
  by (simp add: contents_at_def sample_ser_env_def sample_graph_def)

lemma sample_children: "Ref b \<in> child_values sample_ser_env a \<Longrightarrow> a = 0 \<and> b = 1"
  using sample_contents sample_opaque [of a] by (cases "a = 0"; cases "a = 1") (auto simp: child_values_def)

lemma sample_closed: "closed_heap sample_ser_env {0, 1}"
  using sample_children by (fastforce simp: closed_heap_def inside_def)

theorem serialize_returns_witness: "\<exists>r s. \<forall>n>2. serialize sample_ser_env n (Ref 0) = Some (r, s)"
  using serialize_returns [OF sample_closed, of "Ref 0"] by (simp add: inside_def numeral_2_eq_2)

theorem hidden_fields_do_not_leak_witness:
  "serialize (sample_ser_env\<lparr>se_heap := sample_graph 6\<rparr>) 3 (Ref 0) = serialize sample_ser_env 3 (Ref 0) \<and> sample_graph 6 1 \<noteq> sample_graph 5 1"
proof -
  have "hidden_key sample_user_bags (Name ''password'')"
    by code_simp
  then have "same_but_hidden sample_ser_env (se_heap sample_ser_env a) (sample_graph 6 a)" for a
    by (simp add: sample_ser_env_def sample_graph_def sample_user_object_def)
  then have "serialize (sample_ser_env\<lparr>se_heap := sample_graph 6\<rparr>) 3 (Ref 0) = serialize sample_ser_env 3 (Ref 0)"
    by (rule hidden_fields_do_not_leak)
  moreover have "sample_graph 6 1 \<noteq> sample_graph 5 1"
    by (auto simp: sample_graph_def sample_user_object_def fun_eq_iff)
  ultimately show ?thesis
    by simp
qed

theorem serialize_is_plain_recursion_witness:
  "\<exists>r s. serialize sample_ser_env 3 (Ref 0) = Some (r, s) \<and>
     unfold_out (ss_out s) 5 r = TArray [TRecord [(Name ''id'', TPrim 2)], TRecord [(Name ''id'', TPrim 2)]]"
proof -
  obtain r s where ran: "serialize sample_ser_env 3 (Ref 0) = Some (r, s)"
    using fuel_suffices [OF sample_closed, of "Ref 0" empty_references 3]
    by (auto simp: serialize_def inside_def empty_references_def)
  have "ranked sample_ser_env (\<lambda>a. if a = 0 then 1 else 0)"
    using sample_children by (fastforce simp: ranked_def)
  from serialize_is_plain_recursion [OF this ran, of 5] show ?thesis
    using ran sample_contents(2) by (simp add: sample_contents(1) eval_nat_numeral js_set_def js_has_def)
qed

end
