(* ===== verification/Spec2Isabelle.thy ===== *)
theory Spec2Isabelle
  imports Container_Properties Module_Graph_Correctness Module_Graph_Cache Throttler_Correctness Rate_Limit Memory_Cache_Correctness Handler_Mapping_Correctness Static_Assets Refresh_Correctness Jwt_Correctness Cors Cookies Error_Response Dispatcher_Correctness Serialization_Correctness
begin

text \<open>
  A verification of the core of the fluo framework, a TypeScript framework of decorated classes: dependency
  injection (\<open>packages/di\<close>, \<open>packages/core\<close>), the module graph of an application (\<open>packages/runtime\<close>), the
  HTTP pipeline (\<open>packages/http\<close>), and the packages that sit on it (\<open>throttler\<close>, \<open>cache-manager\<close>, \<open>jwt\<close>,
  \<open>serialization\<close>).  The properties are the theorems whose text begins with a claim number; each is near the
  component it is about.  This theory imports them all.

  \<^bold>\<open>How the parts interact.\<close>  Decorators store metadata on classes (\<open>Core_Metadata\<close>).  The module graph
  compiler reads it, orders the modules, and checks that every dependency is visible; it normalizes the
  declared providers, which the container then registers and resolves.  From controllers the handler mapping
  builds indexed routes.  A request enters the dispatcher, which matches a route, makes a request scope of the
  container when the route may need one, and runs middleware, guards, interceptors and the controller method.
  Rate limiting, CORS, static assets, throttling, response caching, token verification and serialization are
  middleware, guards, stores and interceptors of that pipeline; they write to the response of an adapter.

  \<^bold>\<open>Shared theories.\<close>
  \<^item> \<open>Fluo_Prelude\<close>: insertion ordered maps with the locale \<open>map_contract\<close>, computations that may throw.
  \<^item> \<open>JS_String\<close>, \<open>JS_Number\<close>, \<open>Uri_Component\<close> (locale \<open>percent_coding\<close>), \<open>Base64_Url\<close>, the calendar of
    \<open>Http_Date\<close>: what the sources use of the language and its runtime.
  \<^item> \<open>Path_Search\<close>: depth-first search that carries its path, the shape of five routines of the code base; it
    gives sufficient fuel and equivalence with reachability.
  \<^item> \<open>Expiring_Entries\<close> (locale \<open>fixed_window\<close>): sweeping maps of expiring entries, fixed-window counters.

  \<^bold>\<open>Dependency injection.\<close>
  \<^item> \<open>Core_Metadata\<close>: \<open>core/src/metadata/class-di.ts\<close> and \<open>framework-service.ts\<close>.
  \<^item> \<open>Provider_Normalization\<close>: \<open>di/src/provider-normalization.ts\<close> over dynamically typed declarations.
  \<^item> \<open>Container_Registry\<close>, \<open>Container_Resolve\<close>, \<open>Container_Analysis\<close>, \<open>Container_Override\<close>,
    \<open>Container_Disposal\<close>: the class \<open>Container\<close> of \<open>di/src/container.ts\<close>, method by method, over a heap of
    containers; \<open>Container_Lifecycle\<close> is the step relation of its public operations with the invariant of all
    reachable heaps.
  \<^item> \<open>Container_Plans\<close> (locale \<open>plan_memo\<close>), \<open>Resolve_Total\<close>, \<open>Resolve_Frame\<close>, \<open>Override_Correctness\<close> (locale
    \<open>cache_field\<close>), \<open>Disposal_Correctness\<close>, \<open>Analysis_Correctness\<close>: cache transparency, termination, framing,
    invalidation, disposal and the scope analysis.  \<open>Container_Properties\<close> states the results.

  \<^bold>\<open>Modules.\<close>  \<open>Module_Graph\<close> is \<open>runtime/src/module-graph.ts\<close> without its cache, \<open>Module_Graph_Correctness\<close>
  the order, circularity and visibility results, \<open>Module_Graph_Cache\<close> the bounded compile cache and its
  refinement of an unbounded one.

  \<^bold>\<open>HTTP.\<close>
  \<^item> \<open>Route_Path\<close>, \<open>Handler_Mapping\<close>: \<open>http/src/route-path.ts\<close> and \<open>mapping.ts\<close>; \<open>Handler_Mapping_Correctness\<close>
    compares the indexes with a linear scan.
  \<^item> \<open>Http_Headers\<close>, \<open>Web_Response\<close> (locale \<open>header_facade\<close>): header helpers and the response of the Web adapter.
  \<^item> \<open>Conditional_Request\<close>, \<open>Byte_Range\<close>, \<open>Content_Negotiation\<close>, \<open>Static_Assets\<close>: the response policies and the
    asset middleware that composes them.
  \<^item> \<open>Success_Response\<close>: \<open>dispatch/dispatch-response-policy.ts\<close>, from the value of a handler to the response, with
    the body serialization of the Web adapter; \<open>Cookies\<close>: \<open>cookie-helpers.ts\<close>, against the cookie parser of a
    browser; \<open>Error_Response\<close>: \<open>dispatch-error-representation.ts\<close>, from a failure to the response; \<open>Cors\<close>: \<open>middleware/cors.ts\<close>, against the check a browser makes.
  \<^item> \<open>Request_Pipeline\<close> (locales \<open>pipeline_invariant\<close>, \<open>observer_invariant\<close>, \<open>routine_invariant\<close>), \<open>Dispatcher\<close>: the
    chains of \<open>http/src/middleware/middleware.ts\<close>, \<open>guards.ts\<close>, \<open>interceptors.ts\<close> and the two execution paths of
    \<open>dispatch/dispatcher.ts\<close>.  User code that calls \<open>next\<close> is a tree, so a chain may call \<open>next\<close> any number of
    times.  \<open>Dispatcher_Correctness\<close> (locales \<open>dispatch_invariant\<close>, \<open>request_invariant\<close>) reads the recorded
    events: request scopes, guards, notifications, and the equivalence of the paths.

  \<^bold>\<open>Packages on the pipeline.\<close>
  \<^item> \<open>Throttler\<close>, \<open>Throttler_Correctness\<close>: \<open>packages/throttler\<close>; \<open>Rate_Limit\<close>: \<open>http/src/middleware/rate-limit.ts\<close>,
    with its awaited steps, so that interleavings can be written down.
  \<^item> \<open>Memory_Cache\<close>, \<open>Memory_Cache_Correctness\<close>: the in-memory store of \<open>packages/cache-manager\<close> and its
    atomic update, as a refinement of a map whose entries expire.
  \<^item> \<open>Jwt\<close>, \<open>Jwt_Correctness\<close>: signing and verification in \<open>jwt/src/signing\<close>; \<open>Refresh_Token\<close>,
    \<open>Refresh_Correctness\<close> (locale \<open>rotating_store\<close>): the refresh service as calls that interleave at each await.
  \<^item> \<open>Serialization\<close>, \<open>Serialization_Correctness\<close>: \<open>packages/serialization\<close> over a heap of objects.

  \<^bold>\<open>Bounds and fuel.\<close>  Recursion that the program does not bound structurally has a depth bound and the result
  \<open>None\<close> when it is used up.  Each such routine has a lemma that a stated bound is enough: \<open>search_fuel\<close>, above the
  number of tokens a path can hold, for the searches and for resolution in the container; the number of
  modules for the module graph; the number of reachable objects for the serializer (\<open>serialize_returns\<close>).  Everything
  else is total.  Numbers are mathematical where the sources stay below \<open>2 ^ 53\<close>; where that matters (byte
  ranges, key lengths, dates) the bound is written out.  Strings are lists of characters below 256.

  \<^bold>\<open>Parameters.\<close>  Application code (constructors, factories, hooks, middleware, guards, interceptors, handlers,
  transforms, asset sources, key providers), cryptography, \<open>JSON\<close> and the clock are arguments of the
  definitions; what a property needs of them is a hypothesis of the theorem.

  \<^bold>\<open>Not modelled.\<close>  How concurrently pending resolutions of one container wait for each other, and the read-only
  inspection views of the container.  In the HTTP package: the pump of managed server-sent
  events, DTO binding and validation, form parsing and uploads, which the dispatcher takes as arguments or does not
  call; the success and error writers are modelled on their own and stay arguments of the dispatcher.  In
  the other packages that are modelled: module wiring, status snapshots, stores over a network (Redis), the
  remote key set.  Packages that are mostly bindings to a transport, a database, a broker or a UI, and the
  command line, test and repository tooling, are not modelled at all; the manifest lists each with the reason.
\<close>

end
